(* ===== verification/SiDaq_Prelude.thy ===== *)
theory SiDaq_Prelude
  imports Main "HOL-Library.Word"
begin

text \<open>
  Shared vocabulary of the development: the machine integers of the 64-bit Windows build, the
  faults a C++ operation can run into, sequencing of fallible operations, and the byte-copy
  primitive with its lemmas.

  Integers. \<open>int\<close> (32 bit) and \<open>UINT\<close> (32 bit) values are HOL integers in the range of their
  type; \<open>i32\<close> and \<open>u32\<close> are the conversions of the platform, applied where the source mixes the
  two types or where a sum can leave the range.  A byte is an \<open>8 word\<close>.

  Faults. An access the C++ language gives no meaning to (through NULL, outside the block, after
  \<open>free\<close>), a failed \<open>assert\<close> and a loop that used up its fuel are values of \<open>fault\<close>;
  an operation returns \<open>fault + result\<close>.
\<close>

type_synonym byte = "8 word"
type_synonym addr = nat   \<comment> \<open>address of a heap cell, 0 is NULL\<close>

section \<open>Theorem collections\<close>

named_theorems cint_simps \<open>conversions between the C integer types\<close>
named_theorems outcome_simps \<open>sequencing of fallible operations\<close>
named_theorems outcome_elims \<open>inversion of successful runs\<close>
named_theorems buffer_simps \<open>reads and writes of byte buffers\<close>

section \<open>C integers\<close>

definition i32 :: "int \<Rightarrow> int" where
  "i32 x = (x + 2 ^ 31) mod 2 ^ 32 - 2 ^ 31"

definition u32 :: "int \<Rightarrow> int" where
  "u32 x = x mod 2 ^ 32"

definition i64 :: "int \<Rightarrow> int" where
  "i64 x = (x + 2 ^ 63) mod 2 ^ 64 - 2 ^ 63"

lemma i64_id [cint_simps]: "- (2 ^ 63) \<le> x \<Longrightarrow> x < 2 ^ 63 \<Longrightarrow> i64 x = x"
  by (simp add: i64_def)

lemma i32_id [cint_simps]: "- (2 ^ 31) \<le> x \<Longrightarrow> x < 2 ^ 31 \<Longrightarrow> i32 x = x"
  by (simp add: i32_def)

lemma u32_id [cint_simps]: "0 \<le> x \<Longrightarrow> x < 2 ^ 32 \<Longrightarrow> u32 x = x"
  by (simp add: u32_def)

lemma i32_range: "- (2 ^ 31) \<le> i32 x \<and> i32 x < 2 ^ 31"
proof -
  have "0 \<le> (x + 2 ^ 31) mod 2 ^ 32" "(x + 2 ^ 31) mod 2 ^ 32 < (2::int) ^ 32"
    by simp_all
  then show ?thesis by (simp add: i32_def)
qed

lemma u32_range: "0 \<le> u32 x \<and> u32 x < 2 ^ 32"
  by (simp add: u32_def)

lemma u32_i32 [cint_simps]: "u32 (i32 x) = u32 x"
  by (simp add: u32_def i32_def mod_diff_left_eq)

lemma u32_neg_big: "x < 0 \<Longrightarrow> - (2 ^ 31) \<le> x \<Longrightarrow> 2 ^ 31 \<le> u32 x"
proof -
  assume "x < 0" "- (2 ^ 31) \<le> x"
  then have "(x + 2 ^ 32) mod 2 ^ 32 = x + 2 ^ 32" by (intro mod_pos_pos_trivial) simp_all
  then have "u32 x = x + 2 ^ 32" by (simp only: u32_def mod_add_self2)
  with \<open>- (2 ^ 31) \<le> x\<close> show ?thesis by simp
qed

text \<open>\<open>SOCKET\<close> is an unsigned 64-bit handle.\<close>

definition INVALID_SOCKET :: int where "INVALID_SOCKET = 2 ^ 64 - 1"

section \<open>Faults and sequencing\<close>

datatype fault = Null_deref | Out_of_bounds | Use_after_free | Assert_failed | No_fuel

type_synonym 'a outcome = "fault + 'a"

definition obind :: "'a outcome \<Rightarrow> ('a \<Rightarrow> 'b outcome) \<Rightarrow> 'b outcome" where
  "obind m f = (case m of Inl e \<Rightarrow> Inl e | Inr x \<Rightarrow> f x)"

lemma obind_Inr [simp, outcome_simps]: "obind (Inr x) f = f x"
  by (simp add: obind_def)

lemma obind_Inl [simp, outcome_simps]: "obind (Inl e) f = Inl e"
  by (simp add: obind_def)

lemma obind_eq_Inr [outcome_simps]: "obind m f = Inr y \<longleftrightarrow> (\<exists>x. m = Inr x \<and> f x = Inr y)"
  by (cases m) simp_all

lemma obind_InrE [outcome_elims, elim!]:
  assumes "obind m f = Inr y"
  obtains x where "m = Inr x" "f x = Inr y"
  using assms by (auto simp: obind_eq_Inr)

lemma obind_assoc: "obind (obind m f) g = obind m (\<lambda>x. obind (f x) g)"
  by (cases m) simp_all

section \<open>Byte buffers\<close>

text \<open>\<open>memcpy(&buf[off], src, length src)\<close> on the bytes of a block, in range.\<close>

definition write_at :: "nat \<Rightarrow> byte list \<Rightarrow> byte list \<Rightarrow> byte list" where
  "write_at off src buf = take off buf @ src @ drop (off + length src) buf"

lemma length_write_at [buffer_simps, simp]:
  "off + length src \<le> length buf \<Longrightarrow> length (write_at off src buf) = length buf"
  by (simp add: write_at_def)

lemma take_write_at [buffer_simps, simp]:
  "off + length src \<le> length buf \<Longrightarrow> take (off + length src) (write_at off src buf) = take off buf @ src"
  by (simp add: write_at_def)

lemma take_write_at_n:
  "off + length src \<le> length buf \<Longrightarrow> n = off + length src \<Longrightarrow>
   take n (write_at off src buf) = take off buf @ src"
  by simp

lemma take_write_at_0 [buffer_simps, simp]:
  "n \<le> length src \<Longrightarrow> length src \<le> length buf \<Longrightarrow> take n (write_at 0 src buf) = take n src"
  by (simp add: write_at_def)

lemma write_at_nth_other:
  "off + length src \<le> length buf \<Longrightarrow> i < off \<or> off + length src \<le> i \<Longrightarrow> i < length buf \<Longrightarrow>
   write_at off src buf ! i = buf ! i"
  by (auto simp: write_at_def nth_append min_def)

lemma write_at_nil [simp]: "write_at off [] buf = buf"
  by (simp add: write_at_def)

text \<open>The block of some bytes, none when there are none.\<close>

definition nonempty :: "byte list \<Rightarrow> byte list list" where
  "nonempty bs = (if bs = [] then [] else [bs])"

lemma nonempty_simps [simp]: "nonempty [] = []" "bs \<noteq> [] \<Longrightarrow> nonempty bs = [bs]" "concat (nonempty bs) = bs"
  "[] \<notin> set (nonempty bs)"
  by (simp_all add: nonempty_def)

lemma take_take_le: "m \<le> n \<Longrightarrow> take m (take n xs) = take m xs"
  by (simp add: min_absorb1)

section \<open>Invariants of step relations\<close>

text \<open>The components with more than one thread, and those that get messages, are step relations.  A property that
  every step keeps holds in every state that is reached from one that has it; what a kept property makes every step
  do to two states, if it is reflexive and transitive, holds between the ends of every run.\<close>

locale preserved =
  fixes step :: "'s \<Rightarrow> 's \<Rightarrow> bool" and kept :: "'s \<Rightarrow> bool"
  assumes keeps: "step s s1 \<Longrightarrow> kept s \<Longrightarrow> kept s1"
begin

lemma run: "step\<^sup>*\<^sup>* s s1 \<Longrightarrow> kept s \<Longrightarrow> kept s1"
  by (induction rule: rtranclp_induct) (auto intro: keeps)

end

locale monitored = preserved step kept for step :: "'s \<Rightarrow> 's \<Rightarrow> bool" and kept :: "'s \<Rightarrow> bool" +
  fixes rel :: "'s \<Rightarrow> 's \<Rightarrow> bool"
  assumes rel_refl: "rel s s"
    and rel_trans: "rel s s1 \<Longrightarrow> rel s1 s2 \<Longrightarrow> rel s s2"
    and rel_step: "step s s1 \<Longrightarrow> kept s \<Longrightarrow> rel s s1"
begin

lemma run_rel: "step\<^sup>*\<^sup>* s s1 \<Longrightarrow> kept s \<Longrightarrow> rel s s1"
proof (induction rule: rtranclp_induct)
  case (step s1 s2)
  have "rel s1 s2" by (rule rel_step [OF step.hyps(2) run [OF step.hyps(1) step.prems]])
  with step.IH [OF step.prems] show ?case by (rule rel_trans)
qed (rule rel_refl)

end

section \<open>Numbers in text\<close>

text \<open>A digit of \<open>"%X"\<close> and \<open>"%d"\<close>.\<close>

definition hex_digit :: "nat \<Rightarrow> char" where
  "hex_digit n = ''0123456789ABCDEF'' ! n"

end
