(* ===== verification/SQueue.thy ===== *)
theory SQueue
  imports SiDaq_Prelude
begin

text \<open>
  The linked-list queue of \<open>SiDaqApi/squeue_c/squeue.h\<close> and \<open>squeue.cpp\<close>: its node and queue
  structs, one definition per function, the representation invariant of the doubly linked list, the
  abstraction to a list of byte blocks, and the interface \<open>byte_queue\<close> on which the framer, the
  socket thread and the manager rely.

  A queue value \<open>sqstore\<close> is the \<open>SQueue\<close> struct together with the heap cells of its nodes.
  \<open>malloc\<close> hands out addresses in increasing order and returns NULL once \<open>quota\<close> blocks are
  in use; \<open>free\<close> gives a block back.  A data block is only ever referenced by one node, so it is
  kept as a value in the node and counted in \<open>quota\<close>.  Each operation is atomic: the code runs it
  under the queue's mutex.  What other threads do to the queue while \<open>SQGet\<close> sleeps, and whether
  the wait for the mutex times out, are arguments.
\<close>

section \<open>Data\<close>

record SQData =
  sd_parent :: addr
  sd_next :: addr
  sd_prev :: addr
  sd_size :: int
  sd_data :: "byte list option"   \<comment> \<open>\<open>_data_ptr\<close>, None is NULL\<close>

record SQueue =
  sq_top :: addr
  sq_last :: addr
  sq_lock :: bool   \<comment> \<open>\<open>_lock\<close> is not NULL\<close>
  sq_count :: int

record sqstore = SQueue +
  que_ptr :: addr
  cells :: "addr \<rightharpoonup> SQData"
  brk :: addr
  quota :: nat

section \<open>Heap access\<close>

definition sq_malloc :: "sqstore \<Rightarrow> addr \<times> sqstore" where
  "sq_malloc s = (if quota s = 0 then (0, s)
     else (brk s, s\<lparr>brk := brk s + 1, quota := quota s - 1\<rparr>))"

definition node_at :: "addr \<Rightarrow> sqstore \<Rightarrow> SQData outcome" where
  "node_at a s = (if a = 0 then Inl Null_deref
     else case cells s a of None \<Rightarrow> Inl Use_after_free | Some d \<Rightarrow> Inr d)"

definition node_upd :: "addr \<Rightarrow> (SQData \<Rightarrow> SQData) \<Rightarrow> sqstore \<Rightarrow> sqstore outcome" where
  "node_upd a f s = obind (node_at a s) (\<lambda>d. Inr (s\<lparr>cells := (cells s)(a \<mapsto> f d)\<rparr>))"

section \<open>Operations\<close>

definition NewSQData :: "byte list \<Rightarrow> int \<Rightarrow> bool \<Rightarrow> sqstore \<Rightarrow> (addr \<times> sqstore) outcome" where
  "NewSQData data_ptr size_in_bytes copy_data s =
     (let (sd, s1) = sq_malloc s in
      if sd = 0 then Inl Null_deref
      else let node = \<lparr>sd_parent = 0, sd_next = 0, sd_prev = 0, sd_size = size_in_bytes, sd_data = None\<rparr> in
      if copy_data then
        (if quota s1 = 0 \<or> size_in_bytes < 0 then Inl Null_deref
         else if int (length data_ptr) < size_in_bytes then Inl Out_of_bounds
         else Inr (sd, s1\<lparr>quota := quota s1 - 1,
           cells := (cells s1)(sd \<mapsto> node\<lparr>sd_data := Some (take (nat size_in_bytes) data_ptr)\<rparr>)\<rparr>))
      else Inr (sd, s1\<lparr>cells := (cells s1)(sd \<mapsto> node\<lparr>sd_data := Some data_ptr\<rparr>)\<rparr>))"

definition SQDataNext :: "sqstore \<Rightarrow> addr \<Rightarrow> addr outcome" where
  "SQDataNext s pPrev =
     (if sq_count s = 0 then Inr 0
      else obind (if pPrev = 0 then Inr (sq_top s)
                  else obind (node_at pPrev s) (\<lambda>d.
                    if sd_parent d \<noteq> que_ptr s then Inl Assert_failed else Inr (sd_next d)))
        (\<lambda>pRet. if pRet = 0 then Inr 0
          else obind (node_at pRet s) (\<lambda>d.
            if sd_parent d \<noteq> que_ptr s then Inl Assert_failed else Inr pRet)))"

definition SQDataPtr :: "sqstore \<Rightarrow> addr \<Rightarrow> (byte list option \<times> int option) outcome" where
  "SQDataPtr s sd = (if sd = 0 then Inr (None, None)
     else obind (node_at sd s) (\<lambda>d. Inr (sd_data d, Some (sd_size d))))"

definition DeleteSQData :: "addr \<Rightarrow> sqstore \<Rightarrow> sqstore outcome" where
  "DeleteSQData sd s = (if sd = 0 then Inr s
     else obind (node_at sd s) (\<lambda>d.
       if sd_data d \<noteq> None \<and> sd_next d = 0 \<and> sd_prev d = 0
       then Inr (s\<lparr>cells := (cells s)(sd := None), quota := quota s + 1\<rparr>)
       else Inr s))"

definition NewSQueue :: "bool \<Rightarrow> nat \<Rightarrow> sqstore outcome" where
  "NewSQueue lock_ok mem = (if mem = 0 then Inl Null_deref
     else Inr \<lparr>sq_top = 0, sq_last = 0, sq_lock = lock_ok, sq_count = 0,
               que_ptr = 1, cells = Map.empty, brk = 2, quota = mem - 1\<rparr>)"

definition sque_put :: "addr \<Rightarrow> sqstore \<Rightarrow> (int \<times> sqstore) outcome" where
  "sque_put sd s =
     (let prevLast = sq_last s; s1 = s\<lparr>sq_last := sd\<rparr> in
      obind (node_upd sd (\<lambda>d. d\<lparr>sd_parent := que_ptr s, sd_prev := prevLast\<rparr>) s1) (\<lambda>s2.
      obind (if prevLast \<noteq> 0 then node_upd prevLast (\<lambda>d. d\<lparr>sd_next := sd\<rparr>) s2 else Inr s2) (\<lambda>s3.
      let s4 = (if sq_top s3 = 0 then s3\<lparr>sq_top := sd\<rparr> else s3);
          s5 = s4\<lparr>sq_count := i32 (sq_count s4 + 1)\<rparr>
      in Inr (sq_count s5, s5))))"

definition sque_get :: "bool \<Rightarrow> int \<Rightarrow> sqstore \<Rightarrow> (addr \<times> sqstore) outcome" where
  "sque_get timed_out wait_msec s =
     (if sq_count s = 0 then Inr (0, s)
      else if 0 \<le> wait_msec \<and> timed_out then Inr (0, s)
      else let pRet = sq_top s in
      if pRet = 0 then Inr (0, s)
      else obind (node_at pRet s) (\<lambda>d.
        if sd_parent d \<noteq> que_ptr s then Inl Assert_failed
        else let s1 = s\<lparr>sq_top := sd_next d\<rparr> in
        obind (if sq_top s1 \<noteq> 0 then node_upd (sq_top s1) (\<lambda>e. e\<lparr>sd_prev := 0\<rparr>) s1 else Inr s1) (\<lambda>s2.
        obind (node_upd pRet (\<lambda>e. e\<lparr>sd_next := 0, sd_prev := 0\<rparr>) s2) (\<lambda>s3.
        let s4 = s3\<lparr>sq_count := i32 (sq_count s3 - 1)\<rparr>;
            s5 = (if sq_count s4 = 0 then s4\<lparr>sq_top := 0, sq_last := 0\<rparr> else s4)
        in obind (node_upd pRet (\<lambda>e. e\<lparr>sd_parent := 0\<rparr>) s5) (\<lambda>s6. Inr (pRet, s6))))))"

definition SQPut :: "byte list \<Rightarrow> int \<Rightarrow> sqstore \<Rightarrow> (int \<times> sqstore) outcome" where
  "SQPut data_ptr data_size s =
     obind (NewSQData data_ptr data_size True s) (\<lambda>(sd, s1).
       if sd \<noteq> 0 then obind (sque_put sd s1) (\<lambda>(_, s2). Inr (sq_count s2, s2))
       else Inr (-1, s1))"

text \<open>The polling loop at the start of \<open>SQGet\<close>; \<open>env k\<close> is what the other threads do to the
  queue during the \<open>SLEEP(1)\<close> with \<open>k\<close> milliseconds left.\<close>

function sq_wait :: "(nat \<Rightarrow> sqstore \<Rightarrow> sqstore) \<Rightarrow> int \<Rightarrow> sqstore \<Rightarrow> int \<times> sqstore" where
  "sq_wait env wait_msec s =
     (if 1 < wait_msec then
        (if 0 < sq_count s then (wait_msec, s)
         else sq_wait env (wait_msec - 1) (env (nat wait_msec) s))
      else (wait_msec, s))"
  by pat_completeness auto
termination
  by (relation "measure (\<lambda>(env, w, s). nat w)") auto

declare sq_wait.simps [simp del]

definition SQGet ::
    "(nat \<Rightarrow> sqstore \<Rightarrow> sqstore) \<Rightarrow> bool \<Rightarrow> int \<Rightarrow> sqstore \<Rightarrow> (byte list option \<times> int \<times> sqstore) outcome" where
  "SQGet env timed_out wait_msec s0 =
     (let (w, s) = sq_wait env wait_msec s0 in
      if 0 < sq_count s then
        obind (sque_get timed_out w s) (\<lambda>(sd, s1).
          if sd \<noteq> 0 then
            obind (node_at sd s1) (\<lambda>d.
            obind (DeleteSQData sd s1) (\<lambda>s2. Inr (sd_data d, sd_size d, s2)))
          else if w < 0 then Inr (None, -2, s1)
          else Inr (None, 0, s1))
      else Inr (None, 0, s))"

text \<open>The draining loop of \<open>DeleteSQueue\<close> and \<open>SiDaqResetQueue\<close>: \<open>SQGet\<close> without waiting
  until it returns NULL, and \<open>free\<close> of every block.\<close>

fun sq_drain :: "nat \<Rightarrow> sqstore \<Rightarrow> sqstore outcome" where
  "sq_drain 0 s = Inl No_fuel"
| "sq_drain (Suc n) s =
     obind (SQGet (\<lambda>_. id) False (-1) s) (\<lambda>(p, sz, s1).
       case p of None \<Rightarrow> Inr s1
       | Some _ \<Rightarrow> sq_drain n (s1\<lparr>quota := quota s1 + 1\<rparr>))"

definition DeleteSQueue :: "sqstore \<Rightarrow> sqstore outcome" where
  "DeleteSQueue s = (if sq_lock s then
       obind (sq_drain (Suc (nat (sq_count s))) s) (\<lambda>s1.
         Inr (s1\<lparr>sq_lock := False, quota := quota s1 + 1\<rparr>))
     else Inr s)"

section \<open>Representation\<close>

text \<open>\<open>seg cs p prv a xs z\<close>: following \<open>_next\<close> from \<open>a\<close> passes the nodes \<open>xs\<close> and
  arrives at \<open>z\<close>; every node belongs to queue \<open>p\<close>, its \<open>_prev\<close> is the node before it (the
  first one's is \<open>prv\<close>), and it holds a block of the size it records.\<close>

definition node_ok :: "addr \<Rightarrow> addr \<Rightarrow> SQData \<Rightarrow> bool" where
  "node_ok p prv d \<longleftrightarrow> sd_parent d = p \<and> sd_prev d = prv \<and>
     (case sd_data d of None \<Rightarrow> False | Some bs \<Rightarrow> int (length bs) = sd_size d)"

fun seg :: "(addr \<rightharpoonup> SQData) \<Rightarrow> addr \<Rightarrow> addr \<Rightarrow> addr \<Rightarrow> addr list \<Rightarrow> addr \<Rightarrow> bool" where
  "seg cs p prv a [] z = (a = z)"
| "seg cs p prv a (x # xs) z = (a = x \<and> x \<noteq> 0 \<and>
     (case cs x of None \<Rightarrow> False | Some d \<Rightarrow> node_ok p prv d \<and> seg cs p x (sd_next d) xs z))"

fun sq_follow :: "nat \<Rightarrow> (addr \<rightharpoonup> SQData) \<Rightarrow> addr \<Rightarrow> addr list" where
  "sq_follow 0 cs a = []"
| "sq_follow (Suc n) cs a = (case cs a of None \<Rightarrow> [] | Some d \<Rightarrow> a # sq_follow n cs (sd_next d))"

definition sq_addrs :: "sqstore \<Rightarrow> addr list" where
  "sq_addrs s = sq_follow (nat (sq_count s)) (cells s) (sq_top s)"

definition block_of :: "SQData option \<Rightarrow> byte list" where
  "block_of d = (case d of None \<Rightarrow> [] | Some nd \<Rightarrow> (case sd_data nd of None \<Rightarrow> [] | Some bs \<Rightarrow> bs))"

text \<open>The abstraction: the blocks in the queue, first one first.\<close>

definition sq_frames :: "sqstore \<Rightarrow> byte list list" where
  "sq_frames s = map (\<lambda>a. block_of (cells s a)) (sq_addrs s)"

definition sq_rep :: "sqstore \<Rightarrow> addr list \<Rightarrow> bool" where
  "sq_rep s xs \<longleftrightarrow> seg (cells s) (que_ptr s) 0 (sq_top s) xs 0 \<and> distinct xs \<and>
     sq_count s = int (length xs) \<and> sq_last s = (if xs = [] then 0 else last xs) \<and>
     dom (cells s) = set xs \<and> (\<forall>x\<in>set xs. x < brk s) \<and> 0 < brk s \<and> que_ptr s \<noteq> 0 \<and>
     sq_lock s \<and> quota s + 2 * length xs < 2 ^ 31"

definition sq_inv :: "sqstore \<Rightarrow> bool" where
  "sq_inv s \<longleftrightarrow> sq_rep s (sq_addrs s)"

text \<open>How many more \<open>SQPut\<close> calls have memory: each takes two blocks.\<close>

definition sq_room :: "sqstore \<Rightarrow> nat" where
  "sq_room s = quota s div 2"

lemma seg_append:
  "seg cs p prv a (xs @ ys) z \<longleftrightarrow>
   (\<exists>m. seg cs p prv a xs m \<and> seg cs p (if xs = [] then prv else last xs) m ys z)"
  by (induction xs arbitrary: prv a) (auto split: option.splits)

lemma seg_upd_other [simp]:
  "x \<notin> set xs \<Longrightarrow> seg (cs(x := v)) p prv a xs z = seg cs p prv a xs z"
  by (induction xs arbitrary: prv a) (auto split: option.splits)

lemma seg_dom: "seg cs p prv a xs z \<Longrightarrow> set xs \<subseteq> dom cs"
  by (induction xs arbitrary: prv a) (auto split: option.splits)

lemma seg_nonzero: "seg cs p prv a xs z \<Longrightarrow> 0 \<notin> set xs"
  by (induction xs arbitrary: prv a) (auto split: option.splits)

lemma seg_hd: "seg cs p prv a xs z \<Longrightarrow> xs \<noteq> [] \<Longrightarrow> a = hd xs"
  by (cases xs) auto

lemma sq_follow_seg: "seg cs p prv a xs z \<Longrightarrow> sq_follow (length xs) cs a = xs"
  by (induction xs arbitrary: prv a) (auto split: option.splits)

lemma sq_rep_addrs: "sq_rep s xs \<Longrightarrow> sq_addrs s = xs"
  by (auto simp: sq_rep_def sq_addrs_def dest: sq_follow_seg)

lemma sq_rep_inv: "sq_rep s xs \<Longrightarrow> sq_inv s"
  by (simp add: sq_inv_def sq_rep_addrs)

lemma sq_rep_frames: "sq_rep s xs \<Longrightarrow> sq_frames s = map (\<lambda>a. block_of (cells s a)) xs"
  by (simp add: sq_frames_def sq_rep_addrs)

lemma sq_inv_count: "sq_inv s \<Longrightarrow> sq_count s = int (length (sq_frames s))"
  by (simp add: sq_inv_def sq_rep_def sq_frames_def)

lemma block_of_next [simp]: "block_of (Some (d\<lparr>sd_next := n\<rparr>)) = block_of (Some d)"
  by (simp add: block_of_def)

lemma block_of_prev [simp]: "block_of (Some (d\<lparr>sd_prev := n\<rparr>)) = block_of (Some d)"
  by (simp add: block_of_def)

lemma node_upd_Inr: "a \<noteq> 0 \<Longrightarrow> cells s a = Some d \<Longrightarrow>
  node_upd a f s = Inr (s\<lparr>cells := (cells s)(a \<mapsto> f d)\<rparr>)"
  by (simp add: node_upd_def node_at_def)

lemma node_ok_next [simp]: "node_ok p q (d\<lparr>sd_next := n\<rparr>) = node_ok p q d"
  by (simp add: node_ok_def split: option.split)

lemma node_ok_prev: "node_ok p q d \<Longrightarrow> node_ok p r (d\<lparr>sd_prev := r\<rparr>)"
  by (simp add: node_ok_def split: option.splits)

lemma node_ok_block: "node_ok p q d \<Longrightarrow> \<exists>bs. sd_data d = Some bs \<and> int (length bs) = sd_size d"
  by (simp add: node_ok_def split: option.splits)

section \<open>Correctness of the operations\<close>

text \<open>Appending a node: the new cell and the old last node change, the path grows by one.\<close>

lemma seg_snoc:
  assumes "seg cs p 0 a xs 0" "distinct xs" "sd \<notin> set xs" "sd \<noteq> 0"
    and "node_ok p (if xs = [] then 0 else last xs) nd" "sd_next nd = 0"
    and "xs \<noteq> [] \<Longrightarrow> cs (last xs) = Some ld"
  shows "seg (if xs = [] then cs(sd \<mapsto> nd) else cs(sd \<mapsto> nd, last xs \<mapsto> ld\<lparr>sd_next := sd\<rparr>))
           p 0 (if xs = [] then sd else a) (xs @ [sd]) 0"
proof (cases xs rule: rev_cases)
  case Nil
  with assms show ?thesis by simp
next
  case (snoc ys l)
  let ?cs = "cs(sd \<mapsto> nd, l \<mapsto> ld\<lparr>sd_next := sd\<rparr>)"
  from assms(1) snoc have y: "seg cs p 0 a ys l" and l: "l \<noteq> 0"
    and lok: "node_ok p (if ys = [] then 0 else last ys) ld"
    using assms(7) by (auto simp: seg_append)
  have "seg ?cs p 0 a ys l"
    using y assms(2,3) snoc by simp
  moreover have "l \<noteq> sd" using assms(3) snoc by auto
  ultimately show ?thesis
    using snoc l lok assms by (auto simp: seg_append)
qed

lemma block_of_last_upd:
  "sd \<noteq> l \<Longrightarrow> cs l = Some ld \<Longrightarrow> x \<noteq> sd \<Longrightarrow>
   block_of ((cs(sd \<mapsto> nd, l \<mapsto> ld\<lparr>sd_next := n\<rparr>)) x) = block_of (cs x)"
  by auto

lemma sque_put_rep:
  assumes rep: "sq_rep s xs" and c: "int (length xs) + 1 < 2 ^ 31"
    and sd: "sd \<noteq> 0" "sd \<notin> set xs" "sd < b" "brk s \<le> b"
    and nd: "nd = \<lparr>sd_parent = 0, sd_next = 0, sd_prev = 0, sd_size = int (length bs), sd_data = Some bs\<rparr>"
    and s1: "s1 = s\<lparr>brk := b, quota := qt, cells := (cells s)(sd \<mapsto> nd)\<rparr>"
    and qt: "qt + 2 * (length xs + 1) < 2 ^ 31"
  shows "\<exists>s2. sque_put sd s1 = Inr (int (length xs) + 1, s2) \<and> sq_rep s2 (xs @ [sd]) \<and>
    sq_count s2 = int (length xs) + 1 \<and>
    map (\<lambda>a. block_of (cells s2 a)) (xs @ [sd]) = map (\<lambda>a. block_of (cells s a)) xs @ [bs] \<and> quota s2 = qt"
proof -
  from rep have seg: "seg (cells s) (que_ptr s) 0 (sq_top s) xs 0" and d: "distinct xs"
    and cnt: "sq_count s = int (length xs)" and la: "sq_last s = (if xs = [] then 0 else last xs)"
    and dom: "dom (cells s) = set xs"
    by (auto simp: sq_rep_def)
  let ?nd = "nd\<lparr>sd_parent := que_ptr s, sd_prev := sq_last s\<rparr>"
  have ok: "node_ok (que_ptr s) (if xs = [] then 0 else last xs) ?nd" and nx: "sd_next ?nd = 0"
    by (simp_all add: node_ok_def nd la)
  have i: "i32 (int (length xs) + 1) = int (length xs) + 1" using c by (simp add: i32_id)
  show ?thesis
  proof (cases "xs = []")
    case True
    with rep seg have "sq_top s = 0" by simp
    with True rep sd seg_snoc [OF seg d sd(2,1) ok nx] qt show ?thesis
      by (auto simp: sque_put_def s1 Let_def node_upd_Inr la cnt i32_id sq_rep_def block_of_def nd dom)
  next
    case False
    with seg_nonzero [OF seg] seg_hd [OF seg]
    have t: "sq_top s \<noteq> 0" "last xs \<noteq> 0" "last xs \<in> set xs"
      by (metis hd_in_set, metis last_in_set, simp)
    then obtain ld where ld: "cells s (last xs) = Some ld" using dom by (auto simp: dom_def)
    have ne: "last xs \<noteq> sd" using t(3) sd(2) by auto
    from seg_snoc [OF seg d sd(2,1) ok nx] False ld
    have "seg ((cells s)(sd \<mapsto> ?nd, last xs \<mapsto> ld\<lparr>sd_next := sd\<rparr>)) (que_ptr s) 0 (sq_top s) (xs @ [sd]) 0"
      by simp
    with False rep sd t ld ne qt show ?thesis
      by (auto simp: sque_put_def s1 Let_def node_upd_Inr la cnt i sq_rep_def nd dom block_of_def)
  qed
qed

lemma SQPut_rep:
  assumes rep: "sq_rep s xs" and room: "0 < sq_room s" and n: "0 \<le> n" "n \<le> int (length data)"
  shows "\<exists>s2. SQPut data n s = Inr (int (length xs) + 1, s2) \<and> sq_rep s2 (xs @ [brk s]) \<and>
    sq_frames s2 = sq_frames s @ [take (nat n) data] \<and> sq_room s2 = sq_room s - 1"
proof -
  let ?bs = "take (nat n) data"
  let ?nd = "\<lparr>sd_parent = 0, sd_next = 0, sd_prev = 0, sd_size = int (length ?bs), sd_data = Some ?bs\<rparr>"
  let ?s1 = "s\<lparr>brk := brk s + 1, quota := quota s - 2, cells := (cells s)(brk s \<mapsto> ?nd)\<rparr>"
  have q: "2 \<le> quota s" using room by (simp add: sq_room_def)
  then have q2: "quota s - Suc 0 \<noteq> 0" "quota s - Suc (Suc 0) + 2 * (length xs + 1) = quota s + 2 * length xs"
    by auto
  have lim: "quota s + 2 * length xs < 2 ^ 31" and fresh: "brk s \<noteq> 0" "brk s \<notin> set xs"
    using rep by (auto simp: sq_rep_def)
  have c: "int (length xs) + 1 < 2 ^ 31" and l: "quota s - 2 + 2 * (length xs + 1) < 2 ^ 31"
    and b: "brk s < brk s + 1" "brk s \<le> brk s + 1"
    using lim q by auto
  have len: "int (length ?bs) = n" using n by simp
  have new: "NewSQData data n True s = Inr (brk s, ?s1)"
    using q n fresh len by (simp add: NewSQData_def sq_malloc_def numeral_2_eq_2 min_def)
  obtain s2 where put: "sque_put (brk s) ?s1 = Inr (int (length xs) + 1, s2)"
    and rep2: "sq_rep s2 (xs @ [brk s])" and cnt: "sq_count s2 = int (length xs) + 1"
    and fr: "map (\<lambda>a. block_of (cells s2 a)) (xs @ [brk s]) = map (\<lambda>a. block_of (cells s a)) xs @ [?bs]"
    and qt: "quota s2 = quota s - 2"
    using sque_put_rep [OF rep c fresh b refl refl l] by blast
  have "sq_room s2 = sq_room s - 1" using qt q by (simp add: sq_room_def)
  then show ?thesis
    using new put rep2 cnt fr fresh by (auto simp: SQPut_def sq_rep_frames [OF rep2] sq_rep_frames [OF rep])
qed

text \<open>Removing the first node.\<close>

lemma seg_tail:
  assumes "seg cs p 0 a (x # xs) 0" "distinct (x # xs)"
  shows "\<exists>d. a = x \<and> x \<noteq> 0 \<and> cs x = Some d \<and> node_ok p 0 d \<and> sd_next d = (if xs = [] then 0 else hd xs) \<and>
     (xs \<noteq> [] \<longrightarrow> hd xs \<noteq> 0 \<and> (\<exists>e. cs (hd xs) = Some e \<and>
        seg (cs(hd xs \<mapsto> e\<lparr>sd_prev := 0\<rparr>)) p 0 (hd xs) xs 0))"
  using assms by (cases xs) (auto split: option.splits intro: node_ok_prev)

lemma sque_get_rep:
  assumes rep: "sq_rep s (x # xs)" and nto: "\<not> (0 \<le> w \<and> timed_out)"
  shows "\<exists>s1 d. sque_get timed_out w s = Inr (x, s1) \<and> x \<noteq> 0 \<and> cells s1 x = Some d \<and>
    sd_next d = 0 \<and> sd_prev d = 0 \<and> sd_data d = Some (block_of (cells s x)) \<and>
    sd_size d = int (length (block_of (cells s x))) \<and> quota s1 = quota s \<and>
    sq_rep (s1\<lparr>cells := (cells s1)(x := None), quota := quota s + 1\<rparr>) xs \<and>
    map (\<lambda>a. block_of (cells s1 a)) xs = map (\<lambda>a. block_of (cells s a)) xs"
proof -
  from rep have seg: "seg (cells s) (que_ptr s) 0 (sq_top s) (x # xs) 0" and d: "distinct (x # xs)"
    and cnt: "sq_count s = int (length xs) + 1" and la: "sq_last s = last (x # xs)"
    and dom: "dom (cells s) = set (x # xs)" and lim: "quota s + 2 * (length xs + 1) < 2 ^ 31"
    by (auto simp: sq_rep_def)
  obtain nd where nd: "sq_top s = x" "x \<noteq> 0" "cells s x = Some nd" "node_ok (que_ptr s) 0 nd"
      "sd_next nd = (if xs = [] then 0 else hd xs)"
    and tl: "xs \<noteq> [] \<longrightarrow> hd xs \<noteq> 0 \<and> (\<exists>e. cells s (hd xs) = Some e \<and>
        seg ((cells s)(hd xs \<mapsto> e\<lparr>sd_prev := 0\<rparr>)) (que_ptr s) 0 (hd xs) xs 0)"
    using seg_tail [OF seg d] by blast
  obtain bs where bs: "sd_data nd = Some bs" "sd_size nd = int (length bs)"
    using node_ok_block [OF nd(4)] by auto
  have par: "sd_parent nd = que_ptr s" using nd(4) by (simp add: node_ok_def)
  have i: "i32 (int (length xs)) = int (length xs)" using lim by (simp add: i32_id)
  show ?thesis
  proof (cases "xs = []")
    case True
    with rep nd bs par cnt nto show ?thesis
      by (auto simp: sque_get_def Let_def node_at_def node_upd_def i32_id block_of_def sq_rep_def)
  next
    case False
    with tl obtain e where e: "hd xs \<noteq> 0" "cells s (hd xs) = Some e"
      and seg2: "seg ((cells s)(hd xs \<mapsto> e\<lparr>sd_prev := 0\<rparr>)) (que_ptr s) 0 (hd xs) xs 0" by blast
    have ne: "hd xs \<noteq> x" "x \<notin> set xs" using d False by (auto simp: hd_in_set)
    from False rep nd bs par cnt nto e ne seg2 i show ?thesis
      by (auto simp: sque_get_def Let_def node_at_def node_upd_def block_of_def sq_rep_def dom)
  qed
qed

lemma sq_wait_nonempty: "0 < sq_count s \<Longrightarrow> sq_wait env w s = (w, s)"
  by (simp add: sq_wait.simps)

lemma sq_wait_short: "w \<le> 1 \<Longrightarrow> sq_wait env w s = (w, s)"
  by (simp add: sq_wait.simps)

lemma sq_wait_inv:
  assumes env: "\<And>k t. P t \<Longrightarrow> P (env k t)" and s: "P s"
  shows "P (snd (sq_wait env w s))"
  using s env
proof (induction env w s rule: sq_wait.induct)
  case (1 env w s)
  show ?case
  proof (cases "1 < w \<and> \<not> 0 < sq_count s")
    case True
    have "P (env (nat w) s)" using "1.prems" by simp
    with True "1.IH" "1.prems" show ?thesis by (subst sq_wait.simps) simp
  qed (use "1.prems" in \<open>auto simp: sq_wait.simps [of env w s]\<close>)
qed

lemma sq_wait_neg: "w < 0 \<Longrightarrow> fst (sq_wait env w s) = w"
  by (simp add: sq_wait_short)

lemma sq_wait_quiet:
  "sq_count s = 0 \<Longrightarrow> sq_wait (\<lambda>_. id) w s = (if 1 < w then 1 else w, s)"
proof (induction "nat w" arbitrary: w rule: less_induct)
  case less
  show ?case
  proof (cases "1 < w")
    case True
    then have "nat (w - 1) < nat w" by simp
    from less.hyps [OF this less.prems]
    have "sq_wait (\<lambda>_. id) (w - 1) s = (if 1 < w - 1 then 1 else w - 1, s)" .
    with True less.prems show ?thesis by (subst sq_wait.simps) auto
  qed (simp add: sq_wait_short)
qed

lemma SQGet_empty:
  "sq_wait env w s = (w1, s1) \<Longrightarrow> sq_count s1 = 0 \<Longrightarrow> SQGet env timed_out w s = Inr (None, 0, s1)"
  by (simp add: SQGet_def)

lemma SQGet_timeout:
  "sq_wait env w s = (w1, s1) \<Longrightarrow> 0 \<le> w1 \<Longrightarrow> SQGet env True w s = Inr (None, 0, s1)"
  by (simp add: SQGet_def sque_get_def)

lemma SQGet_first:
  assumes w: "sq_wait env w s = (w1, s1)" and inv: "sq_inv s1"
    and fr: "sq_frames s1 = f # fs" and nto: "\<not> (0 \<le> w1 \<and> timed_out)"
  shows "\<exists>s2. SQGet env timed_out w s = Inr (Some f, int (length f), s2) \<and> sq_inv s2 \<and>
     sq_frames s2 = fs \<and> quota s2 = quota s1 + 1 \<and> que_ptr s2 = que_ptr s1"
proof -
  obtain x xs where xs: "sq_addrs s1 = x # xs" "f = block_of (cells s1 x)"
      "fs = map (\<lambda>a. block_of (cells s1 a)) xs"
    using fr by (auto simp: sq_frames_def)
  have rep: "sq_rep s1 (x # xs)" using inv xs(1) by (simp add: sq_inv_def)
  obtain s2 d where get: "sque_get timed_out w1 s1 = Inr (x, s2)" and x: "x \<noteq> 0" "cells s2 x = Some d"
    "sd_next d = 0" "sd_prev d = 0" "sd_data d = Some f" "sd_size d = int (length f)" "quota s2 = quota s1"
    and rep2: "sq_rep (s2\<lparr>cells := (cells s2)(x := None), quota := quota s1 + 1\<rparr>) xs"
    and bl: "map (\<lambda>a. block_of (cells s2 a)) xs = fs"
    using sque_get_rep [OF rep nto] xs(2,3) by auto
  have cnt: "0 < sq_count s1" and nx: "x \<notin> set xs" using rep by (auto simp: sq_rep_def)
  let ?s3 = "s2\<lparr>cells := (cells s2)(x := None), quota := quota s1 + 1\<rparr>"
  have "sq_frames ?s3 = fs"
    unfolding sq_rep_frames [OF rep2] bl [symmetric] using nx by auto
  moreover have "SQGet env timed_out w s = Inr (Some f, int (length f), ?s3)"
    using get x cnt w by (simp add: SQGet_def DeleteSQData_def node_at_def)
  moreover have "que_ptr ?s3 = que_ptr s1"
    using get x by (auto simp: sque_get_def Let_def node_upd_def node_at_def obind_eq_Inr
        split: if_splits option.splits)
  ultimately show ?thesis using sq_rep_inv [OF rep2] by auto
qed

section \<open>The queue interface\<close>

text \<open>What the framer relies on: \<open>put\<close> of \<open>n\<close> bytes appends them as one block, as long as there is memory,
  and returns a count.  \<open>frames\<close> are all blocks ever put; the count may be smaller, because a
  consumer takes blocks meanwhile.\<close>

locale byte_sink =
  fixes put :: "byte list \<Rightarrow> int \<Rightarrow> 'q \<Rightarrow> (int \<times> 'q) outcome"
    and frames :: "'q \<Rightarrow> byte list list"
    and qinv :: "'q \<Rightarrow> bool"
    and room :: "'q \<Rightarrow> nat"
  assumes put_sink: "qinv q \<Longrightarrow> 0 < room q \<Longrightarrow> 0 \<le> n \<Longrightarrow> n \<le> int (length d) \<Longrightarrow>
      \<exists>cnt q'. put d n q = Inr (cnt, q') \<and> 0 \<le> cnt \<and> cnt \<le> int (length (frames q)) + 1 \<and> cnt < 2 ^ 31 \<and> qinv q' \<and>
        frames q' = frames q @ [take (nat n) d] \<and> room q - 1 \<le> room q'"

text \<open>Without a consumer the count is the number of blocks.\<close>

locale byte_queue = byte_sink put frames qinv room
  for put :: "byte list \<Rightarrow> int \<Rightarrow> 'q \<Rightarrow> (int \<times> 'q) outcome"
    and frames :: "'q \<Rightarrow> byte list list" and qinv :: "'q \<Rightarrow> bool" and room :: "'q \<Rightarrow> nat" +
  assumes put_law: "qinv q \<Longrightarrow> 0 < room q \<Longrightarrow> 0 \<le> n \<Longrightarrow> n \<le> int (length d) \<Longrightarrow>
      \<exists>q'. put d n q = Inr (int (length (frames q)) + 1, q') \<and> qinv q' \<and>
        frames q' = frames q @ [take (nat n) d] \<and> room q' = room q - 1"
    and frames_bound: "qinv q \<Longrightarrow> length (frames q) < 2 ^ 30"

text \<open>What a consumer relies on: \<open>get\<close> takes the oldest block, or reports that there is none.\<close>

locale fifo_queue = byte_queue put frames qinv room
  for put :: "byte list \<Rightarrow> int \<Rightarrow> 'q \<Rightarrow> (int \<times> 'q) outcome"
    and frames :: "'q \<Rightarrow> byte list list" and qinv :: "'q \<Rightarrow> bool" and room :: "'q \<Rightarrow> nat" +
  fixes get :: "int \<Rightarrow> 'q \<Rightarrow> (byte list option \<times> int \<times> 'q) outcome"
  assumes get_none: "qinv q \<Longrightarrow> frames q = [] \<Longrightarrow> get w q = Inr (None, 0, q)"
    and get_some: "qinv q \<Longrightarrow> frames q = f # fs \<Longrightarrow>
      \<exists>q'. get w q = Inr (Some f, int (length f), q') \<and> qinv q' \<and> frames q' = fs \<and> room q \<le> room q'"

text \<open>A run of puts, and a run of gets that collects the blocks.\<close>

fun put_all :: "(byte list \<Rightarrow> int \<Rightarrow> 'q \<Rightarrow> (int \<times> 'q) outcome) \<Rightarrow> byte list list \<Rightarrow> 'q \<Rightarrow> 'q outcome" where
  "put_all put [] q = Inr q"
| "put_all put (d # ds) q = obind (put d (int (length d)) q) (\<lambda>(_, q'). put_all put ds q')"

fun get_n :: "(int \<Rightarrow> 'q \<Rightarrow> (byte list option \<times> int \<times> 'q) outcome) \<Rightarrow> int \<Rightarrow> nat \<Rightarrow> 'q \<Rightarrow>
    (byte list option list \<times> 'q) outcome" where
  "get_n get w 0 q = Inr ([], q)"
| "get_n get w (Suc n) q = obind (get w q) (\<lambda>(p, _, q').
     obind (get_n get w n q') (\<lambda>(ps, q''). Inr (p # ps, q'')))"

context byte_queue
begin

lemma put_all_law:
  "qinv q \<Longrightarrow> length ds \<le> room q \<Longrightarrow> \<exists>q'. put_all put ds q = Inr q' \<and> qinv q' \<and>
     frames q' = frames q @ ds \<and> room q' = room q - length ds"
proof (induction ds arbitrary: q)
  case Nil
  then show ?case by simp
next
  case (Cons d ds)
  then obtain q1 where "put d (int (length d)) q = Inr (int (length (frames q)) + 1, q1)"
    "qinv q1" "frames q1 = frames q @ [d]" "room q1 = room q - 1"
    using put_law [of q "int (length d)" d] by auto
  with Cons.IH [of q1] Cons.prems show ?case by auto
qed

end

context fifo_queue
begin

lemma get_n_law:
  "qinv q \<Longrightarrow> n \<le> length (frames q) \<Longrightarrow> \<exists>q'. get_n get w n q = Inr (map Some (take n (frames q)), q') \<and>
     qinv q' \<and> frames q' = drop n (frames q)"
proof (induction n arbitrary: q)
  case 0
  then show ?case by simp
next
  case (Suc n)
  then obtain f fs where f: "frames q = f # fs" by (cases "frames q") auto
  then obtain q1 where "get w q = Inr (Some f, int (length f), q1)" "qinv q1" "frames q1 = fs"
    using get_some Suc.prems(1) by blast
  with Suc.IH [of q1] Suc.prems(2) f show ?case by auto
qed

lemma fifo:
  assumes "qinv q" "frames q = []" "length ds \<le> room q"
  shows "\<exists>q1 q2. put_all put ds q = Inr q1 \<and> get_n get w (length ds) q1 = Inr (map Some ds, q2) \<and>
    qinv q2 \<and> frames q2 = []"
proof -
  obtain q1 where q1: "put_all put ds q = Inr q1" "qinv q1" "frames q1 = ds"
    using put_all_law [OF assms(1,3)] assms(2) by auto
  then show ?thesis using get_n_law [of q1 "length ds" w] by auto
qed

end

section \<open>The linked list provides the interface\<close>

lemma SQPut_inv:
  "sq_inv s \<Longrightarrow> 0 < sq_room s \<Longrightarrow> 0 \<le> n \<Longrightarrow> n \<le> int (length data) \<Longrightarrow>
   \<exists>s'. SQPut data n s = Inr (int (length (sq_frames s)) + 1, s') \<and> sq_inv s' \<and>
     sq_frames s' = sq_frames s @ [take (nat n) data] \<and> sq_room s' = sq_room s - 1"
  using SQPut_rep [of s "sq_addrs s" n data] sq_rep_inv
  by (auto simp: sq_inv_def sq_frames_def)

lemma sq_frames_bound: "sq_inv s \<Longrightarrow> length (sq_frames s) < 2 ^ 30"
  by (simp add: sq_inv_def sq_rep_def sq_frames_def)

lemma sq_wait_quiet_inv:
  "sq_inv s \<Longrightarrow> \<exists>w1. sq_wait (\<lambda>_. id) w s = (w1, s)"
  by (cases "sq_frames s") (auto simp: sq_inv_count sq_wait_quiet sq_wait_nonempty)

interpretation sqb: byte_queue SQPut sq_frames sq_inv sq_room
proof unfold_locales
  fix s :: sqstore and n and d :: "byte list"
  assume "sq_inv s" "0 < sq_room s" "0 \<le> n" "n \<le> int (length d)"
  then show "\<exists>cnt s'. SQPut d n s = Inr (cnt, s') \<and> 0 \<le> cnt \<and> cnt \<le> int (length (sq_frames s)) + 1 \<and> cnt < 2 ^ 31 \<and>
      sq_inv s' \<and> sq_frames s' = sq_frames s @ [take (nat n) d] \<and> sq_room s - 1 \<le> sq_room s'"
    using SQPut_inv [of s n d] sq_frames_bound [of s] by fastforce
qed (fact SQPut_inv, fact sq_frames_bound)

interpretation sqf: fifo_queue SQPut sq_frames sq_inv sq_room "SQGet (\<lambda>_. id) False"
proof unfold_locales
  fix q :: sqstore and w
  assume "sq_inv q" "sq_frames q = []"
  then show "SQGet (\<lambda>_. id) False w q = Inr (None, 0, q)"
    by (auto simp: sq_inv_count sq_wait_quiet intro: SQGet_empty)
next
  fix q :: sqstore and w f fs
  assume q: "sq_inv q" "sq_frames q = f # fs"
  then obtain w1 where "sq_wait (\<lambda>_. id) w q = (w1, q)" using sq_wait_quiet_inv by blast
  from SQGet_first [OF this q, of False] show "\<exists>q'. SQGet (\<lambda>_. id) False w q =
      Inr (Some f, int (length f), q') \<and> sq_inv q' \<and> sq_frames q' = fs \<and> sq_room q \<le> sq_room q'"
    by (auto simp: sq_room_def div_le_mono)
qed

lemma NewSQueue_inv:
  "0 < mem \<Longrightarrow> mem < 2 ^ 31 \<Longrightarrow> \<exists>s. NewSQueue True mem = Inr s \<and> sq_inv s \<and> sq_frames s = [] \<and>
     quota s = mem - 1 \<and> sq_count s = 0"
  by (auto simp: NewSQueue_def sq_inv_def sq_rep_def sq_addrs_def sq_frames_def)

lemma sq_inv_quota_free: "sq_inv s \<Longrightarrow> quota s + 2 * length (sq_frames s) < 2 ^ 31"
  by (simp add: sq_inv_def sq_rep_def sq_frames_def)

lemma sq_inv_free_block:
  assumes "sq_inv s" "quota s + 1 + 2 * length (sq_frames s) < 2 ^ 31"
  shows "sq_inv (s\<lparr>quota := quota s + 1\<rparr>)" "sq_frames (s\<lparr>quota := quota s + 1\<rparr>) = sq_frames s"
proof -
  have a: "sq_addrs (s\<lparr>quota := quota s + 1\<rparr>) = sq_addrs s" by (simp add: sq_addrs_def)
  show "sq_inv (s\<lparr>quota := quota s + 1\<rparr>)"
    using assms unfolding sq_inv_def a by (auto simp: sq_rep_def sq_frames_def)
  show "sq_frames (s\<lparr>quota := quota s + 1\<rparr>) = sq_frames s"
    unfolding sq_frames_def a by simp
qed

lemma sq_drain_inv:
  "sq_inv s \<Longrightarrow> length (sq_frames s) < n \<Longrightarrow> \<exists>s'. sq_drain n s = Inr s' \<and> sq_inv s' \<and>
     sq_frames s' = [] \<and> quota s' = quota s + 2 * length (sq_frames s)"
proof (induction n arbitrary: s)
  case 0
  then show ?case by simp
next
  case (Suc n)
  have w: "sq_wait (\<lambda>_. id) (-1) s = (-1, s)" by (simp add: sq_wait_short)
  show ?case
  proof (cases "sq_frames s")
    case Nil
    with Suc.prems w show ?thesis by (simp add: sq_inv_count SQGet_def)
  next
    case (Cons f fs)
    obtain s2 where s2: "SQGet (\<lambda>_. id) False (-1) s = Inr (Some f, int (length f), s2)" "sq_inv s2"
      "sq_frames s2 = fs" "quota s2 = quota s + 1"
      using SQGet_first [OF w Suc.prems(1) Cons] by auto
    let ?s3 = "s2\<lparr>quota := quota s2 + 1\<rparr>"
    have lim: "quota s2 + 1 + 2 * length (sq_frames s2) < 2 ^ 31"
      using sq_inv_quota_free [OF Suc.prems(1)] Cons s2 by simp
    have i3: "sq_inv ?s3" and f3: "sq_frames ?s3 = fs"
      using sq_inv_free_block [OF s2(2) lim] s2(3) by simp_all
    from Suc.IH [OF i3] f3 Suc.prems(2) Cons obtain s' where "sq_drain n ?s3 = Inr s'" "sq_inv s'"
      "sq_frames s' = []" "quota s' = quota ?s3 + 2 * length fs" by auto
    then show ?thesis using s2 Cons by simp
  qed
qed

lemma sq_inv_empty_cells: "sq_inv s \<Longrightarrow> sq_frames s = [] \<Longrightarrow> cells s = Map.empty"
  by (simp add: sq_inv_def sq_rep_def sq_frames_def)

lemma SQPut_quota:
  "0 < sq_room s \<Longrightarrow> SQPut data n s = Inr (c, s1) \<Longrightarrow> quota s1 + 2 = quota s"
  by (auto simp: SQPut_def NewSQData_def sque_put_def sq_malloc_def Let_def node_upd_def
      node_at_def obind_eq_Inr sq_room_def split: if_splits option.splits)

lemma put_all_quota:
  "sq_inv s \<Longrightarrow> length ds \<le> sq_room s \<Longrightarrow> put_all SQPut ds s = Inr s' \<Longrightarrow>
   quota s' + 2 * length ds = quota s"
proof (induction ds arbitrary: s)
  case Nil
  then show ?case by simp
next
  case (Cons d ds)
  from Cons.prems have room: "0 < sq_room s" by auto
  from SQPut_inv [OF Cons.prems(1) room, of "int (length d)" d]
  obtain s1 where s1: "SQPut d (int (length d)) s = Inr (int (length (sq_frames s)) + 1, s1)" "sq_inv s1"
    "sq_room s1 = sq_room s - 1" by auto
  have "quota s1 + 2 = quota s" using SQPut_quota [OF room s1(1)] .
  with Cons.IH [OF s1(2)] s1 Cons.prems show ?case by simp
qed

text \<open>Walking the queue with \<open>SQDataNext\<close>.\<close>

lemma seg_nth:
  "seg cs p prv a xs z \<Longrightarrow> i < length xs \<Longrightarrow> \<exists>d. cs (xs ! i) = Some d \<and> sd_parent d = p \<and> xs ! i \<noteq> 0 \<and>
     sd_next d = (if Suc i < length xs then xs ! Suc i else z) \<and>
     (\<exists>bs. sd_data d = Some bs \<and> int (length bs) = sd_size d)"
proof (induction xs arbitrary: prv a i)
  case Nil
  then show ?case by simp
next
  case (Cons x xs)
  then obtain d where d: "cs x = Some d" "x \<noteq> 0" "node_ok p prv d" "seg cs p x (sd_next d) xs z"
    by (auto split: option.splits)
  show ?case
  proof (cases i)
    case 0
    with d node_ok_block [OF d(3)] show ?thesis by (cases xs) (auto simp: node_ok_def)
  next
    case (Suc j)
    with Cons.IH [OF d(4), of j] Cons.prems(2) show ?thesis by (auto split: if_splits)
  qed
qed

text \<open>The \<open>n\<close>-th node reached by calling \<open>SQDataNext\<close> repeatedly, starting with NULL.\<close>

fun sq_walk :: "sqstore \<Rightarrow> nat \<Rightarrow> addr outcome" where
  "sq_walk s 0 = SQDataNext s 0"
| "sq_walk s (Suc n) = obind (sq_walk s n) (SQDataNext s)"

lemma sq_walk_addrs:
  assumes "sq_rep s xs" "i < length xs"
  shows "sq_walk s i = Inr (xs ! i)"
  using assms(2)
proof (induction i)
  case 0
  have seg: "seg (cells s) (que_ptr s) 0 (sq_top s) xs 0" and c: "sq_count s \<noteq> 0"
    using assms(1) 0 by (auto simp: sq_rep_def)
  from seg_nth [OF seg 0] seg_hd [OF seg] 0 c show ?case
    by (auto simp: SQDataNext_def node_at_def hd_conv_nth)
next
  case (Suc i)
  have seg: "seg (cells s) (que_ptr s) 0 (sq_top s) xs 0" and c: "sq_count s \<noteq> 0"
    using assms(1) Suc.prems by (auto simp: sq_rep_def)
  from seg_nth [OF seg, of i] seg_nth [OF seg Suc.prems] Suc c show ?case
    by (auto simp: SQDataNext_def node_at_def)
qed

lemma sq_ptr_addrs:
  assumes "sq_rep s xs" "i < length xs"
  shows "\<exists>bs. SQDataPtr s (xs ! i) = Inr (Some bs, Some (int (length bs))) \<and> sq_frames s ! i = bs"
proof -
  have seg: "seg (cells s) (que_ptr s) 0 (sq_top s) xs 0" using assms(1) by (simp add: sq_rep_def)
  with assms seg_nth [OF seg assms(2)] show ?thesis
    by (auto simp: SQDataPtr_def node_at_def sq_rep_frames block_of_def)
qed

section \<open>Properties\<close>

text \<open>\<open>SQPut\<close> appends the first \<open>data_size\<close> bytes as a new last block, keeps the doubly
  linked list well formed, and returns the new number of blocks.\<close>

theorem sq_put_appends:
  assumes "sq_inv s" "0 < sq_room s" "0 \<le> n" "n \<le> int (length data)"
  shows "\<exists>s'. SQPut data n s = Inr (int (length (sq_frames s)) + 1, s') \<and> sq_inv s' \<and>
    sq_frames s' = sq_frames s @ [take (nat n) data] \<and> sq_room s' = sq_room s - 1"
  using assms by (rule SQPut_inv)

theorem sq_put_appends_witness:
  "\<exists>s s'. NewSQueue True 10 = Inr s \<and> SQPut [1, 2, 3] 2 s = Inr (1, s') \<and> sq_frames s' = [[1, 2]]"
proof -
  obtain s where s: "NewSQueue True 10 = Inr s" "sq_inv s" "sq_frames s = []" "quota s = 9"
    using NewSQueue_inv [of 10] by auto
  then have "0 < sq_room s" by (simp add: sq_room_def)
  from sq_put_appends [OF s(2) this, of 2 "[1, 2, 3]"] s show ?thesis by auto
qed

text \<open>C24: \<open>SQGet\<close> returns the oldest block of the queue as it is when the polling loop ends,
  whatever well-behaved producers did meanwhile, and removes exactly that block; it returns NULL with
  size 0 when the queue is still empty or the mutex wait timed out.\<close>

theorem sq_get_oldest:
  assumes "sq_inv s" and "\<And>k t. sq_inv t \<Longrightarrow> sq_inv (env k t)"
    and "sq_wait env w s = (w1, s1)"
  shows "if sq_frames s1 = [] \<or> (0 \<le> w1 \<and> timed_out)
    then SQGet env timed_out w s = Inr (None, 0, s1)
    else \<exists>s2. SQGet env timed_out w s = Inr (Some (hd (sq_frames s1)), int (length (hd (sq_frames s1))), s2) \<and>
           sq_inv s2 \<and> sq_frames s2 = tl (sq_frames s1)"
proof -
  have inv: "sq_inv s1" using sq_wait_inv [of sq_inv env s w] assms by simp
  show ?thesis
  proof (cases "sq_frames s1")
    case Nil
    with inv assms(3) show ?thesis by (simp add: sq_inv_count SQGet_empty)
  next
    case (Cons f fs)
    show ?thesis
    proof (cases "0 \<le> w1 \<and> timed_out")
      case True
      with assms(3) show ?thesis by (simp add: SQGet_timeout)
    next
      case False
      with SQGet_first [OF assms(3) inv Cons False] Cons show ?thesis by auto
    qed
  qed
qed

theorem sq_get_oldest_witness:
  "\<exists>s s1 s2. NewSQueue True 10 = Inr s \<and> SQPut [7] 1 s = Inr (1, s1) \<and>
     SQGet (\<lambda>_. id) False 5 s1 = Inr (Some [7], 1, s2) \<and> sq_frames s2 = []"
proof -
  obtain s where s: "NewSQueue True 10 = Inr s" "sq_inv s" "sq_frames s = []" "quota s = 9"
    using NewSQueue_inv [of 10] by auto
  then have "0 < sq_room s" by (simp add: sq_room_def)
  from SQPut_inv [OF s(2) this, of 1 "[7]"] s
  obtain s1 where s1: "SQPut [7] 1 s = Inr (1, s1)" "sq_inv s1" "sq_frames s1 = [[7]]" by auto
  have "sq_wait (\<lambda>_. id) 5 s1 = (5, s1)" using s1 by (simp add: sq_inv_count sq_wait_nonempty)
  from sq_get_oldest [OF s1(2) _ this, of False] s s1 show ?thesis by auto
qed

text \<open>First in, first out: the blocks put into an empty queue come back from as many
  \<open>SQGet\<close> calls unchanged and in order, and leave the queue empty.\<close>

theorem sq_fifo:
  assumes "sq_inv s" "sq_frames s = []" "length ds \<le> sq_room s"
  shows "\<exists>s1 s2. put_all SQPut ds s = Inr s1 \<and>
    get_n (SQGet (\<lambda>_. id) False) w (length ds) s1 = Inr (map Some ds, s2) \<and> sq_inv s2 \<and> sq_frames s2 = []"
  using assms by (rule sqf.fifo)

theorem sq_fifo_witness:
  "\<exists>s s1 s2. NewSQueue True 10 = Inr s \<and> put_all SQPut [[1], [2, 3]] s = Inr s1 \<and>
     get_n (SQGet (\<lambda>_. id) False) 10 (length [[1], [2, 3 :: byte]]) s1 = Inr (map Some [[1], [2, 3]], s2)"
proof -
  obtain s where s: "NewSQueue True 10 = Inr s" "sq_inv s" "sq_frames s = []" "quota s = 9"
    using NewSQueue_inv [of 10] by auto
  have room: "length [[1], [2, 3 :: byte]] \<le> sq_room s" using s by (simp add: sq_room_def)
  from sq_fifo [OF s(2,3) room, of 10] s(1) show ?thesis by blast
qed

text \<open>\<open>DeleteSQueue\<close> releases everything: after any blocks were put into a new queue, it
  ends with no node left and every heap block given back.\<close>

theorem sq_delete_releases_all:
  assumes "0 < mem" "mem < 2 ^ 31" "2 * length ds < mem"
  shows "\<exists>s s1 s2. NewSQueue True mem = Inr s \<and> put_all SQPut ds s = Inr s1 \<and> sq_frames s1 = ds \<and>
    DeleteSQueue s1 = Inr s2 \<and> cells s2 = Map.empty \<and> quota s2 = mem \<and> \<not> sq_lock s2"
proof -
  obtain s where s: "NewSQueue True mem = Inr s" "sq_inv s" "sq_frames s = []" "quota s = mem - 1"
    using NewSQueue_inv assms(1,2) by blast
  have room: "length ds \<le> sq_room s" using assms(3) s by (simp add: sq_room_def)
  from sqb.put_all_law [OF s(2) this] s obtain s1 where
    s1: "put_all SQPut ds s = Inr s1" "sq_inv s1" "sq_frames s1 = ds" by auto
  have q1: "quota s1 + 2 * length ds = mem - 1" using put_all_quota [OF s(2) room s1(1)] s by simp
  have lk: "sq_lock s1" "sq_count s1 = int (length ds)"
    using s1 by (simp_all add: sq_inv_count) (simp add: sq_inv_def sq_rep_def)
  from sq_drain_inv [OF s1(2), of "Suc (length ds)"] s1
  obtain s2 where "sq_drain (Suc (length ds)) s1 = Inr s2" "sq_inv s2" "sq_frames s2 = []"
    "quota s2 = quota s1 + 2 * length ds" by auto
  then show ?thesis using s s1 lk q1 assms(1)
    by (auto simp: DeleteSQueue_def sq_inv_empty_cells)
qed

theorem sq_delete_releases_all_witness:
  "\<exists>s s1 s2. NewSQueue True 9 = Inr s \<and> put_all SQPut [[1], [2]] s = Inr s1 \<and>
     DeleteSQueue s1 = Inr s2 \<and> quota s2 = 9"
  using sq_delete_releases_all [of 9 "[[1], [2]]"] by auto

text \<open>Repeated \<open>SQDataNext\<close> visits the blocks in queue order without taking them:
  the \<open>i\<close>-th node reached yields the \<open>i\<close>-th block and its size through \<open>SQDataPtr\<close>.\<close>

theorem sq_next_visits_all:
  assumes "sq_inv s" "i < length (sq_frames s)"
  shows "\<exists>a. sq_walk s i = Inr a \<and>
    SQDataPtr s a = Inr (Some (sq_frames s ! i), Some (int (length (sq_frames s ! i))))"
proof -
  have rep: "sq_rep s (sq_addrs s)" and i: "i < length (sq_addrs s)"
    using assms by (simp_all add: sq_inv_def sq_frames_def)
  from sq_walk_addrs [OF rep i] sq_ptr_addrs [OF rep i] show ?thesis by auto
qed

theorem sq_next_visits_all_witness:
  "\<exists>s s1 a. NewSQueue True 10 = Inr s \<and> put_all SQPut [[1], [2, 3]] s = Inr s1 \<and>
     sq_walk s1 1 = Inr a \<and> SQDataPtr s1 a = Inr (Some [2, 3], Some 2)"
proof -
  obtain s where s: "NewSQueue True 10 = Inr s" "sq_inv s" "sq_frames s = []" "quota s = 9"
    using NewSQueue_inv [of 10] by auto
  have room: "length [[1], [2, 3 :: byte]] \<le> sq_room s" using s by (simp add: sq_room_def)
  from sqb.put_all_law [OF s(2) room] s obtain s1 where
    s1: "put_all SQPut [[1], [2, 3]] s = Inr s1" "sq_inv s1" "sq_frames s1 = [[1], [2, 3]]" by auto
  from sq_next_visits_all [OF s1(2), of 1] s1 s show ?thesis by auto
qed

text \<open>When \<open>malloc\<close> fails, \<open>SQPut\<close> writes through the NULL pointer; the negative return
  value its callers test for never occurs.\<close>

theorem sq_put_no_memory:
  "(quota s < 2 \<longrightarrow> SQPut data n s = Inl Null_deref) \<and>
   (sq_inv s \<and> 0 < sq_room s \<and> SQPut data n s = Inr (r, s') \<longrightarrow> 0 < r)"
proof (intro conjI impI)
  assume "quota s < 2"
  then show "SQPut data n s = Inl Null_deref"
    by (auto simp: SQPut_def NewSQData_def sq_malloc_def less_2_cases_iff obind_def)
next
  assume a: "sq_inv s \<and> 0 < sq_room s \<and> SQPut data n s = Inr (r, s')"
  then have "0 \<le> n" "n \<le> int (length data)"
    by (auto simp: SQPut_def NewSQData_def sq_malloc_def Let_def obind_eq_Inr not_less split: if_splits)
  with a SQPut_inv [of s n data] show "0 < r" by auto
qed

theorem sq_put_no_memory_witness:
  "\<exists>s. NewSQueue True 2 = Inr s \<and> SQPut [5] 1 s = Inl Null_deref"
proof -
  obtain s where s: "NewSQueue True 2 = Inr s" "quota s = 1"
    using NewSQueue_inv [of 2] by auto
  with sq_put_no_memory [of s "[5]" 1 0 s] show ?thesis by simp
qed

end
