(* ===== verification/Framer.thy ===== *)
theory Framer
  imports SQueue
begin

text \<open>
  The framer of \<open>SiDaqApi/sidaq_framer.h\<close> and \<open>sidaq_framer.cpp\<close>: it cuts the received chunks
  into event frames, keeps an unfinished frame in its buffer until the next chunk, and puts the
  finished ones on the event queue.

  The definitions take the queue's \<open>SQPut\<close> as an argument and are used with the linked list of
  theory \<open>SQueue\<close>; the lemmas are proved from the laws of \<open>byte_queue\<close>.  A pointer into a block
  is the list of the bytes from there to the end of the block, so moving the pointer is \<open>drop\<close>, and
  the byte just behind the block, which the code reads in one place, is the argument \<open>past\<close>: \<open>None\<close> when
  that memory cannot be read.
\<close>

section \<open>Data\<close>

datatype FramerErrorCode = FRAMER_NO_ERROR | FRAMER_INVALID_PARAMETER
  | FRAMER_MEMORY_ALLOCATED_FAILED | FRAMER_EXCEED_FRAME_QUEUE_COUNT
  | FRAMER_GET_FRAME_LENGTH_FAILED | FRAMER_EXCEED_MAX_FRAME_LENGTH | FRAMER_BUF_SIZE_ERROR

fun framer_code :: "FramerErrorCode \<Rightarrow> int" where
  "framer_code FRAMER_NO_ERROR = 0"
| "framer_code FRAMER_INVALID_PARAMETER = 1"
| "framer_code FRAMER_MEMORY_ALLOCATED_FAILED = 2"
| "framer_code FRAMER_EXCEED_FRAME_QUEUE_COUNT = 3"
| "framer_code FRAMER_GET_FRAME_LENGTH_FAILED = 4"
| "framer_code FRAMER_EXCEED_MAX_FRAME_LENGTH = 5"
| "framer_code FRAMER_BUF_SIZE_ERROR = 6"

definition DEFAULT_MAX_FRAME_LEN :: int where "DEFAULT_MAX_FRAME_LEN = 262144"

text \<open>The application's length function: received bytes, their number, header length.\<close>

type_synonym length_func = "byte list \<Rightarrow> int \<Rightarrow> int \<Rightarrow> int"

record SiDaqFramer =
  fr_rest :: int
  fr_buff_size :: int
  fr_buff_ptr :: "byte list option"   \<comment> \<open>the bytes of the buffer, None is NULL\<close>
  fr_lengthFunc :: "length_func option"
  fr_header_len :: int
  fr_error_flg :: int
  fr_error_code :: int
  fr_queue_limit :: int
  fr_max_frame_len :: int
  fr_fixed_frame_len :: int

section \<open>Operations\<close>

definition NewSiDaqFramer :: "bool \<Rightarrow> bool \<Rightarrow> SiDaqFramer option" where
  "NewSiDaqFramer framer_alloc buff_alloc =
     (if framer_alloc then
        Some \<lparr>fr_rest = 0, fr_buff_size = DEFAULT_MAX_FRAME_LEN,
          fr_buff_ptr = (if buff_alloc then Some (replicate (nat DEFAULT_MAX_FRAME_LEN) 0) else None),
          fr_lengthFunc = None, fr_header_len = 0, fr_error_flg = 0, fr_error_code = 0,
          fr_queue_limit = 0, fr_max_frame_len = 0, fr_fixed_frame_len = 0\<rparr>
      else None)"

text \<open>\<open>DellSiDaqFramer\<close> as the number of blocks it frees.\<close>

definition DellSiDaqFramer :: "SiDaqFramer option \<Rightarrow> nat" where
  "DellSiDaqFramer pDelFramer = (case pDelFramer of None \<Rightarrow> 0
     | Some fr \<Rightarrow> (if fr_buff_ptr fr \<noteq> None then 2 else 0))"

text \<open>What \<open>SiDaqRun\<close> writes into the framer before it starts the framer thread; the unfinished
  bytes \<open>_rest\<close> of an earlier run are not touched.\<close>

definition configure_framer :: "length_func option \<Rightarrow> int \<Rightarrow> int \<Rightarrow> int \<Rightarrow> int \<Rightarrow> SiDaqFramer \<Rightarrow> SiDaqFramer" where
  "configure_framer lengthFunc header_len fixed_frame_len frame_queue_limit max_frame_len fr =
     fr\<lparr>fr_header_len := i32 header_len, fr_queue_limit := frame_queue_limit,
        fr_max_frame_len := max_frame_len, fr_lengthFunc := lengthFunc,
        fr_fixed_frame_len := fixed_frame_len, fr_error_flg := 0,
        fr_error_code := framer_code FRAMER_NO_ERROR\<rparr>"

text \<open>\<open>memcpy\<close> into the framer's buffer.\<close>

definition buff_write :: "nat \<Rightarrow> byte list \<Rightarrow> SiDaqFramer \<Rightarrow> SiDaqFramer outcome" where
  "buff_write off src fr = (case fr_buff_ptr fr of None \<Rightarrow> Inl Null_deref
     | Some b \<Rightarrow> if off + length src \<le> length b
         then Inr (fr\<lparr>fr_buff_ptr := Some (write_at off src b)\<rparr>) else Inl Out_of_bounds)"

definition buff_bytes :: "SiDaqFramer \<Rightarrow> byte list" where
  "buff_bytes fr = (case fr_buff_ptr fr of None \<Rightarrow> [] | Some b \<Rightarrow> b)"

definition set_error :: "FramerErrorCode \<Rightarrow> SiDaqFramer \<Rightarrow> SiDaqFramer" where
  "set_error e fr = fr\<lparr>fr_error_code := framer_code e\<rparr>"

text \<open>The code's "put null framer": record the error and stop cutting from here on.\<close>

definition null_framer :: "FramerErrorCode \<Rightarrow> SiDaqFramer \<Rightarrow> SiDaqFramer" where
  "null_framer e fr = (set_error e fr)\<lparr>fr_lengthFunc := None, fr_header_len := 0, fr_fixed_frame_len := 0\<rparr>"

text \<open>The choice of \<open>event_len\<close>, the same in both halves of \<open>RecvSiDaqData\<close>: \<open>bytes\<close> are the
  \<open>len\<close> bytes at the start of the frame.\<close>

definition event_length :: "SiDaqFramer \<Rightarrow> byte list \<Rightarrow> int \<Rightarrow> int" where
  "event_length fr bytes len =
     (case fr_lengthFunc fr of
        Some f \<Rightarrow> if fr_header_len fr \<noteq> 0 then i32 (f bytes (u32 len) (u32 (fr_header_len fr)))
                  else if fr_fixed_frame_len fr \<noteq> 0 then i32 (fr_fixed_frame_len fr)
                  else len
      | None \<Rightarrow> if fr_fixed_frame_len fr \<noteq> 0 then i32 (fr_fixed_frame_len fr) else len)"

text \<open>The two checks on \<open>event_len\<close>, the same in both halves.\<close>

definition check_length :: "SiDaqFramer \<Rightarrow> int \<Rightarrow> int \<Rightarrow> SiDaqFramer \<times> int" where
  "check_length fr event_len len =
     (let (fr1, ev) = (if event_len < 0 then (null_framer FRAMER_GET_FRAME_LENGTH_FAILED fr, len)
                       else (fr, event_len))
      in if fr_max_frame_len fr1 < u32 (ev + fr_header_len fr1)
         then (null_framer FRAMER_EXCEED_MAX_FRAME_LENGTH fr1, len)
         else (fr1, ev))"

definition limit_hit :: "SiDaqFramer \<Rightarrow> int \<Rightarrow> bool" where
  "limit_hit fr event_queue_count \<longleftrightarrow> fr_queue_limit fr \<noteq> 0 \<and> fr_queue_limit fr \<le> u32 event_queue_count"

text \<open>First half: complete the frame left in the buffer.  \<open>Inl\<close> is a return from
  \<open>RecvSiDaqData\<close>, \<open>Inr (frame_count, read_ptr, data_len, framer, queue)\<close> goes on to the loop.\<close>

definition recv_rest :: "(byte list \<Rightarrow> int \<Rightarrow> 'q \<Rightarrow> (int \<times> 'q) outcome) \<Rightarrow> SiDaqFramer \<Rightarrow> byte list \<Rightarrow> int \<Rightarrow> 'q \<Rightarrow>
    ((int \<times> SiDaqFramer \<times> 'q) + (int \<times> byte list option \<times> int \<times> SiDaqFramer \<times> 'q)) outcome" where
  "recv_rest sqput fr data data_len q =
     (let room = fr_buff_size fr - fr_rest fr in
      if room < 0 then Inr (Inl (-1, set_error FRAMER_BUF_SIZE_ERROR fr, q))
      else let ncopy = (if data_len < room then data_len else room) in
      if int (length data) < ncopy then Inl Out_of_bounds
      else obind (buff_write (nat (fr_rest fr)) (take (nat ncopy) data) fr) (\<lambda>fr1.
        let copy_len = fr_rest fr1 + ncopy;
            event_len = event_length fr1 (take (nat copy_len) (buff_bytes fr1)) copy_len;
            (fr2, ev) = check_length fr1 event_len copy_len;
            n = i32 (ev + fr_header_len fr2)
        in if n \<le> copy_len then
             obind (sqput (buff_bytes fr2) n q) (\<lambda>(event_queue_count, q1).
               if event_queue_count < 0 then Inr (Inl (-1, set_error FRAMER_MEMORY_ALLOCATED_FAILED fr2, q1))
               else let fr3 = (if limit_hit fr2 event_queue_count
                               then set_error FRAMER_EXCEED_FRAME_QUEUE_COUNT fr2 else fr2);
                        k = i32 (n - fr_rest fr3)
                 in if k < data_len then
                      (if k < 0 then Inl Out_of_bounds
                       else Inr (Inr (1, Some (drop (nat k) data), i32 (data_len - k), fr3\<lparr>fr_rest := 0\<rparr>, q1)))
                    else Inr (Inr (1, None, 0, fr3\<lparr>fr_rest := 0\<rparr>, q1)))
           else Inr (Inr (0, None, 0, fr2\<lparr>fr_rest := copy_len\<rparr>, q))))"

text \<open>The read of \<open>read_ptr[0]\<close>.  When the chunk has been used up, \<open>read_ptr\<close> points behind it.\<close>

definition first_byte :: "byte option \<Rightarrow> byte list \<Rightarrow> byte outcome" where
  "first_byte past read_ptr = (case read_ptr of b # _ \<Rightarrow> Inr b
     | [] \<Rightarrow> (case past of Some b \<Rightarrow> Inr b | None \<Rightarrow> Inl Out_of_bounds))"

lemma first_byte_simps [simp]:
  "first_byte past (b # bs) = Inr b" "first_byte (Some b) [] = Inr b" "first_byte None [] = Inl Out_of_bounds"
  by (simp_all add: first_byte_def)

lemma first_byte_Some: "first_byte (Some p) bs = Inr (case bs of [] \<Rightarrow> p | b # _ \<Rightarrow> b)"
  by (cases bs) simp_all

text \<open>Second half: the loop over the remaining bytes of the chunk.\<close>

fun recv_loop :: "nat \<Rightarrow> (byte list \<Rightarrow> int \<Rightarrow> 'q \<Rightarrow> (int \<times> 'q) outcome) \<Rightarrow> byte option \<Rightarrow>
    byte list option \<Rightarrow> int \<Rightarrow> int \<Rightarrow> SiDaqFramer \<Rightarrow> 'q \<Rightarrow> (int \<times> SiDaqFramer \<times> 'q) outcome" where
  "recv_loop fuel sqput past None data_len frame_count fr q = Inr (frame_count, fr, q)"
| "recv_loop 0 sqput past (Some rd) data_len frame_count fr q = Inl No_fuel"
| "recv_loop (Suc fuel) sqput past (Some rd) data_len frame_count fr q =
     (if data_len = 0 \<or> data_len < fr_header_len fr then
        obind (first_byte past rd) (\<lambda>b. obind (buff_write 0 [b] (fr\<lparr>fr_rest := data_len\<rparr>))
          (\<lambda>fr1. Inr (frame_count, fr1, q)))
      else
        let event_len = event_length fr (take (nat data_len) rd) data_len;
            (fr2, ev) = check_length fr event_len data_len;
            n = i32 (ev + fr_header_len fr2)
        in if n \<le> data_len then
             obind (sqput rd n q) (\<lambda>(event_queue_count, q1).
               if event_queue_count < 0 then Inr (-1, set_error FRAMER_MEMORY_ALLOCATED_FAILED fr2, q1)
               else if limit_hit fr2 event_queue_count
                 then Inr (-1, set_error FRAMER_EXCEED_FRAME_QUEUE_COUNT fr2, q1)
               else recv_loop fuel sqput past (Some (drop (nat n) rd)) (data_len - n) (frame_count + 1) fr2 q1)
           else if int (length rd) < data_len then Inl Out_of_bounds
           else obind (buff_write 0 (take (nat data_len) rd) (fr2\<lparr>fr_rest := data_len\<rparr>))
             (\<lambda>fr3. recv_loop fuel sqput past None 0 frame_count fr3 q))"

lemmas recv_loop_Suc = recv_loop.simps(3)
declare recv_loop.simps(3) [simp del]

definition RecvSiDaqData :: "(byte list \<Rightarrow> int \<Rightarrow> 'q \<Rightarrow> (int \<times> 'q) outcome) \<Rightarrow> byte option \<Rightarrow> SiDaqFramer \<Rightarrow>
    byte list \<Rightarrow> int \<Rightarrow> 'q \<Rightarrow> (int \<times> SiDaqFramer \<times> 'q) outcome" where
  "RecvSiDaqData sqput past fr data data_len q =
     (if data_len < 0 then Inr (0, fr, q)
      else if 0 < fr_rest fr then
        obind (recv_rest sqput fr data data_len q) (\<lambda>r. case r of
            Inl result \<Rightarrow> Inr result
          | Inr (frame_count, read_ptr, len, fr1, q1) \<Rightarrow>
              recv_loop (Suc (nat len)) sqput past read_ptr len frame_count fr1 q1)
      else recv_loop (Suc (nat data_len)) sqput past (Some data) data_len 0 fr q)"

section \<open>Well-formed framers\<close>

text \<open>The length function looks at the header only.\<close>

definition header_only :: "SiDaqFramer \<Rightarrow> bool" where
  "header_only fr \<longleftrightarrow> (\<forall>f bs. fr_lengthFunc fr = Some f \<and> fr_header_len fr \<le> int (length bs) \<and> length bs < 2 ^ 31 \<longrightarrow>
     f bs (int (length bs)) (fr_header_len fr) =
     f (take (nat (fr_header_len fr)) bs) (fr_header_len fr) (fr_header_len fr))"

text \<open>The bytes of the unfinished frame.\<close>

definition pending :: "SiDaqFramer \<Rightarrow> byte list" where
  "pending fr = take (nat (fr_rest fr)) (buff_bytes fr)"

definition framer_ok :: "SiDaqFramer \<Rightarrow> bool" where
  "framer_ok fr \<longleftrightarrow> fr_buff_ptr fr \<noteq> None \<and> int (length (buff_bytes fr)) = fr_buff_size fr \<and>
     0 < fr_buff_size fr \<and> fr_buff_size fr < 2 ^ 31 \<and> 0 \<le> fr_rest fr \<and> fr_rest fr \<le> fr_buff_size fr \<and>
     0 \<le> fr_header_len fr \<and> fr_header_len fr \<le> 2 \<and>
     0 \<le> fr_max_frame_len fr \<and> fr_max_frame_len fr \<le> fr_buff_size fr \<and>
     0 \<le> fr_fixed_frame_len fr \<and> fr_fixed_frame_len fr < 2 ^ 32 \<and> header_only fr"

text \<open>The frame the code cuts at the start of \<open>bs\<close>: the framer after the checks and the
  frame's total length.\<close>

definition cut :: "SiDaqFramer \<Rightarrow> byte list \<Rightarrow> SiDaqFramer \<times> int" where
  "cut fr bs = (let len = int (length bs); (fr2, ev) = check_length fr (event_length fr bs len) len
     in (fr2, ev + fr_header_len fr2))"

text \<open>Bytes are kept in the buffer only while the frame they start is unfinished.\<close>

definition rest_ok :: "SiDaqFramer \<Rightarrow> bool" where
  "rest_ok fr \<longleftrightarrow> fr_rest fr = 0 \<or> fr_rest fr < fr_header_len fr \<or>
     (\<exists>n. cut fr (pending fr) = (fr, n) \<and> fr_rest fr < n)"

definition nulled :: "SiDaqFramer \<Rightarrow> bool" where
  "nulled fr \<longleftrightarrow> fr_lengthFunc fr = None \<and> fr_header_len fr = 0 \<and> fr_fixed_frame_len fr = 0"

definition same_state :: "SiDaqFramer \<Rightarrow> SiDaqFramer \<Rightarrow> bool" where
  "same_state fr fr2 \<longleftrightarrow> fr_rest fr2 = fr_rest fr \<and> fr_buff_size fr2 = fr_buff_size fr \<and>
     fr_buff_ptr fr2 = fr_buff_ptr fr \<and> fr_queue_limit fr2 = fr_queue_limit fr \<and>
     fr_max_frame_len fr2 = fr_max_frame_len fr \<and> fr_error_flg fr2 = fr_error_flg fr"

lemma length_pending: "framer_ok fr \<Longrightarrow> int (length (pending fr)) = fr_rest fr"
  by (auto simp: framer_ok_def pending_def)

lemma same_state_pending: "same_state fr fr2 \<Longrightarrow> pending fr2 = pending fr"
  by (simp add: same_state_def pending_def buff_bytes_def)

lemma null_framer_simps [simp]:
  "fr_lengthFunc (null_framer e fr) = None" "fr_header_len (null_framer e fr) = 0"
  "fr_fixed_frame_len (null_framer e fr) = 0" "same_state fr (null_framer e fr)"
  "nulled (null_framer e fr)" "fr_error_code (null_framer e fr) = framer_code e"
  by (simp_all add: null_framer_def set_error_def same_state_def nulled_def)

lemma null_framer_twice: "null_framer e (null_framer e' fr) = null_framer e fr"
  by (simp add: null_framer_def set_error_def)

lemma framer_ok_null: "framer_ok fr \<Longrightarrow> framer_ok (null_framer e fr)"
  by (simp add: framer_ok_def null_framer_def set_error_def header_only_def buff_bytes_def)

lemma event_length_range:
  assumes "0 \<le> len" "len < 2 ^ 31"
  shows "- (2 ^ 31) \<le> event_length fr bs len \<and> event_length fr bs len < 2 ^ 31"
proof -
  have "- (2 ^ 31) \<le> len" using assms(1) by simp
  then have "\<exists>x. event_length fr bs len = i32 x"
    using i32_id [of len, symmetric] assms(2) unfolding event_length_def
    by (cases "fr_lengthFunc fr") auto
  then show ?thesis using i32_range by metis
qed

lemma event_length_pos:
  assumes "framer_ok fr" "fr_header_len fr = 0" "0 < len"
  shows "event_length fr bs len \<noteq> 0"
proof -
  have "i32 (fr_fixed_frame_len fr) \<noteq> 0" if "fr_fixed_frame_len fr \<noteq> 0"
  proof
    assume "i32 (fr_fixed_frame_len fr) = 0"
    then have "u32 (fr_fixed_frame_len fr) = 0" using u32_i32 [of "fr_fixed_frame_len fr"] by (simp add: u32_def)
    with assms(1) that show False by (simp add: framer_ok_def u32_def)
  qed
  with assms(2,3) show ?thesis by (simp add: event_length_def split: option.split)
qed

text \<open>The two outcomes of a cut: a good length, or the null framer that takes everything.\<close>

lemma cut_cases:
  assumes ok: "framer_ok fr" and bs: "bs \<noteq> []" "length bs < 2 ^ 31" and c: "cut fr bs = (fr2, n)"
  obtains (good) "fr2 = fr" "n = event_length fr bs (int (length bs)) + fr_header_len fr"
      "0 \<le> event_length fr bs (int (length bs))" "0 < n" "n \<le> fr_max_frame_len fr"
    | (bad) "nulled fr2" "framer_ok fr2" "same_state fr fr2" "n = int (length bs)"
        "fr_error_code fr2 = framer_code FRAMER_GET_FRAME_LENGTH_FAILED \<or>
         fr_error_code fr2 = framer_code FRAMER_EXCEED_MAX_FRAME_LENGTH"
proof -
  let ?len = "int (length bs)"
  let ?ev = "event_length fr bs ?len"
  have len: "0 < ?len" "?len < 2 ^ 31" using bs by auto
  have h: "0 \<le> fr_header_len fr" "fr_header_len fr \<le> 2" using ok by (simp_all add: framer_ok_def)
  have ev: "?ev < 2 ^ 31" using event_length_range len by simp
  consider (neg) "?ev < 0" | (big) "0 \<le> ?ev" "fr_max_frame_len fr < u32 (?ev + fr_header_len fr)"
    | (fit) "0 \<le> ?ev" "u32 (?ev + fr_header_len fr) \<le> fr_max_frame_len fr" by linarith
  then show thesis
  proof cases
    case neg
    then have "fr2 = null_framer FRAMER_GET_FRAME_LENGTH_FAILED fr \<or>
        fr2 = null_framer FRAMER_EXCEED_MAX_FRAME_LENGTH fr" and "n = ?len"
      using c by (auto simp: cut_def check_length_def Let_def null_framer_twice split: if_splits)
    then show thesis using bad framer_ok_null [OF ok] null_framer_simps by metis
  next
    case big
    then have "fr2 = null_framer FRAMER_EXCEED_MAX_FRAME_LENGTH fr" "n = ?len"
      using c by (auto simp: cut_def check_length_def Let_def)
    then show thesis using bad ok framer_ok_null null_framer_simps by metis
  next
    case fit
    have "u32 (?ev + fr_header_len fr) = ?ev + fr_header_len fr"
      using fit h ev by (intro u32_id) auto
    moreover have "0 < ?ev + fr_header_len fr"
      using event_length_pos [OF ok _ len(1), of bs] fit h by (cases "fr_header_len fr = 0") auto
    ultimately show thesis using fit c by (intro good) (auto simp: cut_def check_length_def Let_def)
  qed
qed

lemma cut_bounds:
  assumes "framer_ok fr" "bs \<noteq> []" "length bs < 2 ^ 31" "cut fr bs = (fr2, n)"
  shows "0 < n" "n \<le> fr_buff_size fr \<or> n = int (length bs)" "n < 2 ^ 31" "framer_ok fr2" "same_state fr fr2"
proof -
  have "0 < n \<and> (n \<le> fr_buff_size fr \<or> n = int (length bs)) \<and> n < 2 ^ 31 \<and> framer_ok fr2 \<and> same_state fr fr2"
    using assms(2,3) by (cases rule: cut_cases [OF assms])
      (use assms(1) in \<open>auto simp: framer_ok_def same_state_def\<close>)
  then show "0 < n" "n \<le> fr_buff_size fr \<or> n = int (length bs)" "n < 2 ^ 31" "framer_ok fr2" "same_state fr fr2"
    by blast+
qed

section \<open>One pass of the loop\<close>

definition same_config :: "SiDaqFramer \<Rightarrow> SiDaqFramer \<Rightarrow> bool" where
  "same_config fr fr2 \<longleftrightarrow> fr_lengthFunc fr2 = fr_lengthFunc fr \<and> fr_header_len fr2 = fr_header_len fr \<and>
     fr_fixed_frame_len fr2 = fr_fixed_frame_len fr \<and> fr_max_frame_len fr2 = fr_max_frame_len fr \<and>
     fr_queue_limit fr2 = fr_queue_limit fr"

lemma same_config_event: "same_config fr fr2 \<Longrightarrow> event_length fr2 bs len = event_length fr bs len"
  by (simp add: same_config_def event_length_def split: option.split)

lemma same_config_refl [simp]: "same_config fr fr"
  by (simp add: same_config_def)

lemma same_config_trans: "same_config a b \<Longrightarrow> same_config b c \<Longrightarrow> same_config a c"
  by (simp add: same_config_def)

lemma same_config_cut:
  assumes "same_config fr fr2" "cut fr bs = (fr, n)" "framer_ok fr" "bs \<noteq> []" "length bs < 2 ^ 31"
    "n \<noteq> int (length bs)"
  shows "cut fr2 bs = (fr2, n)"
proof (cases rule: cut_cases [OF assms(3,4,5,2)])
  case 1
  have "u32 n = n" using 1 assms(3) by (intro u32_id) (auto simp: framer_ok_def)
  with 1 assms(1) same_config_event [OF assms(1)] show ?thesis
    by (auto simp: cut_def check_length_def Let_def same_config_def)
qed (use assms(6) in auto)

text \<open>Storing \<open>bs\<close> as the unfinished frame.\<close>

definition stored :: "byte list \<Rightarrow> SiDaqFramer \<Rightarrow> SiDaqFramer" where
  "stored bs fr = fr\<lparr>fr_rest := int (length bs), fr_buff_ptr := Some (write_at 0 bs (buff_bytes fr))\<rparr>"

lemma framer_ok_buf:
  "framer_ok fr \<Longrightarrow> length b = length (buff_bytes fr) \<Longrightarrow> 0 \<le> r \<Longrightarrow> r \<le> fr_buff_size fr \<Longrightarrow>
   framer_ok (fr\<lparr>fr_rest := r, fr_buff_ptr := Some b\<rparr>)"
  by (simp add: framer_ok_def buff_bytes_def header_only_def)

lemma framer_ok_stored:
  assumes "framer_ok fr" "int (length bs) \<le> fr_buff_size fr"
  shows "framer_ok (stored bs fr)" "pending (stored bs fr) = bs" "same_config fr (stored bs fr)"
    "fr_rest (stored bs fr) = int (length bs)" "fr_error_code (stored bs fr) = fr_error_code fr"
    "fr_buff_size (stored bs fr) = fr_buff_size fr"
  using assms
  by (auto simp: framer_ok_def stored_def pending_def buff_bytes_def same_config_def header_only_def)

lemma buff_write_stored:
  assumes "framer_ok fr" "int (length bs) \<le> fr_buff_size fr"
  shows "buff_write 0 bs (fr\<lparr>fr_rest := int (length bs)\<rparr>) = Inr (stored bs fr)"
  using assms by (auto simp: framer_ok_def buff_write_def stored_def buff_bytes_def)

lemma recv_loop_end:
  assumes ok: "framer_ok fr" and bs: "bs = [] \<or> int (length bs) < fr_header_len fr"
  shows "\<exists>fr1. recv_loop (Suc fuel) sqput (Some past) (Some bs) (int (length bs)) c fr q = Inr (c, fr1, q) \<and>
    framer_ok fr1 \<and> pending fr1 = bs \<and> rest_ok fr1 \<and> same_config fr fr1 \<and> fr_error_code fr1 = fr_error_code fr"
proof -
  have len: "length bs \<le> 1" using bs ok by (auto simp: framer_ok_def)
  let ?b = "[case bs of [] \<Rightarrow> past | b # _ \<Rightarrow> b]"
  obtain buf where "fr_buff_ptr fr = Some buf" using ok by (auto simp: framer_ok_def)
  then have buf: "fr_buff_ptr fr = Some buf" "0 < length buf" "int (length buf) = fr_buff_size fr"
    using ok by (auto simp: framer_ok_def buff_bytes_def)
  let ?fr1 = "fr\<lparr>fr_rest := int (length bs), fr_buff_ptr := Some (write_at 0 ?b buf)\<rparr>"
  have w: "buff_write 0 ?b (fr\<lparr>fr_rest := int (length bs)\<rparr>) = Inr ?fr1"
    using buf by (auto simp: buff_write_def Suc_le_eq)
  have p: "pending ?fr1 = bs"
    using len buf by (cases bs) (auto simp: pending_def buff_bytes_def write_at_def)
  have "length (write_at 0 ?b buf) = length (buff_bytes fr)"
    using buf by (simp add: buff_bytes_def Suc_le_eq)
  moreover have "int (length bs) \<le> fr_buff_size fr"
    using ok len by (simp add: framer_ok_def)
  ultimately have o1: "framer_ok ?fr1" "same_config fr ?fr1"
    using framer_ok_buf [OF ok] by (simp_all add: same_config_def)
  have "rest_ok ?fr1" using bs by (auto simp: rest_ok_def)
  with w p o1 bs show ?thesis by (auto simp: recv_loop_Suc first_byte_Some)
qed

lemma recv_loop_store:
  assumes ok: "framer_ok fr" and bs: "bs \<noteq> []" "length bs < 2 ^ 31" "fr_header_len fr \<le> int (length bs)"
    and c: "cut fr bs = (fr2, n)" and n: "int (length bs) < n"
  shows "recv_loop (Suc fuel) sqput past (Some bs) (int (length bs)) k fr q = Inr (k, stored bs fr, q) \<and>
    framer_ok (stored bs fr) \<and> pending (stored bs fr) = bs \<and> rest_ok (stored bs fr) \<and> fr2 = fr"
proof -
  have g: "fr2 = fr \<and> n \<le> fr_max_frame_len fr"
    by (cases rule: cut_cases [OF ok bs(1,2) c]) (use n in auto)
  then have le: "int (length bs) \<le> fr_buff_size fr" using n ok by (auto simp: framer_ok_def)
  have nb: "i32 n = n" using cut_bounds [OF ok bs(1,2) c] by (intro i32_id) auto
  have st: "framer_ok (stored bs fr)" "pending (stored bs fr) = bs" "same_config fr (stored bs fr)"
    using framer_ok_stored [OF ok le] by blast+
  have "cut (stored bs fr) bs = (stored bs fr, n)"
    using same_config_cut [OF st(3) _ ok bs(1,2)] c g n by auto
  then have r: "rest_ok (stored bs fr)" using st n framer_ok_stored(4) [OF ok le] by (auto simp: rest_ok_def)
  obtain ev where ev: "check_length fr (event_length fr bs (int (length bs))) (int (length bs)) = (fr2, ev)"
    "n = ev + fr_header_len fr2" using c by (auto simp: cut_def Let_def split: prod.splits)
  have "recv_loop (Suc fuel) sqput past (Some bs) (int (length bs)) k fr q = Inr (k, stored bs fr, q)"
    using bs n ev nb g buff_write_stored [OF ok le] by (simp add: recv_loop_Suc Let_def)
  with st r g show ?thesis by blast
qed

lemma recv_loop_after_put:
  assumes ok: "framer_ok fr" and bs: "bs \<noteq> []" "length bs < 2 ^ 31" "fr_header_len fr \<le> int (length bs)"
    and c: "cut fr bs = (fr2, n)" and n: "n \<le> int (length bs)" and put: "sqput bs n q = Inr (cnt, q1)" "0 \<le> cnt"
  shows "recv_loop (Suc fuel) sqput past (Some bs) (int (length bs)) k fr q =
      (if limit_hit fr2 cnt
       then Inr (-1, set_error FRAMER_EXCEED_FRAME_QUEUE_COUNT fr2, q1)
       else recv_loop fuel sqput past (Some (drop (nat n) bs)) (int (length (drop (nat n) bs))) (k + 1) fr2 q1)"
proof -
  have b: "0 < n" "n < 2 ^ 31" using cut_bounds [OF ok bs(1,2) c] by auto
  then have nb: "i32 n = n" by (intro i32_id) auto
  obtain ev where ev: "check_length fr (event_length fr bs (int (length bs))) (int (length bs)) = (fr2, ev)"
    "n = ev + fr_header_len fr2" using c by (auto simp: cut_def Let_def split: prod.splits)
  have l: "int (length bs) - n = int (length (drop (nat n) bs))" using b n by auto
  show ?thesis using bs n ev nb put l by (simp add: recv_loop_Suc Let_def)
qed

lemma limit_hit_pos:
  assumes "limit_hit fr cnt" "0 \<le> cnt" "cnt < 2 ^ 31" "0 \<le> fr_queue_limit fr"
  shows "0 < fr_queue_limit fr \<and> fr_queue_limit fr \<le> cnt"
proof -
  have "u32 cnt = cnt" using assms(2,3) by (intro u32_id) auto
  then show ?thesis using assms(1,4) by (auto simp: limit_hit_def)
qed

context byte_queue
begin

lemma recv_loop_put_exact:
  assumes ok: "framer_ok fr" and bs: "bs \<noteq> []" "length bs < 2 ^ 31" "fr_header_len fr \<le> int (length bs)"
    and c: "cut fr bs = (fr2, n)" and n: "n \<le> int (length bs)" and q: "qinv q" "0 < room q"
  shows "\<exists>q1. recv_loop (Suc fuel) put (Some past) (Some bs) (int (length bs)) k fr q =
      (if limit_hit fr2 (int (length (frames q)) + 1)
       then Inr (-1, set_error FRAMER_EXCEED_FRAME_QUEUE_COUNT fr2, q1)
       else recv_loop fuel put (Some past) (Some (drop (nat n) bs)) (int (length (drop (nat n) bs))) (k + 1) fr2 q1) \<and>
     qinv q1 \<and> frames q1 = frames q @ [take (nat n) bs] \<and> room q1 = room q - 1"
proof -
  have "0 < n" using cut_bounds [OF ok bs(1,2) c] by auto
  then obtain q1 where q1: "put bs n q = Inr (int (length (frames q)) + 1, q1)" "qinv q1"
    "frames q1 = frames q @ [take (nat n) bs]" "room q1 = room q - 1"
    using put_law [OF q, of n bs] n by auto
  then show ?thesis using recv_loop_after_put [OF ok bs c n, of put q] by auto
qed

end

context byte_sink
begin

lemma recv_loop_put:
  assumes ok: "framer_ok fr" and bs: "bs \<noteq> []" "length bs < 2 ^ 31" "fr_header_len fr \<le> int (length bs)"
    and c: "cut fr bs = (fr2, n)" and n: "n \<le> int (length bs)" and q: "qinv q" "0 < room q"
  shows "\<exists>cnt q1. recv_loop (Suc fuel) put (Some past) (Some bs) (int (length bs)) k fr q =
      (if limit_hit fr2 cnt
       then Inr (-1, set_error FRAMER_EXCEED_FRAME_QUEUE_COUNT fr2, q1)
       else recv_loop fuel put (Some past) (Some (drop (nat n) bs)) (int (length (drop (nat n) bs))) (k + 1) fr2 q1) \<and>
     0 \<le> cnt \<and> cnt \<le> int (length (frames q)) + 1 \<and> cnt < 2 ^ 31 \<and>
     qinv q1 \<and> frames q1 = frames q @ [take (nat n) bs] \<and> room q - 1 \<le> room q1"
proof -
  have "0 < n" using cut_bounds [OF ok bs(1,2) c] by auto
  then obtain cnt q1 where q1: "put bs n q = Inr (cnt, q1)" "0 \<le> cnt" "cnt \<le> int (length (frames q)) + 1" "cnt < 2 ^ 31"
    "qinv q1" "frames q1 = frames q @ [take (nat n) bs]" "room q - 1 \<le> room q1"
    using put_sink [OF q, of n bs] n by auto
  then show ?thesis using recv_loop_after_put [OF ok bs c n, of put q] by auto
qed

text \<open>What a call did: it queued \<open>fs\<close> and kept \<open>pending\<close>, in the order of the bytes \<open>bs\<close>;
  \<open>dropped\<close> is not empty only when the queue limit ended the call.\<close>

definition limit_return :: "int \<Rightarrow> SiDaqFramer \<Rightarrow> 'q \<Rightarrow> bool" where
  "limit_return r fr' q' \<longleftrightarrow> r = -1 \<and> 0 < fr_queue_limit fr' \<and> fr_queue_limit fr' \<le> int (length (frames q')) \<and>
     fr_error_code fr' = framer_code FRAMER_EXCEED_FRAME_QUEUE_COUNT \<and> fr_rest fr' = 0"

definition outcome_of :: "int \<Rightarrow> 'q \<Rightarrow> int \<Rightarrow> byte list \<Rightarrow> (int \<times> SiDaqFramer \<times> 'q) outcome \<Rightarrow> bool" where
  "outcome_of lim q k bs res \<longleftrightarrow> (\<exists>r fr' q' fs dropped. res = Inr (r, fr', q') \<and> qinv q' \<and>
     frames q' = frames q @ fs \<and> concat fs @ pending fr' @ dropped = bs \<and> framer_ok fr' \<and> rest_ok fr' \<and>
     fr_queue_limit fr' = lim \<and> room q - length fs \<le> room q' \<and> [] \<notin> set fs \<and>
     ((dropped = [] \<and> r = k + int (length fs)) \<or> limit_return r fr' q'))"

lemma outcome_of_put:
  assumes "outcome_of lim q1 (k + 1) (drop n bs) res" "frames q1 = frames q @ [take n bs]" "take n bs \<noteq> []"
    "room q - 1 \<le> room q1"
  shows "outcome_of lim q k bs res"
proof -
  from assms(1) obtain r fr' q' fs dropped where o: "res = Inr (r, fr', q')" "qinv q'" "frames q' = frames q1 @ fs"
      "concat fs @ pending fr' @ dropped = drop n bs" "framer_ok fr'" "rest_ok fr'" "fr_queue_limit fr' = lim"
      "room q1 - length fs \<le> room q'" "[] \<notin> set fs"
      "(dropped = [] \<and> r = k + 1 + int (length fs)) \<or> limit_return r fr' q'"
    unfolding outcome_of_def by blast
  show ?thesis
    unfolding outcome_of_def
    by (rule exI [of _ r], rule exI [of _ fr'], rule exI [of _ q'], rule exI [of _ "take n bs # fs"],
        rule exI [of _ dropped]) (use o assms(2-4) in auto)
qed

text \<open>Nothing was put; a put that brought the queue to its limit.\<close>

lemma outcome_of_kept:
  assumes "qinv q" "framer_ok fr1" "rest_ok fr1" "pending fr1 = bs"
  shows "outcome_of (fr_queue_limit fr1) q k bs (Inr (k, fr1, q))"
  unfolding outcome_of_def
  by (intro exI [of _ k] exI [of _ fr1] exI [of _ q] exI [of _ "[]"]) (simp add: assms)

lemma outcome_of_limit:
  assumes "framer_ok fr" "fr_rest fr = 0" "0 \<le> fr_queue_limit fr" "limit_hit fr cnt" "0 \<le> cnt"
    "cnt \<le> int (length (frames q)) + 1" "cnt < 2 ^ 31" "qinv q1" "frames q1 = frames q @ [take n bs]" "take n bs \<noteq> []"
    "room q - 1 \<le> room q1"
  shows "outcome_of (fr_queue_limit fr) q k bs (Inr (-1, set_error FRAMER_EXCEED_FRAME_QUEUE_COUNT fr, q1))"
proof -
  let ?fr1 = "set_error FRAMER_EXCEED_FRAME_QUEUE_COUNT fr"
  have "limit_return (-1) ?fr1 q1"
    using limit_hit_pos [OF assms(4,5,7)] assms(2,3,6,9) by (simp add: limit_return_def set_error_def)
  moreover have "framer_ok ?fr1" using assms(1) by (simp add: set_error_def framer_ok_def buff_bytes_def header_only_def)
  ultimately show ?thesis using assms(2,8-11) unfolding outcome_of_def
    by (intro exI [of _ "-1"] exI [of _ ?fr1] exI [of _ q1] exI [of _ "[take n bs]"] exI [of _ "drop n bs"])
      (simp add: rest_ok_def pending_def set_error_def)
qed

text \<open>The loop: without the limit, the frames put and the bytes kept are exactly the chunk.\<close>

lemma recv_loop_runs:
  assumes "qinv q" "framer_ok fr" "fr_rest fr = 0" "0 \<le> fr_queue_limit fr" "length bs < 2 ^ 31"
    "length bs \<le> room q" "length bs < fuel"
  shows "outcome_of (fr_queue_limit fr) q k bs (recv_loop fuel put (Some past) (Some bs) (int (length bs)) k fr q)"
  using assms
proof (induction fuel arbitrary: bs k fr q)
  case (Suc fuel)
  show ?case
  proof (cases "bs = [] \<or> int (length bs) < fr_header_len fr")
    case True
    from recv_loop_end [OF Suc.prems(2) True, of fuel put past k q] obtain fr1 where
      "recv_loop (Suc fuel) put (Some past) (Some bs) (int (length bs)) k fr q = Inr (k, fr1, q)"
      "framer_ok fr1" "pending fr1 = bs" "rest_ok fr1" "same_config fr fr1" by blast
    then show ?thesis using outcome_of_kept [OF Suc.prems(1), of fr1 bs k] by (simp add: same_config_def)
  next
    case False
    then have bs: "bs \<noteq> []" "fr_header_len fr \<le> int (length bs)" by auto
    obtain fr2 n where c: "cut fr bs = (fr2, n)" by force
    note b = cut_bounds [OF Suc.prems(2) bs(1) Suc.prems(5) c]
    have st: "fr_queue_limit fr2 = fr_queue_limit fr" "fr_rest fr2 = 0" "0 \<le> fr_queue_limit fr2"
      using b(5) Suc.prems(3,4) by (simp_all add: same_state_def)
    show ?thesis
    proof (cases "n \<le> int (length bs)")
      case True
      have rm: "0 < room q" using Suc.prems(6) bs by (cases bs) auto
      have tk: "take (nat n) bs \<noteq> []" using b(1) bs(1) by auto
      let ?rs = "drop (nat n) bs"
      from recv_loop_put [OF Suc.prems(2) bs(1) Suc.prems(5) bs(2) c True Suc.prems(1) rm, of fuel past k]
      obtain cnt q1 where q1: "recv_loop (Suc fuel) put (Some past) (Some bs) (int (length bs)) k fr q =
          (if limit_hit fr2 cnt
           then Inr (-1, set_error FRAMER_EXCEED_FRAME_QUEUE_COUNT fr2, q1)
           else recv_loop fuel put (Some past) (Some ?rs) (int (length ?rs)) (k + 1) fr2 q1)"
        "qinv q1" "frames q1 = frames q @ [take (nat n) bs]" "room q - 1 \<le> room q1"
        and cnt: "0 \<le> cnt" "cnt \<le> int (length (frames q)) + 1" "cnt < 2 ^ 31" by blast
      show ?thesis
      proof (cases "limit_hit fr2 cnt")
        case lim: True
        from outcome_of_limit [OF b(4) st(2,3) lim cnt q1(2,3) tk q1(4)] show ?thesis using lim q1(1) st(1) by simp
      next
        case False
        have "length ?rs < length bs" using b(1) bs(1) by (cases bs) auto
        then have "length ?rs < 2 ^ 31" "length ?rs \<le> room q1" "length ?rs < fuel"
          using Suc.prems(5-7) q1(4) by linarith+
        from outcome_of_put [OF Suc.IH [OF q1(2) b(4) st(2,3) this] q1(3) tk q1(4)] show ?thesis
          using False q1(1) st(1) by simp
      qed
    next
      case False
      from recv_loop_store [OF Suc.prems(2) bs(1) Suc.prems(5) bs(2) c, of fuel put "Some past" k q] False
      show ?thesis using outcome_of_kept [OF Suc.prems(1), of "stored bs fr" bs k] by (auto simp: stored_def)
    qed
  qed
qed simp

end

end
