(* ===== verification/Sock_Thread.thy ===== *)
theory Sock_Thread
  imports SQueue
begin

text \<open>
  The socket thread of \<open>SiDaqApi/sock_thread.h\<close> and \<open>sock_thread.cpp\<close>: it waits for the device's
  socket with \<open>select\<close>, reads what has arrived and puts every chunk on the receive queue.

  The parameter block it shares with the API and the framer thread is the record
  \<open>SockThreadLparam\<close>, its local variables the record \<open>sock_thread\<close>.  One step is one round of the
  outer (\<open>select\<close>) or of the inner (\<open>recv\<close>) loop; what the operating system answers in that round
  is the record \<open>os_result\<close>.  Between two steps other threads may change the shared block.
\<close>

section \<open>Data\<close>

definition SOCKET_ERROR :: int where "SOCKET_ERROR = -1"
definition DEFAULT_RECV_BUFF_SIZE :: int where "DEFAULT_RECV_BUFF_SIZE = 65536 * 4"

datatype SockQueueErrorCode = SOCKQUEUE_NO_ERROR | SOCKQUEUE_EXCEED_RECV_QUEUE_COUNT
  | SOCKQUEUE_MEMORY_ALLOCATED_FAILED

fun sockqueue_code :: "SockQueueErrorCode \<Rightarrow> int" where
  "sockqueue_code SOCKQUEUE_NO_ERROR = 0"
| "sockqueue_code SOCKQUEUE_EXCEED_RECV_QUEUE_COUNT = 1"
| "sockqueue_code SOCKQUEUE_MEMORY_ALLOCATED_FAILED = 2"

record SockStat =
  tx_bytes :: int
  rx_bytes :: int
  rx_duration :: int
  last_error :: int

record 'q SockThreadLparam =
  sp_run :: bool
  sp_socket :: int
  squeue_index :: int
  squeue_count :: int
  squeue_list_ptr :: "'q list option"   \<comment> \<open>the array of queues, None is NULL\<close>
  sock_stat :: SockStat
  recv_buf_size :: int
  queue_limit :: int
  queue_error_code :: int
  pause_flg :: bool

datatype sock_pc = Outer_loop | Inner_loop | Exited

record sock_thread =
  t_pc :: sock_pc
  t_socket :: int
  t_queue :: nat   \<comment> \<open>\<open>queue_ptr\<close>, as its place in the array\<close>
  t_buf_size :: int
  t_recv_len :: int

record os_result =
  os_select :: int
  os_readable :: bool   \<comment> \<open>\<open>FD_ISSET\<close> of the socket\<close>
  os_recv :: int
  os_data :: "byte list"   \<comment> \<open>what \<open>recv\<close> wrote into the buffer\<close>
  os_error :: int   \<comment> \<open>\<open>WSAGetLastError()\<close>\<close>

section \<open>Error codes\<close>

definition WSAEINTR :: int where "WSAEINTR = 10004"
definition WSAEFAULT :: int where "WSAEFAULT = 10014"
definition WSAEINVAL :: int where "WSAEINVAL = 10022"
definition WSAEWOULDBLOCK :: int where "WSAEWOULDBLOCK = 10035"
definition WSAEINPROGRESS :: int where "WSAEINPROGRESS = 10036"
definition WSAENOTSOCK :: int where "WSAENOTSOCK = 10038"
definition WSAENETDOWN :: int where "WSAENETDOWN = 10050"
definition WSANOTINITIALISED :: int where "WSANOTINITIALISED = 10093"

lemmas wsa_codes = WSAEINTR_def WSAEFAULT_def WSAEINVAL_def WSAEWOULDBLOCK_def WSAEINPROGRESS_def
  WSAENOTSOCK_def WSAENETDOWN_def WSANOTINITIALISED_def

definition decode_error :: "int \<Rightarrow> string" where
  "decode_error nCode =
     (if nCode = WSANOTINITIALISED then ''Before this function can be used, the WSAStartup call must succeed.''
      else if nCode = WSAEFAULT then ''Either the Windows socket implementation could not allocate the necessary resources for internal operations or readfds, writefds, exceptfds, or timeval parameters are not part of the user address space.''
      else if nCode = WSAENETDOWN then ''Network subsystem failed.''
      else if nCode = WSAEINVAL then ''Either the timeout value is invalid or all three descriptor parameters are null.''
      else if nCode = WSAEINTR then ''A blocked operation was interrupted by a call to WSACancelBlockingCall.''
      else if nCode = WSAEINPROGRESS then ''Either a blocking Windows Socket 1.1 call is in progress or the service provider is handling the callback function.''
      else if nCode = WSAENOTSOCK then ''One of the descriptor sets contains an entry that is not a socket.''
      else if nCode = WSAEWOULDBLOCK then ''Resource temporarily unavailable.''
      else ''Undefined Error.'')"

definition is_allowed_error :: "int \<Rightarrow> int" where
  "is_allowed_error nCode = (if nCode = WSAEWOULDBLOCK then 0 else -1)"

section \<open>The thread\<close>

definition select_queue :: "'q SockThreadLparam \<Rightarrow> nat outcome" where
  "select_queue lp = (case squeue_list_ptr lp of None \<Rightarrow> Inl Null_deref
     | Some qs \<Rightarrow> if 0 \<le> squeue_index lp \<and> nat (squeue_index lp) < length qs
         then Inr (nat (squeue_index lp)) else Inl Out_of_bounds)"

text \<open>From the entry to the first test of the outer loop; \<open>alloc\<close> is the success of
  \<open>malloc(buf_size)\<close>.\<close>

definition sock_thread_start :: "bool \<Rightarrow> 'q SockThreadLparam \<Rightarrow> ('q SockThreadLparam \<times> sock_thread) outcome" where
  "sock_thread_start alloc lp =
     obind (select_queue lp) (\<lambda>i.
       let th = \<lparr>t_pc = Outer_loop, t_socket = sp_socket lp, t_queue = i,
                 t_buf_size = i32 (recv_buf_size lp), t_recv_len = 0\<rparr>
       in if \<not> alloc then Inr (lp, th\<lparr>t_pc := Exited\<rparr>)
          else Inr (lp\<lparr>queue_error_code := sockqueue_code SOCKQUEUE_NO_ERROR, pause_flg := False\<rparr>, th))"

definition set_last_error :: "int \<Rightarrow> 'q SockThreadLparam \<Rightarrow> 'q SockThreadLparam" where
  "set_last_error e lp = lp\<lparr>sock_stat := (sock_stat lp)\<lparr>last_error := e\<rparr>\<rparr>"

text \<open>\<open>closesocket\<close>, both copies of the handle set to \<open>INVALID_SOCKET\<close>, and the \<open>break\<close> out of the
  inner loop.\<close>

definition close_and_break :: "'q SockThreadLparam \<Rightarrow> sock_thread \<Rightarrow> 'q SockThreadLparam \<times> sock_thread" where
  "close_and_break lp th = (lp\<lparr>sp_socket := INVALID_SOCKET\<rparr>, th\<lparr>t_socket := INVALID_SOCKET, t_pc := Outer_loop\<rparr>)"

definition outer_step :: "os_result \<Rightarrow> 'q SockThreadLparam \<times> sock_thread \<Rightarrow> ('q SockThreadLparam \<times> sock_thread) outcome" where
  "outer_step os = (\<lambda>(lp, th).
     if \<not> sp_run lp then Inr (lp, th\<lparr>t_pc := Exited\<rparr>)
     else if t_socket th = INVALID_SOCKET then Inr (lp, th\<lparr>t_pc := Exited\<rparr>)
     else obind (select_queue lp) (\<lambda>i.
       let th1 = th\<lparr>t_queue := i\<rparr> in
       if 0 < os_select os then
         (if os_readable os then Inr (lp, th1\<lparr>t_recv_len := -1, t_pc := Inner_loop\<rparr>) else Inr (lp, th1))
       else if os_select os = SOCKET_ERROR then
         Inr (set_last_error (os_error os) lp, th1\<lparr>t_pc := Exited\<rparr>)
       else Inr (lp, th1)))"

text \<open>The put of a received chunk.  \<open>rx_bytes\<close> is an \<open>unsigned long long\<close>.\<close>

definition put_chunk :: "(byte list \<Rightarrow> int \<Rightarrow> 'q \<Rightarrow> (int \<times> 'q) outcome) \<Rightarrow> os_result \<Rightarrow>
    'q SockThreadLparam \<Rightarrow> sock_thread \<Rightarrow> ('q SockThreadLparam \<times> sock_thread) outcome" where
  "put_chunk sqput os lp th =
     (case squeue_list_ptr lp of None \<Rightarrow> Inl Null_deref
      | Some qs \<Rightarrow> if length qs \<le> t_queue th then Inl Out_of_bounds else
        obind (sqput (write_at 0 (os_data os) (replicate (nat (t_buf_size th)) 0)) (os_recv os) (qs ! t_queue th))
          (\<lambda>(queue_count, q1).
            let lp1 = lp\<lparr>squeue_list_ptr := Some (qs[t_queue th := q1])\<rparr> in
            if queue_count < 0 then
              Inr (close_and_break (lp1\<lparr>queue_error_code := sockqueue_code SOCKQUEUE_MEMORY_ALLOCATED_FAILED\<rparr>) th)
            else if queue_limit lp1 \<noteq> 0 \<and> queue_limit lp1 < u32 queue_count then
              Inr (close_and_break (lp1\<lparr>queue_error_code := sockqueue_code SOCKQUEUE_EXCEED_RECV_QUEUE_COUNT\<rparr>) th)
            else Inr (lp1\<lparr>sock_stat := (sock_stat lp1)\<lparr>rx_bytes := (rx_bytes (sock_stat lp1) + os_recv os) mod 2 ^ 64\<rparr>\<rparr>, th)))"

definition inner_step :: "(byte list \<Rightarrow> int \<Rightarrow> 'q \<Rightarrow> (int \<times> 'q) outcome) \<Rightarrow> os_result \<Rightarrow>
    'q SockThreadLparam \<times> sock_thread \<Rightarrow> ('q SockThreadLparam \<times> sock_thread) outcome" where
  "inner_step sqput os = (\<lambda>(lp, th).
     if \<not> pause_flg lp then
       let th1 = th\<lparr>t_recv_len := os_recv os\<rparr> in
       if os_recv os = 0 then Inr (close_and_break (set_last_error (os_error os) lp) th1)
       else if os_recv os < 0 then
         (if is_allowed_error (os_error os) < 0
          then Inr (close_and_break (set_last_error (os_error os) lp) th1)
          else Inr (lp, th1))
       else put_chunk sqput os lp th1
     else if \<not> sp_run lp then Inr (lp, th\<lparr>t_pc := Outer_loop\<rparr>)
     else Inr (lp, th))"

definition sock_step :: "(byte list \<Rightarrow> int \<Rightarrow> 'q \<Rightarrow> (int \<times> 'q) outcome) \<Rightarrow> os_result \<Rightarrow>
    'q SockThreadLparam \<times> sock_thread \<Rightarrow> ('q SockThreadLparam \<times> sock_thread) outcome" where
  "sock_step sqput os = (\<lambda>(lp, th). case t_pc th of
       Outer_loop \<Rightarrow> outer_step os (lp, th)
     | Inner_loop \<Rightarrow> inner_step sqput os (lp, th)
     | Exited \<Rightarrow> Inr (lp, th))"

end
