(* ===== verification/Rbcp.thy ===== *)
theory Rbcp
  imports SiDaq_Prelude
begin

text \<open>
  The slow-control client of \<open>SiDaqApi/sitcp/SiTcpRbcpLib2.h\<close> and \<open>SiTcpRbcpLib2.cpp\<close>: registers of
  the device are read and written by one UDP request and one UDP reply each.

  The object is the record \<open>SiTcpRbcp\<close>; \<open>rb_closed\<close> counts the \<open>closesocket\<close> calls on its socket.
  The socket calls are arguments: a network state \<open>'w\<close>, and \<open>send\<close>, \<open>select\<close> and \<open>recv\<close> that
  return the result of the call and the next network state.  A C++ exception is the left
  side of the result, next to the object as it is left behind.
\<close>

unbundle bit_operations_syntax

section \<open>Data\<close>

datatype SITCPRBCP_ERR_NUM = SITCPRBCP_ERR_TIMEOUT | SITCPRBCP_ERR_BUSERROR
  | SITCPRBCP_ERR_INVALIDPACKET | SITCPRBCP_ERR_SOCKETERROR | SITCPRBCP_ERR_INVALID_PARAM
  | SITCPRBCP_ERR_UNKNOWN

record rbcp_exn =
  error_number :: SITCPRBCP_ERR_NUM
  message :: string

fun err_type :: "SITCPRBCP_ERR_NUM \<Rightarrow> string" where
  "err_type SITCPRBCP_ERR_TIMEOUT = ''Timeout:''"
| "err_type SITCPRBCP_ERR_BUSERROR = ''Bus Error:''"
| "err_type SITCPRBCP_ERR_INVALIDPACKET = ''Invalid Packet:''"
| "err_type SITCPRBCP_ERR_SOCKETERROR = ''Socket Error:''"
| "err_type SITCPRBCP_ERR_INVALID_PARAM = ''Invalid Parameter:''"
| "err_type SITCPRBCP_ERR_UNKNOWN = ''Unknown:''"

definition SiTcpRbcpException :: "SITCPRBCP_ERR_NUM \<Rightarrow> string \<Rightarrow> rbcp_exn" where
  "SiTcpRbcpException num mes = \<lparr>error_number = num, message = err_type num @ '' '' @ mes\<rparr>"

definition MAX_DATA_LEN :: int where "MAX_DATA_LEN = 255"
definition SITCPRBCP_HEADER_SIZE :: int where "SITCPRBCP_HEADER_SIZE = 8"
definition MAX_PKT_LEN :: int where "MAX_PKT_LEN = SITCPRBCP_HEADER_SIZE + MAX_DATA_LEN"
definition SITCPRBCP_HEADER_VERTYPE :: byte where "SITCPRBCP_HEADER_VERTYPE = 0xff"
definition SITCPRBCP_HEADER_CMD_MASK :: byte where "SITCPRBCP_HEADER_CMD_MASK = 0xf0"
definition SITCPRBCP_HEADER_CMD_READ :: byte where "SITCPRBCP_HEADER_CMD_READ = 0xc0"
definition SITCPRBCP_HEADER_CMD_WRITE :: byte where "SITCPRBCP_HEADER_CMD_WRITE = 0x80"
definition SITCPRBCP_HEADER_FLAG_ACK :: byte where "SITCPRBCP_HEADER_FLAG_ACK = 0x08"
definition SITCPRBCP_HEADER_FLAG_BUSERR :: byte where "SITCPRBCP_HEADER_FLAG_BUSERR = 0x01"

lemmas rbcp_consts = MAX_DATA_LEN_def SITCPRBCP_HEADER_SIZE_def MAX_PKT_LEN_def
  SITCPRBCP_HEADER_VERTYPE_def SITCPRBCP_HEADER_CMD_MASK_def SITCPRBCP_HEADER_CMD_READ_def
  SITCPRBCP_HEADER_CMD_WRITE_def SITCPRBCP_HEADER_FLAG_ACK_def SITCPRBCP_HEADER_FLAG_BUSERR_def

record SiTcpRbcp =
  rbcp_buf :: "byte list"
  rb_id :: int
  tv_sec :: int
  tv_usec :: int
  rb_sock :: int
  rb_closed :: nat

text \<open>The socket calls of one network: the bytes handed to \<open>send\<close>, the two members of the
  \<open>timeval\<close> handed to \<open>select\<close>, the buffer size handed to \<open>recv\<close>.\<close>

record 'w udp =
  u_send :: "byte list \<Rightarrow> 'w \<Rightarrow> int \<times> 'w"
  u_select :: "int \<times> int \<Rightarrow> 'w \<Rightarrow> int \<times> 'w"
  u_recv :: "int \<Rightarrow> 'w \<Rightarrow> int \<times> byte list \<times> 'w"

section \<open>Operations\<close>

definition rb_closesocket :: "SiTcpRbcp \<Rightarrow> SiTcpRbcp" where
  "rb_closesocket r = r\<lparr>rb_closed := Suc (rb_closed r)\<rparr>"

definition send_packet :: "'w udp \<Rightarrow> int \<Rightarrow> SiTcpRbcp \<Rightarrow> 'w \<Rightarrow> (rbcp_exn + unit) \<times> SiTcpRbcp \<times> 'w" where
  "send_packet net len r w =
     (let (res, w1) = u_send net (take (nat len) (rbcp_buf r)) w in
      if res \<noteq> len then
        (Inl (SiTcpRbcpException SITCPRBCP_ERR_SOCKETERROR ''send() failed''), rb_closesocket r, w1)
      else (Inr (), r, w1))"

definition recv_packet :: "'w udp \<Rightarrow> SiTcpRbcp \<Rightarrow> 'w \<Rightarrow> (rbcp_exn + int) \<times> SiTcpRbcp \<times> 'w" where
  "recv_packet net r w =
     (let (result, w1) = u_select net (tv_sec r, tv_usec r) w in
      if result < 0 then
        (Inl (SiTcpRbcpException SITCPRBCP_ERR_SOCKETERROR ''select() failed''), r, w1)
      else if result = 0 then
        (Inl (SiTcpRbcpException SITCPRBCP_ERR_TIMEOUT ''select() timeout''), r, w1)
      else
        let (size, bytes, w2) = u_recv net MAX_PKT_LEN w1;
            r1 = r\<lparr>rbcp_buf := write_at 0 (take (nat MAX_PKT_LEN) bytes) (rbcp_buf r)\<rparr>
        in if size < 0 then
             (Inl (SiTcpRbcpException SITCPRBCP_ERR_SOCKETERROR ''recv() failed''), r1, w2)
           else (Inr size, r1, w2))"

text \<open>The bytes of \<open>htonl(addr)\<close> in memory.\<close>

definition htonl_bytes :: "int \<Rightarrow> byte list" where
  "htonl_bytes a = [word_of_int (a div 2 ^ 24), word_of_int (a div 2 ^ 16), word_of_int (a div 2 ^ 8), word_of_int a]"

definition make_header :: "int \<Rightarrow> int \<Rightarrow> bool \<Rightarrow> SiTcpRbcp \<Rightarrow> SiTcpRbcp" where
  "make_header a len rd r =
     r\<lparr>rbcp_buf := write_at 4 (htonl_bytes a) ((rbcp_buf r)
         [0 := SITCPRBCP_HEADER_VERTYPE,
          1 := (if rd then SITCPRBCP_HEADER_CMD_READ else SITCPRBCP_HEADER_CMD_WRITE),
          2 := word_of_int (rb_id r),
          3 := word_of_int (len AND 0xff)])\<rparr>"

definition check_packet :: "int \<Rightarrow> int \<Rightarrow> bool \<Rightarrow> SiTcpRbcp \<Rightarrow> rbcp_exn + unit" where
  "check_packet len recv_len rd r =
     (let buf = rbcp_buf r in
      if len + SITCPRBCP_HEADER_SIZE \<noteq> recv_len then
        Inl (SiTcpRbcpException SITCPRBCP_ERR_INVALIDPACKET ''unexpected packet length'')
      else if buf ! 0 \<noteq> SITCPRBCP_HEADER_VERTYPE then
        Inl (SiTcpRbcpException SITCPRBCP_ERR_INVALIDPACKET ''unexpected header value'')
      else if (rd \<and> buf ! 1 AND SITCPRBCP_HEADER_CMD_MASK \<noteq> SITCPRBCP_HEADER_CMD_READ)
           \<or> (\<not> rd \<and> buf ! 1 AND SITCPRBCP_HEADER_CMD_MASK \<noteq> SITCPRBCP_HEADER_CMD_WRITE) then
        Inl (SiTcpRbcpException SITCPRBCP_ERR_INVALIDPACKET ''unexpected header value'')
      else if buf ! 1 AND SITCPRBCP_HEADER_FLAG_ACK \<noteq> SITCPRBCP_HEADER_FLAG_ACK then
        Inl (SiTcpRbcpException SITCPRBCP_ERR_INVALIDPACKET ''unexpected header value'')
      else if buf ! 1 AND SITCPRBCP_HEADER_FLAG_BUSERR = SITCPRBCP_HEADER_FLAG_BUSERR then
        (if rd then Inl (SiTcpRbcpException SITCPRBCP_ERR_BUSERROR ''read failed'')
         else Inl (SiTcpRbcpException SITCPRBCP_ERR_BUSERROR ''write failed''))
      else if uint (buf ! 2) \<noteq> rb_id r then
        Inl (SiTcpRbcpException SITCPRBCP_ERR_INVALIDPACKET ''unexpected id value'')
      else if uint (buf ! 3) \<noteq> len then
        Inl (SiTcpRbcpException SITCPRBCP_ERR_INVALIDPACKET ''unexpected data length'')
      else Inr ())"

definition rw_memory :: "'w udp \<Rightarrow> int \<Rightarrow> int \<Rightarrow> bool \<Rightarrow> SiTcpRbcp \<Rightarrow> 'w \<Rightarrow> (rbcp_exn + unit) \<times> SiTcpRbcp \<times> 'w" where
  "rw_memory net a len rd r w =
     (let r1 = make_header a len rd (r\<lparr>rb_id := (rb_id r + 1) AND 0xff\<rparr>);
          send_len = (if rd then SITCPRBCP_HEADER_SIZE else len + SITCPRBCP_HEADER_SIZE)
      in case send_packet net send_len r1 w of
           (Inl e, r2, w1) \<Rightarrow> (Inl e, r2, w1)
         | (Inr _, r2, w1) \<Rightarrow> (case recv_packet net r2 w1 of
               (Inl e, r3, w2) \<Rightarrow> (Inl e, r3, w2)
             | (Inr recv_len, r3, w2) \<Rightarrow> (check_packet len recv_len rd r3, r3, w2)))"

text \<open>The caller's buffer is its bytes, \<open>None\<close> when the pointer is NULL.  \<open>ReadBytes\<close> returns the
  bytes behind the pointer it returns and the caller's buffer afterwards.\<close>

definition ReadBytes :: "'w udp \<Rightarrow> byte list option \<Rightarrow> int \<Rightarrow> int \<Rightarrow> SiTcpRbcp \<Rightarrow> 'w \<Rightarrow>
    ((rbcp_exn + byte list) \<times> byte list option \<times> SiTcpRbcp \<times> 'w) outcome" where
  "ReadBytes net buffer a len r w =
     (if MAX_DATA_LEN < len then
        Inr (Inl (SiTcpRbcpException SITCPRBCP_ERR_INVALID_PARAM ''too large length''), buffer, r, w)
      else case rw_memory net a len True r w of
        (Inl e, r1, w1) \<Rightarrow> Inr (Inl e, buffer, r1, w1)
      | (Inr _, r1, w1) \<Rightarrow>
          (let src = drop (nat SITCPRBCP_HEADER_SIZE) (rbcp_buf r1) in
           case buffer of
             None \<Rightarrow> Inr (Inr src, None, r1, w1)
           | Some b \<Rightarrow> if length b < nat len then Inl Out_of_bounds
               else let b1 = write_at 0 (take (nat len) src) b in Inr (Inr b1, Some b1, r1, w1)))"

definition WriteBytes :: "'w udp \<Rightarrow> byte list option \<Rightarrow> int \<Rightarrow> int \<Rightarrow> SiTcpRbcp \<Rightarrow> 'w \<Rightarrow>
    ((rbcp_exn + unit) \<times> SiTcpRbcp \<times> 'w) outcome" where
  "WriteBytes net buffer a len r w =
     (if MAX_DATA_LEN < len then
        Inr (Inl (SiTcpRbcpException SITCPRBCP_ERR_INVALID_PARAM ''too large length''), r, w)
      else case buffer of
        None \<Rightarrow> Inl Null_deref
      | Some b \<Rightarrow> if length b < nat len then Inl Out_of_bounds
          else Inr (rw_memory net a len False
            (r\<lparr>rbcp_buf := write_at (nat SITCPRBCP_HEADER_SIZE) (take (nat len) b) (rbcp_buf r)\<rparr>) w))"

text \<open>\<open>SetTimeout\<close>; \<open>setsockopt_res\<close> is the result of \<open>setsockopt\<close>.  \<open>tv_sec\<close> and \<open>tv_usec\<close> are
  32-bit \<open>long\<close>s.\<close>

definition SetTimeout :: "int \<Rightarrow> int \<Rightarrow> SiTcpRbcp \<Rightarrow> (rbcp_exn + unit) \<times> SiTcpRbcp" where
  "SetTimeout setsockopt_res msec r =
     (let sec = i32 (msec div 1000);
          r1 = r\<lparr>tv_sec := sec, tv_usec := i32 (u32 (u32 (msec - u32 (i32 (sec * 1000))) * 1000))\<rparr>
      in if setsockopt_res \<noteq> 0 then
           (Inl (SiTcpRbcpException SITCPRBCP_ERR_SOCKETERROR ''setsocketopt() failed''), rb_closesocket r1)
         else (Inr (), r1))"

definition GetTimeout :: "SiTcpRbcp \<Rightarrow> int" where
  "GetTimeout r = u32 (i32 (i32 (tv_sec r * 1000) + (if tv_usec r < 0 then - (- tv_usec r div 1000) else tv_usec r div 1000)))"

text \<open>Address lookup.  \<open>getaddrinfo\<close> returns its error or the address, \<open>inet_pton\<close> the address when
  the text is a dotted quad; an address nobody wrote is the 0 of \<open>memset\<close>.\<close>

definition get_ip_from_host :: "(string \<Rightarrow> int + int) \<Rightarrow> string \<Rightarrow> int \<Rightarrow> int \<times> int" where
  "get_ip_from_host getaddrinfo hostname saddr =
     (case getaddrinfo hostname of Inl err \<Rightarrow> (-1, saddr) | Inr ip \<Rightarrow> (0, ip))"

definition make_sockaddr_in :: "(string \<Rightarrow> int + int) \<Rightarrow> (string \<Rightarrow> int option) \<Rightarrow> string \<Rightarrow> int \<Rightarrow> int \<times> int" where
  "make_sockaddr_in getaddrinfo inet_pton hostAddr port =
     (let (rc, ip) = get_ip_from_host getaddrinfo hostAddr 0;
          sin_addr = (if rc \<noteq> 0 then ip
                      else case inet_pton hostAddr of None \<Rightarrow> ip | Some ip' \<Rightarrow> ip')
      in (sin_addr, port mod 2 ^ 16))"

text \<open>The constructor: results of \<open>socket\<close>, \<open>setsockopt\<close>, the two lookups and \<open>connect\<close>.  The
  destructor does not run when the constructor throws.\<close>

definition SiTcpRbcp_ctor :: "int \<Rightarrow> int \<Rightarrow> (string \<Rightarrow> int + int) \<Rightarrow> (string \<Rightarrow> int option) \<Rightarrow>
    (int \<times> int \<Rightarrow> int) \<Rightarrow> string \<Rightarrow> int \<Rightarrow> int \<Rightarrow> (rbcp_exn + unit) \<times> SiTcpRbcp" where
  "SiTcpRbcp_ctor socket_res setsockopt_res getaddrinfo inet_pton connect_res hostAddr port msec =
     (let r0 = \<lparr>rbcp_buf = replicate (nat MAX_PKT_LEN) 0, rb_id = 0, tv_sec = 0, tv_usec = 0,
                rb_sock = socket_res, rb_closed = 0\<rparr>
      in if socket_res = INVALID_SOCKET then
           (Inl (SiTcpRbcpException SITCPRBCP_ERR_SOCKETERROR ''socket() failed''), r0)
         else case SetTimeout setsockopt_res msec r0 of
           (Inl e, r1) \<Rightarrow> (Inl e, r1)
         | (Inr _, r1) \<Rightarrow>
             if connect_res (make_sockaddr_in getaddrinfo inet_pton hostAddr port) \<noteq> 0 then
               (Inl (SiTcpRbcpException SITCPRBCP_ERR_SOCKETERROR ''connect() failed''), r1)
             else (Inr (), r1))"

definition SiTcpRbcp_dtor :: "SiTcpRbcp \<Rightarrow> SiTcpRbcp" where
  "SiTcpRbcp_dtor r = rb_closesocket r"

end
