(* ===== verification/SiDaq_Mngr.thy ===== *)
theory SiDaq_Mngr
  imports Framer Sock_Thread Rbcp
begin

text \<open>
  The manager of \<open>SiDaqApi/SiDaqApi.h\<close> and \<open>SiDaqApi.cpp\<close>: the record the application holds, the
  exported functions on it, and the framer thread.

  An exported function takes the manager and returns it updated.  A function that tests its pointer
  for NULL takes an option; the others take the record, a valid pointer being the caller's duty.
  What the operating system answers is an argument.  \<open>wait\<close> stands for what the socket thread does
  to the shared parameter block during \<open>WaitForSingleObject\<close>.
\<close>

section \<open>Data\<close>

datatype SiDaqStatus = SIDAQ_IDLE | SIDAQ_STOPPING | SIDAQ_RESET | SIDAQ_RUN | SIDAQ_SYS_ERROR
  | SIDAQ_MNGR_INVALID

fun status_code :: "SiDaqStatus \<Rightarrow> int" where
  "status_code SIDAQ_IDLE = 0"
| "status_code SIDAQ_STOPPING = 40"
| "status_code SIDAQ_RESET = 41"
| "status_code SIDAQ_RUN = 32"
| "status_code SIDAQ_SYS_ERROR = 60"
| "status_code SIDAQ_MNGR_INVALID = -1"

datatype SiDaqErrorCode = SIDAQ_NO_ERROR | SIDAQ_EXCEED_RECV_QUEUE_COUNT | SIDAQ_MEMORY_ALLOCATED_FAILED
  | SIDAQ_EXCEED_FRAME_QUEUE_COUNT | SIDAQ_GET_FRAME_LENGTH_FAILED | SIDAQ_EXCEED_MAX_FRAME_LENGTH
  | SIDAQ_INITIAL_CONNECT_FAILED | SIDAQ_INVALID_PARAMETER | SIDAQ_FRAMER_BUF_SIZE_ERROR
  | SITCP_READ_ERROR | SITCP_WRITE_ERROR | SIDAQ_UNDEFINED_ERROR | WINSOCK_ERROR

fun sidaq_code :: "SiDaqErrorCode \<Rightarrow> int" where
  "sidaq_code SIDAQ_NO_ERROR = 0"
| "sidaq_code SIDAQ_EXCEED_RECV_QUEUE_COUNT = 1"
| "sidaq_code SIDAQ_MEMORY_ALLOCATED_FAILED = 2"
| "sidaq_code SIDAQ_EXCEED_FRAME_QUEUE_COUNT = 3"
| "sidaq_code SIDAQ_GET_FRAME_LENGTH_FAILED = 4"
| "sidaq_code SIDAQ_EXCEED_MAX_FRAME_LENGTH = 5"
| "sidaq_code SIDAQ_INITIAL_CONNECT_FAILED = 6"
| "sidaq_code SIDAQ_INVALID_PARAMETER = 7"
| "sidaq_code SIDAQ_FRAMER_BUF_SIZE_ERROR = 8"
| "sidaq_code SITCP_READ_ERROR = 101"
| "sidaq_code SITCP_WRITE_ERROR = 102"
| "sidaq_code SIDAQ_UNDEFINED_ERROR = -1"
| "sidaq_code WINSOCK_ERROR = 10000"

definition SiDAQ_HOST_NAME_MAX :: nat where "SiDAQ_HOST_NAME_MAX = 256"
definition SiDAQ_ERROR_MSG :: nat where "SiDAQ_ERROR_MSG = 1024"
definition SiTCP_RBCP_SIZE :: nat where "SiTCP_RBCP_SIZE = 255"
definition SiTCP_RBCP_REG_LENGTH :: int where "SiTCP_RBCP_REG_LENGTH = 64"
definition SiTCP_REG_AREA_ADDRESS :: int where "SiTCP_REG_AREA_ADDRESS = 0xFFFFFF00"

definition SYS_ERR_NO_ERROR :: string where "SYS_ERR_NO_ERROR = ''No Error''"
definition SYS_ERR_SOCK_INIT :: string where "SYS_ERR_SOCK_INIT = ''could not initialize socket. WSAStartup Failed.''"
definition SYS_ERR_IVALID_ADDR :: string where "SYS_ERR_IVALID_ADDR = ''could not initialize SiTCP. confirm ip address and device.''"

lemmas mngr_consts = SiDAQ_HOST_NAME_MAX_def SiDAQ_ERROR_MSG_def SiTCP_RBCP_SIZE_def SiTCP_RBCP_REG_LENGTH_def
  SiTCP_REG_AREA_ADDRESS_def SYS_ERR_NO_ERROR_def SYS_ERR_SOCK_INIT_def SYS_ERR_IVALID_ADDR_def

record SiDaqMngr =
  status :: SiDaqStatus
  ip_address :: string
  tcp_port :: int
  udp_port :: int
  sitcp_register :: "byte list"
  sock_param :: "sqstore SockThreadLparam"
  sock_thread_made :: bool   \<comment> \<open>\<open>sock_thread\<close> is not NULL\<close>
  error_code :: int
  error_message :: string
  m_sitcp :: "SiTcpRbcp option"
  m_framer :: "SiDaqFramer option"
  framer_thread_made :: bool
  m_reply :: "sqstore option"
  m_eventFrame :: "sqstore option"

section \<open>Errors\<close>

definition set_socket_error :: "SiDaqMngr option \<Rightarrow> int \<Rightarrow> SiDaqMngr option" where
  "set_socket_error m nCode = map_option (\<lambda>m. m\<lparr>sock_param := set_last_error nCode (sock_param m)\<rparr>) m"

definition socket_error :: "int \<Rightarrow> SiDaqMngr \<Rightarrow> SiDaqMngr" where
  "socket_error nCode m = m\<lparr>sock_param := set_last_error nCode (sock_param m)\<rparr>"

lemma set_socket_error_Some [simp]: "set_socket_error (Some m) n = Some (socket_error n m)"
  by (simp add: set_socket_error_def socket_error_def)

definition set_sidaq_error :: "SiDaqMngr \<Rightarrow> int \<Rightarrow> string \<Rightarrow> int \<Rightarrow> SiDaqMngr outcome" where
  "set_sidaq_error m sidaq_error_code msg winsock_error_code =
     (if \<not> length msg < SiDAQ_ERROR_MSG then Inl Assert_failed
      else Inr (socket_error winsock_error_code (m\<lparr>error_code := sidaq_error_code, error_message := msg\<rparr>)))"

definition decode_framer_error :: "int \<Rightarrow> int" where
  "decode_framer_error c =
     (if c = framer_code FRAMER_NO_ERROR then sidaq_code SIDAQ_NO_ERROR
      else if c = framer_code FRAMER_INVALID_PARAMETER then sidaq_code SIDAQ_INVALID_PARAMETER
      else if c = framer_code FRAMER_MEMORY_ALLOCATED_FAILED then sidaq_code SIDAQ_MEMORY_ALLOCATED_FAILED
      else if c = framer_code FRAMER_EXCEED_FRAME_QUEUE_COUNT then sidaq_code SIDAQ_EXCEED_FRAME_QUEUE_COUNT
      else if c = framer_code FRAMER_GET_FRAME_LENGTH_FAILED then sidaq_code SIDAQ_GET_FRAME_LENGTH_FAILED
      else if c = framer_code FRAMER_EXCEED_MAX_FRAME_LENGTH then sidaq_code SIDAQ_EXCEED_MAX_FRAME_LENGTH
      else if c = framer_code FRAMER_BUF_SIZE_ERROR then sidaq_code SIDAQ_FRAMER_BUF_SIZE_ERROR
      else sidaq_code SIDAQ_UNDEFINED_ERROR)"

definition decode_framer_error_string :: "int \<Rightarrow> string" where
  "decode_framer_error_string c =
     (if c = framer_code FRAMER_NO_ERROR then ''No Error''
      else if c = framer_code FRAMER_INVALID_PARAMETER then ''Framer invalid parameter''
      else if c = framer_code FRAMER_MEMORY_ALLOCATED_FAILED then ''Framer memory allocatd failed''
      else if c = framer_code FRAMER_EXCEED_FRAME_QUEUE_COUNT then ''Exceed frame queue count''
      else if c = framer_code FRAMER_GET_FRAME_LENGTH_FAILED then ''Get Frame length failed''
      else if c = framer_code FRAMER_EXCEED_MAX_FRAME_LENGTH then ''Exceed max frame lentgh''
      else if c = framer_code FRAMER_BUF_SIZE_ERROR then ''framer buffer size error''
      else ''Framer undefined error'')"

definition decode_sock_queue_error :: "int \<Rightarrow> int" where
  "decode_sock_queue_error c =
     (if c = sockqueue_code SOCKQUEUE_NO_ERROR then sidaq_code SIDAQ_NO_ERROR
      else if c = sockqueue_code SOCKQUEUE_MEMORY_ALLOCATED_FAILED then sidaq_code SIDAQ_MEMORY_ALLOCATED_FAILED
      else if c = sockqueue_code SOCKQUEUE_EXCEED_RECV_QUEUE_COUNT then sidaq_code SIDAQ_EXCEED_RECV_QUEUE_COUNT
      else sidaq_code SIDAQ_UNDEFINED_ERROR)"

section \<open>Status\<close>

definition SiDaqGetStatus :: "SiDaqMngr option \<Rightarrow> SiDaqStatus" where
  "SiDaqGetStatus m = (case m of Some m \<Rightarrow> status m | None \<Rightarrow> SIDAQ_MNGR_INVALID)"

text \<open>The global map \<open>_g_status_name\<close>; reading it with \<open>[]\<close> inserts an empty name for a missing key.\<close>

definition initialize_status_message :: "(int \<rightharpoonup> string) \<Rightarrow> int \<rightharpoonup> string" where
  "initialize_status_message names =
     (if dom names = {} then names
        (status_code SIDAQ_IDLE \<mapsto> ''Idle'', status_code SIDAQ_STOPPING \<mapsto> ''Stopping'',
         status_code SIDAQ_RESET \<mapsto> ''Reset'', status_code SIDAQ_RUN \<mapsto> ''Running'',
         status_code SIDAQ_SYS_ERROR \<mapsto> ''System Error'')
      else names)"

definition SiDaqStatusText :: "SiDaqMngr option \<Rightarrow> (int \<rightharpoonup> string) \<Rightarrow> string \<times> (int \<rightharpoonup> string)" where
  "SiDaqStatusText m names =
     (let names1 = initialize_status_message names; k = status_code (SiDaqGetStatus m) in
      case names1 k of Some t \<Rightarrow> (t, names1) | None \<Rightarrow> ('''', names1(k \<mapsto> '''')))"

definition SiDaqErrorMessage :: "SiDaqMngr \<Rightarrow> string" where
  "SiDaqErrorMessage m = error_message m"

definition SiDaqGetSocketErrorCode :: "SiDaqMngr option \<Rightarrow> int" where
  "SiDaqGetSocketErrorCode m = (case m of None \<Rightarrow> 0 | Some m \<Rightarrow> last_error (sock_stat (sock_param m)))"

section \<open>Queues\<close>

definition recv_queue :: "SiDaqMngr \<Rightarrow> sqstore outcome" where
  "recv_queue m = obind (select_queue (sock_param m)) (\<lambda>i. Inr (the (squeue_list_ptr (sock_param m)) ! i))"

definition set_recv_queue :: "sqstore \<Rightarrow> SiDaqMngr \<Rightarrow> SiDaqMngr" where
  "set_recv_queue q m = m\<lparr>sock_param := (sock_param m)\<lparr>squeue_list_ptr :=
     map_option (\<lambda>qs. qs[nat (squeue_index (sock_param m)) := q]) (squeue_list_ptr (sock_param m))\<rparr>\<rparr>"

definition event_queue :: "SiDaqMngr \<Rightarrow> sqstore outcome" where
  "event_queue m = (case m_eventFrame m of None \<Rightarrow> Inl Null_deref | Some q \<Rightarrow> Inr q)"

definition framer_of :: "SiDaqMngr \<Rightarrow> SiDaqFramer outcome" where
  "framer_of m = (case m_framer m of None \<Rightarrow> Inl Null_deref | Some fr \<Rightarrow> Inr fr)"

definition SiDaqGetDataCount :: "SiDaqMngr option \<Rightarrow> int outcome" where
  "SiDaqGetDataCount m = (case m of None \<Rightarrow> Inr 0 | Some m \<Rightarrow> obind (recv_queue m) (\<lambda>q. Inr (sq_count q)))"

definition SiDaqGetFrameDataCount :: "SiDaqMngr option \<Rightarrow> int outcome" where
  "SiDaqGetFrameDataCount m = (case m of None \<Rightarrow> Inr 0 | Some m \<Rightarrow> obind (event_queue m) (\<lambda>q. Inr (sq_count q)))"

text \<open>\<open>env\<close> and \<open>timed_out\<close> are those of \<open>SQGet\<close>: what the framer thread does to the queue while
  the caller sleeps, and whether the lock was not obtained in time.\<close>

definition SiDaqGetData :: "(nat \<Rightarrow> sqstore \<Rightarrow> sqstore) \<Rightarrow> bool \<Rightarrow> SiDaqMngr \<Rightarrow> int \<Rightarrow>
    (byte list option \<times> int \<times> SiDaqMngr) outcome" where
  "SiDaqGetData env timed_out m wait_msec =
     obind (event_queue m) (\<lambda>q. obind (SQGet env timed_out wait_msec q) (\<lambda>(p, n, q1).
       Inr (p, n, m\<lparr>m_eventFrame := Some q1\<rparr>)))"

text \<open>\<open>SiDaqDeleteData\<close> gives the block back to the heap of the queue it came from.\<close>

definition SiDaqDeleteData :: "byte list option \<Rightarrow> sqstore \<Rightarrow> sqstore" where
  "SiDaqDeleteData data_ptr q = (case data_ptr of None \<Rightarrow> q | Some _ \<Rightarrow> q\<lparr>quota := quota q + 1\<rparr>)"

section \<open>Pause, resume, stop, reset\<close>

definition SiDaqPauseRecvData :: "SiDaqMngr option \<Rightarrow> SiDaqMngr option" where
  "SiDaqPauseRecvData = map_option (\<lambda>m. if sp_run (sock_param m)
     then m\<lparr>sock_param := (sock_param m)\<lparr>pause_flg := True\<rparr>\<rparr> else m)"

definition SiDaqResumeRecvData :: "SiDaqMngr option \<Rightarrow> SiDaqMngr option" where
  "SiDaqResumeRecvData = map_option (\<lambda>m. if sp_run (sock_param m)
     then m\<lparr>sock_param := (sock_param m)\<lparr>pause_flg := False\<rparr>\<rparr> else m)"

text \<open>The body the two live branches of \<open>SiDaqStop\<close> share.  \<open>SOCKET\<close> is unsigned, so
  \<open>device_socket >= 0\<close> always holds.\<close>

definition stop_socket :: "(sqstore SockThreadLparam \<Rightarrow> sqstore SockThreadLparam) \<Rightarrow> SiDaqMngr \<Rightarrow> SiDaqMngr" where
  "stop_socket wait m = m\<lparr>sock_param := (wait ((sock_param m)\<lparr>sp_run := False\<rparr>))\<lparr>sp_socket := INVALID_SOCKET\<rparr>\<rparr>"

definition SiDaqStop :: "(sqstore SockThreadLparam \<Rightarrow> sqstore SockThreadLparam) \<Rightarrow> SiDaqMngr \<Rightarrow> bool \<times> SiDaqMngr" where
  "SiDaqStop wait m =
     (if status m = SIDAQ_RUN then (True, stop_socket wait (m\<lparr>status := SIDAQ_STOPPING\<rparr>))
      else if status m = SIDAQ_SYS_ERROR then (True, stop_socket wait m)
      else if status m = SIDAQ_IDLE then (True, m)
      else (False, m))"

definition SiDaqResetQueue :: "SiDaqMngr option \<Rightarrow> SiDaqMngr option outcome" where
  "SiDaqResetQueue mo = (case mo of None \<Rightarrow> Inr None | Some m \<Rightarrow>
     if status m = SIDAQ_STOPPING \<or> status m = SIDAQ_SYS_ERROR then
       let m1 = m\<lparr>status := SIDAQ_RESET\<rparr> in
       obind (recv_queue m1) (\<lambda>q. obind (sq_drain (Suc (nat (sq_count q))) q) (\<lambda>q'.
         let m2 = set_recv_queue q' m1 in
         obind (event_queue m2) (\<lambda>e. obind (sq_drain (Suc (nat (sq_count e))) e) (\<lambda>e'.
           Inr (Some (m2\<lparr>m_eventFrame := Some e',
             status := (if status m = SIDAQ_SYS_ERROR then SIDAQ_SYS_ERROR else SIDAQ_IDLE)\<rparr>))))))
     else Inr (Some m))"

end
