(* ===== verification/SiDaq_Api.thy ===== *)
theory SiDaq_Api
  imports SiDaq_Mngr
begin

text \<open>
  The framer thread and the life cycle of a manager (\<open>SiDaqApi.cpp\<close>): register access,
  \<open>SiDaqInitialize\<close>, \<open>SiDaqRun\<close> and \<open>SiDaqTerminate\<close>.
\<close>

section \<open>The framer thread\<close>

text \<open>What a round of the framer thread meets: the environment and the timeout of \<open>SQGet\<close>, the byte
  behind the received block (\<open>None\<close> when it cannot be read), and the socket thread during the wait.\<close>

record framer_env =
  fe_sleep :: "nat \<Rightarrow> sqstore \<Rightarrow> sqstore"
  fe_timed_out :: bool
  fe_past :: "byte option"
  fe_wait :: "sqstore SockThreadLparam \<Rightarrow> sqstore SockThreadLparam"

definition quiet_env :: framer_env where
  "quiet_env = \<lparr>fe_sleep = (\<lambda>_. id), fe_timed_out = False, fe_past = Some 0, fe_wait = id\<rparr>"

text \<open>From the entry to the first test of the loop.\<close>

definition framer_thread_start :: "SiDaqMngr \<Rightarrow> SiDaqMngr outcome" where
  "framer_thread_start m = obind (framer_of m) (\<lambda>fr.
     Inr (m\<lparr>m_framer := Some (fr\<lparr>fr_error_code := framer_code FRAMER_NO_ERROR\<rparr>)\<rparr>))"

definition framer_runs :: "SiDaqMngr \<Rightarrow> bool" where
  "framer_runs m \<longleftrightarrow> status m \<noteq> SIDAQ_IDLE \<and> status m \<noteq> SIDAQ_RESET"

text \<open>A received block: framing, \<open>free\<close>, and the error check.\<close>

definition framer_receive :: "framer_env \<Rightarrow> byte list \<Rightarrow> int \<Rightarrow> SiDaqMngr \<Rightarrow> SiDaqMngr outcome" where
  "framer_receive env byte_data data_size m =
     (if 0 < data_size then
        obind (framer_of m) (\<lambda>fr. obind (event_queue m) (\<lambda>e.
        obind (RecvSiDaqData SQPut (fe_past env) fr byte_data data_size e) (\<lambda>(frame_count, fr1, e1).
          Inr (m\<lparr>m_framer := Some fr1, m_eventFrame := Some e1\<rparr>))))
      else Inr m)"

definition framer_failed :: "SiDaqMngr \<Rightarrow> SiDaqMngr outcome" where
  "framer_failed m = obind (framer_of m) (\<lambda>fr.
     Inr (m\<lparr>m_framer := Some (fr\<lparr>fr_error_flg := -1\<rparr>), status := SIDAQ_SYS_ERROR\<rparr>))"

definition framer_error_check :: "framer_env \<Rightarrow> SiDaqMngr \<Rightarrow> SiDaqMngr outcome" where
  "framer_error_check env m = obind (framer_of m) (\<lambda>fr.
     if fr_error_flg fr = 0 then
       (if fr_error_code fr \<noteq> framer_code FRAMER_NO_ERROR then
          obind (framer_failed m) (\<lambda>m1.
          obind (set_sidaq_error m1 (decode_framer_error (fr_error_code fr))
              (decode_framer_error_string (fr_error_code fr)) 0) (\<lambda>m2.
            Inr (stop_socket (fe_wait env) m2)))
        else if queue_error_code (sock_param m) \<noteq> sockqueue_code SOCKQUEUE_NO_ERROR then
          obind (framer_failed m) (\<lambda>m1.
            set_sidaq_error m1 (decode_sock_queue_error (queue_error_code (sock_param m))) ''Socket Receive Queue Error'' 0)
        else Inr m)
     else Inr m)"

text \<open>The unfinished frame goes out as it is.\<close>

definition put_rest_frame :: "SiDaqMngr \<Rightarrow> SiDaqMngr outcome" where
  "put_rest_frame m = obind (framer_of m) (\<lambda>fr.
     if 0 < fr_rest fr then
       (case fr_buff_ptr fr of None \<Rightarrow> Inl Null_deref | Some b \<Rightarrow>
          obind (event_queue m) (\<lambda>e. obind (SQPut b (fr_rest fr) e) (\<lambda>(_, e1).
            Inr (m\<lparr>m_framer := Some (fr\<lparr>fr_rest := 0\<rparr>), m_eventFrame := Some e1\<rparr>))))
     else Inr m)"

definition is_socket_open :: "SiDaqMngr \<Rightarrow> bool" where
  "is_socket_open m \<longleftrightarrow> sp_socket (sock_param m) \<noteq> INVALID_SOCKET"

text \<open>No data within the waiting time; the flag says that the loop ends.\<close>

definition framer_no_data :: "SiDaqMngr \<Rightarrow> (SiDaqMngr \<times> bool) outcome" where
  "framer_no_data m =
     (if status m = SIDAQ_STOPPING then obind (put_rest_frame m) (\<lambda>m1. Inr (m1, True))
      else if \<not> is_socket_open m then
        obind (framer_of m) (\<lambda>fr.
        obind (if fr_error_flg fr = 0 \<and> queue_error_code (sock_param m) \<noteq> sockqueue_code SOCKQUEUE_NO_ERROR
               then obind (framer_failed m) (\<lambda>m1. set_sidaq_error m1
                 (decode_sock_queue_error (queue_error_code (sock_param m))) ''Socket Receive Queue Error'' 0)
               else Inr m) (\<lambda>m1.
        obind (put_rest_frame m1) (\<lambda>m2. Inr (m2, True))))
      else Inr (m, False))"

text \<open>One round of the loop.\<close>

definition framer_round :: "framer_env \<Rightarrow> SiDaqMngr \<Rightarrow> (SiDaqMngr \<times> bool) outcome" where
  "framer_round env m =
     (if squeue_index (sock_param m) = 0 then
        obind (recv_queue m) (\<lambda>q. obind (SQGet (fe_sleep env) (fe_timed_out env) 50 q) (\<lambda>(byte_data, data_size, q1).
          let m1 = set_recv_queue q1 m in
          case byte_data of
            Some bs \<Rightarrow> obind (framer_receive env bs data_size m1) (\<lambda>m2.
              obind (framer_error_check env (set_recv_queue (q1\<lparr>quota := quota q1 + 1\<rparr>) m2)) (\<lambda>m3. Inr (m3, False)))
          | None \<Rightarrow> framer_no_data m1))
      else Inr (m, False))"

definition framer_exit :: "framer_env \<Rightarrow> SiDaqMngr \<Rightarrow> SiDaqMngr outcome" where
  "framer_exit env m = obind (framer_of m) (\<lambda>fr.
     if fr_error_flg fr < 0 then Inr (snd (SiDaqStop (fe_wait env) m))
     else if status m = SIDAQ_RESET then Inr m
     else Inr (m\<lparr>status := SIDAQ_IDLE\<rparr>))"

text \<open>The thread over a given number of rounds; the flag says that it has returned.\<close>

fun framer_rounds :: "framer_env list \<Rightarrow> SiDaqMngr \<Rightarrow> (SiDaqMngr \<times> bool) outcome" where
  "framer_rounds [] m = Inr (m, False)"
| "framer_rounds (env # envs) m =
     (if framer_runs m then
        obind (framer_round env m) (\<lambda>(m1, ends).
          if ends then obind (framer_exit env m1) (\<lambda>m2. Inr (m2, True)) else framer_rounds envs m1)
      else obind (framer_exit env m) (\<lambda>m1. Inr (m1, True)))"

definition framer_thread :: "framer_env list \<Rightarrow> SiDaqMngr \<Rightarrow> (SiDaqMngr \<times> bool) outcome" where
  "framer_thread envs m = obind (framer_thread_start m) (framer_rounds envs)"

section \<open>Registers\<close>

definition SiDaqRbcpReadBytes :: "'w udp \<Rightarrow> int \<Rightarrow> int \<Rightarrow> SiDaqMngr \<Rightarrow> 'w \<Rightarrow>
    (byte list option \<times> SiDaqMngr \<times> 'w) outcome" where
  "SiDaqRbcpReadBytes net a len m w =
     (case m_sitcp m of None \<Rightarrow> Inr (None, m, w)
      | Some r \<Rightarrow> obind (ReadBytes net (Some (sitcp_register m)) a len r w) (\<lambda>(res, buf, r1, w1).
          let m1 = m\<lparr>m_sitcp := Some r1, sitcp_register := (case buf of Some b \<Rightarrow> b | None \<Rightarrow> sitcp_register m)\<rparr> in
          case res of
            Inr bs \<Rightarrow> Inr (Some bs, m1, w1)
          | Inl e \<Rightarrow> obind (set_sidaq_error m1 (sidaq_code SITCP_WRITE_ERROR) (message e) 0) (\<lambda>m2. Inr (None, m2, w1))))"

definition SiDaqRbcpWriteBytes :: "'w udp \<Rightarrow> byte list option \<Rightarrow> int \<Rightarrow> int \<Rightarrow> SiDaqMngr \<Rightarrow> 'w \<Rightarrow>
    (int \<times> SiDaqMngr \<times> 'w) outcome" where
  "SiDaqRbcpWriteBytes net buffer a len m w =
     (case m_sitcp m of None \<Rightarrow> Inr (-1, m, w)
      | Some r \<Rightarrow> obind (WriteBytes net buffer a len r w) (\<lambda>(res, r1, w1).
          let m1 = m\<lparr>m_sitcp := Some r1\<rparr> in
          case res of
            Inr _ \<Rightarrow> Inr (0, m1, w1)
          | Inl e \<Rightarrow> obind (set_sidaq_error m1 (sidaq_code SITCP_WRITE_ERROR) (message e) 0) (\<lambda>m2. Inr (-1, m2, w1))))"

section \<open>Initialize\<close>

text \<open>Answers of the system to \<open>SiDaqInitialize\<close>: the allocations, \<open>WSAStartup\<close>, and the
  constructor of the register client.  The memory of a queue is the number of blocks its heap holds.\<close>

record init_env =
  ie_mngr_alloc :: bool
  ie_wsa_startup :: int
  ie_wsa_error :: int
  ie_ctor :: "string \<Rightarrow> int \<Rightarrow> (rbcp_exn + unit) \<times> SiTcpRbcp"
  ie_list_alloc :: bool
  ie_lock_ok :: bool
  ie_recv_mem :: nat
  ie_event_mem :: nat

text \<open>The manager right after \<open>malloc\<close>, \<open>memset\<close> and the first assignments.\<close>

definition zero_mngr :: SiDaqMngr where
  "zero_mngr = \<lparr>status = SIDAQ_IDLE, ip_address = '''', tcp_port = 0, udp_port = 0,
     sitcp_register = replicate SiTCP_RBCP_SIZE 0,
     sock_param = \<lparr>sp_run = False, sp_socket = 0, squeue_index = 0, squeue_count = 0, squeue_list_ptr = None,
       sock_stat = \<lparr>tx_bytes = 0, rx_bytes = 0, rx_duration = 0, last_error = 0\<rparr>,
       recv_buf_size = 0, queue_limit = 0, queue_error_code = 0, pause_flg = False\<rparr>,
     sock_thread_made = False, error_code = 0, error_message = '''', m_sitcp = None, m_framer = None,
     framer_thread_made = False, m_reply = None, m_eventFrame = None\<rparr>"

text \<open>The part after the test read: the queues.\<close>

definition make_queues :: "init_env \<Rightarrow> SiDaqMngr \<Rightarrow> SiDaqMngr option outcome" where
  "make_queues ie m =
     (let sp = (sock_param m)\<lparr>sp_run := True, squeue_count := 1, squeue_index := 0\<rparr> in
      if ie_list_alloc ie then
        obind (NewSQueue (ie_lock_ok ie) (ie_recv_mem ie)) (\<lambda>q.
        obind (NewSQueue (ie_lock_ok ie) (ie_event_mem ie)) (\<lambda>e.
          Inr (Some (m\<lparr>sock_param := sp\<lparr>squeue_list_ptr := Some [q]\<rparr>, m_eventFrame := Some e\<rparr>))))
      else Inr None)"

text \<open>An exception of the register client's constructor is not caught: \<open>Inl\<close> of the inner result.\<close>

definition SiDaqInitialize :: "init_env \<Rightarrow> 'w udp \<Rightarrow> string option \<Rightarrow> int \<Rightarrow> int \<Rightarrow> bool \<Rightarrow> int \<Rightarrow> 'w \<Rightarrow>
    ((rbcp_exn + SiDaqMngr option) \<times> int \<times> 'w) outcome" where
  "SiDaqInitialize ie net ip tcp udp not_wsa_cleanup g_wsa_init w =
     (case ip of None \<Rightarrow> Inr (Inr None, g_wsa_init, w)
      | Some addr \<Rightarrow>
        if \<not> ie_mngr_alloc ie then Inr (Inr None, g_wsa_init, w)
        else obind (set_sidaq_error zero_mngr (sidaq_code SIDAQ_NO_ERROR) SYS_ERR_NO_ERROR 0) (\<lambda>m0.
        if \<not> length addr < SiDAQ_HOST_NAME_MAX then Inl Assert_failed
        else let m1 = m0\<lparr>ip_address := addr, status := SIDAQ_IDLE, tcp_port := tcp, udp_port := udp\<rparr>;
                 starts = (\<not> not_wsa_cleanup \<and> g_wsa_init = 0);
                 g1 = (if starts then g_wsa_init + 1 else g_wsa_init)
          in if starts \<and> ie_wsa_startup ie \<noteq> 0 then
               obind (set_sidaq_error (m1\<lparr>status := SIDAQ_SYS_ERROR\<rparr>) (sidaq_code SIDAQ_NO_ERROR)
                   SYS_ERR_SOCK_INIT (ie_wsa_error ie)) (\<lambda>m2. Inr (Inr (Some m2), g_wsa_init, w))
             else case ie_ctor ie addr (udp mod 2 ^ 16) of
               (Inl e, _) \<Rightarrow> Inr (Inl e, g1, w)
             | (Inr _, r) \<Rightarrow>
                 obind (SiDaqRbcpReadBytes net SiTCP_REG_AREA_ADDRESS SiTCP_RBCP_REG_LENGTH
                     (m1\<lparr>m_sitcp := Some r, sitcp_register := replicate SiTCP_RBCP_SIZE 0\<rparr>) w) (\<lambda>(rd, m2, w1).
                   case rd of
                     None \<Rightarrow> obind (set_sidaq_error (m2\<lparr>m_sitcp := None, status := SIDAQ_SYS_ERROR\<rparr>)
                         (sidaq_code SIDAQ_INITIAL_CONNECT_FAILED) SYS_ERR_IVALID_ADDR 0) (\<lambda>m3. Inr (Inr (Some m3), g1, w1))
                   | Some _ \<Rightarrow> obind (make_queues ie m2) (\<lambda>mo. Inr (Inr mo, g1, w1)))))"

section \<open>Run\<close>

text \<open>Answers of the system to \<open>SiDaqRun\<close>.  \<open>re_pResult\<close>: the variable \<open>pResult\<close> is not NULL after
  \<open>getaddrinfo\<close>; when that call failed the code frees what it finds there.\<close>

record run_env =
  re_socket :: int
  re_error :: int   \<comment> \<open>\<open>WSAGetLastError()\<close>\<close>
  re_inet_pton :: int
  re_getaddrinfo :: int
  re_pResult :: bool
  re_connect :: int
  re_setsockopt :: int
  re_threads :: bool   \<comment> \<open>\<open>CreateThread\<close> succeeds\<close>
  re_lock_ok :: bool
  re_reply_mem :: nat
  re_framer_alloc :: bool
  re_buff_alloc :: bool

record run_args =
  ra_lengthFunc :: "length_func option"
  ra_header_len :: int
  ra_fixed_frame_len :: int
  ra_rcv_buf_bytes :: int
  ra_recv_queue_limit :: int
  ra_frame_queue_limit :: int
  ra_max_recv_buff :: int
  ra_max_frame_len :: int

text \<open>The default arguments of the header.\<close>

definition default_args :: run_args where
  "default_args = \<lparr>ra_lengthFunc = None, ra_header_len = 0, ra_fixed_frame_len = 0, ra_rcv_buf_bytes = -1,
     ra_recv_queue_limit = 0, ra_frame_queue_limit = 0, ra_max_recv_buff = DEFAULT_RECV_BUFF_SIZE,
     ra_max_frame_len = DEFAULT_MAX_FRAME_LEN\<rparr>"

definition to_sys_error :: "SiDaqMngr \<Rightarrow> SiDaqMngr" where
  "to_sys_error m = m\<lparr>status := SIDAQ_SYS_ERROR\<rparr>"

text \<open>The error branches: error code, message, socket error, status.\<close>

definition run_fails :: "int \<Rightarrow> string \<Rightarrow> SiDaqMngr \<Rightarrow> (SiDaqMngr \<times> int option) outcome" where
  "run_fails err msg m = obind (set_sidaq_error m (sidaq_code WINSOCK_ERROR) msg err) (\<lambda>m1.
     Inr (to_sys_error (socket_error err m1), None))"

text \<open>Up to the socket options; \<open>Some\<close> socket goes on, \<open>None\<close> returns the status.\<close>

definition run_connect :: "run_env \<Rightarrow> run_args \<Rightarrow> SiDaqMngr \<Rightarrow> (SiDaqMngr \<times> int option) outcome" where
  "run_connect re ra m =
     obind (set_sidaq_error m (sidaq_code SIDAQ_NO_ERROR) SYS_ERR_NO_ERROR 0) (\<lambda>m0.
     if ra_max_frame_len ra \<le> ra_header_len ra then
       obind (set_sidaq_error m0 (sidaq_code SIDAQ_INVALID_PARAMETER) ''INVALID_HEADER_LENGTH'' 0) (\<lambda>m1.
         Inr (to_sys_error m1, None))
     else if re_socket re = INVALID_SOCKET then run_fails (re_error re) (decode_error (re_error re)) m0
     else if re_inet_pton re \<noteq> 1 \<and> re_getaddrinfo re \<noteq> 0 then
       (if re_pResult re then Inl Use_after_free else run_fails (re_error re) (decode_error (re_error re)) m0)
     else if re_inet_pton re \<noteq> 1 \<and> \<not> re_pResult re then run_fails (re_error re) ''Invalid IP Address'' m0
     else if re_connect re \<noteq> 0 \<and> re_error re \<noteq> WSAEWOULDBLOCK then
       obind (set_sidaq_error m0 (sidaq_code WINSOCK_ERROR) (decode_error (re_error re)) 0) (\<lambda>m1.
         Inr (to_sys_error (socket_error (re_error re) m1), None))
     else if 0 \<le> ra_rcv_buf_bytes ra \<and> re_setsockopt re < 0 then
       obind (set_sidaq_error m0 (sidaq_code WINSOCK_ERROR) (decode_error (re_error re)) (re_error re)) (\<lambda>m1.
         Inr (to_sys_error m1, None))
     else Inr (m0, Some (re_socket re)))"

text \<open>The socket thread's parameters and start.\<close>

definition run_socket_thread :: "run_env \<Rightarrow> run_args \<Rightarrow> int \<Rightarrow> SiDaqMngr \<Rightarrow> SiDaqMngr" where
  "run_socket_thread re ra device_socket m =
     m\<lparr>sock_param := (sock_param m)\<lparr>sp_socket := device_socket, sp_run := True,
         recv_buf_size := ra_max_recv_buff ra, queue_limit := ra_recv_queue_limit ra,
         queue_error_code := sockqueue_code SOCKQUEUE_NO_ERROR\<rparr>,
       sock_thread_made := re_threads re\<rparr>"

text \<open>The reply queue, the framer's configuration, and the start of the framer thread.\<close>

definition run_framer :: "run_env \<Rightarrow> run_args \<Rightarrow> SiDaqMngr \<Rightarrow> SiDaqMngr outcome" where
  "run_framer re ra m =
     obind (case m_reply m of Some q \<Rightarrow> Inr q | None \<Rightarrow> NewSQueue (re_lock_ok re) (re_reply_mem re)) (\<lambda>reply.
     let fro = (case m_framer m of Some fr \<Rightarrow> Some fr | None \<Rightarrow> NewSiDaqFramer (re_framer_alloc re) (re_buff_alloc re)) in
     obind (case fro of None \<Rightarrow> Inl Null_deref | Some fr \<Rightarrow> Inr fr) (\<lambda>fr.
       Inr (m\<lparr>m_reply := Some reply,
          m_framer := Some (configure_framer (ra_lengthFunc ra) (ra_header_len ra) (ra_fixed_frame_len ra)
            (ra_frame_queue_limit ra) (ra_max_frame_len ra) fr),
          framer_thread_made := re_threads re\<rparr>)))"

text \<open>The status is set after both threads have been started.\<close>

definition run_finish :: "SiDaqMngr \<Rightarrow> SiDaqMngr" where
  "run_finish m = m\<lparr>status := SIDAQ_RUN\<rparr>"

definition SiDaqRun :: "run_env \<Rightarrow> run_args \<Rightarrow> SiDaqMngr \<Rightarrow> int \<Rightarrow> (SiDaqStatus \<times> SiDaqMngr \<times> int) outcome" where
  "SiDaqRun re ra m g_wsa_init =
     obind (run_connect re ra m) (\<lambda>(m1, so). case so of
       None \<Rightarrow> Inr (status m1, m1, g_wsa_init)
     | Some device_socket \<Rightarrow>
         obind (run_framer re ra (run_socket_thread re ra device_socket m1)) (\<lambda>m2.
           let m3 = run_finish m2 in Inr (status m3, m3, g_wsa_init + 1)))"

section \<open>Terminate\<close>

fun delete_queues :: "nat \<Rightarrow> sqstore list option \<Rightarrow> sqstore list outcome" where
  "delete_queues 0 qs = Inr []"
| "delete_queues (Suc n) None = Inl Null_deref"
| "delete_queues (Suc n) (Some []) = Inl Out_of_bounds"
| "delete_queues (Suc n) (Some (q # qs)) =
     obind (DeleteSQueue q) (\<lambda>q1. obind (delete_queues n (Some qs)) (\<lambda>rest. Inr (q1 # rest)))"

definition delete_queue_opt :: "sqstore option \<Rightarrow> sqstore list outcome" where
  "delete_queue_opt qo = (case qo of None \<Rightarrow> Inr [] | Some q \<Rightarrow> obind (DeleteSQueue q) (\<lambda>q1. Inr [q1]))"

text \<open>What \<open>SiDaqTerminate\<close> leaves behind: the initialisation count, whether \<open>WSACleanup\<close> was called,
  the heaps of the deleted queues, the framer's blocks freed, and the register client after its
  destructor.\<close>

definition SiDaqTerminate :: "(sqstore SockThreadLparam \<Rightarrow> sqstore SockThreadLparam) \<Rightarrow> SiDaqMngr option \<Rightarrow> bool \<Rightarrow> int \<Rightarrow>
    (int \<times> bool \<times> sqstore list \<times> nat \<times> SiTcpRbcp option) outcome" where
  "SiDaqTerminate wait mo notWSACleanup g_wsa_init =
     (case mo of None \<Rightarrow> Inr (g_wsa_init, False, [], 0, None)
      | Some m0 \<Rightarrow>
        let m = snd (SiDaqStop wait m0);
            g1 = (if 0 < g_wsa_init then g_wsa_init - 1 else g_wsa_init);
            cleanup = (0 < g_wsa_init \<and> g1 = 0 \<and> \<not> notWSACleanup)
        in obind (delete_queues (nat (squeue_count (sock_param m))) (squeue_list_ptr (sock_param m))) (\<lambda>recvs.
           obind (delete_queue_opt (m_reply m)) (\<lambda>replies.
           obind (delete_queue_opt (m_eventFrame m)) (\<lambda>events.
             Inr (g1, cleanup, recvs @ replies @ events, DellSiDaqFramer (m_framer m),
               map_option SiTcpRbcp_dtor (m_sitcp m))))))"

end
