(* ===== verification/Framer_Rest.thy ===== *)
theory Framer_Rest
  imports Framer
begin

text \<open>
  \<open>RecvSiDaqData\<close> when the framer holds the start of a frame: the buffer is filled up, the frame in it is cut, and the
  loop goes on behind it.  The result for a whole call, for every length function: no byte is lost, doubled or
  moved (\<open>outcome_of\<close>).
\<close>

section \<open>Completing the frame in the buffer\<close>

text \<open>Length selection by the header or by the fixed length, not by the chunk.\<close>

definition keyed :: "SiDaqFramer \<Rightarrow> bool" where
  "keyed fr \<longleftrightarrow> (fr_lengthFunc fr \<noteq> None \<and> fr_header_len fr \<noteq> 0) \<or> fr_fixed_frame_len fr \<noteq> 0"

definition head_event :: "SiDaqFramer \<Rightarrow> byte list \<Rightarrow> int" where
  "head_event fr bs = event_length fr (take (nat (fr_header_len fr)) bs) (fr_header_len fr)"

lemma event_length_keyed:
  assumes "framer_ok fr" "fr_header_len fr \<le> int (length bs)" "length bs < 2 ^ 31"
  shows "event_length fr bs (int (length bs)) = (if keyed fr then head_event fr bs else int (length bs))"
proof -
  have u: "u32 (int (length bs)) = int (length bs)" "u32 (fr_header_len fr) = fr_header_len fr"
    using assms by (auto intro!: u32_id simp: framer_ok_def)
  have "fr_lengthFunc fr = Some f \<Longrightarrow> f bs (int (length bs)) (fr_header_len fr) =
      f (take (nat (fr_header_len fr)) bs) (fr_header_len fr) (fr_header_len fr)" for f
    using assms by (auto simp: framer_ok_def header_only_def)
  with u show ?thesis by (auto simp: event_length_def keyed_def head_event_def split: option.split)
qed

lemma head_event_append:
  "0 \<le> fr_header_len fr \<Longrightarrow> fr_header_len fr \<le> int (length bs) \<Longrightarrow> head_event fr (bs @ ds) = head_event fr bs"
  by (simp add: head_event_def)

text \<open>The framer after the \<open>memcpy\<close> of as much of the chunk as the buffer takes.\<close>

definition room_for :: "SiDaqFramer \<Rightarrow> byte list \<Rightarrow> nat" where
  "room_for fr data = min (length data) (nat (fr_buff_size fr - fr_rest fr))"

definition refill :: "byte list \<Rightarrow> SiDaqFramer \<Rightarrow> SiDaqFramer" where
  "refill data fr = fr\<lparr>fr_buff_ptr :=
     Some (write_at (nat (fr_rest fr)) (take (room_for fr data) data) (buff_bytes fr))\<rparr>"

definition front :: "SiDaqFramer \<Rightarrow> byte list \<Rightarrow> byte list" where
  "front fr data = pending fr @ take (room_for fr data) data"

lemma refill_props:
  assumes ok: "framer_ok fr"
  shows "framer_ok (refill data fr)" "same_config fr (refill data fr)" "fr_rest (refill data fr) = fr_rest fr"
    "take (length (front fr data)) (buff_bytes (refill data fr)) = front fr data"
    "fr_error_code (refill data fr) = fr_error_code fr" "fr_buff_size (refill data fr) = fr_buff_size fr"
    "int (length (front fr data)) = fr_rest fr + int (room_for fr data)"
    "int (length (front fr data)) \<le> fr_buff_size fr"
    "buff_write (nat (fr_rest fr)) (take (room_for fr data) data) fr = Inr (refill data fr)"
proof -
  have r: "0 \<le> fr_rest fr" "fr_rest fr \<le> fr_buff_size fr" "int (length (buff_bytes fr)) = fr_buff_size fr"
    "fr_buff_ptr fr = Some (buff_bytes fr)"
    using ok by (auto simp: framer_ok_def buff_bytes_def)
  have rl: "room_for fr data \<le> length data" by (simp add: room_for_def)
  have fit: "nat (fr_rest fr) + length (take (room_for fr data) data) \<le> length (buff_bytes fr)"
    using r by (auto simp: room_for_def)
  show "framer_ok (refill data fr)"
    using framer_ok_buf [OF ok length_write_at [OF fit] r(1,2)] by (simp add: refill_def)
  show "same_config fr (refill data fr)" "fr_rest (refill data fr) = fr_rest fr"
    "fr_error_code (refill data fr) = fr_error_code fr" "fr_buff_size (refill data fr) = fr_buff_size fr"
    by (simp_all add: refill_def same_config_def)
  show l: "int (length (front fr data)) = fr_rest fr + int (room_for fr data)"
    using length_pending [OF ok] rl by (simp add: front_def)
  show "int (length (front fr data)) \<le> fr_buff_size fr" using l r by (auto simp: room_for_def)
  have "length (front fr data) = nat (fr_rest fr) + length (take (room_for fr data) data)"
    using l rl r(1) by simp
  from take_write_at_n [OF fit this]
  show "take (length (front fr data)) (buff_bytes (refill data fr)) = front fr data"
    by (simp add: refill_def buff_bytes_def front_def pending_def)
  show "buff_write (nat (fr_rest fr)) (take (room_for fr data) data) fr = Inr (refill data fr)"
    using fit r(4) by (simp add: buff_write_def refill_def)
qed

text \<open>A frame that is completed is at least as long as what the buffer held.\<close>

lemma cut_front_keyed:
  assumes ok: "framer_ok fr" and c: "cut fr (pending fr) = (fr, m)" "fr_rest fr < m" and r: "0 < fr_rest fr"
    and h: "fr_header_len fr \<le> fr_rest fr"
  shows "event_length (refill data fr) (front fr data) (int (length (front fr data))) + fr_header_len fr =
    (if keyed fr then m else int (length (front fr data)) + fr_header_len fr)"
proof -
  note rp = refill_props [OF ok, of data]
  have p: "pending fr \<noteq> []" "length (pending fr) < 2 ^ 31" "int (length (pending fr)) = fr_rest fr"
    using length_pending [OF ok] r ok by (auto simp: framer_ok_def)
  have hl: "fr_header_len fr \<le> int (length (pending fr))" "0 \<le> fr_header_len fr" using h p ok by (auto simp: framer_ok_def)
  have me: "m = event_length fr (pending fr) (int (length (pending fr))) + fr_header_len fr"
    by (cases rule: cut_cases [OF ok p(1,2) c(1)]) (use c(2) p(3) in auto)
  have sc: "fr_header_len (refill data fr) = fr_header_len fr" "keyed (refill data fr) = keyed fr"
    "head_event (refill data fr) = head_event fr"
    using rp(2) same_config_event [OF rp(2)] by (auto simp: same_config_def keyed_def head_event_def)
  have fl: "fr_header_len (refill data fr) \<le> int (length (front fr data))" "length (front fr data) < 2 ^ 31"
    using rp(7,8) hl p sc(1) ok by (simp_all add: framer_ok_def)
  have "head_event fr (front fr data) = head_event fr (pending fr)"
    using head_event_append [OF hl(2,1)] by (simp add: front_def)
  then show ?thesis using me event_length_keyed [OF rp(1) fl] event_length_keyed [OF ok hl(1) p(2)] sc by simp
qed

lemma cut_front_ge:
  assumes ok: "framer_ok fr" and ro: "rest_ok fr" "0 < fr_rest fr"
    and c: "cut (refill data fr) (front fr data) = (fr2, n)"
  shows "fr_rest fr \<le> n"
proof -
  note rp = refill_props [OF ok, of data]
  have ne: "front fr data \<noteq> []" and lt: "length (front fr data) < 2 ^ 31"
    using rp(7,8) ro(2) ok by (auto simp: framer_ok_def)
  have ln: "fr_rest fr \<le> int (length (front fr data))" using rp(7) by simp
  have hl: "fr_header_len (refill data fr) = fr_header_len fr" "0 \<le> fr_header_len fr"
    using rp(2) ok by (auto simp: same_config_def framer_ok_def)
  show ?thesis
  proof (cases rule: cut_cases [OF rp(1) ne lt c])
    case 1
    show ?thesis
    proof (cases "fr_rest fr < fr_header_len fr")
      case True
      with 1 hl show ?thesis by linarith
    next
      case False
      with ro obtain m where m: "cut fr (pending fr) = (fr, m)" "fr_rest fr < m" by (auto simp: rest_ok_def)
      from cut_front_keyed [OF ok m ro(2), of data] False 1(2) hl m(2) ln show ?thesis by (simp split: if_splits)
    qed
  next
    case 2
    with ln show ?thesis by simp
  qed
qed

lemma recv_rest_unfold:
  assumes ok: "framer_ok fr" and d: "length data < 2 ^ 31" and r: "0 < fr_rest fr"
    and c: "cut (refill data fr) (front fr data) = (fr2, n)"
  shows "recv_rest sqput fr data (int (length data)) q =
    (if n \<le> int (length (front fr data)) then
       obind (sqput (buff_bytes fr2) n q) (\<lambda>(cnt, q1).
         if cnt < 0 then Inr (Inl (-1, set_error FRAMER_MEMORY_ALLOCATED_FAILED fr2, q1))
         else let fr3 = (if limit_hit fr2 cnt then set_error FRAMER_EXCEED_FRAME_QUEUE_COUNT fr2 else fr2);
                  k = i32 (n - fr_rest fr3)
           in if k < int (length data) then
                (if k < 0 then Inl Out_of_bounds
                 else Inr (Inr (1, Some (drop (nat k) data), i32 (int (length data) - k), fr3\<lparr>fr_rest := 0\<rparr>, q1)))
              else Inr (Inr (1, None, 0, fr3\<lparr>fr_rest := 0\<rparr>, q1)))
     else Inr (Inr (0, None, 0, fr2\<lparr>fr_rest := int (length (front fr data))\<rparr>, q)))"
proof -
  note rp = refill_props [OF ok, of data]
  have ne: "front fr data \<noteq> []" and lt: "length (front fr data) < 2 ^ 31"
    using rp(7,8) r ok by (auto simp: framer_ok_def)
  have nb: "i32 n = n" using cut_bounds [OF rp(1) ne lt c] by (intro i32_id) auto
  have rm: "(if int (length data) < fr_buff_size fr - fr_rest fr then int (length data)
      else fr_buff_size fr - fr_rest fr) = int (room_for fr data)" "\<not> fr_buff_size fr - fr_rest fr < 0"
    "\<not> int (length data) < int (room_for fr data)"
    using ok by (auto simp: room_for_def framer_ok_def)
  have bl: "fr_rest (refill data fr) + int (room_for fr data) = int (length (front fr data))"
    using rp(3,7) by simp
  obtain ev where ev: "check_length (refill data fr)
      (event_length (refill data fr) (front fr data) (int (length (front fr data)))) (int (length (front fr data)))
      = (fr2, ev)" "n = ev + fr_header_len fr2"
    using c by (auto simp: cut_def Let_def split: prod.splits)
  show ?thesis
    unfolding recv_rest_def Let_def rm(1) nat_int
    using rm(2,3) rp(4,9) bl ev nb by (simp add: Let_def cong: if_cong)
qed

text \<open>What is in the buffer when a frame is cut from it, and the frame in terms of the chunk.\<close>

lemma cut_buffer:
  assumes ok: "framer_ok fr" and r: "0 < fr_rest fr" and c: "cut (refill data fr) (front fr data) = (fr2, n)"
    and n: "n \<le> int (length (front fr data))"
  shows "take (nat n) (buff_bytes fr2) = take (nat n) (front fr data)" "n \<le> int (length (buff_bytes fr2))"
    "fr_rest fr2 = fr_rest fr"
proof -
  note rp = refill_props [OF ok, of data]
  have ne: "front fr data \<noteq> []" "length (front fr data) < 2 ^ 31" using rp(7,8) r ok by (auto simp: framer_ok_def)
  have ss: "fr_rest fr2 = fr_rest fr" "buff_bytes fr2 = buff_bytes (refill data fr)"
    using cut_bounds(5) [OF rp(1) ne c] rp(3) by (auto simp: same_state_def buff_bytes_def)
  have "take (nat n) (buff_bytes fr2) = take (nat n) (take (length (front fr data)) (buff_bytes fr2))"
    using n by (simp add: min_absorb1)
  then show "take (nat n) (buff_bytes fr2) = take (nat n) (front fr data)" unfolding ss(2) rp(4) .
  have "length (front fr data) \<le> length (buff_bytes fr2)"
    using rp(4) ss(2) by (metis length_take min.cobounded1 min_def take_all_iff nle_le)
  then show "n \<le> int (length (buff_bytes fr2))" using n by simp
  show "fr_rest fr2 = fr_rest fr" by (rule ss(1))
qed

lemma take_front:
  assumes ok: "framer_ok fr" and n: "fr_rest fr \<le> n" "n \<le> int (length (front fr data))"
  shows "take (nat n) (front fr data) = pending fr @ take (nat (n - fr_rest fr)) data" "n - fr_rest fr \<le> int (length data)"
proof -
  have k: "n - fr_rest fr \<le> int (room_for fr data)" using n refill_props(7) [OF ok, of data] by simp
  then have "nat n - length (pending fr) = nat (n - fr_rest fr)" "length (pending fr) \<le> nat n"
    "nat (n - fr_rest fr) \<le> room_for fr data" using length_pending [OF ok] n(1) by linarith+
  then show "take (nat n) (front fr data) = pending fr @ take (nat (n - fr_rest fr)) data"
    by (simp add: front_def min_absorb1)
  show "n - fr_rest fr \<le> int (length data)" using k by (simp add: room_for_def)
qed

context byte_sink
begin

lemma recv_rest_done:
  assumes ok: "framer_ok fr" and d: "length data < 2 ^ 31" and r: "0 < fr_rest fr" "rest_ok fr"
    and c: "cut (refill data fr) (front fr data) = (fr2, n)" and n: "n \<le> int (length (front fr data))"
    and q: "qinv q" "0 < room q"
  shows "\<exists>cnt q1 rd len fr4. recv_rest put fr data (int (length data)) q = Inr (Inr (1, rd, len, fr4, q1)) \<and>
    qinv q1 \<and> frames q1 = frames q @ [take (nat n) (front fr data)] \<and> room q - 1 \<le> room q1 \<and>
    framer_ok fr4 \<and> fr_rest fr4 = 0 \<and> same_config fr2 fr4 \<and>
    (\<not> limit_hit fr2 cnt \<longrightarrow> fr_error_code fr4 = fr_error_code fr2) \<and>
    take (nat n) (front fr data) @ (case rd of None \<Rightarrow> [] | Some bs \<Rightarrow> bs) = pending fr @ data \<and>
    (case rd of None \<Rightarrow> len = 0 | Some bs \<Rightarrow> bs \<noteq> [] \<and> len = int (length bs) \<and> length bs \<le> length data)"
proof -
  note rp = refill_props [OF ok, of data] and cb = cut_buffer [OF ok r(1) c n]
  have ne: "front fr data \<noteq> []" "length (front fr data) < 2 ^ 31" using rp(7,8) r ok by (auto simp: framer_ok_def)
  note b = cut_bounds [OF rp(1) ne c]
  have ge: "fr_rest fr \<le> n" using cut_front_ge [OF ok r(2,1) c] .
  obtain cnt q1 where q1: "put (buff_bytes fr2) n q = Inr (cnt, q1)" "qinv q1"
    "frames q1 = frames q @ [take (nat n) (front fr data)]" "room q - 1 \<le> room q1" and cnt: "0 \<le> cnt"
    using put_sink [OF q _ cb(2)] b(1) cb(1) by auto
  let ?fr3 = "if limit_hit fr2 cnt then set_error FRAMER_EXCEED_FRAME_QUEUE_COUNT fr2 else fr2"
  let ?fr4 = "?fr3\<lparr>fr_rest := 0\<rparr>" and ?k = "n - fr_rest fr"
  have f3: "fr_rest ?fr3 = fr_rest fr" "framer_ok ?fr4" "same_config fr2 ?fr4"
    "\<not> limit_hit fr2 cnt \<longrightarrow> fr_error_code ?fr4 = fr_error_code fr2"
    using b(4) cb(3) by (auto simp: set_error_def framer_ok_def buff_bytes_def header_only_def same_config_def)
  have kb: "0 \<le> ?k" "?k < 2 ^ 31" using ge b(3) r(1) by auto
  have ki: "i32 ?k = ?k" "?k < int (length data) \<Longrightarrow> i32 (int (length data) - ?k) = int (length data) - ?k"
    using kb d by (auto intro!: i32_id)
  note fk = take_front [OF ok ge n]
  have run: "recv_rest put fr data (int (length data)) q =
      (if ?k < int (length data) then Inr (Inr (1, Some (drop (nat ?k) data), int (length data) - ?k, ?fr4, q1))
       else Inr (Inr (1, None, 0, ?fr4, q1)))"
    using n q1(1) cnt ki kb(1) f3(1) by (simp add: recv_rest_unfold [OF ok d r(1) c] Let_def)
  show ?thesis
  proof (cases "?k < int (length data)")
    case True
    then have "drop (nat ?k) data \<noteq> []" "int (length data) - ?k = int (length (drop (nat ?k) data))" using kb by auto
    then show ?thesis using run True q1(2-4) f3(2-4) fk(1) by fastforce
  next
    case False
    then have "take (nat ?k) data = data" using kb by simp
    then show ?thesis using run False q1(2-4) f3(2-4) fk(1) by fastforce
  qed
qed

lemma recv_rest_more:
  assumes ok: "framer_ok fr" and d: "length data < 2 ^ 31" and r: "0 < fr_rest fr"
    and c: "cut (refill data fr) (front fr data) = (fr2, n)" and n: "int (length (front fr data)) < n"
  shows "\<exists>fr4. recv_rest sqput fr data (int (length data)) q = Inr (Inr (0, None, 0, fr4, q)) \<and>
    framer_ok fr4 \<and> pending fr4 = pending fr @ data \<and> rest_ok fr4 \<and> same_config fr fr4 \<and>
    fr_error_code fr4 = fr_error_code fr"
proof -
  note rp = refill_props [OF ok, of data]
  have ne: "front fr data \<noteq> []" and lt: "length (front fr data) < 2 ^ 31"
    using rp(7,8) r ok by (auto simp: framer_ok_def)
  have g: "fr2 = refill data fr" "n \<le> fr_max_frame_len (refill data fr)"
    by (cases rule: cut_cases [OF rp(1) ne lt c]; use n in simp)+
  have "fr_max_frame_len (refill data fr) \<le> fr_buff_size fr" using rp(1,6) by (simp add: framer_ok_def)
  then have "int (length (front fr data)) < fr_buff_size fr" using g(2) n by simp
  then have all: "room_for fr data = length data" using rp(7) by (auto simp: room_for_def min_def split: if_splits)
  then have fd: "front fr data = pending fr @ data" by (simp add: front_def)
  let ?fr4 = "(refill data fr)\<lparr>fr_rest := int (length (front fr data))\<rparr>"
  have f4: "framer_ok ?fr4" "same_config (refill data fr) ?fr4" "pending ?fr4 = front fr data"
    using rp(1,4,6,8) by (auto simp: framer_ok_def buff_bytes_def header_only_def same_config_def pending_def)
  have "cut ?fr4 (front fr data) = (?fr4, n)"
    using same_config_cut [OF f4(2) _ rp(1) ne lt] c g(1) n by auto
  then have "rest_ok ?fr4" using f4(3) n by (auto simp: rest_ok_def)
  moreover have "recv_rest sqput fr data (int (length data)) q = Inr (Inr (0, None, 0, ?fr4, q))"
    using recv_rest_unfold [OF ok d r c] n g(1) by simp
  moreover have "same_config fr ?fr4" "fr_error_code ?fr4 = fr_error_code fr"
    using same_config_trans [OF rp(2) f4(2)] rp(5) by simp_all
  ultimately show ?thesis using f4 fd by auto
qed

end

section \<open>Conservation\<close>

lemma rest_ok_0 [simp]: "fr_rest fr = 0 \<Longrightarrow> rest_ok fr"
  by (simp add: rest_ok_def)

lemma pending_0 [simp]: "fr_rest fr = 0 \<Longrightarrow> pending fr = []"
  by (simp add: pending_def)

context byte_sink
begin

text \<open>After the frame in the buffer, a loop over the rest of the chunk.\<close>

lemma recv_after_rest:
  assumes run: "recv_rest put fr data (int (length data)) q = Inr (Inr (1, rd, len, fr4, q1))" and r: "0 < fr_rest fr"
    and f: "framer_ok fr4" "fr_rest fr4 = 0" "0 \<le> fr_queue_limit fr4"
    and rd: "case rd of None \<Rightarrow> len = 0 | Some bs \<Rightarrow> bs \<noteq> [] \<and> len = int (length bs) \<and> length bs \<le> length data"
    and q: "qinv q1" "length data \<le> room q1" and d: "length data < 2 ^ 31"
  shows "outcome_of (fr_queue_limit fr4) q1 1 (case rd of None \<Rightarrow> [] | Some bs \<Rightarrow> bs)
    (RecvSiDaqData put (Some past) fr data (int (length data)) q)"
proof (cases rd)
  case None
  then show ?thesis using run r rd outcome_of_kept [OF q(1) f(1), of "[]" 1] f(2) by (simp add: RecvSiDaqData_def)
next
  case (Some bs)
  then have bs: "bs \<noteq> []" "len = int (length bs)" "length bs \<le> length data" using rd by auto
  have "length bs < 2 ^ 31" "length bs \<le> room q1" "length bs < Suc (nat len)" using bs d q(2) by linarith+
  from recv_loop_runs [OF q(1) f this, of 1 past] show ?thesis using run r Some bs(2) by (simp add: RecvSiDaqData_def)
qed

lemma recv_runs:
  assumes q: "qinv q" "length (pending fr) + length data \<le> room q"
    and ok: "framer_ok fr" "rest_ok fr" "0 \<le> fr_queue_limit fr" and d: "length data < 2 ^ 31"
  shows "outcome_of (fr_queue_limit fr) q 0 (pending fr @ data) (RecvSiDaqData put (Some past) fr data (int (length data)) q)"
proof (cases "0 < fr_rest fr")
  case False
  then have r: "fr_rest fr = 0" using ok(1) by (simp add: framer_ok_def)
  from q(2) have rm: "length data \<le> room q" by simp
  from recv_loop_runs [OF q(1) ok(1) r ok(3) d rm, of "Suc (length data)" 0 past] r
  show ?thesis by (simp add: RecvSiDaqData_def)
next
  case True
  obtain fr2 n where c: "cut (refill data fr) (front fr data) = (fr2, n)" by force
  let ?res = "RecvSiDaqData put (Some past) fr data (int (length data)) q" and ?f = "take (nat n) (front fr data)"
  show ?thesis
  proof (cases "n \<le> int (length (front fr data))")
    case le: True
    have pl: "0 < length (pending fr)" using length_pending [OF ok(1)] True by linarith
    then have rm: "0 < room q" using q(2) by linarith
    have ne: "front fr data \<noteq> []" "length (front fr data) < 2 ^ 31"
      using refill_props(7,8) [OF ok(1), of data] True ok(1) by (auto simp: framer_ok_def)
    note b = cut_bounds [OF refill_props(1) [OF ok(1)] ne c]
    from recv_rest_done [OF ok(1) d True ok(2) c le q(1) rm] obtain q1 rd len fr4 where
      run: "recv_rest put fr data (int (length data)) q = Inr (Inr (1, rd, len, fr4, q1))"
      and q1: "qinv q1" "frames q1 = frames q @ [?f]" "room q - 1 \<le> room q1"
      and f4: "framer_ok fr4" "fr_rest fr4 = 0" "same_config fr2 fr4"
      and cc: "?f @ (case rd of None \<Rightarrow> [] | Some bs \<Rightarrow> bs) = pending fr @ data" (is "_ @ ?bs = _")
      and rd: "case rd of None \<Rightarrow> len = 0 | Some bs \<Rightarrow> bs \<noteq> [] \<and> len = int (length bs) \<and> length bs \<le> length data"
      by blast
    have lim: "fr_queue_limit fr4 = fr_queue_limit fr" "0 \<le> fr_queue_limit fr4"
      using b(5) refill_props(2) [OF ok(1), of data] f4(3) ok(3) by (simp_all add: same_state_def same_config_def)
    have "?f \<noteq> []" using b(1) ne(1) by auto
    moreover have "length data \<le> room q1" using q(2) q1(3) pl by linarith
    from recv_after_rest [OF run True f4(1,2) lim(2) rd q1(1) this d, of past]
    have "outcome_of (fr_queue_limit fr) q1 (0 + 1) (drop (length ?f) (?f @ ?bs)) ?res" using lim(1) by simp
    ultimately have "outcome_of (fr_queue_limit fr) q 0 (?f @ ?bs) ?res"
      using outcome_of_put [of "fr_queue_limit fr" q1 0 "length ?f" "?f @ ?bs" ?res q] q1(2,3)
      by (metis append_eq_conv_conj)
    then show ?thesis unfolding cc .
  next
    case False
    then have "int (length (front fr data)) < n" by simp
    from recv_rest_more [OF ok(1) d True c this, of put q] obtain fr4 where
      "recv_rest put fr data (int (length data)) q = Inr (Inr (0, None, 0, fr4, q))"
      "framer_ok fr4" "pending fr4 = pending fr @ data" "rest_ok fr4" "same_config fr fr4" by blast
    then show ?thesis using outcome_of_kept [OF q(1), of fr4 "pending fr @ data" 0] True
      by (simp add: RecvSiDaqData_def same_config_def)
  qed
qed

lemma recv_conserves:
  assumes q: "qinv q" "length (pending fr) + length data \<le> room q"
    and ok: "framer_ok fr" "rest_ok fr" "fr_queue_limit fr = 0" and d: "length data < 2 ^ 31"
  shows "\<exists>fr' q' fs. RecvSiDaqData put (Some past) fr data (int (length data)) q = Inr (int (length fs), fr', q') \<and>
    qinv q' \<and> frames q' = frames q @ fs \<and> concat fs @ pending fr' = pending fr @ data \<and>
    framer_ok fr' \<and> rest_ok fr' \<and> fr_queue_limit fr' = 0"
proof -
  have "0 \<le> fr_queue_limit fr" using ok(3) by simp
  from recv_runs [OF q ok(1,2) this d, of past] ok(3) show ?thesis
    unfolding outcome_of_def limit_return_def by force
qed

end

end
