(* ===== verification/Framer_Split.thy ===== *)
theory Framer_Split
  imports Framer_Rest
begin

text \<open>
  The specification of framing, \<open>split_frames\<close>, which cuts a whole stream at once, and the proof that the framer meets
  it chunk by chunk, in every case in which the frame lengths of the stream are acceptable (\<open>stream_ok\<close>).
\<close>

section \<open>The stream specification\<close>

text \<open>What the framer promises, without chunks or buffers: the stream is cut from the front into
  frames of the length their header (or the fixed length) announces; what is left is the unfinished
  frame.\<close>

definition frame_size :: "SiDaqFramer \<Rightarrow> byte list \<Rightarrow> int" where
  "frame_size fr bs = head_event fr bs + fr_header_len fr"

definition good_head :: "SiDaqFramer \<Rightarrow> byte list \<Rightarrow> bool" where
  "good_head fr bs \<longleftrightarrow> 0 \<le> head_event fr bs \<and> frame_size fr bs \<le> fr_max_frame_len fr"

definition no_head :: "SiDaqFramer \<Rightarrow> byte list \<Rightarrow> bool" where
  "no_head fr bs \<longleftrightarrow> bs = [] \<or> int (length bs) < fr_header_len fr"

function split_frames :: "SiDaqFramer \<Rightarrow> byte list \<Rightarrow> byte list list \<times> byte list" where
  "split_frames fr bs =
     (let n = nat (frame_size fr bs) in
      if no_head fr bs \<or> n = 0 \<or> length bs < n then ([], bs)
      else let (fs, r) = split_frames fr (drop n bs) in (take n bs # fs, r))"
  by pat_completeness auto
termination
  by (relation "measure (\<lambda>(fr, bs). length bs)") (auto simp: no_head_def)

text \<open>Every header in the stream announces an acceptable length.\<close>

function stream_ok :: "SiDaqFramer \<Rightarrow> byte list \<Rightarrow> bool" where
  "stream_ok fr bs =
     (let n = nat (frame_size fr bs) in
      if no_head fr bs then True
      else good_head fr bs \<and> (if n = 0 \<or> length bs < n then True else stream_ok fr (drop n bs)))"
  by pat_completeness auto
termination
  by (relation "measure (\<lambda>(fr, bs). length bs)") (auto simp: no_head_def)

declare split_frames.simps [simp del] stream_ok.simps [simp del]

lemma same_config_head: "same_config fr fr2 \<Longrightarrow> head_event fr2 bs = head_event fr bs"
  by (simp add: head_event_def same_config_event) (simp add: same_config_def)

text \<open>The specification depends on the framer only through the size of the first frame.\<close>

lemma spec_cong:
  assumes e: "\<And>b. frame_size fr2 b = frame_size fr b" "\<And>b. no_head fr2 b = no_head fr b" "\<And>b. good_head fr2 b = good_head fr b"
  shows "split_frames fr2 bs = split_frames fr bs" "stream_ok fr2 bs = stream_ok fr bs"
proof -
  have shorter: "length (drop (nat (frame_size fr b)) b) < length b"
    if "\<not> no_head fr b" "nat (frame_size fr b) \<noteq> 0" for b
    using that by (cases b) (auto simp: no_head_def)
  show "split_frames fr2 bs = split_frames fr bs"
  proof (induction bs rule: length_induct)
    case (1 bs)
    show ?case
    proof (cases "no_head fr bs \<or> nat (frame_size fr bs) = 0 \<or> length bs < nat (frame_size fr bs)")
      case True
      then show ?thesis unfolding split_frames.simps [of fr2 bs] split_frames.simps [of fr bs] e Let_def by simp
    next
      case False
      with "1.IH" shorter have "split_frames fr2 (drop (nat (frame_size fr bs)) bs) =
        split_frames fr (drop (nat (frame_size fr bs)) bs)" by blast
      then show ?thesis unfolding split_frames.simps [of fr2 bs] split_frames.simps [of fr bs] e Let_def by simp
    qed
  qed
  show "stream_ok fr2 bs = stream_ok fr bs"
  proof (induction bs rule: length_induct)
    case (1 bs)
    show ?case
    proof (cases "no_head fr bs \<or> nat (frame_size fr bs) = 0 \<or> length bs < nat (frame_size fr bs)")
      case True
      then show ?thesis unfolding stream_ok.simps [of fr2 bs] stream_ok.simps [of fr bs] e Let_def by auto
    next
      case False
      with "1.IH" shorter have "stream_ok fr2 (drop (nat (frame_size fr bs)) bs) =
        stream_ok fr (drop (nat (frame_size fr bs)) bs)" by blast
      then show ?thesis unfolding stream_ok.simps [of fr2 bs] stream_ok.simps [of fr bs] e Let_def by simp
    qed
  qed
qed

lemma same_config_spec:
  assumes "same_config fr fr2"
  shows "split_frames fr2 bs = split_frames fr bs" "stream_ok fr2 bs = stream_ok fr bs"
  by (rule spec_cong; use assms same_config_head [OF assms] in
    \<open>auto simp: frame_size_def no_head_def good_head_def same_config_def\<close>)+

lemma split_none: "no_head fr bs \<or> int (length bs) < frame_size fr bs \<Longrightarrow> split_frames fr bs = ([], bs)"
  by (subst split_frames.simps) (auto simp: Let_def)

lemma split_cons:
  "\<not> no_head fr bs \<Longrightarrow> 0 < frame_size fr bs \<Longrightarrow> frame_size fr bs \<le> int (length bs) \<Longrightarrow>
   split_frames fr bs = (take (nat (frame_size fr bs)) bs # fst (split_frames fr (drop (nat (frame_size fr bs)) bs)),
     snd (split_frames fr (drop (nat (frame_size fr bs)) bs)))"
  by (subst split_frames.simps) (auto simp: Let_def split: prod.split)

lemma stream_ok_head: "stream_ok fr bs \<Longrightarrow> \<not> no_head fr bs \<Longrightarrow> good_head fr bs"
  by (subst (asm) stream_ok.simps) (auto simp: Let_def)

lemma stream_ok_tail:
  "stream_ok fr bs \<Longrightarrow> \<not> no_head fr bs \<Longrightarrow> 0 < frame_size fr bs \<Longrightarrow> frame_size fr bs \<le> int (length bs) \<Longrightarrow>
   stream_ok fr (drop (nat (frame_size fr bs)) bs)"
  by (subst (asm) stream_ok.simps) (auto simp: Let_def)

lemma frame_size_append:
  "0 \<le> fr_header_len fr \<Longrightarrow> \<not> no_head fr bs \<Longrightarrow> frame_size fr (bs @ ds) = frame_size fr bs"
  by (simp add: frame_size_def no_head_def head_event_append)

text \<open>Cutting a longer stream continues from what was left of its beginning.\<close>

lemma split_append:
  assumes "0 \<le> fr_header_len fr"
  shows "split_frames fr (bs @ ds) =
    (fst (split_frames fr bs) @ fst (split_frames fr (snd (split_frames fr bs) @ ds)),
     snd (split_frames fr (snd (split_frames fr bs) @ ds)))"
  using assms
proof (induction fr bs rule: split_frames.induct)
  case (1 fr bs)
  let ?n = "nat (frame_size fr bs)"
  show ?case
  proof (cases "no_head fr bs \<or> ?n = 0 \<or> length bs < ?n")
    case True
    then have "split_frames fr bs = ([], bs)" by (subst split_frames.simps) (auto simp: Let_def)
    then show ?thesis by simp
  next
    case False
    then have nb: "\<not> no_head fr bs" "0 < frame_size fr bs" "frame_size fr bs \<le> int (length bs)" by auto
    then have na: "\<not> no_head fr (bs @ ds)" "frame_size fr (bs @ ds) = frame_size fr bs"
      using frame_size_append [OF "1.prems"] by (auto simp: no_head_def)
    have "split_frames fr (bs @ ds) = (take ?n bs # fst (split_frames fr (drop ?n bs @ ds)),
        snd (split_frames fr (drop ?n bs @ ds)))"
      using split_cons [OF na(1)] na(2) nb by auto
    with "1.IH" [OF refl False "1.prems"] split_cons [OF nb] show ?thesis by simp
  qed
qed

lemma stream_ok_append:
  assumes "0 \<le> fr_header_len fr" "stream_ok fr (bs @ ds)"
  shows "stream_ok fr bs \<and> stream_ok fr (snd (split_frames fr bs) @ ds)"
  using assms
proof (induction fr bs rule: split_frames.induct)
  case (1 fr bs)
  let ?n = "nat (frame_size fr bs)"
  show ?case
  proof (cases "no_head fr bs")
    case True
    then have "split_frames fr bs = ([], bs)" "stream_ok fr bs"
      by (simp add: split_none, subst stream_ok.simps, simp add: Let_def)
    with "1.prems" show ?thesis by simp
  next
    case nh: False
    then have na: "\<not> no_head fr (bs @ ds)" "frame_size fr (bs @ ds) = frame_size fr bs"
      using frame_size_append [OF "1.prems"(1)] by (auto simp: no_head_def)
    have g: "good_head fr bs"
      using stream_ok_head [OF "1.prems"(2) na(1)] na(2) nh "1.prems"(1)
      by (simp add: good_head_def head_event_append no_head_def)
    show ?thesis
    proof (cases "?n = 0 \<or> length bs < ?n")
      case True
      with nh g have "stream_ok fr bs" "split_frames fr bs = ([], bs)"
        by (subst stream_ok.simps, simp add: Let_def, subst split_frames.simps, simp add: Let_def)
      with "1.prems" show ?thesis by simp
    next
      case False
      then have nb: "0 < frame_size fr bs" "frame_size fr bs \<le> int (length bs)" by auto
      have "stream_ok fr (drop ?n bs @ ds)"
        using stream_ok_tail [OF "1.prems"(2) na(1)] na(2) nb by auto
      from "1.IH" [OF refl _ "1.prems"(1) this] nh False
      have "stream_ok fr (drop ?n bs)" "stream_ok fr (snd (split_frames fr (drop ?n bs)) @ ds)" by auto
      moreover from this have "stream_ok fr bs" using nh g by (subst stream_ok.simps) (simp add: Let_def)
      ultimately show ?thesis using split_cons [OF nh nb] by simp
    qed
  qed
qed

section \<open>The code meets the stream specification\<close>

lemma cut_good:
  assumes ok: "framer_ok fr" and k: "keyed fr" and nh: "\<not> no_head fr bs" and l: "length bs < 2 ^ 31"
    and g: "good_head fr bs"
  shows "cut fr bs = (fr, frame_size fr bs)"
proof -
  have h: "fr_header_len fr \<le> int (length bs)" using nh by (simp add: no_head_def)
  have e: "event_length fr bs (int (length bs)) = head_event fr bs"
    using event_length_keyed [OF ok h l] k by simp
  have u: "u32 (frame_size fr bs) = frame_size fr bs"
    using g ok by (intro u32_id) (auto simp: good_head_def frame_size_def framer_ok_def)
  then show ?thesis using e g
    by (simp add: cut_def check_length_def Let_def good_head_def frame_size_def)
qed

lemma frame_size_pos:
  assumes "framer_ok fr" "keyed fr" "\<not> no_head fr bs" "length bs < 2 ^ 31" "good_head fr bs"
  shows "0 < frame_size fr bs"
  using cut_bounds(1) [OF assms(1) _ assms(4) cut_good [OF assms]] assms(3) by (simp add: no_head_def)

text \<open>The frame in the buffer: its head is that of the stream, and the buffer has room for it.\<close>

lemma rest_room:
  assumes ok: "framer_ok fr" "rest_ok fr" and r: "0 < fr_rest fr" and k: "fr_header_len fr < fr_max_frame_len fr"
  shows "fr_rest fr < fr_buff_size fr"
proof -
  have hb: "fr_header_len fr < fr_buff_size fr" using k ok(1) by (simp add: framer_ok_def)
  have p: "pending fr \<noteq> []" "length (pending fr) < 2 ^ 31"
    using length_pending [OF ok(1)] r ok(1) by (auto simp: framer_ok_def)
  have "n \<le> fr_buff_size fr \<or> n = fr_rest fr" if "cut fr (pending fr) = (fr, n)" for n
    using cut_bounds(2) [OF ok(1) p that] length_pending [OF ok(1)] by simp
  then show ?thesis using ok(2) r hb by (fastforce simp: rest_ok_def)
qed

lemma front_head:
  assumes ok: "framer_ok fr" "rest_ok fr" and r: "0 < fr_rest fr" and k: "keyed fr" "fr_header_len fr < fr_max_frame_len fr"
    and d: "data \<noteq> []" and s: "stream_ok fr (pending fr @ data)"
  shows "\<not> no_head fr (pending fr @ data)" "good_head fr (front fr data)" "0 < frame_size fr (pending fr @ data)"
    "cut (refill data fr) (front fr data) = (refill data fr, frame_size fr (pending fr @ data))"
    "frame_size fr (front fr data) = frame_size fr (pending fr @ data)"
proof -
  note rp = refill_props [OF ok(1), of data]
  have "0 < room_for fr data" using rest_room [OF ok r k(2)] d by (simp add: room_for_def)
  moreover have hl: "fr_header_len fr \<le> 2" "0 \<le> fr_header_len fr" using ok(1) by (simp_all add: framer_ok_def)
  ultimately have nh: "\<not> no_head fr (front fr data)" using rp(7) r by (auto simp: no_head_def)
  have pre: "pending fr @ data = front fr data @ drop (room_for fr data) data" by (simp add: front_def)
  show nhp: "\<not> no_head fr (pending fr @ data)" using nh unfolding pre by (auto simp: no_head_def)
  show fs: "frame_size fr (front fr data) = frame_size fr (pending fr @ data)"
    unfolding pre using frame_size_append [OF hl(2) nh] by simp
  then show g: "good_head fr (front fr data)"
    using stream_ok_head [OF s nhp] by (auto simp: good_head_def frame_size_def)
  have rf: "keyed (refill data fr)" "\<not> no_head (refill data fr) (front fr data)"
    "length (front fr data) < 2 ^ 31" "good_head (refill data fr) (front fr data)"
    using k(1) nh g rp(2,8) ok(1) same_config_head [OF rp(2)]
    by (auto simp: keyed_def no_head_def good_head_def frame_size_def same_config_def framer_ok_def)
  have sz: "frame_size (refill data fr) (front fr data) = frame_size fr (pending fr @ data)"
    using fs rp(2) same_config_head [OF rp(2)] by (simp add: frame_size_def same_config_def)
  show "cut (refill data fr) (front fr data) = (refill data fr, frame_size fr (pending fr @ data))"
    using cut_good [OF rp(1) rf] sz by simp
  show "0 < frame_size fr (pending fr @ data)" using frame_size_pos [OF rp(1) rf] sz by simp
qed

text \<open>When the frame is longer than the buffer's bytes, the whole chunk is in the buffer.\<close>

lemma front_all:
  assumes "framer_ok fr" "good_head fr (front fr data)" "int (length (front fr data)) < frame_size fr (front fr data)"
  shows "front fr data = pending fr @ data"
proof -
  have "int (length (front fr data)) < fr_buff_size fr" using assms by (simp add: good_head_def framer_ok_def)
  then have "room_for fr data = length data"
    using refill_props(7) [OF assms(1), of data] by (auto simp: room_for_def min_def split: if_splits)
  then show ?thesis by (simp add: front_def)
qed

context byte_sink
begin

text \<open>A result that agrees with the specification: the frames of \<open>bs\<close> have been put, behind \<open>k\<close> earlier ones, and the
  framer holds the unfinished end.\<close>

definition splits_as :: "SiDaqFramer \<Rightarrow> 'q \<Rightarrow> int \<Rightarrow> byte list \<Rightarrow> (int \<times> SiDaqFramer \<times> 'q) outcome \<Rightarrow> bool" where
  "splits_as fr q k bs res \<longleftrightarrow> (\<exists>fr' q'. res = Inr (k + int (length (fst (split_frames fr bs))), fr', q') \<and>
     qinv q' \<and> frames q' = frames q @ fst (split_frames fr bs) \<and> pending fr' = snd (split_frames fr bs) \<and>
     framer_ok fr' \<and> rest_ok fr' \<and> same_config fr fr' \<and> fr_error_code fr' = fr_error_code fr \<and>
     room q - length (fst (split_frames fr bs)) \<le> room q')"

lemma splits_as_none:
  assumes "split_frames fr bs = ([], bs)" "qinv q" "pending fr1 = bs" "framer_ok fr1" "rest_ok fr1" "same_config fr fr1"
    "fr_error_code fr1 = fr_error_code fr"
  shows "splits_as fr q k bs (Inr (k, fr1, q))"
  using assms by (auto simp: splits_as_def)

lemma splits_as_put:
  assumes "splits_as fr q1 (k + 1) rs res" "split_frames fr bs = (f # fst (split_frames fr rs), snd (split_frames fr rs))"
    "frames q1 = frames q @ [f]" "room q - 1 \<le> room q1"
  shows "splits_as fr q k bs res"
  using assms by (auto simp: splits_as_def)

lemma splits_as_config:
  assumes "splits_as fr1 q k bs res" "same_config fr fr1" "fr_error_code fr1 = fr_error_code fr"
  shows "splits_as fr q k bs res"
  using assms same_config_trans [OF assms(2)] by (auto simp: splits_as_def same_config_spec(1) [OF assms(2)])

lemma recv_loop_splits:
  assumes "qinv q" "framer_ok fr" "keyed fr" "fr_queue_limit fr = 0" "length bs < 2 ^ 31" "length bs \<le> room q"
    "length bs < fuel" "stream_ok fr bs"
  shows "splits_as fr q k bs (recv_loop fuel put (Some past) (Some bs) (int (length bs)) k fr q)"
  using assms
proof (induction fuel arbitrary: bs k q)
  case (Suc fuel)
  show ?case
  proof (cases "no_head fr bs")
    case True
    then have "bs = [] \<or> int (length bs) < fr_header_len fr" by (simp add: no_head_def)
    from recv_loop_end [OF Suc.prems(2) this, of fuel put past k q] split_none [of fr bs] True Suc.prems(1)
    show ?thesis by (auto intro: splits_as_none)
  next
    case nh: False
    then have bs: "bs \<noteq> []" "fr_header_len fr \<le> int (length bs)" by (auto simp: no_head_def)
    have g: "good_head fr bs" using stream_ok_head [OF Suc.prems(8) nh] .
    note c = cut_good [OF Suc.prems(2,3) nh Suc.prems(5) g]
    note pos = frame_size_pos [OF Suc.prems(2,3) nh Suc.prems(5) g]
    let ?n = "frame_size fr bs"
    let ?rs = "drop (nat ?n) bs"
    show ?thesis
    proof (cases "?n \<le> int (length bs)")
      case True
      have rm: "0 < room q" using Suc.prems(6) bs by (cases bs) auto
      from recv_loop_put [OF Suc.prems(2) bs(1) Suc.prems(5) bs(2) c True Suc.prems(1) rm, of fuel past k]
      obtain q1 where q1: "recv_loop (Suc fuel) put (Some past) (Some bs) (int (length bs)) k fr q =
          recv_loop fuel put (Some past) (Some ?rs) (int (length ?rs)) (k + 1) fr q1"
        "qinv q1" "frames q1 = frames q @ [take (nat ?n) bs]" "room q - 1 \<le> room q1"
        using Suc.prems(4) by (auto simp: limit_hit_def)
      have "length ?rs < length bs" using pos bs(1) by (cases bs) auto
      then have "length ?rs < 2 ^ 31" "length ?rs \<le> room q1" "length ?rs < fuel"
        using Suc.prems(5,6,7) q1(4) by linarith+
      from Suc.IH [OF q1(2) Suc.prems(2,3,4) this stream_ok_tail [OF Suc.prems(8) nh pos True], of "k + 1"]
      show ?thesis unfolding q1(1) by (rule splits_as_put [OF _ split_cons [OF nh pos True] q1(3,4)])
    next
      case False
      then have lt: "int (length bs) < ?n" by simp
      from recv_loop_store [OF Suc.prems(2) bs(1) Suc.prems(5) bs(2) c lt, of fuel put "Some past" k q]
        split_none [of fr bs] lt Suc.prems(1) framer_ok_stored(3,5) [OF Suc.prems(2)]
      show ?thesis using lt g Suc.prems(2) unfolding splits_as_def
        by (intro exI [of _ "stored bs fr"] exI [of _ q]) (auto simp: good_head_def framer_ok_def)
    qed
  qed
qed simp

text \<open>The rest of the chunk behind the frame of the buffer.\<close>

lemma recv_rest_splits:
  assumes run: "recv_rest put fr data (int (length data)) q = Inr (Inr (1, rd, len, fr4, q1))" and r: "0 < fr_rest fr"
    and f: "framer_ok fr4" "fr_rest fr4 = 0" "keyed fr4" "fr_queue_limit fr4 = 0"
    and rd: "case rd of None \<Rightarrow> len = 0 | Some bs \<Rightarrow> bs \<noteq> [] \<and> len = int (length bs) \<and> length bs \<le> length data"
    and q: "qinv q1" "length data \<le> room q1" and d: "length data < 2 ^ 31"
    and s: "stream_ok fr4 (case rd of None \<Rightarrow> [] | Some bs \<Rightarrow> bs)"
  shows "splits_as fr4 q1 1 (case rd of None \<Rightarrow> [] | Some bs \<Rightarrow> bs) (RecvSiDaqData put (Some past) fr data (int (length data)) q)"
proof (cases rd)
  case None
  then show ?thesis using run r rd f(1,2) q(1) splits_as_none [of fr4 "[]" q1 fr4 1]
    by (simp add: RecvSiDaqData_def split_none no_head_def)
next
  case (Some bs)
  then have bs: "bs \<noteq> []" "len = int (length bs)" "length bs \<le> length data" "stream_ok fr4 bs" using rd s by auto
  have "length bs < 2 ^ 31" "length bs \<le> room q1" "length bs < Suc (nat len)" using bs d q(2) by linarith+
  from recv_loop_splits [OF q(1) f(1,3,4) this bs(4), of 1 past] show ?thesis
    using run r Some bs(2) by (simp add: RecvSiDaqData_def)
qed

lemma recv_splits_as:
  assumes q: "qinv q" "length (pending fr) + length data \<le> room q"
    and ok: "framer_ok fr" "rest_ok fr" "fr_queue_limit fr = 0" and d: "length data < 2 ^ 31" "data \<noteq> []"
    and k: "keyed fr" "fr_header_len fr < fr_max_frame_len fr" and s: "stream_ok fr (pending fr @ data)"
  shows "splits_as fr q 0 (pending fr @ data) (RecvSiDaqData put (Some past) fr data (int (length data)) q)"
proof (cases "0 < fr_rest fr")
  case False
  then have r: "fr_rest fr = 0" using ok(1) by (simp add: framer_ok_def)
  then have "stream_ok fr data" "length data \<le> room q" using s q(2) by simp_all
  from recv_loop_splits [OF q(1) ok(1) k(1) ok(3) d(1) this(2) _ this(1), of "Suc (length data)" 0 past] r False
  show ?thesis by (simp add: RecvSiDaqData_def)
next
  case True
  note h = front_head [OF ok(1,2) True k d(2) s] and sc = refill_props(2,5) [OF ok(1), of data]
  let ?n = "frame_size fr (pending fr @ data)"
  have pre: "pending fr @ data = front fr data @ drop (room_for fr data) data" by (simp add: front_def)
  have lp: "0 < length (pending fr)" using length_pending [OF ok(1)] True by linarith
  show ?thesis
  proof (cases "?n \<le> int (length (front fr data))")
    case le: True
    let ?f = "take (nat ?n) (front fr data)"
    have rm: "0 < room q" using q(2) lp by linarith
    have "\<not> limit_hit (refill data fr) cnt" for cnt using ok(3) sc(1) by (simp add: limit_hit_def same_config_def)
    with recv_rest_done [OF ok(1) d(1) True ok(2) h(4) le q(1) rm] obtain q1 rd len fr4 where
      run: "recv_rest put fr data (int (length data)) q = Inr (Inr (1, rd, len, fr4, q1))"
      and q1: "qinv q1" "frames q1 = frames q @ [?f]" "room q - 1 \<le> room q1"
      and f4: "framer_ok fr4" "fr_rest fr4 = 0" "same_config (refill data fr) fr4"
        "fr_error_code fr4 = fr_error_code (refill data fr)"
      and cc: "?f @ (case rd of None \<Rightarrow> [] | Some bs \<Rightarrow> bs) = pending fr @ data" (is "_ @ ?bs = _")
      and rd: "case rd of None \<Rightarrow> len = 0 | Some bs \<Rightarrow> bs \<noteq> [] \<and> len = int (length bs) \<and> length bs \<le> length data"
      by blast
    have sc4: "same_config fr fr4" using same_config_trans [OF sc(1) f4(3)] .
    then have k4: "keyed fr4" "fr_queue_limit fr4 = 0" using k(1) ok(3) by (auto simp: keyed_def same_config_def)
    have le': "?n \<le> int (length (pending fr @ data))" using le unfolding pre by simp
    have l: "length ?f = nat ?n" using le by simp
    have eq: "?f = take (nat ?n) (pending fr @ data) \<and> ?bs = drop (nat ?n) (pending fr @ data)"
      using cc unfolding append_eq_conv_conj l .
    note cut = conjunct1 [OF eq, symmetric] conjunct2 [OF eq, symmetric]
    have "stream_ok fr4 ?bs" using stream_ok_tail [OF s h(1,3) le'] cut(2) same_config_spec(2) [OF sc4] by simp
    moreover have "length data \<le> room q1" using q(2) q1(3) lp by linarith
    ultimately have "splits_as fr q1 (0 + 1) ?bs (RecvSiDaqData put (Some past) fr data (int (length data)) q)"
      using splits_as_config [OF recv_rest_splits [OF run True f4(1,2) k4 rd q1(1) _ d(1), of past] sc4] f4(4) sc(2) by simp
    then show ?thesis using split_cons [OF h(1,3) le'] cut by (intro splits_as_put [OF _ _ q1(2,3)]) simp_all
  next
    case False
    then have gt: "int (length (front fr data)) < ?n" by simp
    from recv_rest_more [OF ok(1) d(1) True h(4) gt, of put q] obtain fr4 where f4:
      "recv_rest put fr data (int (length data)) q = Inr (Inr (0, None, 0, fr4, q))"
      "framer_ok fr4" "pending fr4 = pending fr @ data" "rest_ok fr4" "same_config fr fr4"
      "fr_error_code fr4 = fr_error_code fr" by blast
    have "front fr data = pending fr @ data" using front_all [OF ok(1) h(2)] h(5) gt by simp
    then have "split_frames fr (pending fr @ data) = ([], pending fr @ data)"
      using split_none [of fr "pending fr @ data"] gt by simp
    with f4 q(1) True show ?thesis using splits_as_none [of fr _ q fr4 0] by (simp add: RecvSiDaqData_def)
  qed
qed

lemmas recv_splits = recv_splits_as [unfolded splits_as_def add_0_left]

end

section \<open>Feeding a sequence of chunks\<close>

text \<open>The framer thread's use of \<open>RecvSiDaqData\<close>: one call per received chunk, in order.\<close>

fun feed :: "(byte list \<Rightarrow> int \<Rightarrow> 'q \<Rightarrow> (int \<times> 'q) outcome) \<Rightarrow> byte option \<Rightarrow> byte list list \<Rightarrow> SiDaqFramer \<Rightarrow> 'q \<Rightarrow>
    (SiDaqFramer \<times> 'q) outcome" where
  "feed sqput past [] fr q = Inr (fr, q)"
| "feed sqput past (d # ds) fr q =
     obind (RecvSiDaqData sqput past fr d (int (length d)) q) (\<lambda>(_, fr', q'). feed sqput past ds fr' q')"

lemma split_length:
  "length (fst (split_frames fr bs)) + length (snd (split_frames fr bs)) \<le> length bs"
proof (induction fr bs rule: split_frames.induct)
  case (1 fr bs)
  let ?n = "nat (frame_size fr bs)"
  show ?case
  proof (cases "no_head fr bs \<or> ?n = 0 \<or> length bs < ?n")
    case True
    then have "split_frames fr bs = ([], bs)" by (subst split_frames.simps) (auto simp: Let_def)
    then show ?thesis by simp
  next
    case False
    then have nb: "\<not> no_head fr bs" "0 < frame_size fr bs" "frame_size fr bs \<le> int (length bs)" by auto
    with "1.IH" [OF refl False] split_cons [OF nb] show ?thesis by auto
  qed
qed

lemma split_pending:
  assumes ok: "framer_ok fr" "rest_ok fr" and k: "keyed fr"
  shows "split_frames fr (pending fr) = ([], pending fr)"
proof (cases "no_head fr (pending fr)")
  case True
  then show ?thesis by (simp add: split_none)
next
  case False
  have l: "int (length (pending fr)) = fr_rest fr" "length (pending fr) < 2 ^ 31" "pending fr \<noteq> []"
    using length_pending [OF ok(1)] ok(1) False by (auto simp: framer_ok_def no_head_def)
  with False ok(2) obtain n where n: "cut fr (pending fr) = (fr, n)" "fr_rest fr < n"
    by (auto simp: rest_ok_def no_head_def)
  have "n = frame_size fr (pending fr)"
    using event_length_keyed [OF ok(1) _ l(2)] k False l n(2)
    by (cases rule: cut_cases [OF ok(1) l(3,2) n(1)]) (auto simp: frame_size_def no_head_def)
  with n(2) l(1) show ?thesis by (simp add: split_none)
qed

context byte_sink
begin

lemma feed_splits:
  assumes "qinv q" "length (pending fr) + length (concat ds) \<le> room q"
    and "framer_ok fr" "rest_ok fr" "fr_queue_limit fr = 0"
    and "\<forall>d\<in>set ds. d \<noteq> [] \<and> length d < 2 ^ 31"
    and "keyed fr" "fr_header_len fr < fr_max_frame_len fr" "stream_ok fr (pending fr @ concat ds)"
  shows "\<exists>fr' q'. feed put (Some past) ds fr q = Inr (fr', q') \<and> qinv q' \<and>
    frames q' = frames q @ fst (split_frames fr (pending fr @ concat ds)) \<and>
    pending fr' = snd (split_frames fr (pending fr @ concat ds)) \<and> framer_ok fr' \<and> rest_ok fr' \<and>
    same_config fr fr' \<and> fr_error_code fr' = fr_error_code fr"
  using assms
proof (induction ds arbitrary: fr q)
  case Nil
  then show ?case using split_pending by simp
next
  case (Cons d ds)
  have h: "0 \<le> fr_header_len fr" using Cons.prems(3) by (simp add: framer_ok_def)
  have d: "length d < 2 ^ 31" "d \<noteq> []" using Cons.prems(6) by auto
  have rm: "length (pending fr) + length d \<le> room q" using Cons.prems(2) by simp
  let ?s = "split_frames fr (pending fr @ d)"
  have so: "stream_ok fr (pending fr @ d)" "stream_ok fr (snd ?s @ concat ds)"
    using stream_ok_append [OF h, of "pending fr @ d" "concat ds"] Cons.prems(9) by simp_all
  from recv_splits [OF Cons.prems(1) rm Cons.prems(3,4,5) d Cons.prems(7,8) so(1), of past]
  obtain fr1 q1 where r: "RecvSiDaqData put (Some past) fr d (int (length d)) q = Inr (int (length (fst ?s)), fr1, q1)"
    "qinv q1" "frames q1 = frames q @ fst ?s" "pending fr1 = snd ?s" "framer_ok fr1" "rest_ok fr1"
    "same_config fr fr1" "fr_error_code fr1 = fr_error_code fr" "room q - length (fst ?s) \<le> room q1" by blast
  have rm1: "length (pending fr1) + length (concat ds) \<le> room q1"
    using split_length [of fr "pending fr @ d"] Cons.prems(2) r(4,9) by simp
  have c1: "fr_queue_limit fr1 = 0" "keyed fr1" "fr_header_len fr1 < fr_max_frame_len fr1"
    using r(7) Cons.prems(5,7,8) by (auto simp: same_config_def keyed_def)
  have ds: "\<forall>d\<in>set ds. d \<noteq> [] \<and> length d < 2 ^ 31" using Cons.prems(6) by simp
  have s1: "stream_ok fr1 (pending fr1 @ concat ds)" using so(2) same_config_spec(2) [OF r(7)] r(4) by simp
  from Cons.IH [OF r(2) rm1 r(5,6) c1(1) ds c1(2,3) s1] obtain fr' q' where f:
    "feed put (Some past) ds fr1 q1 = Inr (fr', q')" "qinv q'"
    "frames q' = frames q1 @ fst (split_frames fr1 (pending fr1 @ concat ds))"
    "pending fr' = snd (split_frames fr1 (pending fr1 @ concat ds))" "framer_ok fr'" "rest_ok fr'"
    "same_config fr1 fr'" "fr_error_code fr' = fr_error_code fr1" by blast
  have "split_frames fr (pending fr @ concat (d # ds)) =
      (fst ?s @ fst (split_frames fr (pending fr1 @ concat ds)), snd (split_frames fr (pending fr1 @ concat ds)))"
    using split_append [OF h, of "pending fr @ d" "concat ds"] r(4) by simp
  moreover have "same_config fr fr'" using same_config_trans [OF r(7) f(7)] .
  ultimately show ?case using r f same_config_spec(1) [OF r(7)] by simp
qed

end

end
