(* ===== verification/Framer_Thread.thy ===== *)
theory Framer_Thread
  imports SiDaq_Api Framer_Split
begin

text \<open>
  The framer thread on a manager in use: every round keeps the manager well formed, moves the bytes
  of the receive queue in order to the event queue or the framer's buffer, and reports an error at
  most once.
\<close>

section \<open>The error flag\<close>

text \<open>Framing never touches the error flag; only the thread does.\<close>

lemma check_length_flg: "check_length fr ev len = (fr2, ev2) \<Longrightarrow> fr_error_flg fr2 = fr_error_flg fr"
  by (auto simp: check_length_def null_framer_def set_error_def Let_def split: if_splits)

lemma buff_write_flg: "buff_write off src fr = Inr fr2 \<Longrightarrow> fr_error_flg fr2 = fr_error_flg fr"
  by (auto simp: buff_write_def split: option.splits if_splits)

lemma recv_loop_flg:
  "recv_loop fuel sqput past rd len k fr q = Inr (r, fr', q') \<Longrightarrow> fr_error_flg fr' = fr_error_flg fr"
proof (induction fuel sqput past rd len k fr q arbitrary: r fr' q' rule: recv_loop.induct)
  case (3 fuel sqput past rd len k fr q)
  obtain fr2 ev where c: "check_length fr (event_length fr (take (nat len) rd) len) len = (fr2, ev)" by force
  note f = check_length_flg [OF c]
  show ?case
  proof (cases "len = 0 \<or> len < fr_header_len fr")
    case True
    with "3.prems" show ?thesis by (auto simp: recv_loop_Suc dest!: buff_write_flg)
  next
    case False
    note IH = "3.IH" [OF False refl c [symmetric] refl refl]
    show ?thesis
    proof (cases "i32 (ev + fr_header_len fr2) \<le> len")
      case True
      with False "3.prems" c obtain cnt q1 where p: "sqput rd (i32 (ev + fr_header_len fr2)) q = Inr (cnt, q1)"
        by (auto simp: recv_loop_Suc Let_def)
      with True False "3.prems" c f show ?thesis
        using IH(1) [OF True] by (auto simp: recv_loop_Suc Let_def set_error_def split: if_splits)
    next
      case n: False
      with False "3.prems" c f show ?thesis
        by (auto simp: recv_loop_Suc Let_def split: if_splits dest!: buff_write_flg)
    qed
  qed
qed simp_all

lemma recv_rest_flg:
  assumes "recv_rest sqput fr data len q = Inr res"
  shows "case res of Inl (r, fr', q') \<Rightarrow> fr_error_flg fr' = fr_error_flg fr
     | Inr (k, rd, n, fr', q') \<Rightarrow> fr_error_flg fr' = fr_error_flg fr"
  using assms
  by (auto simp: recv_rest_def Let_def set_error_def split: if_splits prod.splits dest!: buff_write_flg check_length_flg)

lemma recv_flg:
  "RecvSiDaqData sqput past fr data len q = Inr (r, fr', q') \<Longrightarrow> fr_error_flg fr' = fr_error_flg fr"
  by (auto simp: RecvSiDaqData_def split: if_splits sum.splits dest!: recv_loop_flg recv_rest_flg)

section \<open>A manager in use\<close>

definition holds :: "SiDaqMngr \<Rightarrow> sqstore \<Rightarrow> sqstore \<Rightarrow> SiDaqFramer \<Rightarrow> bool" where
  "holds m q e fr \<longleftrightarrow> squeue_list_ptr (sock_param m) = Some [q] \<and> squeue_index (sock_param m) = 0 \<and>
     squeue_count (sock_param m) = 1 \<and> m_eventFrame m = Some e \<and> m_framer m = Some fr"

definition ready :: "SiDaqMngr \<Rightarrow> sqstore \<Rightarrow> sqstore \<Rightarrow> SiDaqFramer \<Rightarrow> bool" where
  "ready m q e fr \<longleftrightarrow> holds m q e fr \<and> sq_inv q \<and> sq_inv e \<and> framer_ok fr \<and> rest_ok fr \<and>
     0 \<le> fr_queue_limit fr \<and> (\<forall>f\<in>set (sq_frames q). length f < 2 ^ 31)"

text \<open>The socket thread, while it is waited for, keeps the array of queues.\<close>

definition keeps_queues :: "(sqstore SockThreadLparam \<Rightarrow> sqstore SockThreadLparam) \<Rightarrow> bool" where
  "keeps_queues wait \<longleftrightarrow> (\<forall>sp. squeue_list_ptr (wait sp) = squeue_list_ptr sp \<and>
     squeue_index (wait sp) = squeue_index sp \<and> squeue_count (wait sp) = squeue_count sp \<and>
     queue_error_code (wait sp) = queue_error_code sp)"

text \<open>A round in which nothing else touches the queue while \<open>SQGet\<close> polls it.\<close>

definition undisturbed :: "framer_env \<Rightarrow> bool" where
  "undisturbed env \<longleftrightarrow> fe_sleep env = (\<lambda>_. id) \<and> \<not> fe_timed_out env \<and> keeps_queues (fe_wait env)"

text \<open>The byte behind the block can be read as well.\<close>

definition settled :: "framer_env \<Rightarrow> bool" where
  "settled env \<longleftrightarrow> undisturbed env \<and> fe_past env \<noteq> None"

lemma settled_past: "settled env \<Longrightarrow> fe_past env = Some (the (fe_past env))"
  by (simp add: settled_def)

lemmas settled_defs = settled_def undisturbed_def

lemma undisturbed_quiet: "undisturbed quiet_env"
  by (simp add: undisturbed_def quiet_env_def keeps_queues_def)

lemma settled_quiet: "settled quiet_env"
  using undisturbed_quiet by (simp add: settled_def quiet_env_def)

lemma keeps_id: "keeps_queues id" "keeps_queues (\<lambda>sp. sp)"
  by (simp_all add: keeps_queues_def)

lemma recv_queue_holds [simp]: "holds m q e fr \<Longrightarrow> recv_queue m = Inr q"
  by (simp add: holds_def recv_queue_def select_queue_def)

lemma framer_of_holds [simp]: "holds m q e fr \<Longrightarrow> framer_of m = Inr fr"
  by (simp add: holds_def framer_of_def)

lemma event_queue_holds [simp]: "holds m q e fr \<Longrightarrow> event_queue m = Inr e"
  by (simp add: holds_def event_queue_def)

lemma holds_set_recv: "holds m q e fr \<Longrightarrow> holds (set_recv_queue q1 m) q1 e fr"
  by (simp add: holds_def set_recv_queue_def)

lemma set_recv_queue_other [simp]:
  "status (set_recv_queue q m) = status m" "error_code (set_recv_queue q m) = error_code m"
  "sp_socket (sock_param (set_recv_queue q m)) = sp_socket (sock_param m)"
  "sp_run (sock_param (set_recv_queue q m)) = sp_run (sock_param m)"
  "queue_error_code (sock_param (set_recv_queue q m)) = queue_error_code (sock_param m)"
  "is_socket_open (set_recv_queue q m) = is_socket_open m"
  by (simp_all add: set_recv_queue_def is_socket_open_def)

lemma holds_stop: "holds m q e fr \<Longrightarrow> keeps_queues wait \<Longrightarrow> holds (stop_socket wait m) q e fr"
  by (simp add: holds_def stop_socket_def keeps_queues_def)

lemma stop_socket_other [simp]:
  "status (stop_socket wait m) = status m" "error_code (stop_socket wait m) = error_code m"
  "\<not> is_socket_open (stop_socket wait m)"
  by (simp_all add: stop_socket_def is_socket_open_def)

lemma set_sidaq_error_holds:
  assumes "holds m q e fr" "length msg < 1024"
  obtains m1 where "set_sidaq_error m c msg w = Inr m1" "holds m1 q e fr" "status m1 = status m"
    "error_code m1 = c" "sp_socket (sock_param m1) = sp_socket (sock_param m)" "is_socket_open m1 = is_socket_open m"
    "queue_error_code (sock_param m1) = queue_error_code (sock_param m)"
  using assms
  by (simp add: set_sidaq_error_def SiDAQ_ERROR_MSG_def socket_error_def set_last_error_def holds_def is_socket_open_def)

lemma framer_failed_holds:
  assumes "holds m q e fr"
  obtains m1 where "framer_failed m = Inr m1" "holds m1 q e (fr\<lparr>fr_error_flg := -1\<rparr>)" "status m1 = SIDAQ_SYS_ERROR"
    "sock_param m1 = sock_param m" "error_code m1 = error_code m"
  using assms by (simp add: framer_failed_def) (simp add: holds_def)

lemma decode_framer_error_nz: "c \<noteq> 0 \<Longrightarrow> decode_framer_error c \<noteq> 0"
  by (simp add: decode_framer_error_def)

lemma decode_sock_queue_error_nz: "c \<noteq> 0 \<Longrightarrow> decode_sock_queue_error c \<noteq> 0"
  by (simp add: decode_sock_queue_error_def)

lemma decode_framer_error_short: "length (decode_framer_error_string c) < 1024"
  by (simp add: decode_framer_error_string_def)

section \<open>The error check\<close>

text \<open>Nothing wrong so far, or the error already reported.\<close>

definition unreported :: "SiDaqMngr \<Rightarrow> SiDaqFramer \<Rightarrow> bool" where
  "unreported m fr \<longleftrightarrow> fr_error_flg fr = 0 \<and> (fr_error_code fr \<noteq> 0 \<or> queue_error_code (sock_param m) \<noteq> 0)"

definition reported :: "SiDaqMngr \<Rightarrow> SiDaqFramer \<Rightarrow> bool" where
  "reported m fr \<longleftrightarrow> status m = SIDAQ_SYS_ERROR \<and> fr_error_flg fr = -1 \<and> error_code m \<noteq> 0"

lemma error_check_holds:
  assumes h: "holds m q e fr" and env: "keeps_queues (fe_wait env)"
  shows "\<exists>m1 fr1. framer_error_check env m = Inr m1 \<and> holds m1 q e fr1 \<and>
    (\<exists>flg. fr1 = fr\<lparr>fr_error_flg := flg\<rparr>) \<and>
    (if unreported m fr then reported m1 fr1 \<and> (fr_error_code fr \<noteq> 0 \<longrightarrow> \<not> is_socket_open m1) \<and>
        (is_socket_open m1 \<longrightarrow> is_socket_open m)
     else m1 = m \<and> fr1 = fr)"
proof (cases "unreported m fr")
  case False
  then have "framer_error_check env m = Inr m"
    using h by (simp add: framer_error_check_def unreported_def)
  with False h show ?thesis by (auto intro!: exI [of _ m] exI [of _ fr] exI [of _ "fr_error_flg fr"])
next
  case True
  let ?fr1 = "fr\<lparr>fr_error_flg := -1\<rparr>"
  obtain m1 where m1: "framer_failed m = Inr m1" "holds m1 q e ?fr1" "status m1 = SIDAQ_SYS_ERROR"
    "sock_param m1 = sock_param m" by (rule framer_failed_holds [OF h])
  show ?thesis
  proof (cases "fr_error_code fr = 0")
    case False
    obtain m2 where m2: "set_sidaq_error m1 (decode_framer_error (fr_error_code fr))
        (decode_framer_error_string (fr_error_code fr)) 0 = Inr m2"
      "holds m2 q e ?fr1" "status m2 = status m1" "error_code m2 = decode_framer_error (fr_error_code fr)"
      by (rule set_sidaq_error_holds [OF m1(2) decode_framer_error_short])
    have "framer_error_check env m = Inr (stop_socket (fe_wait env) m2)"
      using True False h m1(1) m2(1) by (simp add: framer_error_check_def unreported_def)
    then show ?thesis using True m1(3) m2 holds_stop [OF m2(2) env] decode_framer_error_nz [OF False]
      by (intro exI [of _ "stop_socket (fe_wait env) m2"] exI [of _ ?fr1]) (auto simp: reported_def)
  next
    case z: True
    then have qe: "queue_error_code (sock_param m) \<noteq> 0" using True by (simp add: unreported_def)
    obtain m2 where m2: "set_sidaq_error m1 (decode_sock_queue_error (queue_error_code (sock_param m)))
        ''Socket Receive Queue Error'' 0 = Inr m2" "holds m2 q e ?fr1" "status m2 = status m1"
      "error_code m2 = decode_sock_queue_error (queue_error_code (sock_param m))" "is_socket_open m2 = is_socket_open m1"
      by (rule set_sidaq_error_holds [OF m1(2), of "''Socket Receive Queue Error''"]) auto
    have "framer_error_check env m = Inr m2"
      using True z qe h m1(1,4) m2(1) by (simp add: framer_error_check_def unreported_def)
    then show ?thesis using True z m1(3,4) m2 decode_sock_queue_error_nz [OF qe]
      by (intro exI [of _ m2] exI [of _ ?fr1]) (auto simp: reported_def is_socket_open_def)
  qed
qed

section \<open>One round\<close>

lemma framer_ok_flg: "framer_ok (fr\<lparr>fr_error_flg := x\<rparr>) = framer_ok fr"
  "rest_ok (fr\<lparr>fr_error_flg := x\<rparr>) = rest_ok fr" "pending (fr\<lparr>fr_error_flg := x\<rparr>) = pending fr"
proof -
  let ?fr = "fr\<lparr>fr_error_flg := x\<rparr>"
  show "framer_ok ?fr = framer_ok fr" by (simp add: framer_ok_def buff_bytes_def header_only_def)
  show p: "pending ?fr = pending fr" by (simp add: pending_def buff_bytes_def)
  have "event_length ?fr bs n = event_length fr bs n" for bs n
    by (cases "fr_lengthFunc fr") (simp_all add: event_length_def)
  then have "cut ?fr bs = (fr2, n) \<longleftrightarrow>
      (\<exists>fr1. cut fr bs = (fr1, n) \<and> fr2 = fr1\<lparr>fr_error_flg := x\<rparr>)" for bs fr2 n
    by (auto simp: cut_def check_length_def Let_def null_framer_def set_error_def)
  moreover have "?fr = fr1\<lparr>fr_error_flg := x\<rparr> \<longleftrightarrow> fr1 = fr" if "cut fr bs = (fr1, n)" for fr1 bs n
  proof -
    have "fr_error_flg fr1 = fr_error_flg fr"
      using that check_length_flg by (auto simp: cut_def Let_def split: prod.splits)
    then show ?thesis by (cases fr; cases fr1) auto
  qed
  ultimately have "cut ?fr bs = (?fr, n) \<longleftrightarrow> cut fr bs = (fr, n)" for bs n by blast
  then show "rest_ok ?fr = rest_ok fr" unfolding rest_ok_def p by simp
qed

lemma ready_error_check:
  assumes "ready m q e fr" "keeps_queues (fe_wait env)"
  shows "\<exists>m1 fr1. framer_error_check env m = Inr m1 \<and> ready m1 q e fr1 \<and> pending fr1 = pending fr \<and>
    fr_queue_limit fr1 = fr_queue_limit fr \<and>
    (if unreported m fr then reported m1 fr1 \<and> (fr_error_code fr \<noteq> 0 \<longrightarrow> \<not> is_socket_open m1) \<and>
        (is_socket_open m1 \<longrightarrow> is_socket_open m)
     else m1 = m \<and> fr1 = fr) \<and> same_config fr fr1"
proof -
  have h: "holds m q e fr" using assms(1) by (simp add: ready_def)
  from error_check_holds [OF h assms(2)] obtain m1 fr1 flg where
    "framer_error_check env m = Inr m1" "holds m1 q e fr1" "fr1 = fr\<lparr>fr_error_flg := flg\<rparr>"
    "if unreported m fr then reported m1 fr1 \<and> (fr_error_code fr \<noteq> 0 \<longrightarrow> \<not> is_socket_open m1) \<and>
        (is_socket_open m1 \<longrightarrow> is_socket_open m) else m1 = m \<and> fr1 = fr" by blast
  then show ?thesis using assms(1)
    by (intro exI [of _ m1] exI [of _ fr1]) (auto simp: ready_def framer_ok_flg same_config_def)
qed

lemma put_rest_ready:
  assumes "ready m q e fr" "fr_rest fr = 0 \<or> 0 < sq_room e"
  shows "\<exists>m1 e1 fr1. put_rest_frame m = Inr m1 \<and> ready m1 q e1 fr1 \<and> pending fr1 = [] \<and>
    concat (sq_frames e1) = concat (sq_frames e) @ pending fr \<and> status m1 = status m \<and> error_code m1 = error_code m \<and>
    sock_param m1 = sock_param m \<and> fr_error_flg fr1 = fr_error_flg fr \<and> same_config fr fr1 \<and>
    sq_frames e1 = sq_frames e @ nonempty (pending fr)"
proof (cases "0 < fr_rest fr")
  case False
  then have "fr_rest fr = 0" using assms(1) by (simp add: ready_def framer_ok_def)
  with assms(1) show ?thesis
    by (intro exI [of _ m] exI [of _ e] exI [of _ fr]) (auto simp: put_rest_frame_def ready_def)
next
  case True
  have ok: "framer_ok fr" "holds m q e fr" "sq_inv e" using assms(1) by (simp_all add: ready_def)
  then obtain b where b: "fr_buff_ptr fr = Some b" "buff_bytes fr = b" by (auto simp: framer_ok_def buff_bytes_def)
  have len: "0 \<le> fr_rest fr" "fr_rest fr \<le> int (length b)" using ok(1) b by (auto simp: framer_ok_def)
  from SQPut_inv [OF ok(3) _ len] assms(2) True obtain e1 where e1:
    "SQPut b (fr_rest fr) e = Inr (int (length (sq_frames e)) + 1, e1)" "sq_inv e1"
    "sq_frames e1 = sq_frames e @ [take (nat (fr_rest fr)) b]" by auto
  let ?fr1 = "fr\<lparr>fr_rest := 0\<rparr>"
  let ?m1 = "m\<lparr>m_framer := Some ?fr1, m_eventFrame := Some e1\<rparr>"
  have "put_rest_frame m = Inr ?m1" using True ok(2) b e1(1) by (simp add: put_rest_frame_def)
  moreover have "ready ?m1 q e1 ?fr1"
    using assms(1) e1(2) by (auto simp: ready_def holds_def framer_ok_def buff_bytes_def header_only_def)
  moreover have "pending fr = take (nat (fr_rest fr)) b" "pending fr \<noteq> []"
    using b True len length_pending [OF ok(1)] by (auto simp: pending_def)
  ultimately show ?thesis using e1(3)
    by (intro exI [of _ ?m1] exI [of _ e1] exI [of _ ?fr1]) (simp add: same_config_def)
qed

text \<open>A round with data: the oldest block is taken, framed and freed.\<close>

lemma round_get:
  assumes r: "ready m q e fr" and f: "sq_frames q = f # fs" and env: "settled env"
  obtains q1 where "sq_inv (q1\<lparr>quota := quota q1 + 1\<rparr>)" "sq_frames (q1\<lparr>quota := quota q1 + 1\<rparr>) = fs"
    "framer_round env m = obind (framer_receive env f (int (length f)) (set_recv_queue q1 m)) (\<lambda>m2.
       obind (framer_error_check env (set_recv_queue (q1\<lparr>quota := quota q1 + 1\<rparr>) m2)) (\<lambda>m3. Inr (m3, False)))"
proof -
  have h: "holds m q e fr" and inv: "sq_inv q" using r by (simp_all add: ready_def)
  have cnt: "0 < sq_count q" using f sq_inv_count [OF inv] by simp
  have w: "sq_wait (fe_sleep env) 50 q = (50, q)" by (rule sq_wait_nonempty [OF cnt])
  have nto: "\<not> ((0::int) \<le> 50 \<and> fe_timed_out env)" using env by (simp add: settled_defs)
  from SQGet_first [OF w inv f nto] obtain q1 where q1:
    "SQGet (fe_sleep env) (fe_timed_out env) 50 q = Inr (Some f, int (length f), q1)" "sq_inv q1" "sq_frames q1 = fs"
    "quota q1 = quota q + 1" by blast
  have "quota q1 + 1 + 2 * length (sq_frames q1) < 2 ^ 31"
    using sq_inv_quota_free [OF inv] q1(3,4) f by simp
  note q2 = sq_inv_free_block [OF q1(2) this]
  show thesis
    by (rule that [of q1]) (use h q1(1,3) q2 in \<open>simp_all add: framer_round_def holds_def\<close>)
qed

text \<open>Framing a block: the frames go on the event queue, the rest into the framer.\<close>

lemma receive_data:
  assumes h: "holds m q e fr" and inv: "sq_inv e" and ok: "framer_ok fr" "rest_ok fr" "0 \<le> fr_queue_limit fr"
    and flen: "length f < 2 ^ 31" and room: "length (pending fr) + length f \<le> sq_room e" and env: "settled env"
  obtains m2 e1 fr1 gs dropped where "framer_receive env f (int (length f)) (set_recv_queue q1 m) = Inr m2"
    "holds m2 q1 e1 fr1" "sq_inv e1" "framer_ok fr1" "rest_ok fr1" "sq_frames e1 = sq_frames e @ gs"
    "concat gs @ pending fr1 @ dropped = pending fr @ f" "fr_queue_limit fr = 0 \<longrightarrow> dropped = []"
    "sq_room e - length gs \<le> sq_room e1" "[] \<notin> set gs" "fr_queue_limit fr1 = fr_queue_limit fr"
    "status m2 = status m" "error_code m2 = error_code m" "is_socket_open m2 = is_socket_open m"
    "fr_error_flg fr1 = fr_error_flg fr"
proof (cases "f = []")
  case True
  then show thesis using that [of "set_recv_queue q1 m" e fr "[]" "[]"] inv ok holds_set_recv [OF h, of q1]
    by (simp add: framer_receive_def)
next
  case False
  from sqb.recv_runs [OF inv room ok flen, of "the (fe_past env)", folded settled_past [OF env]] obtain k fr1 e1 gs dropped where rr:
    "RecvSiDaqData SQPut (fe_past env) fr f (int (length f)) e = Inr (k, fr1, e1)"
    "sq_inv e1" "sq_frames e1 = sq_frames e @ gs" "concat gs @ pending fr1 @ dropped = pending fr @ f" "framer_ok fr1"
    "rest_ok fr1" "fr_queue_limit fr1 = fr_queue_limit fr" "sq_room e - length gs \<le> sq_room e1" "[] \<notin> set gs"
    "dropped = [] \<or> sqb.limit_return k fr1 e1" unfolding sqb.outcome_of_def by blast
  have dr: "fr_queue_limit fr = 0 \<longrightarrow> dropped = []"
    using rr(7,10) by (auto simp: sqb.limit_return_def)
  let ?m2 = "(set_recv_queue q1 m)\<lparr>m_framer := Some fr1, m_eventFrame := Some e1\<rparr>"
  have "framer_receive env f (int (length f)) (set_recv_queue q1 m) = Inr ?m2"
    using False holds_set_recv [OF h, of q1] rr(1) by (simp add: framer_receive_def)
  moreover have "holds ?m2 q1 e1 fr1" using holds_set_recv [OF h, of q1] by (simp add: holds_def)
  moreover have "is_socket_open ?m2 = is_socket_open m"
    using set_recv_queue_other(6) [of q1 m] by (simp add: is_socket_open_def)
  ultimately show thesis using that [OF _ _ rr(2,5,6,3,4) dr rr(8,9,7), of ?m2] recv_flg [OF rr(1)] by simp
qed

lemma round_data:
  assumes r: "ready m q e fr" and f: "sq_frames q = f # fs" and env: "settled env"
    and room: "length (pending fr) + length f \<le> sq_room e"
  shows "\<exists>m1 q1 e1 fr1 gs dropped. framer_round env m = Inr (m1, False) \<and> ready m1 q1 e1 fr1 \<and>
    sq_frames q1 = fs \<and> sq_frames e1 = sq_frames e @ gs \<and> concat gs @ pending fr1 @ dropped = pending fr @ f \<and>
    (fr_queue_limit fr = 0 \<longrightarrow> dropped = []) \<and> sq_room e - length gs \<le> sq_room e1 \<and> [] \<notin> set gs \<and>
    fr_queue_limit fr1 = fr_queue_limit fr \<and> (is_socket_open m1 \<longrightarrow> is_socket_open m) \<and>
    (reported m1 fr1 \<or> (status m1 = status m \<and> error_code m1 = error_code m \<and> fr_error_flg fr1 = fr_error_flg fr))"
proof -
  have h: "holds m q e fr" and inv: "sq_inv q" "sq_inv e" and ok: "framer_ok fr" "rest_ok fr" "0 \<le> fr_queue_limit fr"
    and sizes: "\<forall>f\<in>set (sq_frames q). length f < 2 ^ 31"
    using r by (simp_all add: ready_def)
  obtain q1 where q2: "sq_inv (q1\<lparr>quota := quota q1 + 1\<rparr>)" "sq_frames (q1\<lparr>quota := quota q1 + 1\<rparr>) = fs" and
    run: "framer_round env m = obind (framer_receive env f (int (length f)) (set_recv_queue q1 m)) (\<lambda>m2.
       obind (framer_error_check env (set_recv_queue (q1\<lparr>quota := quota q1 + 1\<rparr>) m2)) (\<lambda>m3. Inr (m3, False)))"
    by (rule round_get [OF r f env])
  let ?q2 = "q1\<lparr>quota := quota q1 + 1\<rparr>"
  have flen: "length f < 2 ^ 31" using sizes f by simp
  obtain m2 e1 fr1 gs dropped where m2: "framer_receive env f (int (length f)) (set_recv_queue q1 m) = Inr m2"
    "holds m2 q1 e1 fr1" "sq_inv e1" "framer_ok fr1" "rest_ok fr1" "sq_frames e1 = sq_frames e @ gs"
    "concat gs @ pending fr1 @ dropped = pending fr @ f" "fr_queue_limit fr = 0 \<longrightarrow> dropped = []"
    "sq_room e - length gs \<le> sq_room e1" "[] \<notin> set gs" "fr_queue_limit fr1 = fr_queue_limit fr"
    "status m2 = status m" "error_code m2 = error_code m" "is_socket_open m2 = is_socket_open m"
    "fr_error_flg fr1 = fr_error_flg fr"
    using receive_data [OF h inv(2) ok flen room env] .
  let ?m3 = "set_recv_queue ?q2 m2"
  have rd: "ready ?m3 ?q2 e1 fr1"
    using m2(3-5,11) ok(3) holds_set_recv [OF m2(2), of ?q2] q2 sizes f by (auto simp: ready_def)
  have kq: "keeps_queues (fe_wait env)" using env by (simp add: settled_defs)
  from ready_error_check [OF rd kq] obtain m4 fr4 where m4:
    "framer_error_check env ?m3 = Inr m4" "ready m4 ?q2 e1 fr4" "pending fr4 = pending fr1"
    "fr_queue_limit fr4 = fr_queue_limit fr1"
    "if unreported ?m3 fr1 then reported m4 fr4 \<and> (fr_error_code fr1 \<noteq> 0 \<longrightarrow> \<not> is_socket_open m4) \<and>
        (is_socket_open m4 \<longrightarrow> is_socket_open ?m3) else m4 = ?m3 \<and> fr4 = fr1" by blast
  have run4: "framer_round env m = Inr (m4, False)" using run m2(1) m4(1) by simp
  have st: "(is_socket_open m4 \<longrightarrow> is_socket_open m) \<and>
    (reported m4 fr4 \<or> (status m4 = status m \<and> error_code m4 = error_code m \<and> fr_error_flg fr4 = fr_error_flg fr))"
    using m4(5) m2(12-15) by (auto split: if_splits)
  show ?thesis
    by (rule exI [of _ m4], rule exI [of _ ?q2], rule exI [of _ e1], rule exI [of _ fr4], rule exI [of _ gs],
        rule exI [of _ dropped])
      (use run4 m4(2-4) q2(2) m2(6-11) st in simp)
qed

text \<open>A round without data after a stop: the rest goes out and the loop ends.\<close>

definition stopped :: "SiDaqMngr \<Rightarrow> SiDaqFramer \<Rightarrow> bool" where
  "stopped m fr \<longleftrightarrow> \<not> is_socket_open m \<and>
     (reported m fr \<or> (status m = SIDAQ_STOPPING \<and> fr_error_flg fr = 0))"

lemma sq_get_none:
  assumes "sq_inv q" "sq_frames q = []" "settled env"
  shows "SQGet (fe_sleep env) (fe_timed_out env) 50 q = Inr (None, 0, q)"
  using sqf.get_none [OF assms(1,2)] assms(3) by (simp add: settled_defs)

lemma set_recv_queue_same: "holds m q e fr \<Longrightarrow> set_recv_queue q m = m"
  by (simp add: holds_def set_recv_queue_def)

lemma round_empty:
  assumes r: "ready m q e fr" and f: "sq_frames q = []" and env: "settled env" and st: "stopped m fr"
    and room: "fr_rest fr = 0 \<or> 0 < sq_room e"
  shows "\<exists>m1 e1 fr1. framer_round env m = Inr (m1, True) \<and> ready m1 q e1 fr1 \<and> pending fr1 = [] \<and>
    concat (sq_frames e1) = concat (sq_frames e) @ pending fr \<and> stopped m1 fr1 \<and>
    status m1 = status m \<and> error_code m1 = error_code m"
proof -
  have h: "holds m q e fr" "sq_inv q" using r by (simp_all add: ready_def)
  from put_rest_ready [OF r room] obtain m1 e1 fr1 where m1:
    "put_rest_frame m = Inr m1" "ready m1 q e1 fr1" "pending fr1 = []"
    "concat (sq_frames e1) = concat (sq_frames e) @ pending fr" "status m1 = status m" "error_code m1 = error_code m"
    "sock_param m1 = sock_param m" "fr_error_flg fr1 = fr_error_flg fr" by blast
  have "framer_no_data m = Inr (m1, True)"
    using st h(1) m1(1) by (auto simp: framer_no_data_def stopped_def reported_def)
  then have "framer_round env m = Inr (m1, True)"
    using h sq_get_none [OF h(2) f env] set_recv_queue_same [OF h(1)] by (simp add: framer_round_def holds_def)
  moreover have "stopped m1 fr1" using st m1(5-8) by (simp add: stopped_def reported_def is_socket_open_def)
  ultimately show ?thesis using m1 by blast
qed

lemma exit_stopped:
  assumes "ready m q e fr" "stopped m fr" "settled env"
  shows "\<exists>m1. framer_exit env m = Inr m1 \<and> ready m1 q e fr \<and> \<not> is_socket_open m1 \<and> error_code m1 = error_code m \<and>
    status m1 = (if reported m fr then SIDAQ_SYS_ERROR else SIDAQ_IDLE)"
proof -
  have h: "holds m q e fr" using assms(1) by (simp add: ready_def)
  have kq: "keeps_queues (fe_wait env)" using assms(3) by (simp add: settled_defs)
  show ?thesis
  proof (cases "reported m fr")
    case True
    then have "framer_exit env m = Inr (stop_socket (fe_wait env) m)"
      using h by (simp add: framer_exit_def reported_def SiDaqStop_def)
    with True assms(1) holds_stop [OF h kq] show ?thesis
      by (intro exI [of _ "stop_socket (fe_wait env) m"]) (simp add: ready_def reported_def)
  next
    case False
    then have "framer_exit env m = Inr (m\<lparr>status := SIDAQ_IDLE\<rparr>)"
      using h assms(2) by (simp add: framer_exit_def stopped_def)
    with False assms show ?thesis
      by (intro exI [of _ "m\<lparr>status := SIDAQ_IDLE\<rparr>"])
        (auto simp: ready_def holds_def is_socket_open_def stopped_def)
  qed
qed

lemma stopped_runs: "stopped m fr \<Longrightarrow> framer_runs m"
  by (auto simp: stopped_def reported_def framer_runs_def)

text \<open>After a stop the thread drains the receive queue and ends: one round per block and one more.\<close>

text \<open>The last round and the end of a stopped measurement; the memory that is left after a block.\<close>

lemma drain_last:
  assumes r: "ready m q e fr" "sq_frames q = []" and env: "settled env" and st: "stopped m fr"
    and room: "length (pending fr) \<le> sq_room e"
  shows "\<exists>m1 m2 e1 fr1. framer_round env m = Inr (m1, True) \<and> framer_exit env m1 = Inr m2 \<and> ready m2 q e1 fr1 \<and>
    concat (sq_frames e1) = concat (sq_frames e) @ pending fr \<and> pending fr1 = [] \<and> \<not> is_socket_open m2 \<and>
    (status m2 = SIDAQ_IDLE \<and> error_code m2 = error_code m \<or> status m2 = SIDAQ_SYS_ERROR \<and> error_code m2 \<noteq> 0) \<and>
    (reported m fr \<longrightarrow> status m2 = SIDAQ_SYS_ERROR)"
proof -
  have "fr_rest fr = 0 \<or> 0 < sq_room e" using r(1) room length_pending by (fastforce simp: ready_def)
  from round_empty [OF r env st this] obtain m1 e1 fr1 where m1:
    "framer_round env m = Inr (m1, True)" "ready m1 q e1 fr1" "pending fr1 = []"
    "concat (sq_frames e1) = concat (sq_frames e) @ pending fr" "stopped m1 fr1" "status m1 = status m"
    "error_code m1 = error_code m" by blast
  from exit_stopped [OF m1(2,5) env] obtain m2 where m2: "framer_exit env m1 = Inr m2" "ready m2 q e1 fr1"
    "\<not> is_socket_open m2" "error_code m2 = error_code m1"
    "status m2 = (if reported m1 fr1 then SIDAQ_SYS_ERROR else SIDAQ_IDLE)" by blast
  show ?thesis
    by (rule exI [of _ m1], rule exI [of _ m2], rule exI [of _ e1], rule exI [of _ fr1])
      (use m1 m2 st in \<open>auto simp: reported_def stopped_def\<close>)
qed

lemma room_left:
  assumes "concat gs @ p1 = p @ f" "[] \<notin> set gs" "(k :: nat) - length gs \<le> k1" "length p + length (f @ bs) \<le> k"
  shows "length p1 + length bs \<le> k1"
proof -
  have "length gs \<le> length (concat gs)" using assms(2) by (induction gs) (auto simp: Suc_le_eq add_strict_increasing)
  moreover have "length (concat gs) + length p1 = length p + length f" using arg_cong [OF assms(1), of length] by simp
  ultimately show ?thesis using assms(3,4) by simp
qed

lemma rounds_drain:
  assumes "ready m q e fr" "stopped m fr" "length envs = Suc (length (sq_frames q))" "\<forall>env\<in>set envs. settled env"
    and "fr_queue_limit fr = 0" "length (pending fr) + length (concat (sq_frames q)) \<le> sq_room e"
  shows "\<exists>m1 q1 e1 fr1. framer_rounds envs m = Inr (m1, True) \<and> ready m1 q1 e1 fr1 \<and> sq_frames q1 = [] \<and>
    concat (sq_frames e1) = concat (sq_frames e) @ pending fr @ concat (sq_frames q) \<and> pending fr1 = [] \<and>
    \<not> is_socket_open m1 \<and>
    (status m1 = SIDAQ_IDLE \<and> error_code m1 = error_code m \<or> status m1 = SIDAQ_SYS_ERROR \<and> error_code m1 \<noteq> 0) \<and>
    (reported m fr \<longrightarrow> status m1 = SIDAQ_SYS_ERROR)"
  using assms
proof (induction envs arbitrary: m q e fr)
  case (Cons env envs)
  have env: "settled env" using Cons.prems(4) by simp
  have runs: "framer_runs m" using stopped_runs [OF Cons.prems(2)] .
  show ?case
  proof (cases "sq_frames q")
    case Nil
    have "length (pending fr) \<le> sq_room e" using Cons.prems(6) by simp
    from drain_last [OF Cons.prems(1) Nil env Cons.prems(2) this] obtain m1 m2 e1 fr1 where m:
      "framer_round env m = Inr (m1, True)" "framer_exit env m1 = Inr m2" "ready m2 q e1 fr1"
      "concat (sq_frames e1) = concat (sq_frames e) @ pending fr" "pending fr1 = []" "\<not> is_socket_open m2"
      "status m2 = SIDAQ_IDLE \<and> error_code m2 = error_code m \<or> status m2 = SIDAQ_SYS_ERROR \<and> error_code m2 \<noteq> 0"
      "reported m fr \<longrightarrow> status m2 = SIDAQ_SYS_ERROR" by blast
    have "framer_rounds (env # envs) m = Inr (m2, True)" using runs m(1,2) by simp
    then show ?thesis using m Nil by auto
  next
    case (Cons f fs)
    have room: "length (pending fr) + length f \<le> sq_room e" using Cons.prems(6) Cons by simp
    from round_data [OF Cons.prems(1) Cons env room] Cons.prems(5) obtain m1 q1 e1 fr1 gs where m1:
      "framer_round env m = Inr (m1, False)" "ready m1 q1 e1 fr1" "sq_frames q1 = fs"
      "sq_frames e1 = sq_frames e @ gs" "concat gs @ pending fr1 = pending fr @ f"
      "sq_room e - length gs \<le> sq_room e1" "[] \<notin> set gs" "fr_queue_limit fr1 = 0" "is_socket_open m1 \<longrightarrow> is_socket_open m"
      "reported m1 fr1 \<or> (status m1 = status m \<and> error_code m1 = error_code m \<and> fr_error_flg fr1 = fr_error_flg fr)"
      by fastforce
    have st: "stopped m1 fr1" using Cons.prems(2) m1(9,10) by (auto simp: stopped_def reported_def)
    have room1: "length (pending fr1) + length (concat (sq_frames q1)) \<le> sq_room e1"
      using room_left [OF m1(5,7,6)] Cons.prems(6) Cons m1(3) by simp
    have "length envs = Suc (length (sq_frames q1))" "\<forall>env\<in>set envs. settled env"
      using Cons.prems(3,4) Cons m1(3) by simp_all
    from Cons.IH [OF m1(2) st this m1(8) room1] obtain m2 q2 e2 fr2 where m2:
      "framer_rounds envs m1 = Inr (m2, True)" "ready m2 q2 e2 fr2" "sq_frames q2 = []"
      "concat (sq_frames e2) = concat (sq_frames e1) @ pending fr1 @ concat (sq_frames q1)" "pending fr2 = []"
      "\<not> is_socket_open m2"
      "status m2 = SIDAQ_IDLE \<and> error_code m2 = error_code m1 \<or> status m2 = SIDAQ_SYS_ERROR \<and> error_code m2 \<noteq> 0"
      "reported m1 fr1 \<longrightarrow> status m2 = SIDAQ_SYS_ERROR" by blast
    have "framer_rounds (env # envs) m = Inr (m2, True)" using runs m1(1) m2(1) by simp
    moreover have "concat (sq_frames e2) = concat (sq_frames e) @ pending fr @ concat (sq_frames q)"
      using m2(4) m1(3,4,5) Cons by (metis append.assoc concat.simps(2) concat_append)
    moreover have "(status m2 = SIDAQ_IDLE \<and> error_code m2 = error_code m \<or> status m2 = SIDAQ_SYS_ERROR \<and> error_code m2 \<noteq> 0) \<and>
        (reported m fr \<longrightarrow> status m2 = SIDAQ_SYS_ERROR)"
      using m2(7,8) m1(10) by (auto simp: reported_def)
    ultimately show ?thesis using m2(2,3,5,6) by blast
  qed
qed simp

end
