(* ===== verification/Framer_Overread.thy ===== *)
theory Framer_Overread
  imports Framer_Split
begin

text \<open>
  The one read of \<open>RecvSiDaqData\<close> outside its blocks: when a chunk is used up at a frame boundary, the
  loop still copies \<open>read_ptr[0]\<close>, the byte behind the chunk.  Here: the value of that byte never matters,
  the read is the only thing that depends on it, and exactly when it happens.
\<close>

section \<open>Nothing else depends on the byte\<close>

lemma loop_unread:
  "recv_loop fuel sqput None rd n k fr q = recv_loop fuel sqput (Some p) rd n k fr q \<or>
   recv_loop fuel sqput None rd n k fr q = Inl Out_of_bounds"
proof (induction fuel arbitrary: rd n k fr q)
  case 0
  then show ?case by (cases rd) simp_all
next
  case (Suc fuel)
  show ?case
  proof (cases rd)
    case (Some bs)
    show ?thesis
    proof (cases "n = 0 \<or> n < fr_header_len fr")
      case True
      then show ?thesis by (cases bs) (auto simp: Some recv_loop_Suc)
    next
      case False
      obtain fr2 ev where c: "check_length fr (event_length fr (take (nat n) bs) n) n = (fr2, ev)" by force
      show ?thesis
      proof (cases "sqput bs (i32 (ev + fr_header_len fr2)) q")
        case (Inr r)
        then show ?thesis using False c Suc.IH by (cases r) (simp add: Some recv_loop_Suc Let_def)
      qed (use False c in \<open>simp add: Some recv_loop_Suc Let_def\<close>)
    qed
  qed simp
qed

lemma recv_unread:
  "RecvSiDaqData sqput None fr data n q = RecvSiDaqData sqput (Some p) fr data n q \<or>
   RecvSiDaqData sqput None fr data n q = Inl Out_of_bounds"
proof (cases "0 < fr_rest fr")
  case True
  consider x where "recv_rest sqput fr data n q = Inl x" | x where "recv_rest sqput fr data n q = Inr (Inl x)"
    | k rd l fr1 q1 where "recv_rest sqput fr data n q = Inr (Inr (k, rd, l, fr1, q1))"
    by (metis prod_cases5 sumE)
  then show ?thesis
    by cases (use True in \<open>simp_all add: RecvSiDaqData_def loop_unread\<close>)
next
  case False
  then show ?thesis by (simp add: RecvSiDaqData_def loop_unread)
qed

section \<open>When it is read\<close>

text \<open>Without the return at the queue limit: exactly when the loop keeps nothing.\<close>

lemma loop_overread:
  assumes "framer_ok fr" "length bs < 2 ^ 31" "length bs < fuel"
    and "recv_loop fuel sqput (Some p) (Some bs) (int (length bs)) k fr q = Inr (r, fr1, q1)" "0 \<le> r"
  shows "recv_loop fuel sqput None (Some bs) (int (length bs)) k fr q = Inl Out_of_bounds \<longleftrightarrow> fr_rest fr1 = 0"
  using assms
proof (induction fuel arbitrary: bs k fr q)
  case (Suc fuel)
  note ok = Suc.prems(1) and len = Suc.prems(2) and run = Suc.prems(4)
  show ?case
  proof (cases "bs = [] \<or> int (length bs) < fr_header_len fr")
    case True
    then show ?thesis using run ok
      by (cases bs) (auto simp: recv_loop_Suc framer_ok_def buff_write_def split: option.splits if_splits)
  next
    case False
    then have bs: "bs \<noteq> []" "fr_header_len fr \<le> int (length bs)" by auto
    obtain fr2 n where c: "cut fr bs = (fr2, n)" by force
    note b = cut_bounds [OF ok bs(1) len c]
    obtain ev where ev: "check_length fr (event_length fr bs (int (length bs))) (int (length bs)) = (fr2, ev)"
      "n = ev + fr_header_len fr2" using c by (auto simp: cut_def Let_def split: prod.splits)
    have nb: "i32 n = n" using b(1,3) by (intro i32_id) auto
    show ?thesis
    proof (cases "n \<le> int (length bs)")
      case True
      have neg: "\<not> int (length bs) < fr_header_len fr" "int (length bs) \<noteq> 0" using bs by auto
      from run True ev nb neg obtain cnt q2 where put: "sqput bs n q = Inr (cnt, q2)"
        by (auto simp: recv_loop_Suc Let_def)
      from run True ev nb neg put Suc.prems(5) have cnt: "0 \<le> cnt" "\<not> limit_hit fr2 cnt"
        by (auto simp: recv_loop_Suc Let_def split: if_splits)
      note step = recv_loop_after_put [where sqput = sqput and q = q, OF ok bs(1) len bs(2) c True put cnt(1), of fuel _ k]
      have l: "length (drop (nat n) bs) < fuel" "length (drop (nat n) bs) < 2 ^ 31"
        using b(1) bs(1) len Suc.prems(3) by (cases bs; auto)+
      from run cnt(2) have "recv_loop fuel sqput (Some p) (Some (drop (nat n) bs)) (int (length (drop (nat n) bs))) (k + 1) fr2 q2 =
          Inr (r, fr1, q1)" unfolding step by simp
      from Suc.IH [OF b(4) l(2,1) this Suc.prems(5)] cnt(2) show ?thesis unfolding step by simp
    next
      case n: False
      note st = recv_loop_store [OF ok bs(1) len bs(2) c, THEN conjunct1, of fuel sqput _ k q]
      have "recv_loop (Suc fuel) sqput past (Some bs) (int (length bs)) k fr q = Inr (k, stored bs fr, q)" for past
        using st n by simp
      with run have "recv_loop (Suc fuel) sqput None (Some bs) (int (length bs)) k fr q = Inr (k, stored bs fr, q)"
        "fr1 = stored bs fr" by simp_all
      then show ?thesis using bs(1) by (simp add: stored_def)
    qed
  qed
qed simp

lemma recv_overread:
  assumes "framer_ok fr" "fr_rest fr = 0" "length bs < 2 ^ 31"
    and "RecvSiDaqData sqput (Some p) fr bs (int (length bs)) q = Inr (r, fr1, q1)" "0 \<le> r"
  shows "RecvSiDaqData sqput None fr bs (int (length bs)) q = Inl Out_of_bounds \<longleftrightarrow> fr_rest fr1 = 0"
proof -
  have "RecvSiDaqData sqput past fr bs (int (length bs)) q =
      recv_loop (Suc (length bs)) sqput past (Some bs) (int (length bs)) 0 fr q" for past
    using assms(2) by (simp add: RecvSiDaqData_def)
  with assms loop_overread [of fr bs "Suc (length bs)" sqput p 0 q r fr1 q1] show ?thesis by simp
qed

end
