(* ===== verification/Framer_Props.thy ===== *)
theory Framer_Props
  imports Framer_Overread
begin

text \<open>
  The properties of \<open>RecvSiDaqData\<close> on the linked-list queue: no byte is lost, duplicated or
  reordered; the frames depend on the stream and not on how it was cut into chunks; what the code
  does on a bad length, at the queue limit, with a header split over chunks, and with frames larger
  than its buffer.
\<close>

section \<open>The configured framer\<close>

definition reads_header :: "length_func option \<Rightarrow> int \<Rightarrow> bool" where
  "reads_header f h \<longleftrightarrow> (\<forall>g bs. f = Some g \<and> h \<le> int (length bs) \<and> length bs < 2 ^ 31 \<longrightarrow>
     g bs (int (length bs)) h = g (take (nat h) bs) h h)"

lemma reads_header_None [simp]: "reads_header None h"
  by (simp add: reads_header_def)

lemma configured_ok:
  assumes "NewSiDaqFramer True True = Some fr0" "0 \<le> h" "h \<le> 2" "0 \<le> mx" "mx \<le> DEFAULT_MAX_FRAME_LEN"
    "0 \<le> fixed" "fixed < 2 ^ 32"
    and "reads_header f h" and "fr = configure_framer f h fixed lim mx fr0"
  shows "framer_ok fr" "rest_ok fr" "pending fr = []" "fr_queue_limit fr = lim" "fr_header_len fr = h"
    "fr_max_frame_len fr = mx" "fr_error_code fr = 0" "fr_rest fr = 0" "fr_lengthFunc fr = f"
    "fr_fixed_frame_len fr = fixed"
proof -
  have i: "i32 h = h" using assms(2,3) by (intro i32_id) auto
  have b: "fr_buff_ptr fr0 = Some (replicate (nat DEFAULT_MAX_FRAME_LEN) 0)"
    "fr_buff_size fr0 = DEFAULT_MAX_FRAME_LEN" "fr_rest fr0 = 0"
    using assms(1) by (auto simp: NewSiDaqFramer_def)
  show s: "fr_queue_limit fr = lim" "fr_header_len fr = h" "fr_max_frame_len fr = mx" "fr_error_code fr = 0"
    "fr_rest fr = 0" "fr_lengthFunc fr = f" "fr_fixed_frame_len fr = fixed"
    using b(3) i assms(9) by (simp_all add: configure_framer_def)
  then show "rest_ok fr" "pending fr = []" by simp_all
  have "fr_buff_ptr fr = fr_buff_ptr fr0" "fr_buff_size fr = fr_buff_size fr0"
    using assms(9) by (simp_all add: configure_framer_def)
  with s b assms(2-8) show "framer_ok fr"
    by (auto simp: framer_ok_def buff_bytes_def DEFAULT_MAX_FRAME_LEN_def header_only_def reads_header_def)
qed

text \<open>A fixed-length framer, the example of the witnesses.\<close>

definition demo_framer :: "int \<Rightarrow> int \<Rightarrow> SiDaqFramer" where
  "demo_framer fixed lim = configure_framer None 0 fixed lim DEFAULT_MAX_FRAME_LEN
     (the (NewSiDaqFramer True True))"

lemma demo_framer_ok:
  assumes "0 < fixed" "fixed < 1000"
  shows "framer_ok (demo_framer fixed lim)" "rest_ok (demo_framer fixed lim)" "pending (demo_framer fixed lim) = []"
    "fr_queue_limit (demo_framer fixed lim) = lim" "fr_header_len (demo_framer fixed lim) = 0"
    "fr_max_frame_len (demo_framer fixed lim) = 262144" "fr_rest (demo_framer fixed lim) = 0"
    "fr_lengthFunc (demo_framer fixed lim) = None" "fr_fixed_frame_len (demo_framer fixed lim) = fixed"
    "keyed (demo_framer fixed lim)" "head_event (demo_framer fixed lim) bs = fixed"
    "fr_error_code (demo_framer fixed lim) = 0"
proof -
  have n: "NewSiDaqFramer True True = Some (the (NewSiDaqFramer True True))" by (simp add: NewSiDaqFramer_def)
  have b: "(0::int) \<le> 0" "(0::int) \<le> 2" "0 \<le> DEFAULT_MAX_FRAME_LEN" "DEFAULT_MAX_FRAME_LEN \<le> DEFAULT_MAX_FRAME_LEN"
    "0 \<le> fixed" "fixed < 2 ^ 32"
    using assms by (simp_all add: DEFAULT_MAX_FRAME_LEN_def)
  note c = configured_ok [OF n b reads_header_None demo_framer_def]
  show "framer_ok (demo_framer fixed lim)" "rest_ok (demo_framer fixed lim)" "pending (demo_framer fixed lim) = []"
    "fr_queue_limit (demo_framer fixed lim) = lim" and h: "fr_header_len (demo_framer fixed lim) = 0"
    and "fr_max_frame_len (demo_framer fixed lim) = 262144" "fr_rest (demo_framer fixed lim) = 0"
    and l: "fr_lengthFunc (demo_framer fixed lim) = None" and f: "fr_fixed_frame_len (demo_framer fixed lim) = fixed"
    and "fr_error_code (demo_framer fixed lim) = 0"
    using c [of lim] unfolding DEFAULT_MAX_FRAME_LEN_def by blast+
  show "keyed (demo_framer fixed lim)" using f assms by (simp add: keyed_def)
  show "head_event (demo_framer fixed lim) bs = fixed"
    using assms l f by (simp add: head_event_def event_length_def i32_id)
qed

lemma demo_stream:
  "frame_size (demo_framer 2 0) bs = 2" "no_head (demo_framer 2 0) bs = (bs = [])" "good_head (demo_framer 2 0) bs"
proof -
  have p: "(0::int) < 2" "(2::int) < 1000" by simp_all
  note f = demo_framer_ok(5,6,11) [OF p]
  show "frame_size (demo_framer 2 0) bs = 2" by (simp add: frame_size_def f)
  show "no_head (demo_framer 2 0) bs = (bs = [])" by (simp add: no_head_def f)
  show "good_head (demo_framer 2 0) bs" by (simp add: frame_size_def good_head_def f)
qed

lemma demo_split_step:
  "split_frames (demo_framer 2 0) (a # b # bs) =
     ([a, b] # fst (split_frames (demo_framer 2 0) bs), snd (split_frames (demo_framer 2 0) bs))"
  "split_frames (demo_framer 2 0) [a] = ([], [a])"
  using split_cons [of "demo_framer 2 0" "a # b # bs"] split_none [of "demo_framer 2 0" "[a]"]
  by (simp_all add: demo_stream)

lemma demo_ok_step:
  "stream_ok (demo_framer 2 0) (a # b # bs) = stream_ok (demo_framer 2 0) bs"
  "stream_ok (demo_framer 2 0) [a]"
  by (subst stream_ok.simps, simp add: demo_stream Let_def)+

lemma demo_split:
  "split_frames (demo_framer 2 0) [1, 2, 3, 4, 5] = ([[1, 2], [3, 4]], [5])"
  "stream_ok (demo_framer 2 0) [1, 2, 3, 4, 5]"
  by (simp_all add: demo_split_step demo_ok_step)

lemma demo_queue:
  assumes "1 < mem" "mem < 2 ^ 31"
  obtains q where "NewSQueue True mem = Inr q" "sq_inv q" "sq_frames q = []" "sq_room q = (mem - 1) div 2"
  using NewSQueue_inv [of mem] assms that by (auto simp: sq_room_def)

section \<open>Properties\<close>



text \<open>C8: Refinement of the stream specification, for a header of at most two bytes (\<open>framer_ok\<close>),
  no limit of the event queue, and enough memory. Feeding a sequence of non-empty chunks whose stream has acceptable
  frame lengths (\<open>stream_ok\<close>), the byte behind each chunk being readable, yields on the event queue
  exactly the frames of the whole stream, keeps exactly its unfinished end, and reports no error.\<close>

theorem feed_refines_split:
  assumes "sq_inv q" "length (pending fr) + length (concat ds) \<le> sq_room q"
    and "framer_ok fr" "rest_ok fr" "fr_queue_limit fr = 0"
    and "\<forall>d\<in>set ds. d \<noteq> [] \<and> length d < 2 ^ 31"
    and "keyed fr" "fr_header_len fr < fr_max_frame_len fr" "stream_ok fr (pending fr @ concat ds)"
  shows "\<exists>fr' q'. feed SQPut (Some past) ds fr q = Inr (fr', q') \<and> sq_inv q' \<and>
    sq_frames q' = sq_frames q @ fst (split_frames fr (pending fr @ concat ds)) \<and>
    pending fr' = snd (split_frames fr (pending fr @ concat ds)) \<and> framer_ok fr' \<and> rest_ok fr' \<and>
    same_config fr fr' \<and> fr_error_code fr' = fr_error_code fr"
  using assms by (rule sqb.feed_splits)

theorem feed_refines_split_witness:
  "\<exists>q fr' q'. NewSQueue True 100 = Inr q \<and> feed SQPut (Some 0) [[1, 2, 3], [4, 5]] (demo_framer 2 0) q = Inr (fr', q') \<and>
     sq_frames q' = [[1, 2], [3, 4]] \<and> pending fr' = [5]"
proof -
  obtain q where q: "NewSQueue True 100 = Inr q" "sq_inv q" "sq_frames q = []" "sq_room q = 49"
    using demo_queue [of 100] by auto
  let ?ds = "[[1, 2, 3], [4, 5 :: byte]]"
  note f = demo_framer_ok [of 2 0]
  have a: "length (pending (demo_framer 2 0)) + length (concat ?ds) \<le> sq_room q"
    "framer_ok (demo_framer 2 0)" "rest_ok (demo_framer 2 0)" "fr_queue_limit (demo_framer 2 0) = 0"
    "\<forall>d\<in>set ?ds. d \<noteq> [] \<and> length d < 2 ^ 31"
    "keyed (demo_framer 2 0)" "fr_header_len (demo_framer 2 0) < fr_max_frame_len (demo_framer 2 0)"
    "stream_ok (demo_framer 2 0) (pending (demo_framer 2 0) @ concat ?ds)"
    using q(4) f demo_split by simp_all
  from feed_refines_split [OF q(2) a, of 0] q f(3) demo_split(1) show ?thesis by auto
qed

text \<open>Chunk independence.  Two ways of cutting the same stream into non-empty chunks give
  the same frames on the event queue and the same unfinished end.\<close>

theorem feed_chunk_independent:
  assumes "sq_inv q" "length (pending fr) + length (concat ds) \<le> sq_room q"
    and "framer_ok fr" "rest_ok fr" "fr_queue_limit fr = 0"
    and "\<forall>d\<in>set ds. d \<noteq> [] \<and> length d < 2 ^ 31" "\<forall>d\<in>set es. d \<noteq> [] \<and> length d < 2 ^ 31"
    and "keyed fr" "fr_header_len fr < fr_max_frame_len fr" "stream_ok fr (pending fr @ concat ds)"
    and "concat ds = concat es"
  shows "\<exists>fr1 q1 fr2 q2. feed SQPut (Some past1) ds fr q = Inr (fr1, q1) \<and> feed SQPut (Some past2) es fr q = Inr (fr2, q2) \<and>
    sq_frames q1 = sq_frames q2 \<and> pending fr1 = pending fr2"
proof -
  from sqb.feed_splits [OF assms(1-6,8-10), of past1]
  obtain fr1 q1 where 1: "feed SQPut (Some past1) ds fr q = Inr (fr1, q1)"
    "sq_frames q1 = sq_frames q @ fst (split_frames fr (pending fr @ concat ds))"
    "pending fr1 = snd (split_frames fr (pending fr @ concat ds))" by blast
  from sqb.feed_splits [OF assms(1) _ assms(3-5,7-9), of past2] assms(2,10,11)
  obtain fr2 q2 where "feed SQPut (Some past2) es fr q = Inr (fr2, q2)"
    "sq_frames q2 = sq_frames q @ fst (split_frames fr (pending fr @ concat ds))"
    "pending fr2 = snd (split_frames fr (pending fr @ concat ds))" by auto
  with 1 show ?thesis by auto
qed

theorem feed_chunk_independent_witness:
  "\<exists>q fr1 q1 fr2 q2. NewSQueue True 100 = Inr q \<and>
     feed SQPut (Some 0) [[1], [2, 3, 4], [5]] (demo_framer 2 0) q = Inr (fr1, q1) \<and>
     feed SQPut (Some 9) [[1, 2, 3, 4, 5]] (demo_framer 2 0) q = Inr (fr2, q2) \<and>
     sq_frames q1 = sq_frames q2 \<and> pending fr1 = pending fr2"
proof -
  obtain q where q: "NewSQueue True 100 = Inr q" "sq_inv q" "sq_frames q = []" "sq_room q = 49"
    using demo_queue [of 100] by auto
  let ?ds = "[[1], [2, 3, 4], [5 :: byte]]"
  let ?es = "[[1, 2, 3, 4, 5 :: byte]]"
  note f = demo_framer_ok [of 2 0]
  have a: "length (pending (demo_framer 2 0)) + length (concat ?ds) \<le> sq_room q"
    "framer_ok (demo_framer 2 0)" "rest_ok (demo_framer 2 0)" "fr_queue_limit (demo_framer 2 0) = 0"
    "\<forall>d\<in>set ?ds. d \<noteq> [] \<and> length d < 2 ^ 31" "\<forall>d\<in>set ?es. d \<noteq> [] \<and> length d < 2 ^ 31"
    "keyed (demo_framer 2 0)" "fr_header_len (demo_framer 2 0) < fr_max_frame_len (demo_framer 2 0)"
    "stream_ok (demo_framer 2 0) (pending (demo_framer 2 0) @ concat ?ds)" "concat ?ds = concat ?es"
    using q(4) f demo_split by simp_all
  from feed_chunk_independent [OF q(2) a, of 0 9] q(1) show ?thesis by blast
qed

text \<open>C38: A bad frame length in the first header of a chunk, with nothing left from earlier chunks, no limit
  of the event queue and a header of at most two bytes: the whole chunk goes out as one frame, the error is
  recorded (too long wins over not computable), and from then on nothing is cut any more.\<close>

theorem recv_bad_length:
  assumes q: "sq_inv q" "0 < sq_room q" and ok: "framer_ok fr" "fr_rest fr = 0" "fr_queue_limit fr = 0"
    and d: "length data < 2 ^ 31" "keyed fr" "\<not> no_head fr data" "\<not> good_head fr data"
  shows "\<exists>fr' q'. RecvSiDaqData SQPut (Some past) fr data (int (length data)) q = Inr (1, fr', q') \<and>
    sq_frames q' = sq_frames q @ [data] \<and> pending fr' = [] \<and> nulled fr' \<and>
    fr_error_code fr' = framer_code
      (if head_event fr data < 0 \<and> int (length data) \<le> fr_max_frame_len fr
       then FRAMER_GET_FRAME_LENGTH_FAILED else FRAMER_EXCEED_MAX_FRAME_LENGTH)"
proof -
  let ?len = "int (length data)"
  have h: "fr_header_len fr \<le> ?len" "data \<noteq> []" using d(3) by (auto simp: no_head_def)
  have e: "event_length fr data ?len = head_event fr data" using event_length_keyed [OF ok(1) h(1) d(1)] d(2) by simp
  have rng: "0 \<le> fr_header_len fr" "fr_header_len fr \<le> 2" "u32 ?len = ?len"
    using ok(1) d(1) by (auto simp: framer_ok_def intro: u32_id)
  have r: "head_event fr data < 2 ^ 31" using event_length_range [of ?len fr data] d(1) e by simp
  let ?e = "if head_event fr data < 0 \<and> ?len \<le> fr_max_frame_len fr
       then FRAMER_GET_FRAME_LENGTH_FAILED else FRAMER_EXCEED_MAX_FRAME_LENGTH"
  have c: "cut fr data = (null_framer ?e fr, ?len)"
  proof (cases "head_event fr data < 0")
    case True
    then show ?thesis using e rng(3)
      by (auto simp: cut_def check_length_def Let_def null_framer_twice) (simp_all add: null_framer_def set_error_def)
  next
    case False
    then have "u32 (head_event fr data + fr_header_len fr) = head_event fr data + fr_header_len fr"
      using r rng(1,2) by (intro u32_id) auto
    with False d(4) e show ?thesis
      by (auto simp: cut_def check_length_def Let_def good_head_def frame_size_def)
  qed
  let ?fr2 = "null_framer ?e fr"
  have ok2: "framer_ok ?fr2" by (rule framer_ok_null [OF ok(1)])
  have nl: "\<not> limit_hit ?fr2 (int (length (sq_frames q)) + 1)"
    using ok(3) by (simp add: limit_hit_def null_framer_def set_error_def)
  from sqb.recv_loop_put_exact [OF ok(1) h(2) d(1) h(1) c order_refl q, of "length data" past 0] nl
  obtain q1 where q1: "recv_loop (Suc (length data)) SQPut (Some past) (Some data) ?len 0 fr q =
      recv_loop (length data) SQPut (Some past) (Some []) 0 1 ?fr2 q1" "sq_frames q1 = sq_frames q @ [data]" by auto
  obtain m where m: "length data = Suc m" using h(2) by (cases data) auto
  from recv_loop_end [OF ok2, of "[]" m SQPut past 1 q1] obtain fr1 where f1:
    "recv_loop (length data) SQPut (Some past) (Some []) 0 1 ?fr2 q1 = Inr (1, fr1, q1)" "pending fr1 = []"
    "same_config ?fr2 fr1" "fr_error_code fr1 = fr_error_code ?fr2" unfolding m by auto
  have "nulled fr1" using f1(3) by (simp add: nulled_def same_config_def)
  moreover have "RecvSiDaqData SQPut (Some past) fr data ?len q = Inr (1, fr1, q1)"
    using q1(1) f1(1) ok(2) by (simp add: RecvSiDaqData_def)
  ultimately show ?thesis using q1(2) f1(2,4) by auto
qed

theorem recv_bad_length_witness:
  "\<exists>q fr' q'. NewSQueue True 100 = Inr q \<and>
     RecvSiDaqData SQPut (Some 0) ((demo_framer 2 0)\<lparr>fr_fixed_frame_len := 300000\<rparr>) [1, 2, 3] (int (length [1, 2, 3 :: byte])) q =
       Inr (1, fr', q') \<and>
     sq_frames q' = [[1, 2, 3]] \<and> fr_error_code fr' = 5"
proof -
  obtain q where q: "NewSQueue True 100 = Inr q" "sq_inv q" "sq_frames q = []" "sq_room q = 49"
    using demo_queue [of 100] by auto
  let ?fr = "(demo_framer 2 0)\<lparr>fr_fixed_frame_len := 300000\<rparr>"
  note f = demo_framer_ok [of 2 0]
  have i: "i32 300000 = 300000" by (intro i32_id) simp_all
  have a: "0 < sq_room q" "framer_ok ?fr" "fr_rest ?fr = 0" "fr_queue_limit ?fr = 0"
    "length [1, 2, 3 :: byte] < 2 ^ 31" "keyed ?fr" "\<not> no_head ?fr [1, 2, 3]"
    using q(4) f(1,4,5,7) by (auto simp: framer_ok_def header_only_def buff_bytes_def keyed_def no_head_def)
  have h: "head_event ?fr [1, 2, 3] = 300000" using f(5,8) i by (simp add: head_event_def event_length_def)
  then have "\<not> good_head ?fr [1, 2, 3]" using f(5,6) by (simp add: good_head_def frame_size_def)
  from recv_bad_length [OF q(2) a this, of 0] q h show ?thesis by auto
qed

text \<open>C39: The event queue limit, with nothing left from earlier chunks and a header of at most two bytes: when
  the first frame of a chunk, complete in it, brings the queue to the limit, that frame is still queued, the call
  returns -1 with the limit error, and the rest of the chunk is dropped (nothing is pending).\<close>

theorem recv_queue_limit:
  assumes q: "sq_inv q" "0 < sq_room q" and ok: "framer_ok fr" "fr_rest fr = 0"
    and lim: "0 < fr_queue_limit fr" "fr_queue_limit fr \<le> int (length (sq_frames q)) + 1"
    and d: "length data < 2 ^ 31" "keyed fr" "\<not> no_head fr data" "good_head fr data"
      "frame_size fr data \<le> int (length data)"
  shows "\<exists>fr' q'. RecvSiDaqData SQPut (Some past) fr data (int (length data)) q = Inr (-1, fr', q') \<and>
    sq_frames q' = sq_frames q @ [take (nat (frame_size fr data)) data] \<and> pending fr' = [] \<and>
    fr_error_code fr' = framer_code FRAMER_EXCEED_FRAME_QUEUE_COUNT"
proof -
  have h: "fr_header_len fr \<le> int (length data)" "data \<noteq> []" using d(3) by (auto simp: no_head_def)
  have "u32 (int (length (sq_frames q)) + 1) = int (length (sq_frames q)) + 1"
    using sq_frames_bound [OF q(1)] by (intro u32_id) auto
  then have hit: "limit_hit fr (int (length (sq_frames q)) + 1)" using lim by (simp add: limit_hit_def)
  from sqb.recv_loop_put_exact [OF ok(1) h(2) d(1) h(1) cut_good [OF ok(1) d(2,3,1,4)] d(5) q, of "length data" past 0] hit
  obtain q1 where "recv_loop (Suc (length data)) SQPut (Some past) (Some data) (int (length data)) 0 fr q =
      Inr (-1, set_error FRAMER_EXCEED_FRAME_QUEUE_COUNT fr, q1)"
    "sq_frames q1 = sq_frames q @ [take (nat (frame_size fr data)) data]" by auto
  then show ?thesis using ok(2) by (simp add: RecvSiDaqData_def set_error_def)
qed

theorem recv_queue_limit_witness:
  "\<exists>q fr' q'. NewSQueue True 100 = Inr q \<and>
     RecvSiDaqData SQPut (Some 0) (demo_framer 2 1) [1, 2, 3] (int (length [1, 2, 3 :: byte])) q = Inr (-1, fr', q') \<and>
     sq_frames q' = [[1, 2]] \<and> pending fr' = [] \<and> fr_error_code fr' = 3"
proof -
  obtain q where q: "NewSQueue True 100 = Inr q" "sq_inv q" "sq_frames q = []" "sq_room q = 49"
    using demo_queue [of 100] by auto
  have p: "(0::int) < 2" "(2::int) < 1000" by simp_all
  note f = demo_framer_ok [OF p, of 1]
  have fs: "frame_size (demo_framer 2 1) [1, 2, 3] = 2" using f(5,11) by (simp add: frame_size_def)
  have a: "0 < sq_room q" "framer_ok (demo_framer 2 1)" "fr_rest (demo_framer 2 1) = 0"
    "0 < fr_queue_limit (demo_framer 2 1)" "fr_queue_limit (demo_framer 2 1) \<le> int (length (sq_frames q)) + 1"
    "length [1, 2, 3 :: byte] < 2 ^ 31" "keyed (demo_framer 2 1)" "\<not> no_head (demo_framer 2 1) [1, 2, 3]"
    "good_head (demo_framer 2 1) [1, 2, 3]" "frame_size (demo_framer 2 1) [1, 2, 3] \<le> int (length [1, 2, 3 :: byte])"
    using q(3,4) f(1,4-7,10,11) fs by (simp_all add: no_head_def good_head_def)
  from recv_queue_limit [OF q(2) a, of 0] q fs show ?thesis by auto
qed

end
