(* ===== verification/Rbcp_Props.thy ===== *)
theory Rbcp_Props
  imports Rbcp
begin

text \<open>
  What the slow-control client guarantees: which replies it accepts, what it sends, that registers
  written through a conforming device are read back, and how it behaves on late replies, failing
  sockets and oversized requests.
\<close>

section \<open>The packet in the buffer\<close>

definition rbcp_ok :: "SiTcpRbcp \<Rightarrow> bool" where
  "rbcp_ok r \<longleftrightarrow> length (rbcp_buf r) = nat MAX_PKT_LEN \<and> 0 \<le> rb_id r \<and> rb_id r < 256"

text \<open>The eight header bytes: version, command, id, length, address.\<close>

definition packet_header :: "byte \<Rightarrow> int \<Rightarrow> int \<Rightarrow> int \<Rightarrow> byte list" where
  "packet_header cmd i n a = [0xff, cmd, word_of_int i, word_of_int n] @ htonl_bytes a"

lemma length_packet_header [simp]: "length (packet_header cmd i n a) = 8"
  by (simp add: packet_header_def htonl_bytes_def)

lemma byte_of_masked [simp]: "(word_of_int (n AND 255) :: byte) = word_of_int n"
proof -
  have "n AND 255 = take_bit 8 n" by (simp add: take_bit_eq_mask mask_eq_exp_minus_1)
  then show ?thesis by (simp add: word_of_int_eq_iff)
qed

lemma and_255_range: "0 \<le> (x AND 255 :: int) \<and> x AND 255 < 256"
proof -
  have "x AND 255 = take_bit 8 x" by (simp add: take_bit_eq_mask mask_eq_exp_minus_1)
  then show ?thesis by (simp add: take_bit_eq_mod)
qed

lemma and_255_mod: "(x AND 255 :: int) = x mod 256"
proof -
  have "x AND 255 = take_bit 8 x" by (simp add: take_bit_eq_mask mask_eq_exp_minus_1)
  then show ?thesis by (simp add: take_bit_eq_mod)
qed

lemma list_of_length_ge_8:
  assumes "8 \<le> length xs"
  obtains a b c d e f g h ys where "xs = a # b # c # d # e # f # g # h # ys"
proof -
  from assms obtain ys where ys: "drop 8 xs = ys" and len: "length (take 8 xs) = 8" by simp
  from len obtain a b c d e f g h where "take 8 xs = [a, b, c, d, e, f, g, h]"
    by (auto simp: length_Suc_conv numeral_eq_Suc simp del: length_take)
  then have "xs = [a, b, c, d, e, f, g, h] @ ys" using ys append_take_drop_id [of 8 xs] by metis
  then show thesis using that by simp
qed

lemma make_header_buf:
  assumes "8 \<le> length (rbcp_buf r)"
  shows "rbcp_buf (make_header a n rd r) =
    packet_header (if rd then 0xc0 else 0x80) (rb_id r) n a @ drop 8 (rbcp_buf r)"
  using assms
  by (elim list_of_length_ge_8)
    (simp add: make_header_def packet_header_def htonl_bytes_def write_at_def rbcp_consts)

lemma make_header_other [simp]:
  "rb_id (make_header a n rd r) = rb_id r" "rb_closed (make_header a n rd r) = rb_closed r"
  "tv_sec (make_header a n rd r) = tv_sec r" "tv_usec (make_header a n rd r) = tv_usec r"
  "rb_sock (make_header a n rd r) = rb_sock r"
  by (simp_all add: make_header_def)

section \<open>Which replies are accepted\<close>

lemma flag_bits:
  "(b AND 0xf0 = c \<and> b AND 0x08 = 0x08 \<and> b AND 0x01 \<noteq> 0x01) = (b AND 0xf9 = (c OR 0x08 :: byte))"
  if "c = 0xc0 \<or> c = 0x80"
proof
  assume bits: "b AND 0xf0 = c \<and> b AND 0x08 = 0x08 \<and> b AND 0x01 \<noteq> 0x01"
  have one: "b AND 0x01 = 0" using bits by (auto simp: and_one_eq mod_2_eq_odd split: if_splits)
  have "b AND 0xf9 = (b AND 0xf0) OR (b AND 0x08) OR (b AND 0x01)"
    unfolding bit.conj_disj_distrib [symmetric] by simp
  then show "b AND 0xf9 = c OR 0x08" using bits one by simp
next
  assume eq: "b AND 0xf9 = c OR 0x08"
  have "b AND 0xf0 = (b AND 0xf9) AND 0xf0" "b AND 0x08 = (b AND 0xf9) AND 0x08"
    "b AND 0x01 = (b AND 0xf9) AND 0x01" by (simp_all add: and.assoc)
  then show "b AND 0xf0 = c \<and> b AND 0x08 = 0x08 \<and> b AND 0x01 \<noteq> 0x01"
    unfolding eq using that by auto
qed

lemmas reply_bits = flag_bits [of "0xc0", simplified] flag_bits [of "0x80", simplified]

text \<open>A reply is accepted exactly when its size is that of the request plus the header, the
  version byte is 0xff, the command nibble is the one sent, the acknowledge bit is set, the bus
  error bit is clear, and the id and the length are those of the request; the three other flag
  bits may have any value.\<close>
theorem check_packet_accepts:
  "check_packet len recv_len rd r = Inr () \<longleftrightarrow>
     recv_len = len + 8 \<and> rbcp_buf r ! 0 = 0xff \<and>
     rbcp_buf r ! 1 AND 0xf9 = (if rd then 0xc8 else 0x88) \<and>
     uint (rbcp_buf r ! 2) = rb_id r \<and> uint (rbcp_buf r ! 3) = len"
  by (cases rd) (auto simp: check_packet_def rbcp_consts Let_def reply_bits [symmetric])

lemma check_packet_error:
  assumes "check_packet len recv_len rd r = Inl e" "rbcp_buf r ! 1 AND 1 \<noteq> 1"
  shows "error_number e = SITCPRBCP_ERR_INVALIDPACKET"
  using assms by (auto simp: check_packet_def rbcp_consts Let_def SiTcpRbcpException_def split: if_splits)

section \<open>One transaction\<close>

definition next_id :: "SiTcpRbcp \<Rightarrow> int" where
  "next_id r = (rb_id r + 1) mod 256"

text \<open>The bytes \<open>rw_memory\<close> sends.\<close>

definition request :: "int \<Rightarrow> int \<Rightarrow> bool \<Rightarrow> SiTcpRbcp \<Rightarrow> byte list" where
  "request a n rd r = packet_header (if rd then 0xc0 else 0x80) (next_id r) n a @
     (if rd then [] else take (nat n) (drop 8 (rbcp_buf r)))"

definition sent_object :: "int \<Rightarrow> int \<Rightarrow> bool \<Rightarrow> SiTcpRbcp \<Rightarrow> SiTcpRbcp" where
  "sent_object a n rd r = make_header a n rd (r\<lparr>rb_id := next_id r\<rparr>)"

lemma rbcp_ok_sent: "rbcp_ok r \<Longrightarrow> rbcp_ok (sent_object a n rd r)"
  by (simp add: rbcp_ok_def sent_object_def next_id_def make_header_buf rbcp_consts)

lemma sent_object_other [simp]:
  "rb_id (sent_object a n rd r) = next_id r" "rb_closed (sent_object a n rd r) = rb_closed r"
  by (simp_all add: sent_object_def)

lemma rw_memory_send:
  assumes "rbcp_ok r" "0 \<le> n" "n \<le> 255"
  shows "rw_memory net a n rd r w =
    (let (res, w1) = u_send net (request a n rd r) w; r1 = sent_object a n rd r in
     if res \<noteq> (if rd then 8 else n + 8)
     then (Inl (SiTcpRbcpException SITCPRBCP_ERR_SOCKETERROR ''send() failed''), rb_closesocket r1, w1)
     else case recv_packet net r1 w1 of
         (Inl e, r3, w2) \<Rightarrow> (Inl e, r3, w2)
       | (Inr recv_len, r3, w2) \<Rightarrow> (check_packet n recv_len rd r3, r3, w2))"
proof -
  have len: "8 \<le> length (rbcp_buf r)" using assms(1) by (simp add: rbcp_ok_def rbcp_consts)
  have eq: "(r\<lparr>rb_id := (rb_id r + 1) AND 255\<rparr>) = r\<lparr>rb_id := next_id r\<rparr>"
    by (simp add: next_id_def and_255_mod)
  have take: "take (nat (if rd then 8 else n + 8)) (rbcp_buf (sent_object a n rd r)) = request a n rd r"
    using assms(2) len
    by (simp add: sent_object_def make_header_buf request_def nat_add_distrib)
  show ?thesis
    unfolding rw_memory_def send_packet_def eq Let_def SITCPRBCP_HEADER_SIZE_def
      sent_object_def [symmetric] take
    by (simp split: prod.split)
qed

lemma recv_packet_reply:
  assumes "u_select net (tv_sec r, tv_usec r) w = (k, w1)" "0 < k"
    and "u_recv net 263 w1 = (int (length p), p, w2)" "length p \<le> 263" "rbcp_ok r"
  shows "recv_packet net r w = (Inr (int (length p)), r\<lparr>rbcp_buf := write_at 0 p (rbcp_buf r)\<rparr>, w2)"
  using assms by (simp add: recv_packet_def rbcp_consts)

section \<open>A conforming device\<close>

text \<open>Documented behaviour of the device and of an undisturbed UDP path, over a view of the network
  state: \<open>inbox\<close> is the sequence of datagrams waiting at the socket, \<open>mem\<close> the device's registers.
  A request is answered by one datagram that repeats its header with the acknowledge bit set;
  a read carries the registers, a write stores its data and echoes them.  Waiting datagrams are
  delivered whole and in order, and \<open>select\<close> reports zero when none is there.\<close>

definition store :: "int \<Rightarrow> byte list \<Rightarrow> (int \<Rightarrow> byte) \<Rightarrow> int \<Rightarrow> byte" where
  "store a bs m = (\<lambda>x. if a \<le> x \<and> x < a + int (length bs) then bs ! nat (x - a) else m x)"

definition registers :: "(int \<Rightarrow> byte) \<Rightarrow> int \<Rightarrow> int \<Rightarrow> byte list" where
  "registers m a n = map m [a..a + n - 1]"

definition device_answers :: "'w udp \<Rightarrow> ('w \<Rightarrow> byte list list) \<Rightarrow> ('w \<Rightarrow> int \<Rightarrow> byte) \<Rightarrow> bool" where
  "device_answers net inbox mem \<longleftrightarrow>
     (\<forall>w i n a. 0 \<le> n \<and> n \<le> 255 \<and> 0 \<le> a \<and> a < 2 ^ 32 \<longrightarrow>
        (\<exists>w1. u_send net (packet_header 0xc0 i n a) w = (8, w1) \<and> mem w1 = mem w \<and>
           inbox w1 = inbox w @ [packet_header 0xc8 i n a @ registers (mem w) a n])) \<and>
     (\<forall>w i bs a. length bs \<le> 255 \<and> 0 \<le> a \<and> a < 2 ^ 32 \<longrightarrow>
        (\<exists>w1. u_send net (packet_header 0x80 i (int (length bs)) a @ bs) w = (8 + int (length bs), w1) \<and>
           mem w1 = store a bs (mem w) \<and>
           inbox w1 = inbox w @ [packet_header 0x88 i (int (length bs)) a @ bs]))"

definition delivers_in_order :: "'w udp \<Rightarrow> ('w \<Rightarrow> byte list list) \<Rightarrow> ('w \<Rightarrow> int \<Rightarrow> byte) \<Rightarrow> bool" where
  "delivers_in_order net inbox mem \<longleftrightarrow>
     (\<forall>w t. u_select net t w = (if inbox w = [] then 0 else 1, w)) \<and>
     (\<forall>w p ps k. inbox w = p # ps \<and> int (length p) \<le> k \<longrightarrow>
        (\<exists>w1. u_recv net k w = (int (length p), p, w1) \<and> inbox w1 = ps \<and> mem w1 = mem w))"

lemma length_registers [simp]: "0 \<le> n \<Longrightarrow> length (registers m a n) = nat n"
  by (simp add: registers_def)

lemma registers_store:
  "n = int (length bs) \<Longrightarrow> registers (store a bs m) a n = bs"
  unfolding registers_def store_def
  by (rule nth_equalityI) (simp, simp add: nth_upto)

lemma recv_in_order:
  assumes "delivers_in_order net inbox mem" "inbox w = p # ps" "length p \<le> 263" "rbcp_ok r"
  obtains w1 where "recv_packet net r w = (Inr (int (length p)), r\<lparr>rbcp_buf := write_at 0 p (rbcp_buf r)\<rparr>, w1)"
    "inbox w1 = ps" "mem w1 = mem w"
proof -
  have "\<exists>w1. u_recv net 263 w = (int (length p), p, w1) \<and> inbox w1 = ps \<and> mem w1 = mem w"
    using assms(1) unfolding delivers_in_order_def
    by (elim conjE allE [of _ w] allE [of _ p] allE [of _ ps] allE [of _ 263]) (use assms(2,3) in simp)
  then obtain w1 where "u_recv net 263 w = (int (length p), p, w1)" "inbox w1 = ps" "mem w1 = mem w"
    by (elim exE conjE)
  moreover have "u_select net (tv_sec r, tv_usec r) w = (1, w)"
    using assms(1,2) by (simp add: delivers_in_order_def)
  ultimately show thesis
    using that recv_packet_reply [of net r w 1 w p w1] assms(3,4) by simp
qed

text \<open>A transaction whose request gets through is decided by the first datagram waiting.\<close>

lemma rw_memory_first:
  assumes order: "delivers_in_order net inbox mem" and ok: "rbcp_ok r" and n: "0 \<le> n" "n \<le> 255"
    and sent: "u_send net (request a n rd r) w = (if rd then 8 else n + 8, w1)"
    and box: "inbox w1 = p # ps" "length p \<le> 263"
  obtains r2 w2 where
    "rw_memory net a n rd r w = (check_packet n (int (length p)) rd r2, r2, w2)"
    "inbox w2 = ps" "mem w2 = mem w1" "rbcp_ok r2" "rb_id r2 = next_id r" "rb_closed r2 = rb_closed r"
    "take (length p) (rbcp_buf r2) = p"
proof -
  define r1 where "r1 = sent_object a n rd r"
  have ok1: "rbcp_ok r1" using ok by (simp add: r1_def rbcp_ok_sent)
  obtain w2 where recv: "recv_packet net r1 w1 =
      (Inr (int (length p)), r1\<lparr>rbcp_buf := write_at 0 p (rbcp_buf r1)\<rparr>, w2)"
    and w2: "inbox w2 = ps" "mem w2 = mem w1"
    using recv_in_order [OF order box ok1] by blast
  show thesis
  proof
    show "rw_memory net a n rd r w =
        (check_packet n (int (length p)) rd (r1\<lparr>rbcp_buf := write_at 0 p (rbcp_buf r1)\<rparr>),
         r1\<lparr>rbcp_buf := write_at 0 p (rbcp_buf r1)\<rparr>, w2)"
      using sent recv by (simp add: rw_memory_send [OF ok n] r1_def Let_def)
  qed (use w2 ok1 box(2) in \<open>auto simp: r1_def rbcp_ok_def sent_object_def rbcp_consts\<close>)
qed

lemma nth_of_take: "take k xs = p \<Longrightarrow> i < length p \<Longrightarrow> xs ! i = p ! i"
  by auto

lemma packet_header_nth [simp]:
  "(packet_header c i n a @ bs) ! 0 = 0xff" "(packet_header c i n a @ bs) ! Suc 0 = c"
  "(packet_header c i n a @ bs) ! 2 = word_of_int i" "(packet_header c i n a @ bs) ! 3 = word_of_int n"
  by (simp_all add: packet_header_def numeral_eq_Suc)

lemma uint_byte: "uint (word_of_int n :: byte) = n mod 256"
  by (simp add: uint_word_of_int)

lemma check_reply:
  assumes "take (length p) (rbcp_buf r) = p" "p = packet_header c i n a @ bs"
    "c = (if rd then 0xc8 else 0x88)" "int (length bs) = n" "0 \<le> n" "n \<le> 255" "rb_id r = i" "0 \<le> i" "i < 256"
  shows "check_packet n (int (length p)) rd r = Inr ()"
proof -
  have nth: "rbcp_buf r ! j = p ! j" if "j < 8" for j
    using nth_of_take [OF assms(1)] that assms(2) by simp
  show ?thesis
    using assms(3-) nth [of 0] nth [of 1] nth [of 2] nth [of 3]
    by (simp add: check_packet_accepts assms(2) uint_byte)
qed

section \<open>Registers written and read\<close>

lemma device_read:
  assumes "device_answers net inbox mem" "0 \<le> n" "n \<le> 255" "0 \<le> a" "a < 2 ^ 32"
  obtains w1 where "u_send net (request a n True r) w = (8, w1)" "mem w1 = mem w"
    "inbox w1 = inbox w @ [packet_header 0xc8 (next_id r) n a @ registers (mem w) a n]"
proof -
  have "\<exists>w1. u_send net (packet_header 0xc0 (next_id r) n a) w = (8, w1) \<and> mem w1 = mem w \<and>
      inbox w1 = inbox w @ [packet_header 0xc8 (next_id r) n a @ registers (mem w) a n]"
    using assms(1) unfolding device_answers_def
    by (elim conjE allE [of _ w] allE [of _ "next_id r"] allE [of _ n] allE [of _ a]) (use assms(2-5) in simp)
  then show thesis using that by (auto simp: request_def)
qed

lemma device_write:
  assumes "device_answers net inbox mem" "length bs \<le> 255" "0 \<le> a" "a < 2 ^ 32"
    "take (length bs) (drop 8 (rbcp_buf r)) = bs"
  obtains w1 where "u_send net (request a (int (length bs)) False r) w = (int (length bs) + 8, w1)"
    "mem w1 = store a bs (mem w)"
    "inbox w1 = inbox w @ [packet_header 0x88 (next_id r) (int (length bs)) a @ bs]"
proof -
  have "\<exists>w1. u_send net (packet_header 0x80 (next_id r) (int (length bs)) a @ bs) w = (8 + int (length bs), w1) \<and>
      mem w1 = store a bs (mem w) \<and>
      inbox w1 = inbox w @ [packet_header 0x88 (next_id r) (int (length bs)) a @ bs]"
    using assms(1) unfolding device_answers_def
    by (elim conjE allE [of _ w] allE [of _ "next_id r"] allE [of _ bs] allE [of _ a]) (use assms(2-4) in simp)
  then show thesis using that assms(5) by (auto simp: request_def add.commute)
qed

lemma next_id_range [simp]: "0 \<le> next_id r" "next_id r < 256" "next_id r \<le> 255"
  by (simp_all add: next_id_def)

lemma take_append_eq: "take (length (xs @ ys)) zs = xs @ ys \<Longrightarrow> take (length ys) (drop (length xs) zs) = ys"
  by (metis append_eq_conv_conj drop_take length_append add_diff_cancel_left')

lemma read_transaction:
  assumes "device_answers net inbox mem" "delivers_in_order net inbox mem" "rbcp_ok r"
    "0 \<le> n" "n \<le> 255" "0 \<le> a" "a < 2 ^ 32" "inbox w = []"
  obtains r2 w2 where "rw_memory net a n True r w = (Inr (), r2, w2)" "inbox w2 = []" "mem w2 = mem w"
    "rbcp_ok r2" "rb_id r2 = next_id r" "take (nat n) (drop 8 (rbcp_buf r2)) = registers (mem w) a n"
proof -
  define p where "p = packet_header 0xc8 (next_id r) n a @ registers (mem w) a n"
  obtain w1 where w1: "u_send net (request a n True r) w = (8, w1)" "mem w1 = mem w" "inbox w1 = [p]"
    using device_read [OF assms(1,4-7)] assms(8) p_def by (metis append_Nil)
  have len: "length p \<le> 263" using assms(4,5) by (simp add: p_def)
  obtain r2 w2 where rw: "rw_memory net a n True r w = (check_packet n (int (length p)) True r2, r2, w2)"
      "inbox w2 = []" "mem w2 = mem w1" "rbcp_ok r2" "rb_id r2 = next_id r" "take (length p) (rbcp_buf r2) = p"
    by (rule rw_memory_first [OF assms(2,3,4,5), where a = a and rd = True and w = w and ps = "[]"])
      (use w1 len in simp, use w1 in simp, use len in simp, rule that, assumption+)
  have "check_packet n (int (length p)) True r2 = Inr ()"
    by (rule check_reply [OF rw(6) p_def]) (use assms(4,5) rw(5) in simp_all)
  moreover have "take (nat n) (drop 8 (rbcp_buf r2)) = registers (mem w) a n"
    using take_append_eq rw(6) assms(4) unfolding p_def by (metis length_packet_header length_registers)
  ultimately show thesis using that rw w1(2) by metis
qed

lemma write_transaction:
  assumes "device_answers net inbox mem" "delivers_in_order net inbox mem" "rbcp_ok r"
    "length bs \<le> 255" "0 \<le> a" "a < 2 ^ 32" "inbox w = []" "take (length bs) (drop 8 (rbcp_buf r)) = bs"
  obtains r2 w2 where "rw_memory net a (int (length bs)) False r w = (Inr (), r2, w2)" "inbox w2 = []"
    "mem w2 = store a bs (mem w)" "rbcp_ok r2" "rb_id r2 = next_id r"
proof -
  define p where "p = packet_header 0x88 (next_id r) (int (length bs)) a @ bs"
  obtain w1 where w1: "u_send net (request a (int (length bs)) False r) w = (int (length bs) + 8, w1)"
      "mem w1 = store a bs (mem w)" "inbox w1 = [p]"
    using device_write [OF assms(1,4-6,8)] assms(7) p_def by (metis append_Nil)
  have len: "length p \<le> 263" using assms(4) by (simp add: p_def)
  obtain r2 w2 where rw: "rw_memory net a (int (length bs)) False r w =
        (check_packet (int (length bs)) (int (length p)) False r2, r2, w2)"
      "inbox w2 = []" "mem w2 = mem w1" "rbcp_ok r2" "rb_id r2 = next_id r" "take (length p) (rbcp_buf r2) = p"
    by (rule rw_memory_first [OF assms(2,3), where n = "int (length bs)" and a = a and rd = False and w = w and ps = "[]"])
      (use assms(4) in simp, use assms(4) in simp, use w1 in simp, use w1 in simp, use len in simp, rule that, assumption+)
  have "check_packet (int (length bs)) (int (length p)) False r2 = Inr ()"
    by (rule check_reply [OF rw(6) p_def]) (use assms(4) rw(5) in simp_all)
  then show thesis using that rw w1(2) by metis
qed

text \<open>C11. Round trip through the device: over a conforming device and an undisturbed network with
  nothing waiting, writing at most 255 bytes succeeds and puts exactly them into the registers
  from the address on; reading the same registers then returns them in the caller's buffer, keeps the
  buffer's other bytes, and leaves nothing waiting.\<close>
theorem rbcp_write_read:
  assumes "device_answers net inbox mem" "delivers_in_order net inbox mem" "rbcp_ok r" "inbox w = []"
    and "length data \<le> 255" "0 \<le> a" "a < 2 ^ 32" "length data \<le> length buf"
  shows "\<exists>r1 w1 r2 w2.
    WriteBytes net (Some data) a (int (length data)) r w = Inr (Inr (), r1, w1) \<and>
    mem w1 = store a data (mem w) \<and>
    ReadBytes net (Some buf) a (int (length data)) r1 w1 =
      Inr (Inr (data @ drop (length data) buf), Some (data @ drop (length data) buf), r2, w2) \<and>
    mem w2 = mem w1 \<and> inbox w2 = [] \<and> rbcp_ok r2"
proof -
  let ?n = "int (length data)"
  define r0 where "r0 = r\<lparr>rbcp_buf := write_at 8 data (rbcp_buf r)\<rparr>"
  have r0: "rbcp_ok r0" "take (length data) (drop 8 (rbcp_buf r0)) = data"
    using assms(3,5) by (simp_all add: r0_def rbcp_ok_def rbcp_consts write_at_def)
  obtain r1 w1 where w: "rw_memory net a ?n False r0 w = (Inr (), r1, w1)" "inbox w1 = []"
      "mem w1 = store a data (mem w)" "rbcp_ok r1"
    using write_transaction [OF assms(1,2) r0(1) assms(5,6,7,4) r0(2)] by metis
  obtain r2 w2 where rd: "rw_memory net a ?n True r1 w1 = (Inr (), r2, w2)" "inbox w2 = []" "mem w2 = mem w1"
      "rbcp_ok r2" "take (length data) (drop 8 (rbcp_buf r2)) = registers (mem w1) a ?n"
    by (rule read_transaction [OF assms(1,2) w(4) _ _ assms(6,7) w(2), of ?n])
      (simp, use assms(5) in simp, rule that, assumption+, simp)
  have "WriteBytes net (Some data) a ?n r w = Inr (Inr (), r1, w1)"
    using w(1) assms(5) by (simp add: WriteBytes_def rbcp_consts r0_def)
  moreover have "ReadBytes net (Some buf) a ?n r1 w1 =
      Inr (Inr (data @ drop (length data) buf), Some (data @ drop (length data) buf), r2, w2)"
    using rd(1,4,5) assms(5,8) w(3)
    by (simp add: ReadBytes_def rbcp_ok_def rbcp_consts Let_def registers_store write_at_def)
  ultimately show ?thesis using w rd by blast
qed

text \<open>A device for the examples: its registers and the datagrams waiting at the socket.\<close>

definition ntohl :: "byte list \<Rightarrow> int" where
  "ntohl bs = foldl (\<lambda>acc b. acc * 256 + uint b) 0 bs"

definition demo_udp :: "((int \<Rightarrow> byte) \<times> byte list list) udp" where
  "demo_udp = \<lparr>
     u_send = (\<lambda>pkt (m, box).
        let a = ntohl (take 4 (drop 4 pkt)); n = uint (pkt ! 3); hdr = (take 8 pkt)[1 := pkt ! 1 OR 0x08] in
        (int (length pkt),
         if pkt ! 1 = 0xc0 then (m, box @ [hdr @ registers m a n])
         else (store a (drop 8 pkt) m, box @ [hdr @ drop 8 pkt]))),
     u_select = (\<lambda>_ w. (if snd w = [] then 0 else 1, w)),
     u_recv = (\<lambda>k (m, box). case box of [] \<Rightarrow> (-1, [], (m, box))
        | p # ps \<Rightarrow> (int (length p), p, (m, ps)))\<rparr>"

lemma ntohl_htonl: "0 \<le> a \<Longrightarrow> a < 2 ^ 32 \<Longrightarrow> ntohl (htonl_bytes a) = a"
proof -
  assume a: "0 \<le> a" "a < 2 ^ 32"
  have top: "a div 2 ^ 24 mod 256 = a div 2 ^ 24" using a by (intro mod_pos_pos_trivial) simp_all
  have step: "a div 2 ^ (k + 8) * 256 + a div 2 ^ k mod 256 = a div 2 ^ k" for k
    by (simp add: power_add zdiv_zmult2_eq)
  have "ntohl (htonl_bytes a) =
      ((a div 2 ^ 24 mod 256 * 256 + a div 2 ^ 16 mod 256) * 256 + a div 2 ^ 8 mod 256) * 256 + a mod 256"
    by (simp add: ntohl_def htonl_bytes_def uint_byte)
  also have "\<dots> = (a div 2 ^ 16 * 256 + a div 2 ^ 8 mod 256) * 256 + a mod 256"
    unfolding top using step [of 16] by simp
  also have "\<dots> = a" using step [of 8] step [of 0] by simp
  finally show ?thesis .
qed

lemma ntohl_header: "0 \<le> a \<Longrightarrow> a < 2 ^ 32 \<Longrightarrow> ntohl (take 4 (drop 4 (packet_header c i n a @ bs))) = a"
  using ntohl_htonl [of a] by (simp add: packet_header_def htonl_bytes_def numeral_eq_Suc)

lemma demo_header: "(take 8 (packet_header c i n a @ bs))[Suc 0 := d] = packet_header d i n a"
  by (simp add: packet_header_def htonl_bytes_def)

lemma demo_answers: "device_answers demo_udp snd fst"
  unfolding device_answers_def demo_udp_def
  by (auto simp: Let_def ntohl_header ntohl_header [where bs = "[]", simplified] uint_byte
      demo_header demo_header [where bs = "[]", simplified] packet_header_nth [where bs = "[]", simplified])

lemma demo_delivers: "delivers_in_order demo_udp snd fst"
  unfolding delivers_in_order_def demo_udp_def by (auto split: list.splits)

definition demo_rbcp :: SiTcpRbcp where
  "demo_rbcp = \<lparr>rbcp_buf = replicate 263 0, rb_id = 254, tv_sec = 0, tv_usec = 200000, rb_sock = 5, rb_closed = 0\<rparr>"

lemma demo_rbcp_ok: "rbcp_ok demo_rbcp"
  by (simp add: rbcp_ok_def demo_rbcp_def rbcp_consts)

lemma rbcp_write_read_witness:
  "\<exists>r1 w1 r2 w2.
    WriteBytes demo_udp (Some [1, 2, 3]) 0x10 3 demo_rbcp ((\<lambda>_. 0), []) = Inr (Inr (), r1, w1) \<and>
    ReadBytes demo_udp (Some [9, 9, 9, 9]) 0x10 3 r1 w1 = Inr (Inr [1, 2, 3, 9], Some [1, 2, 3, 9], r2, w2)"
  using rbcp_write_read [OF demo_answers demo_delivers demo_rbcp_ok,
      of "((\<lambda>_. 0), [])" "[1, 2, 3]" "0x10" "[9, 9, 9, 9]"] by auto

section \<open>Late replies\<close>

text \<open>A sequence of reads, each of an address and a length, into the object's own buffer.\<close>

fun read_seq :: "'w udp \<Rightarrow> (int \<times> int) list \<Rightarrow> SiTcpRbcp \<Rightarrow> 'w \<Rightarrow> ((rbcp_exn + byte list) list \<times> SiTcpRbcp \<times> 'w) outcome" where
  "read_seq net [] r w = Inr ([], r, w)"
| "read_seq net ((a, n) # reads) r w = obind (ReadBytes net None a n r w) (\<lambda>(res, _, r1, w1).
     obind (read_seq net reads r1 w1) (\<lambda>(rs, r2, w2). Inr (res # rs, r2, w2)))"

definition readable :: "int \<times> int \<Rightarrow> bool" where
  "readable an = (case an of (a, n) \<Rightarrow> 0 \<le> a \<and> a < 2 ^ 32 \<and> 0 \<le> n \<and> n \<le> 255)"

definition invalid_packet :: "rbcp_exn + 'a \<Rightarrow> bool" where
  "invalid_packet res = (case res of Inl e \<Rightarrow> error_number e = SITCPRBCP_ERR_INVALIDPACKET | Inr _ \<Rightarrow> False)"

text \<open>One reply is waiting before the request is sent, and it carries the id of the request before.\<close>

definition one_behind :: "('w \<Rightarrow> byte list list) \<Rightarrow> SiTcpRbcp \<Rightarrow> 'w \<Rightarrow> bool" where
  "one_behind inbox r w \<longleftrightarrow> (\<exists>c m b bs. inbox w = [packet_header c (rb_id r) m b @ bs] \<and>
     c AND 1 \<noteq> 1 \<and> length bs \<le> 255)"

lemma next_id_differs: "rbcp_ok r \<Longrightarrow> rb_id r \<noteq> next_id r"
  unfolding rbcp_ok_def next_id_def
  by (cases "rb_id r = 255") (simp_all add: mod_pos_pos_trivial)

lemma late_step:
  assumes dev: "device_answers net inbox mem" and order: "delivers_in_order net inbox mem"
    and ok: "rbcp_ok r" and late: "one_behind inbox r w" and an: "readable (a, n)"
  obtains e r2 w2 where "ReadBytes net None a n r w = Inr (Inl e, None, r2, w2)"
    "error_number e = SITCPRBCP_ERR_INVALIDPACKET" "rbcp_ok r2" "one_behind inbox r2 w2"
proof -
  obtain c m b bs where box: "inbox w = [packet_header c (rb_id r) m b @ bs]" and c: "c AND 1 \<noteq> 1"
      and bs: "length bs \<le> 255"
    using late by (auto simp: one_behind_def)
  define p where "p = packet_header c (rb_id r) m b @ bs"
  from an have n: "0 \<le> n" "n \<le> 255" and a: "0 \<le> a" "a < 2 ^ 32" by (simp_all add: readable_def)
  define q where "q = packet_header 0xc8 (next_id r) n a @ registers (mem w) a n"
  obtain w1 where w1: "u_send net (request a n True r) w = (8, w1)" "inbox w1 = [p, q]"
    using device_read [OF dev n a, of r w thesis] box by (simp add: p_def q_def)
  have len: "length p \<le> 263" using bs by (simp add: p_def)
  obtain r2 w2 where rw: "rw_memory net a n True r w = (check_packet n (int (length p)) True r2, r2, w2)"
      "inbox w2 = [q]" "rbcp_ok r2" "rb_id r2 = next_id r" "take (length p) (rbcp_buf r2) = p"
    by (rule rw_memory_first [OF order ok n, where a = a and rd = True and w = w and ps = "[q]"])
      (use w1 len in simp, use w1 in simp, use len in simp, rule that, assumption+)
  have nth: "rbcp_buf r2 ! 1 = c" "rbcp_buf r2 ! 2 = word_of_int (rb_id r)"
    using nth_of_take [OF rw(5), of 1] nth_of_take [OF rw(5), of 2] by (simp_all add: p_def)
  have "uint (rbcp_buf r2 ! 2) \<noteq> rb_id r2"
    using ok next_id_differs [OF ok] rw(4) by (simp add: nth uint_byte rbcp_ok_def)
  then have "check_packet n (int (length p)) True r2 \<noteq> Inr ()" by (simp add: check_packet_accepts)
  then obtain e where e: "check_packet n (int (length p)) True r2 = Inl e"
    by (cases "check_packet n (int (length p)) True r2") auto
  have "error_number e = SITCPRBCP_ERR_INVALIDPACKET"
    by (rule check_packet_error [OF e]) (use nth(1) c in simp)
  moreover have "ReadBytes net None a n r w = Inr (Inl e, None, r2, w2)"
    using n rw(1) e by (simp add: ReadBytes_def rbcp_consts)
  moreover have "one_behind inbox r2 w2"
    unfolding one_behind_def
    by (intro exI [of _ "0xc8"] exI [of _ n] exI [of _ a] exI [of _ "registers (mem w) a n"])
      (use rw(2,4) n in \<open>simp add: q_def\<close>)
  ultimately show thesis using that rw(3) by blast
qed

text \<open>C34. A late reply is never caught up: when the reply to a request that timed out arrives after all,
  every read that follows takes the reply of the read before it and is refused as an invalid packet,
  for any number of reads of any registers, although the device answers every one of them.\<close>
theorem rbcp_late_reply_never_recovers:
  assumes "device_answers net inbox mem" "delivers_in_order net inbox mem" "rbcp_ok r"
    and "one_behind inbox r w" "\<forall>an\<in>set reads. readable an"
  shows "\<exists>rs r' w'. read_seq net reads r w = Inr (rs, r', w') \<and> length rs = length reads \<and>
    (\<forall>res\<in>set rs. invalid_packet res) \<and> one_behind inbox r' w'"
  using assms(3-)
proof (induction reads arbitrary: r w)
  case (Cons an reads)
  obtain a n where an: "an = (a, n)" by force
  have "readable (a, n)" using Cons.prems(3) an by simp
  then obtain e r2 w2 where step: "ReadBytes net None a n r w = Inr (Inl e, None, r2, w2)"
      "error_number e = SITCPRBCP_ERR_INVALIDPACKET" "rbcp_ok r2" "one_behind inbox r2 w2"
    using late_step [OF assms(1,2) Cons.prems(1,2)] by metis
  obtain rs r' w' where "read_seq net reads r2 w2 = Inr (rs, r', w')" "length rs = length reads"
      "\<forall>res\<in>set rs. invalid_packet res" "one_behind inbox r' w'"
    using Cons.IH [OF step(3,4)] Cons.prems(3) by auto
  then show ?case using step(1,2) by (simp add: an invalid_packet_def)
qed simp

lemma rbcp_late_reply_witness:
  "\<exists>rs r' w'. read_seq demo_udp [(0, 2), (4, 1), (8, 2)] demo_rbcp
      ((\<lambda>_. 7), [packet_header 0xc8 254 2 0 @ [7, 7]]) = Inr (rs, r', w') \<and>
    length rs = 3 \<and> (\<forall>res\<in>set rs. invalid_packet res)"
proof -
  have "one_behind snd demo_rbcp ((\<lambda>_. 7 :: byte), [packet_header 0xc8 254 2 0 @ [7, 7]])"
    unfolding one_behind_def
    by (intro exI [of _ "0xc8"] exI [of _ 2] exI [of _ 0] exI [of _ "[7, 7]"]) (simp add: demo_rbcp_def)
  moreover have "\<forall>an\<in>set [(0, 2), (4, 1), (8, 2)]. readable an" by (simp add: readable_def)
  ultimately show ?thesis
    using rbcp_late_reply_never_recovers [OF demo_answers demo_delivers demo_rbcp_ok] by fastforce
qed

section \<open>Requests, buffers, timeouts and sockets\<close>

text \<open>A network that records what is sent and never answers.\<close>

definition recording_udp :: "byte list list udp" where
  "recording_udp = \<lparr>u_send = (\<lambda>pkt sent. (int (length pkt), sent @ [pkt])),
     u_select = (\<lambda>_ sent. (0, sent)), u_recv = (\<lambda>_ sent. (-1, [], sent))\<rparr>"

lemma length_request: "rbcp_ok r \<Longrightarrow> 0 \<le> n \<Longrightarrow> n \<le> 255 \<Longrightarrow> int (length (request a n rd r)) = (if rd then 8 else n + 8)"
  by (simp add: request_def rbcp_ok_def rbcp_consts)

text \<open>What goes over the wire: one datagram per transaction, eight header bytes long, and for a
  write followed by exactly the caller's bytes; the header carries the incremented id and decodes
  (big endian) to the address and the length asked for.\<close>
theorem rbcp_request_wire:
  assumes "rbcp_ok r" "0 \<le> n" "n \<le> 255" "0 \<le> a" "a < 2 ^ 32"
  shows "\<exists>pkt. snd (snd (rw_memory recording_udp a n rd r sent)) = sent @ [pkt] \<and>
    int (length pkt) = (if rd then 8 else 8 + n) \<and> pkt ! 0 = 0xff \<and> pkt ! 1 = (if rd then 0xc0 else 0x80) \<and>
    uint (pkt ! 2) = (rb_id r + 1) mod 256 \<and> uint (pkt ! 3) = n \<and> ntohl (take 4 (drop 4 pkt)) = a \<and>
    drop 8 pkt = (if rd then [] else take (nat n) (drop 8 (rbcp_buf r)))"
proof (intro exI conjI)
  show "snd (snd (rw_memory recording_udp a n rd r sent)) = sent @ [request a n rd r]"
    using length_request [OF assms(1-3)]
    by (simp add: rw_memory_send [OF assms(1-3)] recording_udp_def recv_packet_def split: prod.split)
qed (use length_request [OF assms(1-3)] assms(2-5) in
  \<open>auto simp: request_def uint_byte next_id_def ntohl_header ntohl_header [where bs = "[]", simplified]
    packet_header_nth [where bs = "[]", simplified]\<close>)

lemma rbcp_request_wire_witness:
  "\<exists>pkt. snd (snd (rw_memory recording_udp 0xffffff10 2 False demo_rbcp [])) = [pkt] \<and>
     length pkt = 10 \<and> uint (pkt ! 2) = 255 \<and> ntohl (take 4 (drop 4 pkt)) = 0xffffff10"
  using rbcp_request_wire [OF demo_rbcp_ok, of 2 "0xffffff10" False "[]"] by (auto simp: demo_rbcp_def)

lemma recv_packet_ok:
  assumes "recv_packet net r w = (res, r1, w1)" "rbcp_ok r"
  shows "rbcp_ok r1 \<and> rb_id r1 = rb_id r \<and> rb_closed r1 = rb_closed r"
  using assms by (auto simp: recv_packet_def rbcp_ok_def rbcp_consts Let_def split: if_splits prod.splits)

lemma rw_memory_ok:
  assumes "rw_memory net a n rd r w = (res, r1, w1)" "rbcp_ok r" "0 \<le> n" "n \<le> 255"
  shows "rbcp_ok r1 \<and> rb_id r1 = next_id r"
proof -
  have closed: "rbcp_ok (rb_closesocket x) \<longleftrightarrow> rbcp_ok x" "rb_id (rb_closesocket x) = rb_id x" for x
    by (simp_all add: rb_closesocket_def rbcp_ok_def)
  show ?thesis
    using assms(1,2) unfolding rw_memory_send [OF assms(2-4)]
    by (auto simp: Let_def closed rbcp_ok_sent split: prod.splits if_splits sum.splits
        dest!: recv_packet_ok [OF _ rbcp_ok_sent])
qed

text \<open>The contract of \<open>ReadBytes\<close>: the caller's buffer changes only when the reply was accepted;
  then its first bytes are the data of a reply that carries this request's id and length, and the
  bytes behind them are kept.  A length over 255 is refused before anything is sent.\<close>
theorem rbcp_read_contract:
  assumes "rbcp_ok r" "0 \<le> n" "n \<le> int (length b)" "ReadBytes net (Some b) a n r w = Inr (res, buf, r1, w1)"
  shows "rbcp_ok r1 \<and>
    (case res of
       Inl e \<Rightarrow> buf = Some b \<and> (255 < n \<longrightarrow> error_number e = SITCPRBCP_ERR_INVALID_PARAM \<and> r1 = r \<and> w1 = w)
     | Inr bs \<Rightarrow> n \<le> 255 \<and> buf = Some bs \<and> bs = take (nat n) (drop 8 (rbcp_buf r1)) @ drop (nat n) b \<and>
         rbcp_buf r1 ! 1 AND 0xf9 = 0xc8 \<and> uint (rbcp_buf r1 ! 2) = (rb_id r + 1) mod 256 \<and>
         uint (rbcp_buf r1 ! 3) = n)"
proof (cases "255 < n")
  case True
  then show ?thesis using assms by (auto simp: ReadBytes_def rbcp_consts SiTcpRbcpException_def)
next
  case False
  obtain res0 r0 w0 where rw: "rw_memory net a n True r w = (res0, r0, w0)" by (cases "rw_memory net a n True r w")
  have ok: "rbcp_ok r0" "rb_id r0 = next_id r"
    using rw_memory_ok [OF rw assms(1,2)] False by auto
  have acc: "\<exists>k. check_packet n k True r0 = Inr ()" if "res0 = Inr ()"
    using rw that False unfolding rw_memory_send [OF assms(1,2) leI [OF False]]
    by (auto simp: Let_def split: prod.splits if_splits sum.splits)
  show ?thesis
  proof (cases res0)
    case (Inl e)
    then show ?thesis using assms(4) rw ok False by (auto simp: ReadBytes_def rbcp_consts)
  next
    case (Inr u)
    define bs where "bs = take (nat n) (drop 8 (rbcp_buf r0)) @ drop (nat n) b"
    have "length (rbcp_buf r0) = 263" using ok(1) by (simp add: rbcp_ok_def rbcp_consts)
    then have "ReadBytes net (Some b) a n r w = Inr (Inr bs, Some bs, r0, w0)"
      using rw Inr False assms(2,3)
      by (simp add: ReadBytes_def rbcp_consts Let_def write_at_def bs_def nat_le_iff min_absorb2)
    then have "res = Inr bs" "buf = Some bs" "r1 = r0" using assms(4) by simp_all
    moreover obtain k where "check_packet n k True r0 = Inr ()" using acc Inr by auto
    ultimately show ?thesis
      using ok False unfolding check_packet_accepts by (simp add: bs_def next_id_def)
  qed
qed

lemma rbcp_read_contract_witness:
  "\<exists>res buf r1 w1. ReadBytes demo_udp (Some [9, 9, 9]) 4 2 demo_rbcp ((\<lambda>_. 7), []) = Inr (res, buf, r1, w1) \<and>
    (case res of Inl e \<Rightarrow> buf = Some [9, 9, 9] | Inr bs \<Rightarrow> buf = Some bs \<and> drop 2 bs = [9])"
proof -
  obtain res buf r1 w1 where rd: "ReadBytes demo_udp (Some [9, 9, 9]) 4 2 demo_rbcp ((\<lambda>_. 7), []) = Inr (res, buf, r1, w1)"
  proof -
    have "\<exists>x. ReadBytes demo_udp (Some [9, 9, 9]) 4 2 demo_rbcp ((\<lambda>_. 7), []) = Inr x"
      by (auto simp: ReadBytes_def rbcp_consts Let_def split: prod.split sum.split)
    then show thesis using that by (metis prod_cases4)
  qed
  show ?thesis
    using rbcp_read_contract [OF demo_rbcp_ok _ _ rd] rd
    by (auto split: sum.splits simp: rbcp_ok_def rbcp_consts)
qed

text \<open>Timeouts: after \<open>SetTimeout\<close> of any 32-bit number of milliseconds, \<open>GetTimeout\<close> returns
  that number, whatever \<open>setsockopt\<close> answered; the \<open>timeval\<close> kept for \<open>select\<close> is normalised.\<close>
theorem rbcp_timeout_roundtrip:
  assumes "0 \<le> msec" "msec < 2 ^ 32"
  shows "GetTimeout (snd (SetTimeout res msec r)) = msec \<and>
    tv_sec (snd (SetTimeout res msec r)) = msec div 1000 \<and>
    tv_usec (snd (SetTimeout res msec r)) = (msec mod 1000) * 1000"
proof -
  define s where "s = msec div 1000"
  define m where "m = msec mod 1000"
  have sm: "msec = s * 1000 + m" "0 \<le> s" "s < 2 ^ 31" "0 \<le> m" "m < 1000"
    using assms by (simp_all add: s_def m_def)
  have sec: "i32 s = s" using sm by (intro i32_id) simp_all
  have "u32 (msec - u32 (i32 (s * 1000))) = u32 (msec - s * 1000)"
    by (simp add: u32_i32) (simp add: u32_def mod_diff_right_eq)
  also have "\<dots> = m" using sm by (simp add: u32_id)
  finally have rem: "u32 (msec - u32 (i32 (s * 1000))) = m" .
  have usec: "i32 (u32 (m * 1000)) = m * 1000"
    using sm(4,5) by (simp add: u32_id i32_id)
  have sec': "tv_sec (snd (SetTimeout res msec r)) = s"
    and usec': "tv_usec (snd (SetTimeout res msec r)) = m * 1000"
    using rem usec sec by (simp_all add: SetTimeout_def Let_def rb_closesocket_def s_def [symmetric])
  have "u32 (i32 (i32 (s * 1000) + m)) = u32 (s * 1000 + m)"
    by (simp add: u32_i32) (metis u32_def u32_i32 mod_add_left_eq)
  then have "GetTimeout (snd (SetTimeout res msec r)) = msec"
    using sm assms unfolding GetTimeout_def sec' usec' by (simp add: u32_id)
  then show ?thesis using sec' usec' by (simp add: s_def m_def)
qed

lemma rbcp_timeout_roundtrip_witness:
  "GetTimeout (snd (SetTimeout 0 4294967295 demo_rbcp)) = 4294967295"
  using rbcp_timeout_roundtrip [of 4294967295 0 demo_rbcp] by simp

text \<open>Sockets of the constructor: it succeeds exactly when \<open>socket\<close>, \<open>setsockopt\<close> and \<open>connect\<close>
  do, with a ready object; of the two failures after \<open>socket\<close>, only the one of \<open>setsockopt\<close> closes
  the socket (the destructor does not run), so a failed \<open>connect\<close> leaks it.\<close>
theorem rbcp_ctor_outcome:
  "case SiTcpRbcp_ctor socket_res setsockopt_res getaddrinfo inet_pton connect_res host port msec of
     (Inr _, r) \<Rightarrow> socket_res \<noteq> INVALID_SOCKET \<and> setsockopt_res = 0 \<and>
       connect_res (make_sockaddr_in getaddrinfo inet_pton host port) = 0 \<and> rbcp_ok r \<and>
       rb_sock r = socket_res \<and> rb_closed r = 0
   | (Inl e, r) \<Rightarrow> error_number e = SITCPRBCP_ERR_SOCKETERROR \<and>
       (if socket_res = INVALID_SOCKET then message e = ''Socket Error: socket() failed'' \<and> rb_closed r = 0
        else if setsockopt_res \<noteq> 0 then message e = ''Socket Error: setsocketopt() failed'' \<and> rb_closed r = 1
        else message e = ''Socket Error: connect() failed'' \<and> rb_closed r = 0)"
  by (simp add: SiTcpRbcp_ctor_def SetTimeout_def rb_closesocket_def SiTcpRbcpException_def
      rbcp_ok_def rbcp_consts Let_def)

text \<open>A short or failed \<open>send\<close> is a socket error that has already closed the socket, so the
  destructor closes the same handle again; in every other transaction it is closed just once.\<close>
theorem rbcp_send_failure_closes_twice:
  assumes "rbcp_ok r" "0 \<le> n" "n \<le> 255" "rb_closed r = 0" "rw_memory net a n rd r w = (res, r1, w1)"
  shows "if fst (u_send net (request a n rd r) w) \<noteq> (if rd then 8 else n + 8)
    then (\<exists>e. res = Inl e \<and> message e = ''Socket Error: send() failed'') \<and> rb_closed (SiTcpRbcp_dtor r1) = 2
    else rb_closed (SiTcpRbcp_dtor r1) = 1"
proof -
  show ?thesis
    using assms(1,4,5) unfolding rw_memory_send [OF assms(1-3)]
    by (auto simp: Let_def rb_closesocket_def SiTcpRbcp_dtor_def SiTcpRbcpException_def
        split: prod.splits if_splits sum.splits dest!: recv_packet_ok [OF _ rbcp_ok_sent])
qed

lemma rbcp_send_failure_witness:
  "rb_closed (SiTcpRbcp_dtor (fst (snd (rw_memory (recording_udp\<lparr>u_send := \<lambda>_ s. (-1, s)\<rparr>) 0 4 True demo_rbcp [])))) = 2"
proof -
  obtain res r1 w1 where "rw_memory (recording_udp\<lparr>u_send := \<lambda>_ s. (-1, s)\<rparr>) 0 4 True demo_rbcp [] = (res, r1, w1)"
    by (cases "rw_memory (recording_udp\<lparr>u_send := \<lambda>_ s. (-1, s)\<rparr>) 0 4 True demo_rbcp []")
  then show ?thesis
    using rbcp_send_failure_closes_twice [OF demo_rbcp_ok, of 4 "recording_udp\<lparr>u_send := \<lambda>_ s. (-1, s)\<rparr>" 0 True "[]"]
    by (simp add: demo_rbcp_def)
qed

end
