(* ===== verification/Sock_Thread_Props.thy ===== *)
theory Sock_Thread_Props
  imports Sock_Thread
begin

text \<open>
  The properties of the socket thread, for every schedule of its rounds with the commands of the
  other threads: the receive queue gets exactly the chunks \<open>recv\<close> returned, in order; the byte
  counter and the queue limit; when it stops, and when it does not.
\<close>

section \<open>Schedules\<close>

text \<open>A round of the thread, or another thread's write to the shared block.\<close>

datatype sock_act = Round os_result | Set_run bool | Set_pause bool

definition taken :: "os_result \<Rightarrow> 'q SockThreadLparam \<times> sock_thread \<Rightarrow> byte list list" where
  "taken os = (\<lambda>(lp, th). if t_pc th = Inner_loop \<and> \<not> pause_flg lp \<and> 0 < os_recv os then [os_data os] else [])"

text \<open>A schedule, with the chunks that \<open>recv\<close> returned along it.\<close>

fun sock_run :: "(byte list \<Rightarrow> int \<Rightarrow> 'q \<Rightarrow> (int \<times> 'q) outcome) \<Rightarrow> sock_act list \<Rightarrow>
    'q SockThreadLparam \<times> sock_thread \<Rightarrow> ('q SockThreadLparam \<times> sock_thread \<times> byte list list) outcome" where
  "sock_run sqput [] s = Inr (fst s, snd s, [])"
| "sock_run sqput (Set_run b # acts) s = sock_run sqput acts ((fst s)\<lparr>sp_run := b\<rparr>, snd s)"
| "sock_run sqput (Set_pause b # acts) s = sock_run sqput acts ((fst s)\<lparr>pause_flg := b\<rparr>, snd s)"
| "sock_run sqput (Round os # acts) s = obind (sock_step sqput os s) (\<lambda>s1.
     obind (sock_run sqput acts s1) (\<lambda>(lp, th, chunks). Inr (lp, th, taken os s @ chunks)))"

text \<open>\<open>recv\<close> returns the number of bytes it wrote, at most the size of the buffer.\<close>

definition os_ok :: "int \<Rightarrow> sock_act \<Rightarrow> bool" where
  "os_ok n act = (case act of Round os \<Rightarrow> 0 < os_recv os \<longrightarrow> os_recv os = int (length (os_data os)) \<and> os_recv os \<le> n
     | _ \<Rightarrow> True)"

text \<open>The shared block holds the one receive queue \<open>q\<close>, and the thread works on it.\<close>

definition serves :: "'q SockThreadLparam \<Rightarrow> sock_thread \<Rightarrow> 'q \<Rightarrow> bool" where
  "serves lp th q \<longleftrightarrow> squeue_list_ptr lp = Some [q] \<and> squeue_index lp = 0 \<and> t_queue th = 0"

definition chunk_bytes :: "byte list list \<Rightarrow> int" where
  "chunk_bytes bss = int (length (concat bss))"

lemma chunk_bytes_simps [simp]: "chunk_bytes [] = 0" "chunk_bytes [b] = int (length b)" "chunk_bytes (as @ bs) = chunk_bytes as + chunk_bytes bs"
  by (simp_all add: chunk_bytes_def)

text \<open>What a run has done: \<open>chunks\<close> came after \<open>fs\<close> on the queue, and the counter started at \<open>rx\<close>.
  Either all of them are counted and within the limit, or the last one broke the limit, is queued but
  not counted, and the connection is closed.\<close>

definition accepted :: "int \<Rightarrow> nat \<Rightarrow> int \<Rightarrow> byte list list \<Rightarrow> 'q SockThreadLparam \<Rightarrow> bool" where
  "accepted lim n rx chunks lp \<longleftrightarrow> queue_error_code lp = 0 \<and>
     rx_bytes (sock_stat lp) = (rx + chunk_bytes chunks) mod 2 ^ 64 \<and>
     (lim = 0 \<or> chunks = [] \<or> int (n + length chunks) \<le> lim)"

definition overrun :: "int \<Rightarrow> nat \<Rightarrow> int \<Rightarrow> byte list list \<Rightarrow> 'q SockThreadLparam \<Rightarrow> bool" where
  "overrun lim n rx chunks lp \<longleftrightarrow> queue_error_code lp = 1 \<and> sp_socket lp = INVALID_SOCKET \<and> chunks \<noteq> [] \<and>
     rx_bytes (sock_stat lp) = (rx + chunk_bytes (butlast chunks)) mod 2 ^ 64 \<and>
     lim \<noteq> 0 \<and> lim < int (n + length chunks) \<and>
     (length chunks = 1 \<or> int (n + length chunks) = lim + 1)"

definition closed_thread :: "sock_thread \<Rightarrow> bool" where
  "closed_thread th \<longleftrightarrow> t_socket th = INVALID_SOCKET \<and> t_pc th \<noteq> Inner_loop"

definition tracks :: "nat \<Rightarrow> int \<Rightarrow> byte list list \<Rightarrow> 'q SockThreadLparam \<Rightarrow> sock_thread \<Rightarrow> bool" where
  "tracks n rx chunks lp th \<longleftrightarrow> accepted (queue_limit lp) n rx chunks lp \<or>
     (overrun (queue_limit lp) n rx chunks lp \<and> closed_thread th)"

lemmas track_defs = tracks_def accepted_def overrun_def closed_thread_def

section \<open>One step\<close>

lemma write_at_replicate:
  "n = length bs \<Longrightarrow> n \<le> m \<Longrightarrow> take n (write_at 0 bs (replicate m 0)) = bs"
  by simp

lemma closed_step:
  assumes "closed_thread th"
  shows "\<exists>th'. sock_step put os (lp, th) = Inr (lp, th') \<and> closed_thread th' \<and> t_queue th' = t_queue th \<and>
    t_buf_size th' = t_buf_size th \<and> taken os (lp, th) = []"
  using assms by (cases "t_pc th") (auto simp: closed_thread_def sock_step_def outer_step_def taken_def)

lemma outer_step_serves:
  assumes "serves lp th q" "t_pc th = Outer_loop"
  shows "\<exists>lp' th'. sock_step put os (lp, th) = Inr (lp', th') \<and> serves lp' th' q \<and>
    t_buf_size th' = t_buf_size th \<and> queue_limit lp' = queue_limit lp \<and>
    queue_error_code lp' = queue_error_code lp \<and> rx_bytes (sock_stat lp') = rx_bytes (sock_stat lp) \<and>
    taken os (lp, th) = []"
  using assms
  by (auto simp: sock_step_def outer_step_def serves_def select_queue_def Let_def set_last_error_def taken_def)

lemma inner_step_idle:
  assumes "serves lp th q" "t_pc th = Inner_loop" "taken os (lp, th) = []"
  shows "\<exists>lp' th'. sock_step put os (lp, th) = Inr (lp', th') \<and> serves lp' th' q \<and>
    t_buf_size th' = t_buf_size th \<and> queue_limit lp' = queue_limit lp \<and>
    queue_error_code lp' = queue_error_code lp \<and> rx_bytes (sock_stat lp') = rx_bytes (sock_stat lp)"
  using assms
  by (auto simp: sock_step_def inner_step_def serves_def Let_def set_last_error_def taken_def close_and_break_def
      split: if_splits)

text \<open>A round in which nothing is received.\<close>

lemma idle_step:
  assumes "serves lp th q" "taken os (lp, th) = []"
  shows "\<exists>lp' th'. sock_step put os (lp, th) = Inr (lp', th') \<and> serves lp' th' q \<and>
    t_buf_size th' = t_buf_size th \<and> queue_limit lp' = queue_limit lp \<and>
    queue_error_code lp' = queue_error_code lp \<and> rx_bytes (sock_stat lp') = rx_bytes (sock_stat lp)"
proof (cases "t_pc th")
  case Outer_loop
  from outer_step_serves [OF assms(1) this, of put os] show ?thesis by blast
next
  case Inner_loop
  from inner_step_idle [OF assms(1) this assms(2)] show ?thesis by blast
next
  case Exited
  with assms(1) show ?thesis by (simp add: sock_step_def)
qed

lemma sock_step_keeps:
  assumes "sock_step put os (lp, th) = Inr (lp1, th1)"
  shows "squeue_count lp1 = squeue_count lp" "recv_buf_size lp1 = recv_buf_size lp"
  using assms
  by (auto simp: sock_step_def outer_step_def inner_step_def put_chunk_def close_and_break_def set_last_error_def Let_def
      split: sock_pc.splits if_splits option.splits prod.splits)

context byte_queue begin

lemma inner_step_put:
  assumes "serves lp th q" "t_pc th = Inner_loop" "\<not> pause_flg lp" "0 < os_recv os"
    and os: "os_recv os = int (length (os_data os))" "os_recv os \<le> t_buf_size th"
    and q: "qinv q" "0 < room q"
  shows "\<exists>q' lp' th'. sock_step put os (lp, th) = Inr (lp', th') \<and> serves lp' th' q' \<and>
    t_buf_size th' = t_buf_size th \<and> queue_limit lp' = queue_limit lp \<and>
    qinv q' \<and> frames q' = frames q @ [os_data os] \<and> room q' = room q - 1 \<and>
    (if queue_limit lp \<noteq> 0 \<and> queue_limit lp < int (length (frames q')) then
       queue_error_code lp' = 1 \<and> sp_socket lp' = INVALID_SOCKET \<and> closed_thread th' \<and>
       rx_bytes (sock_stat lp') = rx_bytes (sock_stat lp)
     else queue_error_code lp' = queue_error_code lp \<and>
       rx_bytes (sock_stat lp') = (rx_bytes (sock_stat lp) + os_recv os) mod 2 ^ 64)"
proof -
  let ?buf = "write_at 0 (os_data os) (replicate (nat (t_buf_size th)) 0)"
  have len: "length (os_data os) \<le> nat (t_buf_size th)" using os by simp
  have "os_recv os \<le> int (length ?buf)" using os len by simp
  then obtain q' where put: "put ?buf (os_recv os) q = Inr (int (length (frames q)) + 1, q')" "qinv q'"
      "frames q' = frames q @ [take (nat (os_recv os)) ?buf]" "room q' = room q - 1"
    using put_law [OF q(1,2), of "os_recv os" ?buf] assms(4) by auto
  have fr: "frames q' = frames q @ [os_data os]"
    using put(3) len os(1) by simp
  have "u32 (int (length (frames q)) + 1) = int (length (frames q)) + 1"
    using frames_bound [OF q(1)] by (intro u32_id) auto
  then show ?thesis
    using assms(1-4) put(1,2,4) fr
    by (auto simp: sock_step_def inner_step_def put_chunk_def serves_def Let_def close_and_break_def closed_thread_def)
qed

lemma put_tracks:
  assumes "serves lp th q" "qinv q" "os_ok (t_buf_size th) (Round os)" "0 < room q"
    and acc: "accepted (queue_limit lp) n rx chunks lp" and len: "length (frames q) = n + length chunks"
    and taken: "taken os (lp, th) \<noteq> []"
  shows "\<exists>lp' th' q'. sock_step put os (lp, th) = Inr (lp', th') \<and> serves lp' th' q' \<and> qinv q' \<and>
    t_buf_size th' = t_buf_size th \<and> queue_limit lp' = queue_limit lp \<and> room q - 1 \<le> room q' \<and>
    frames q' = frames q @ taken os (lp, th) \<and> tracks n rx (chunks @ taken os (lp, th)) lp' th'"
proof -
  from taken have t: "taken os (lp, th) = [os_data os]" "t_pc th = Inner_loop" "\<not> pause_flg lp" "0 < os_recv os"
    by (auto simp: taken_def split: if_splits)
  have os: "os_recv os = int (length (os_data os))" "os_recv os \<le> t_buf_size th"
    using assms(3) t(4) by (simp_all add: os_ok_def)
  have sum: "(rx_bytes (sock_stat lp) + os_recv os) mod 2 ^ 64 = (rx + chunk_bytes (chunks @ [os_data os])) mod 2 ^ 64"
    using acc os(1) by (simp add: accepted_def add.assoc mod_add_left_eq)
  from inner_step_put [OF assms(1) t(2-4) os assms(2,4)] obtain q' lp' th' where
    s: "sock_step put os (lp, th) = Inr (lp', th')" "serves lp' th' q'" "t_buf_size th' = t_buf_size th"
      "queue_limit lp' = queue_limit lp" "qinv q'" "frames q' = frames q @ [os_data os]" "room q' = room q - 1"
    and r: "if queue_limit lp \<noteq> 0 \<and> queue_limit lp < int (length (frames q')) then
       queue_error_code lp' = 1 \<and> sp_socket lp' = INVALID_SOCKET \<and> closed_thread th' \<and>
       rx_bytes (sock_stat lp') = rx_bytes (sock_stat lp)
     else queue_error_code lp' = queue_error_code lp \<and>
       rx_bytes (sock_stat lp') = (rx_bytes (sock_stat lp) + os_recv os) mod 2 ^ 64"
    by blast
  have "tracks n rx (chunks @ [os_data os]) lp' th'"
  proof (cases "queue_limit lp \<noteq> 0 \<and> queue_limit lp < int (length (frames q'))")
    case True
    then have "overrun (queue_limit lp') n rx (chunks @ [os_data os]) lp' \<and> closed_thread th'"
      using r acc s(4,6) len by (auto simp: overrun_def accepted_def)
    then show ?thesis by (simp add: tracks_def)
  next
    case False
    then have "accepted (queue_limit lp') n rx (chunks @ [os_data os]) lp'"
      using r acc s(4,6) len sum by (auto simp: accepted_def)
    then show ?thesis by (simp add: tracks_def)
  qed
  then show ?thesis using s unfolding t(1)
    by (intro exI [of _ lp'] exI [of _ th'] exI [of _ q']) simp
qed

lemma step_tracks:
  assumes "serves lp th q" "qinv q" "os_ok (t_buf_size th) (Round os)" "0 < room q"
    and "tracks n rx chunks lp th" "length (frames q) = n + length chunks"
  shows "\<exists>lp' th' q'. sock_step put os (lp, th) = Inr (lp', th') \<and> serves lp' th' q' \<and> qinv q' \<and>
    t_buf_size th' = t_buf_size th \<and> queue_limit lp' = queue_limit lp \<and> room q - 1 \<le> room q' \<and>
    frames q' = frames q @ taken os (lp, th) \<and> tracks n rx (chunks @ taken os (lp, th)) lp' th'"
proof (cases "accepted (queue_limit lp) n rx chunks lp")
  case False
  then have c: "closed_thread th" using assms(5) by (simp add: tracks_def)
  then show ?thesis using closed_step [OF c, of put os lp] assms(1,2,5)
    unfolding track_defs by (auto simp: serves_def)
next
  case acc: True
  show ?thesis
  proof (cases "taken os (lp, th) = []")
    case True
    from idle_step [OF assms(1) True, of put] obtain lp' th' where s: "sock_step put os (lp, th) = Inr (lp', th')" "serves lp' th' q"
        "t_buf_size th' = t_buf_size th" "queue_limit lp' = queue_limit lp"
        "queue_error_code lp' = queue_error_code lp" "rx_bytes (sock_stat lp') = rx_bytes (sock_stat lp)" by blast
    then show ?thesis using acc True assms(2)
      by (intro exI [of _ lp'] exI [of _ th'] exI [of _ q]) (simp add: tracks_def accepted_def)
  next
    case False
    show ?thesis by (rule put_tracks [OF assms(1-4) acc assms(6) False])
  qed
qed

lemma step_serves:
  assumes "serves lp th q" "qinv q" "os_ok (t_buf_size th) (Round os)" "0 < room q"
  shows "\<exists>lp' th' q'. sock_step put os (lp, th) = Inr (lp', th') \<and> serves lp' th' q' \<and> qinv q' \<and>
    t_buf_size th' = t_buf_size th \<and> frames q' = frames q @ taken os (lp, th) \<and>
    (\<forall>c\<in>set (taken os (lp, th)). int (length c) \<le> t_buf_size th)"
proof (cases "taken os (lp, th) = []")
  case True
  from idle_step [OF assms(1) True, of put] obtain lp' th' where
    "sock_step put os (lp, th) = Inr (lp', th')" "serves lp' th' q" "t_buf_size th' = t_buf_size th" by blast
  then show ?thesis using True assms(2) by auto
next
  case False
  then have t: "taken os (lp, th) = [os_data os]" "t_pc th = Inner_loop" "\<not> pause_flg lp" "0 < os_recv os"
    by (auto simp: taken_def split: if_splits)
  have os: "os_recv os = int (length (os_data os))" "os_recv os \<le> t_buf_size th"
    using assms(3) t(4) by (simp_all add: os_ok_def)
  from inner_step_put [OF assms(1) t(2-4) os assms(2,4)] obtain q' lp' th' where
    "sock_step put os (lp, th) = Inr (lp', th')" "serves lp' th' q'" "t_buf_size th' = t_buf_size th" "qinv q'"
    "frames q' = frames q @ [os_data os]" by blast
  then show ?thesis using t(1) os by auto
qed

lemma run_tracks:
  assumes "serves lp th q" "qinv q" "\<forall>act\<in>set acts. os_ok (t_buf_size th) act" "length acts \<le> room q"
    and "tracks n rx chunks lp th" "length (frames q) = n + length chunks"
  shows "\<exists>lp' th' q' new. sock_run put acts (lp, th) = Inr (lp', th', new) \<and> serves lp' th' q' \<and> qinv q' \<and>
    queue_limit lp' = queue_limit lp \<and> frames q' = frames q @ new \<and> tracks n rx (chunks @ new) lp' th'"
  using assms
proof (induction acts arbitrary: lp th q chunks)
  case (Cons act acts)
  show ?case
  proof (cases act)
    case (Round os)
    have "os_ok (t_buf_size th) (Round os)" "0 < room q" using Cons.prems(3,4) Round by auto
    from step_tracks [OF Cons.prems(1,2) this Cons.prems(5,6)] obtain lp1 th1 q1 where
      s: "sock_step put os (lp, th) = Inr (lp1, th1)" "serves lp1 th1 q1" "qinv q1" "t_buf_size th1 = t_buf_size th"
        "queue_limit lp1 = queue_limit lp" "room q - 1 \<le> room q1" "frames q1 = frames q @ taken os (lp, th)"
        "tracks n rx (chunks @ taken os (lp, th)) lp1 th1" by blast
    have "\<forall>act\<in>set acts. os_ok (t_buf_size th1) act" "length acts \<le> room q1"
      "length (frames q1) = n + length (chunks @ taken os (lp, th))"
      using Cons.prems(3,4,6) s(4,6,7) by auto
    from Cons.IH [OF s(2,3) this(1,2) s(8) this(3)] s(1,5,7) Round show ?thesis by fastforce
  next
    case (Set_run b)
    have "serves (lp\<lparr>sp_run := b\<rparr>) th q" "tracks n rx chunks (lp\<lparr>sp_run := b\<rparr>) th"
      using Cons.prems(1,5) by (auto simp: serves_def track_defs)
    from Cons.IH [OF this(1) Cons.prems(2) _ _ this(2) Cons.prems(6)] Cons.prems(3,4) Set_run show ?thesis by simp
  next
    case (Set_pause b)
    have "serves (lp\<lparr>pause_flg := b\<rparr>) th q" "tracks n rx chunks (lp\<lparr>pause_flg := b\<rparr>) th"
      using Cons.prems(1,5) by (auto simp: serves_def track_defs)
    from Cons.IH [OF this(1) Cons.prems(2) _ _ this(2) Cons.prems(6)] Cons.prems(3,4) Set_pause show ?thesis by simp
  qed
qed (simp add: serves_def)

end

section \<open>Properties\<close>

text \<open>The block \<open>SiDaqRun\<close> sets up, for one queue.\<close>

definition fresh_block :: "int \<Rightarrow> int \<Rightarrow> int \<Rightarrow> 'q \<Rightarrow> 'q SockThreadLparam" where
  "fresh_block sock buf lim q =
     \<lparr>sp_run = True, sp_socket = sock, squeue_index = 0, squeue_count = 1, squeue_list_ptr = Some [q],
      sock_stat = \<lparr>tx_bytes = 0, rx_bytes = 0, rx_duration = 0, last_error = 0\<rparr>,
      recv_buf_size = buf, queue_limit = lim, queue_error_code = 0, pause_flg = False\<rparr>"

text \<open>C10. The receive path, for every schedule of rounds, stops, pauses and resumes: it runs without
  a fault, the receive queue ends with exactly the chunks \<open>recv\<close> returned, complete and in order,
  and either every one of them is counted in \<open>rx_bytes\<close> and the queue is within its limit, or the
  last one broke the limit: it is still queued, not counted, the error is recorded and the
  connection is closed for good.\<close>
theorem sock_thread_conserves:
  assumes "sock_thread_start True lp = Inr (lp0, th)" "squeue_list_ptr lp = Some [q]" "squeue_index lp = 0"
    and "sq_inv q" "length acts \<le> sq_room q" "\<forall>act\<in>set acts. os_ok (i32 (recv_buf_size lp)) act"
    and "rx_bytes (sock_stat lp) = rx" "0 \<le> rx" "rx < 2 ^ 64"
  shows "\<exists>lp' th' q' chunks. sock_run SQPut acts (lp0, th) = Inr (lp', th', chunks) \<and>
    squeue_list_ptr lp' = Some [q'] \<and> sq_inv q' \<and> sq_frames q' = sq_frames q @ chunks \<and>
    (accepted (queue_limit lp) (length (sq_frames q)) rx chunks lp' \<or>
     (overrun (queue_limit lp) (length (sq_frames q)) rx chunks lp' \<and> closed_thread th'))"
proof -
  have st: "lp0 = lp\<lparr>queue_error_code := 0, pause_flg := False\<rparr>" "t_queue th = 0"
      "t_buf_size th = i32 (recv_buf_size lp)"
    using assms(1-3) by (auto simp: sock_thread_start_def select_queue_def Let_def)
  have "serves lp0 th q" "tracks (length (sq_frames q)) rx [] lp0 th"
    "\<forall>act\<in>set acts. os_ok (t_buf_size th) act"
    using st assms(2,3,6-9) by (simp_all add: serves_def track_defs)
  from sqb.run_tracks [OF this(1) assms(4) this(3) assms(5) this(2)] st(1) show ?thesis
    unfolding tracks_def serves_def by fastforce
qed

definition demo_round :: "byte list \<Rightarrow> os_result" where
  "demo_round bs = \<lparr>os_select = 1, os_readable = True, os_recv = int (length bs), os_data = bs, os_error = 0\<rparr>"

definition demo_acts :: "sock_act list" where
  "demo_acts = [Round (demo_round []), Round (demo_round [1, 2]), Set_pause True, Round (demo_round [3]),
     Set_pause False, Round (demo_round [4]), Round (demo_round [5])]"

lemma demo_block_start:
  "\<exists>th. sock_thread_start True (fresh_block 7 1024 lim q) = Inr (fresh_block 7 1024 lim q, th)"
  by (simp add: sock_thread_start_def select_queue_def fresh_block_def Let_def)

lemma demo_store:
  obtains q where "NewSQueue True 100 = Inr q" "sq_inv q" "sq_frames q = []" "sq_room q = 49"
  using NewSQueue_inv [of 100] that by (auto simp: sq_room_def)

theorem sock_thread_conserves_witness:
  "\<exists>q th lp' th' q' chunks. NewSQueue True 100 = Inr q \<and>
     sock_thread_start True (fresh_block 7 1024 1 q) = Inr (fresh_block 7 1024 1 q, th) \<and>
     sock_run SQPut demo_acts (fresh_block 7 1024 1 q, th) = Inr (lp', th', chunks) \<and>
     squeue_list_ptr lp' = Some [q'] \<and> sq_frames q' = chunks"
proof -
  obtain q where q: "NewSQueue True 100 = Inr q" "sq_inv q" "sq_frames q = []" "sq_room q = 49" by (rule demo_store)
  obtain th where th: "sock_thread_start True (fresh_block 7 1024 1 q) = Inr (fresh_block 7 1024 1 q, th)"
    using demo_block_start [of 1 q] by blast
  have i: "i32 1024 = 1024" by (intro i32_id) simp_all
  have "length demo_acts \<le> sq_room q" "\<forall>act\<in>set demo_acts. os_ok 1024 act"
    using q(4) by (simp_all add: demo_acts_def demo_round_def os_ok_def)
  moreover have "squeue_list_ptr (fresh_block 7 1024 1 q) = Some [q]" "squeue_index (fresh_block 7 1024 1 q) = 0"
    "recv_buf_size (fresh_block 7 1024 1 q) = 1024" "rx_bytes (sock_stat (fresh_block 7 1024 1 q)) = 0"
    by (simp_all add: fresh_block_def)
  ultimately obtain lp' th' q' chunks where "sock_run SQPut demo_acts (fresh_block 7 1024 1 q, th) = Inr (lp', th', chunks)"
      "squeue_list_ptr lp' = Some [q']" "sq_frames q' = sq_frames q @ chunks"
    using sock_thread_conserves [OF th, of q demo_acts 0] q(2) i by auto
  then show ?thesis using q(1,3) th by auto
qed

text \<open>A stop request is not seen by the inner loop while it receives: as long as the thread is not
  paused and \<open>recv\<close> has nothing to deliver (\<open>WSAEWOULDBLOCK\<close>), any number of rounds with \<open>_run\<close>
  FALSE leaves it in the inner loop, with the connection open.\<close>
theorem sock_stop_unseen_while_waiting:
  assumes "t_pc th = Inner_loop" "\<not> pause_flg lp"
    and "\<forall>os\<in>set rounds. os_recv os < 0 \<and> os_error os = WSAEWOULDBLOCK"
  shows "\<exists>th'. sock_run SQPut (Set_run False # map Round rounds) (lp, th) = Inr (lp\<lparr>sp_run := False\<rparr>, th', []) \<and>
    t_pc th' = Inner_loop \<and> t_socket th' = t_socket th"
proof -
  have "\<exists>th'. sock_run SQPut (map Round rounds) (lp1, th) = Inr (lp1, th', []) \<and>
      t_pc th' = Inner_loop \<and> t_socket th' = t_socket th" if "\<not> pause_flg lp1" for lp1 :: "sqstore SockThreadLparam"
    using assms(1,3) that
  proof (induction rounds arbitrary: th)
    case (Cons os rounds)
    let ?th = "th\<lparr>t_recv_len := os_recv os\<rparr>"
    have "sock_step SQPut os (lp1, th) = Inr (lp1, ?th)" "taken os (lp1, th) = []"
      using Cons.prems by (simp_all add: sock_step_def inner_step_def is_allowed_error_def taken_def Let_def)
    with Cons.IH [of ?th] Cons.prems show ?case by auto
  qed simp
  from this [of "lp\<lparr>sp_run := False\<rparr>"] assms(2) show ?thesis by simp
qed

definition demo_idle :: os_result where
  "demo_idle = \<lparr>os_select = 1, os_readable = True, os_recv = -1, os_data = [], os_error = WSAEWOULDBLOCK\<rparr>"

definition demo_thread :: "sock_pc \<Rightarrow> sock_thread" where
  "demo_thread pc = \<lparr>t_pc = pc, t_socket = 7, t_queue = 0, t_buf_size = 1024, t_recv_len = 0\<rparr>"

theorem sock_stop_unseen_while_waiting_witness:
  "\<exists>q th'. NewSQueue True 100 = Inr q \<and>
     sock_run SQPut (Set_run False # map Round (replicate 1000 demo_idle)) (fresh_block 7 1024 0 q, demo_thread Inner_loop) =
       Inr ((fresh_block 7 1024 0 q)\<lparr>sp_run := False\<rparr>, th', []) \<and> t_pc th' = Inner_loop"
proof -
  obtain q where q: "NewSQueue True 100 = Inr q" by (rule demo_store)
  have "\<forall>os\<in>set (replicate 1000 demo_idle). os_recv os < 0 \<and> os_error os = WSAEWOULDBLOCK"
    by (simp add: demo_idle_def)
  moreover have "t_pc (demo_thread Inner_loop) = Inner_loop" "\<not> pause_flg (fresh_block 7 1024 0 q)"
    by (simp_all add: demo_thread_def fresh_block_def)
  ultimately show ?thesis using sock_stop_unseen_while_waiting q by fast
qed

text \<open>C35. Termination after a stop request: once \<open>_run\<close> is FALSE the thread has left both loops after
  two rounds, provided it is in the outer loop, or paused, or \<open>recv\<close> reports the end of the
  connection or an error other than \<open>WSAEWOULDBLOCK\<close>; in these rounds nothing is received.\<close>
theorem sock_thread_stops:
  assumes "\<not> sp_run lp" "t_pc th = Inner_loop \<longrightarrow> pause_flg lp \<or> os_recv os1 = 0 \<or>
      (os_recv os1 < 0 \<and> os_error os1 \<noteq> WSAEWOULDBLOCK)"
  shows "\<exists>lp' th'. sock_run SQPut [Round os1, Round os2] (lp, th) = Inr (lp', th', []) \<and> t_pc th' = Exited \<and>
    squeue_list_ptr lp' = squeue_list_ptr lp \<and>
    (t_pc th = Inner_loop \<and> \<not> pause_flg lp \<longrightarrow>
       sp_socket lp' = INVALID_SOCKET \<and> last_error (sock_stat lp') = os_error os1)"
  using assms
  by (cases "t_pc th") (auto simp: sock_step_def outer_step_def inner_step_def taken_def Let_def
      is_allowed_error_def close_and_break_def set_last_error_def)

theorem sock_thread_stops_witness:
  "\<exists>q lp' th'. NewSQueue True 100 = Inr q \<and>
     sock_run SQPut [Round (demo_idle\<lparr>os_error := WSAENOTSOCK\<rparr>), Round demo_idle]
       ((fresh_block 7 1024 0 q)\<lparr>sp_run := False\<rparr>, demo_thread Inner_loop) = Inr (lp', th', []) \<and>
     t_pc th' = Exited \<and> sp_socket lp' = INVALID_SOCKET"
proof -
  obtain q where q: "NewSQueue True 100 = Inr q" by (rule demo_store)
  have "\<not> sp_run ((fresh_block 7 1024 0 q)\<lparr>sp_run := False\<rparr>)" by simp
  moreover have "os_recv (demo_idle\<lparr>os_error := WSAENOTSOCK\<rparr>) < 0"
      "os_error (demo_idle\<lparr>os_error := WSAENOTSOCK\<rparr>) \<noteq> WSAEWOULDBLOCK"
    by (simp_all add: demo_idle_def wsa_codes)
  moreover have "t_pc (demo_thread Inner_loop) = Inner_loop" "\<not> pause_flg ((fresh_block 7 1024 0 q)\<lparr>sp_run := False\<rparr>)"
    by (simp_all add: demo_thread_def fresh_block_def)
  ultimately show ?thesis
    using sock_thread_stops [of "(fresh_block 7 1024 0 q)\<lparr>sp_run := False\<rparr>" "demo_thread Inner_loop"
      "demo_idle\<lparr>os_error := WSAENOTSOCK\<rparr>" demo_idle] q by auto
qed

end
