(* ===== verification/SiDaq_Props.thy ===== *)
theory SiDaq_Props
  imports Framer_Thread Framer_Props Rbcp_Props Sock_Thread_Props
begin

text \<open>
  The properties of the manager's functions: what \<open>SiDaqInitialize\<close>, \<open>SiDaqRun\<close>, \<open>SiDaqStop\<close>,
  \<open>SiDaqResetQueue\<close> and \<open>SiDaqTerminate\<close> do on every answer of the system, and that a stop delivers
  everything that was received.
\<close>

section \<open>Examples\<close>

definition demo_mngr :: "SiDaqStatus \<Rightarrow> sqstore \<Rightarrow> sqstore \<Rightarrow> SiDaqFramer \<Rightarrow> SiDaqMngr" where
  "demo_mngr st q e fr = zero_mngr\<lparr>status := st, ip_address := ''192.168.10.16'', tcp_port := 24, udp_port := 4660,
     sock_param := fresh_block 7 262144 0 q, m_sitcp := Some demo_rbcp, m_framer := Some fr, m_eventFrame := Some e\<rparr>"

lemma demo_mngr_simps [simp]:
  "status (demo_mngr st q e fr) = st" "sock_param (demo_mngr st q e fr) = fresh_block 7 262144 0 q"
  "m_framer (demo_mngr st q e fr) = Some fr" "m_eventFrame (demo_mngr st q e fr) = Some e"
  "error_code (demo_mngr st q e fr) = 0" "m_reply (demo_mngr st q e fr) = None"
  "m_sitcp (demo_mngr st q e fr) = Some demo_rbcp"
  by (simp_all add: demo_mngr_def zero_mngr_def)

lemma demo_holds: "holds (demo_mngr st q e fr) q e fr"
  by (simp add: holds_def fresh_block_def)

lemma demo_ready:
  assumes "sq_inv q" "sq_inv e" "framer_ok fr" "rest_ok fr" "0 \<le> fr_queue_limit fr"
    "\<forall>f\<in>set (sq_frames q). length f < 2 ^ 31"
  shows "ready (demo_mngr st q e fr) q e fr"
  using assms demo_holds by (simp add: ready_def)

text \<open>A manager that has received two chunks and holds one byte of an unfinished frame.\<close>

lemma demo_received:
  obtains q where "sq_inv q" "sq_frames q = [[1, 2, 3], [4, 5]]"
proof -
  obtain s where s: "NewSQueue True 100 = Inr s" "sq_inv s" "sq_frames s = []" "sq_room s = 49" by (rule demo_store)
  have "length [[1, 2, 3], [4, 5 :: byte]] \<le> sq_room s" using s(4) by simp
  from sqb.put_all_law [OF s(2) this] s(3) that show thesis by auto
qed

section \<open>Stop\<close>




section \<open>Run\<close>

text \<open>Every call of the connection succeeds, a connection in progress included.\<close>

definition connects :: "run_env \<Rightarrow> run_args \<Rightarrow> bool" where
  "connects re ra \<longleftrightarrow> ra_header_len ra < ra_max_frame_len ra \<and> re_socket re \<noteq> INVALID_SOCKET \<and>
     (re_inet_pton re = 1 \<or> (re_getaddrinfo re = 0 \<and> re_pResult re)) \<and>
     (re_connect re = 0 \<or> re_error re = WSAEWOULDBLOCK) \<and>
     (ra_rcv_buf_bytes ra < 0 \<or> 0 \<le> re_setsockopt re)"

text \<open>The memory for the reply queue and the framer is there.  In \<open>supplied\<close>, a lookup that fails happens to leave
  NULL in the uninitialised \<open>pResult\<close>.\<close>

definition stocked :: "run_env \<Rightarrow> bool" where
  "stocked re \<longleftrightarrow> re_lock_ok re \<and> 0 < re_reply_mem re \<and> re_reply_mem re < 2 ^ 31 \<and> re_framer_alloc re \<and> re_buff_alloc re"

definition supplied :: "run_env \<Rightarrow> bool" where
  "supplied re \<longleftrightarrow> stocked re \<and> (re_getaddrinfo re \<noteq> 0 \<longrightarrow> \<not> re_pResult re)"

text \<open>The address is not numeric, the lookup of the name fails, and \<open>pResult\<close> holds something else: it is then
  handed to \<open>freeaddrinfo\<close>.\<close>

definition lookup_garbage :: "run_env \<Rightarrow> run_args \<Rightarrow> bool" where
  "lookup_garbage re ra \<longleftrightarrow> ra_header_len ra < ra_max_frame_len ra \<and> re_socket re \<noteq> INVALID_SOCKET \<and>
     re_inet_pton re \<noteq> 1 \<and> re_getaddrinfo re \<noteq> 0 \<and> re_pResult re"

lemma supplied_stocked: "supplied re \<Longrightarrow> stocked re" "supplied re \<Longrightarrow> \<not> lookup_garbage re ra"
  "connects re ra \<Longrightarrow> \<not> lookup_garbage re ra"
  by (auto simp: supplied_def lookup_garbage_def connects_def)

definition args_ok :: "run_args \<Rightarrow> bool" where
  "args_ok ra \<longleftrightarrow> 0 \<le> ra_header_len ra \<and> ra_header_len ra \<le> 2 \<and> 0 \<le> ra_max_frame_len ra \<and>
     ra_max_frame_len ra \<le> DEFAULT_MAX_FRAME_LEN \<and> 0 \<le> ra_fixed_frame_len ra \<and> ra_fixed_frame_len ra < 2 ^ 32 \<and>
     0 \<le> ra_frame_queue_limit ra \<and> reads_header (ra_lengthFunc ra) (ra_header_len ra)"

lemma decode_error_short: "length (decode_error n) < 1024"
  by (simp add: decode_error_def)

lemma set_sidaq_error_ok:
  "length msg < 1024 \<Longrightarrow> set_sidaq_error m c msg w = Inr (socket_error w (m\<lparr>error_code := c, error_message := msg\<rparr>))"
  by (simp add: set_sidaq_error_def SiDAQ_ERROR_MSG_def)

lemma socket_error_other [simp]:
  "status (socket_error w m) = status m" "error_code (socket_error w m) = error_code m"
  "m_framer (socket_error w m) = m_framer m" "m_eventFrame (socket_error w m) = m_eventFrame m"
  "m_reply (socket_error w m) = m_reply m" "m_sitcp (socket_error w m) = m_sitcp m"
  "sitcp_register (socket_error w m) = sitcp_register m" "error_message (socket_error w m) = error_message m"
  "sp_socket (sock_param (socket_error w m)) = sp_socket (sock_param m)"
  "squeue_list_ptr (sock_param (socket_error w m)) = squeue_list_ptr (sock_param m)"
  "squeue_index (sock_param (socket_error w m)) = squeue_index (sock_param m)"
  "squeue_count (sock_param (socket_error w m)) = squeue_count (sock_param m)"
  by (simp_all add: socket_error_def set_last_error_def)

lemma run_connect_garbage: "lookup_garbage re ra \<Longrightarrow> run_connect re ra m = Inl Use_after_free"
  by (simp add: run_connect_def lookup_garbage_def set_sidaq_error_ok mngr_consts)

lemma run_connect_fails:
  assumes "\<not> connects re ra" "\<not> lookup_garbage re ra"
  shows "\<exists>m1. run_connect re ra m = Inr (m1, None) \<and> status m1 = SIDAQ_SYS_ERROR \<and> error_code m1 \<noteq> 0 \<and>
    m_framer m1 = m_framer m \<and> m_eventFrame m1 = m_eventFrame m \<and>
    sp_socket (sock_param m1) = sp_socket (sock_param m) \<and>
    squeue_list_ptr (sock_param m1) = squeue_list_ptr (sock_param m) \<and>
    squeue_count (sock_param m1) = squeue_count (sock_param m) \<and> m_reply m1 = m_reply m"
  using assms
  by (auto simp: run_connect_def run_fails_def set_sidaq_error_ok decode_error_short mngr_consts to_sys_error_def
      connects_def lookup_garbage_def)

lemma run_connect_ok:
  assumes "connects re ra"
  shows "run_connect re ra m = Inr (socket_error 0 (m\<lparr>error_code := 0, error_message := ''No Error''\<rparr>), Some (re_socket re))"
  using assms by (auto simp: run_connect_def set_sidaq_error_ok mngr_consts connects_def)

lemma configure_ok:
  assumes "args_ok ra" "framer_ok fr0" "fr_buff_size fr0 = DEFAULT_MAX_FRAME_LEN" "fr_rest fr0 = 0"
    "fr = configure_framer (ra_lengthFunc ra) (ra_header_len ra) (ra_fixed_frame_len ra) (ra_frame_queue_limit ra)
      (ra_max_frame_len ra) fr0"
  shows "framer_ok fr" "rest_ok fr" "pending fr = []" "fr_queue_limit fr = ra_frame_queue_limit ra" "fr_error_flg fr = 0"
    "fr_error_code fr = 0"
proof -
  have i: "i32 (ra_header_len ra) = ra_header_len ra" using assms(1) by (intro i32_id) (auto simp: args_ok_def)
  show "framer_ok fr"
    using assms(1-3) i unfolding assms(5)
    by (auto simp: args_ok_def framer_ok_def configure_framer_def buff_bytes_def header_only_def reads_header_def)
  have "fr_rest fr = 0" using assms(4,5) by (simp add: configure_framer_def)
  then show "rest_ok fr" "pending fr = []" by simp_all
qed (simp_all add: assms(5) configure_framer_def)

lemma new_framer_ok:
  "NewSiDaqFramer True True = Some fr \<Longrightarrow> framer_ok fr \<and> fr_buff_size fr = DEFAULT_MAX_FRAME_LEN \<and> fr_rest fr = 0"
  by (auto simp: NewSiDaqFramer_def framer_ok_def DEFAULT_MAX_FRAME_LEN_def buff_bytes_def header_only_def)

text \<open>A manager on which a measurement can be started: both queues, and no framer yet or one without
  unfinished bytes.\<close>

definition startable :: "SiDaqMngr \<Rightarrow> sqstore \<Rightarrow> sqstore \<Rightarrow> bool" where
  "startable m q e \<longleftrightarrow> squeue_list_ptr (sock_param m) = Some [q] \<and> squeue_index (sock_param m) = 0 \<and>
     squeue_count (sock_param m) = 1 \<and> m_eventFrame m = Some e \<and> sq_inv q \<and> sq_inv e \<and>
     (\<forall>f\<in>set (sq_frames q). length f < 2 ^ 31) \<and>
     (\<forall>fr. m_framer m = Some fr \<longrightarrow> framer_ok fr \<and> fr_buff_size fr = DEFAULT_MAX_FRAME_LEN \<and> fr_rest fr = 0) \<and>
     (\<forall>rep. m_reply m = Some rep \<longrightarrow> sq_inv rep)"

lemma run_framer_ready:
  assumes "startable m q e" "stocked re" "args_ok ra"
  shows "\<exists>m1 fr. run_framer re ra m = Inr m1 \<and> ready m1 q e fr \<and> pending fr = [] \<and> fr_error_flg fr = 0 \<and>
    fr_error_code fr = 0 \<and> fr_queue_limit fr = ra_frame_queue_limit ra \<and> sock_param m1 = sock_param m \<and>
    error_code m1 = error_code m \<and> status m1 = status m \<and> m_sitcp m1 = m_sitcp m \<and>
    (\<exists>rep. m_reply m1 = Some rep \<and> sq_inv rep)"
proof -
  obtain rep where rep: "(case m_reply m of Some q \<Rightarrow> Inr q | None \<Rightarrow> NewSQueue (re_lock_ok re) (re_reply_mem re)) = Inr rep"
    "sq_inv rep"
    using assms(1,2) that NewSQueue_inv [of "re_reply_mem re"]
    by (cases "m_reply m") (auto simp: stocked_def startable_def)
  obtain fr0 where fr0: "(case m_framer m of Some fr \<Rightarrow> Some fr
      | None \<Rightarrow> NewSiDaqFramer (re_framer_alloc re) (re_buff_alloc re)) = Some fr0"
      "framer_ok fr0" "fr_buff_size fr0 = DEFAULT_MAX_FRAME_LEN" "fr_rest fr0 = 0"
  proof (cases "m_framer m")
    case None
    then have "NewSiDaqFramer (re_framer_alloc re) (re_buff_alloc re) = Some (the (NewSiDaqFramer True True))"
      using assms(2) by (simp add: stocked_def NewSiDaqFramer_def)
    moreover have "NewSiDaqFramer True True = Some (the (NewSiDaqFramer True True))" by (simp add: NewSiDaqFramer_def)
    ultimately show thesis using that new_framer_ok None by simp
  next
    case (Some fr)
    then show thesis using that assms(1) by (simp add: startable_def)
  qed
  define fr where "fr = configure_framer (ra_lengthFunc ra) (ra_header_len ra) (ra_fixed_frame_len ra)
    (ra_frame_queue_limit ra) (ra_max_frame_len ra) fr0"
  note c = configure_ok [OF assms(3) fr0(2-4) fr_def]
  let ?m1 = "m\<lparr>m_reply := Some rep, m_framer := Some fr, framer_thread_made := re_threads re\<rparr>"
  have "run_framer re ra m = Inr ?m1" using rep(1) fr0(1) by (simp add: run_framer_def fr_def Let_def)
  moreover have "ready ?m1 q e fr"
    using assms(1,3) c by (auto simp: ready_def holds_def startable_def args_ok_def)
  ultimately show ?thesis using c rep(2) by (intro exI [of _ ?m1] exI [of _ fr]) simp
qed

lemma run_result:
  assumes "startable m q e" "stocked re" "args_ok ra" "\<not> lookup_garbage re ra"
  shows "\<exists>st m1 g1. SiDaqRun re ra m g = Inr (st, m1, g1) \<and> status m1 = st \<and>
    (if connects re ra then st = SIDAQ_RUN \<and> error_code m1 = 0 \<and> g1 = g + 1 \<and>
       sp_socket (sock_param m1) = re_socket re \<and> sp_run (sock_param m1) \<and>
       (\<exists>fr. ready m1 q e fr \<and> pending fr = [] \<and> fr_error_flg fr = 0 \<and> fr_error_code fr = 0 \<and>
          fr_queue_limit fr = ra_frame_queue_limit ra) \<and>
       m_sitcp m1 = m_sitcp m \<and> (\<exists>rep. m_reply m1 = Some rep \<and> sq_inv rep)
     else st = SIDAQ_SYS_ERROR \<and> error_code m1 \<noteq> 0 \<and> g1 = g \<and>
       sp_socket (sock_param m1) = sp_socket (sock_param m) \<and> m_framer m1 = m_framer m \<and>
       m_eventFrame m1 = Some e \<and> squeue_list_ptr (sock_param m1) = Some [q] \<and>
       squeue_count (sock_param m1) = 1 \<and> m_reply m1 = m_reply m)"
proof (cases "connects re ra")
  case False
  from run_connect_fails [OF False assms(4), of m] obtain m1 where m1: "run_connect re ra m = Inr (m1, None)"
    "status m1 = SIDAQ_SYS_ERROR" "error_code m1 \<noteq> 0" "m_framer m1 = m_framer m" "m_eventFrame m1 = m_eventFrame m"
    "sp_socket (sock_param m1) = sp_socket (sock_param m)"
    "squeue_list_ptr (sock_param m1) = squeue_list_ptr (sock_param m)"
    "squeue_count (sock_param m1) = squeue_count (sock_param m)" "m_reply m1 = m_reply m" by blast
  then show ?thesis using False assms(1)
    by (intro exI [of _ SIDAQ_SYS_ERROR] exI [of _ m1] exI [of _ g]) (simp add: SiDaqRun_def startable_def)
next
  case True
  define m0 where "m0 = socket_error 0 (m\<lparr>error_code := 0, error_message := ''No Error''\<rparr>)"
  let ?ms = "run_socket_thread re ra (re_socket re) m0"
  have "startable ?ms q e" using assms(1) by (simp add: startable_def run_socket_thread_def m0_def)
  from run_framer_ready [OF this assms(2,3)] obtain m2 fr where m2: "run_framer re ra ?ms = Inr m2"
    "ready m2 q e fr" "pending fr = []" "fr_error_flg fr = 0" "fr_error_code fr = 0"
    "fr_queue_limit fr = ra_frame_queue_limit ra" "sock_param m2 = sock_param ?ms" "error_code m2 = error_code ?ms"
    "m_sitcp m2 = m_sitcp ?ms" "\<exists>rep. m_reply m2 = Some rep \<and> sq_inv rep" by blast
  have sp: "sp_socket (sock_param ?ms) = re_socket re" "sp_run (sock_param ?ms)" "error_code ?ms = 0" "m_sitcp ?ms = m_sitcp m"
    by (simp_all add: run_socket_thread_def m0_def)
  have "SiDaqRun re ra m g = Inr (SIDAQ_RUN, run_finish m2, g + 1)"
    using run_connect_ok [OF True, of m] m2(1) by (simp add: SiDaqRun_def m0_def run_finish_def)
  moreover have "ready (run_finish m2) q e fr" using m2(2) by (simp add: ready_def holds_def run_finish_def)
  ultimately show ?thesis using True m2(3-10) sp
    by (intro exI [of _ SIDAQ_RUN] exI [of _ "run_finish m2"] exI [of _ "g + 1"]) (auto simp: run_finish_def)
qed

text \<open>C12. \<open>SiDaqRun\<close>, on every answer of the system, for a manager with both queues whose framer,
  if it has one, holds no unfinished bytes (\<open>startable\<close>), arguments in their ranges with a header of at
  most two bytes (\<open>args_ok\<close>), and memory (\<open>stocked\<close>). It faults exactly when the lookup of a
  name fails and the uninitialised \<open>pResult\<close> is not NULL (\<open>lookup_garbage\<close>). Otherwise it
  returns Running or System Error: Running exactly when every call of the connection succeeded, with the socket
  stored, the error code cleared, and a framer configured and without unfinished bytes on the unchanged queues; in the
  other case the error code is set, and socket, framer and queues are those from before.\<close>
theorem run_outcome:
  assumes "startable m q e" "stocked re" "args_ok ra"
  shows "if lookup_garbage re ra then SiDaqRun re ra m g = Inl Use_after_free
   else \<exists>st m1 g1. SiDaqRun re ra m g = Inr (st, m1, g1) \<and> status m1 = st \<and>
    (if connects re ra then st = SIDAQ_RUN \<and> error_code m1 = 0 \<and> g1 = g + 1 \<and>
       sp_socket (sock_param m1) = re_socket re \<and> sp_run (sock_param m1) \<and>
       (\<exists>fr. ready m1 q e fr \<and> pending fr = [] \<and> fr_error_flg fr = 0 \<and> fr_error_code fr = 0 \<and>
          fr_queue_limit fr = ra_frame_queue_limit ra)
     else st = SIDAQ_SYS_ERROR \<and> error_code m1 \<noteq> 0 \<and> g1 = g \<and>
       sp_socket (sock_param m1) = sp_socket (sock_param m) \<and> m_framer m1 = m_framer m \<and>
       m_eventFrame m1 = Some e \<and> squeue_list_ptr (sock_param m1) = Some [q])"
proof (cases "lookup_garbage re ra")
  case True
  then show ?thesis by (simp add: SiDaqRun_def run_connect_garbage)
next
  case False
  with run_result [OF assms False, of g] show ?thesis by (cases "connects re ra") fastforce+
qed

definition demo_run :: run_env where
  "demo_run = \<lparr>re_socket = 9, re_error = WSAEWOULDBLOCK, re_inet_pton = 1, re_getaddrinfo = 0, re_pResult = False,
     re_connect = -1, re_setsockopt = 0, re_threads = True, re_lock_ok = True, re_reply_mem = 10,
     re_framer_alloc = True, re_buff_alloc = True\<rparr>"

lemma demo_run_ok: "supplied demo_run" "args_ok default_args" "connects demo_run default_args"
  by (simp_all add: supplied_def stocked_def demo_run_def args_ok_def default_args_def DEFAULT_MAX_FRAME_LEN_def
      connects_def INVALID_SOCKET_def)

definition fresh_mngr :: "SiDaqStatus \<Rightarrow> sqstore \<Rightarrow> sqstore \<Rightarrow> SiDaqMngr" where
  "fresh_mngr st q e = (demo_mngr st q e (demo_framer 2 0))\<lparr>m_framer := None\<rparr>"

lemma fresh_startable:
  "sq_inv q \<Longrightarrow> sq_inv e \<Longrightarrow> \<forall>f\<in>set (sq_frames q). length f < 2 ^ 31 \<Longrightarrow> startable (fresh_mngr st q e) q e"
  by (simp add: startable_def fresh_mngr_def fresh_block_def)

theorem run_outcome_witness:
  "\<exists>q e m1 g1. SiDaqRun demo_run default_args (fresh_mngr SIDAQ_IDLE q e) 1 = Inr (SIDAQ_RUN, m1, g1) \<and> g1 = 2 \<and>
     sp_socket (sock_param m1) = 9"
proof -
  obtain q where q: "sq_inv q" "sq_frames q = []" using demo_store by metis
  have "startable (fresh_mngr SIDAQ_IDLE q q) q q" by (rule fresh_startable) (use q in simp_all)
  moreover have "re_socket demo_run = 9" by (simp add: demo_run_def)
  ultimately obtain m1 where "SiDaqRun demo_run default_args (fresh_mngr SIDAQ_IDLE q q) 1 = Inr (SIDAQ_RUN, m1, 1 + 1)"
      "sp_socket (sock_param m1) = 9"
    using run_outcome [OF _ supplied_stocked(1) [OF demo_run_ok(1)] demo_run_ok(2), of _ q q 1] demo_run_ok(3)
      supplied_stocked(3) [OF demo_run_ok(3)] by fastforce
  then show ?thesis by (metis one_add_one)
qed

text \<open>C28. The race of \<open>SiDaqRun\<close> with its own framer thread: the status becomes Running only after the
  thread was started, so when the thread makes its first test before that, the status is still Idle,
  the thread returns at once, and the measurement is reported as Running with no one to frame what
  it receives.\<close>
theorem run_framer_race:
  assumes "startable m q e" "supplied re" "args_ok ra" "connects re ra" "status m = SIDAQ_IDLE"
  shows "\<exists>m1 m2 m3. run_connect re ra m = Inr (m1, Some (re_socket re)) \<and>
    run_framer re ra (run_socket_thread re ra (re_socket re) m1) = Inr m2 \<and>
    framer_thread (env # envs) m2 = Inr (m3, True) \<and>
    SiDaqGetStatus (Some (run_finish m3)) = SIDAQ_RUN \<and> is_socket_open (run_finish m3) \<and>
    squeue_list_ptr (sock_param m3) = Some [q]"
proof -
  define m1 where "m1 = socket_error 0 (m\<lparr>error_code := 0, error_message := ''No Error''\<rparr>)"
  let ?ms = "run_socket_thread re ra (re_socket re) m1"
  have "startable ?ms q e" using assms(1) by (simp add: startable_def run_socket_thread_def m1_def)
  from run_framer_ready [OF this supplied_stocked(1) [OF assms(2)] assms(3)] obtain m2 fr where m2: "run_framer re ra ?ms = Inr m2"
    "ready m2 q e fr" "fr_error_flg fr = 0" "sock_param m2 = sock_param ?ms" "status m2 = status ?ms" by blast
  have h: "m_framer m2 = Some fr" using m2(2) by (simp add: ready_def holds_def)
  let ?m3 = "m2\<lparr>m_framer := Some (fr\<lparr>fr_error_code := 0\<rparr>), status := SIDAQ_IDLE\<rparr>"
  have st: "status m2 = SIDAQ_IDLE" using m2(5) assms(5) by (simp add: run_socket_thread_def m1_def)
  then have "framer_thread (env # envs) m2 = Inr (?m3, True)"
    using h m2(3) by (simp add: framer_thread_def framer_thread_start_def framer_of_def framer_runs_def framer_exit_def)
  moreover have "sp_socket (sock_param m2) \<noteq> INVALID_SOCKET"
    using m2(4) assms(4) by (simp add: run_socket_thread_def connects_def)
  moreover have "squeue_list_ptr (sock_param m2) = Some [q]" using m2(2) by (simp add: ready_def holds_def)
  ultimately show ?thesis using run_connect_ok [OF assms(4), of m] m2(1)
    by (intro exI [of _ m1] exI [of _ m2] exI [of _ ?m3])
      (simp add: m1_def run_finish_def SiDaqGetStatus_def is_socket_open_def)
qed

theorem run_framer_race_witness:
  "\<exists>q e m1 m2 m3. run_connect demo_run default_args (fresh_mngr SIDAQ_IDLE q e) = Inr (m1, Some 9) \<and>
     run_framer demo_run default_args (run_socket_thread demo_run default_args 9 m1) = Inr m2 \<and>
     framer_thread [quiet_env] m2 = Inr (m3, True) \<and> SiDaqGetStatus (Some (run_finish m3)) = SIDAQ_RUN"
proof -
  obtain q where q: "sq_inv q" "sq_frames q = []" using demo_store by metis
  have s: "startable (fresh_mngr SIDAQ_IDLE q q) q q" by (rule fresh_startable) (use q in simp_all)
  have "status (fresh_mngr SIDAQ_IDLE q q) = SIDAQ_IDLE" "re_socket demo_run = 9"
    by (simp_all add: fresh_mngr_def demo_run_def)
  with run_framer_race [OF s demo_run_ok] show ?thesis by metis
qed

section \<open>Reset\<close>

lemma drain_all:
  "sq_inv q \<Longrightarrow> \<exists>q'. sq_drain (Suc (nat (sq_count q))) q = Inr q' \<and> sq_inv q' \<and> sq_frames q' = [] \<and>
     sq_room q \<le> sq_room q'"
  using sq_drain_inv [of q "Suc (nat (sq_count q))"] by (auto simp: sq_inv_count sq_room_def div_le_mono)

lemma holds_status: "holds m q e fr \<Longrightarrow> holds (m\<lparr>status := st\<rparr>) q e fr"
  by (simp add: holds_def)

lemma reset_ready:
  assumes "ready m q e fr" "status m = SIDAQ_STOPPING \<or> status m = SIDAQ_SYS_ERROR"
  shows "\<exists>m1 q1 e1. SiDaqResetQueue (Some m) = Inr (Some m1) \<and> ready m1 q1 e1 fr \<and> sq_frames q1 = [] \<and> sq_frames e1 = [] \<and>
    sq_room q \<le> sq_room q1 \<and> sq_room e \<le> sq_room e1 \<and> status m1 = (if status m = SIDAQ_SYS_ERROR then SIDAQ_SYS_ERROR else SIDAQ_IDLE) \<and> error_code m1 = error_code m"
proof -
  let ?m0 = "m\<lparr>status := SIDAQ_RESET\<rparr>"
  have h: "holds ?m0 q e fr" "sq_inv q" "sq_inv e" using assms(1) holds_status by (auto simp: ready_def)
  obtain q1 where q1: "sq_drain (Suc (nat (sq_count q))) q = Inr q1" "sq_inv q1" "sq_frames q1 = []" "sq_room q \<le> sq_room q1"
    using drain_all [OF h(2)] by blast
  obtain e1 where e1: "sq_drain (Suc (nat (sq_count e))) e = Inr e1" "sq_inv e1" "sq_frames e1 = []" "sq_room e \<le> sq_room e1"
    using drain_all [OF h(3)] by blast
  note h2 = holds_set_recv [OF h(1), of q1]
  let ?m1 = "(set_recv_queue q1 ?m0)\<lparr>m_eventFrame := Some e1,
    status := (if status m = SIDAQ_SYS_ERROR then SIDAQ_SYS_ERROR else SIDAQ_IDLE)\<rparr>"
  have "SiDaqResetQueue (Some m) = Inr (Some ?m1)"
    using assms(2) h(1) h2 q1(1) e1(1) by (auto simp: SiDaqResetQueue_def Let_def)
  moreover have "ready ?m1 q1 e1 fr"
    using h2 q1(2,3) e1(2) assms(1) by (simp add: ready_def holds_def)
  ultimately show ?thesis using q1(3,4) e1(3,4)
    by (intro exI [of _ ?m1] exI [of _ q1] exI [of _ e1]) simp
qed

text \<open>C37. \<open>SiDaqResetQueue\<close> empties both queues when the manager is Stopping or in System Error and does
  nothing in any other status; it ends in Idle, or in System Error when it started there.\<close>
theorem reset_empties_queues:
  assumes "ready m q e fr"
  shows "\<exists>m1 q1 e1. SiDaqResetQueue (Some m) = Inr (Some m1) \<and> ready m1 q1 e1 fr \<and>
    (if status m \<in> {SIDAQ_STOPPING, SIDAQ_SYS_ERROR}
     then sq_frames q1 = [] \<and> sq_frames e1 = [] \<and> SiDaqGetDataCount (Some m1) = Inr 0 \<and>
       SiDaqGetFrameDataCount (Some m1) = Inr 0 \<and>
       status m1 = (if status m = SIDAQ_SYS_ERROR then SIDAQ_SYS_ERROR else SIDAQ_IDLE)
     else m1 = m)"
proof (cases "status m \<in> {SIDAQ_STOPPING, SIDAQ_SYS_ERROR}")
  case True
  then have "status m = SIDAQ_STOPPING \<or> status m = SIDAQ_SYS_ERROR" by simp
  from reset_ready [OF assms this] obtain m1 q1 e1 where m1:
    "SiDaqResetQueue (Some m) = Inr (Some m1)" "ready m1 q1 e1 fr" "sq_frames q1 = []" "sq_frames e1 = []"
    "status m1 = (if status m = SIDAQ_SYS_ERROR then SIDAQ_SYS_ERROR else SIDAQ_IDLE)" by blast
  have "holds m1 q1 e1 fr" "sq_count q1 = 0" "sq_count e1 = 0"
    using m1(2-4) by (auto simp: ready_def sq_inv_count)
  then have "SiDaqGetDataCount (Some m1) = Inr 0" "SiDaqGetFrameDataCount (Some m1) = Inr 0"
    by (simp_all add: SiDaqGetDataCount_def SiDaqGetFrameDataCount_def)
  with True m1 show ?thesis
    by (intro exI [of _ m1] exI [of _ q1] exI [of _ e1]) simp
next
  case False
  with assms show ?thesis
    by (intro exI [of _ m] exI [of _ q] exI [of _ e]) (auto simp: SiDaqResetQueue_def)
qed

theorem reset_empties_queues_witness:
  "\<exists>q e m1. sq_frames q = [[1, 2, 3], [4, 5]] \<and>
     SiDaqResetQueue (Some (demo_mngr SIDAQ_SYS_ERROR q e (demo_framer 2 0))) = Inr (Some m1) \<and>
     SiDaqGetDataCount (Some m1) = Inr 0 \<and> status m1 = SIDAQ_SYS_ERROR"
proof -
  obtain q where q: "sq_inv q" "sq_frames q = [[1, 2, 3], [4, 5 :: byte]]" by (rule demo_received)
  have p: "(0::int) < 2" "(2::int) < 1000" by simp_all
  note f = demo_framer_ok [OF p, of 0]
  have r: "ready (demo_mngr SIDAQ_SYS_ERROR q q (demo_framer 2 0)) q q (demo_framer 2 0)"
    by (rule demo_ready) (use q f in simp_all)
  obtain m1 where "SiDaqResetQueue (Some (demo_mngr SIDAQ_SYS_ERROR q q (demo_framer 2 0))) = Inr (Some m1)"
      "SiDaqGetDataCount (Some m1) = Inr 0" "status m1 = SIDAQ_SYS_ERROR"
    using reset_empties_queues [OF r] by auto
  then show ?thesis using q(2) by blast
qed

lemma reset_then_run:
  assumes "ready m q e fr" "status m = SIDAQ_STOPPING" "connects re ra" "supplied re"
  shows "\<exists>m1 m2 q1 e1. SiDaqResetQueue (Some m) = Inr (Some m1) \<and> SiDaqRun re ra m1 g = Inr (SIDAQ_RUN, m2, g + 1) \<and>
    holds m2 q1 e1 (configure_framer (ra_lengthFunc ra) (ra_header_len ra) (ra_fixed_frame_len ra)
      (ra_frame_queue_limit ra) (ra_max_frame_len ra) fr) \<and>
    sq_inv q1 \<and> sq_inv e1 \<and> sq_frames q1 = [] \<and> sq_frames e1 = [] \<and> sq_room q \<le> sq_room q1 \<and> sq_room e \<le> sq_room e1"
proof -
  have s: "status m = SIDAQ_STOPPING \<or> status m = SIDAQ_SYS_ERROR" using assms(2) by simp
  from reset_ready [OF assms(1) s] obtain m1 q1 e1 where m1:
    "SiDaqResetQueue (Some m) = Inr (Some m1)" "ready m1 q1 e1 fr" "sq_frames q1 = []" "sq_frames e1 = []"
    "sq_room q \<le> sq_room q1" "sq_room e \<le> sq_room e1" by blast
  define m0 where "m0 = socket_error 0 (m1\<lparr>error_code := 0, error_message := ''No Error''\<rparr>)"
  let ?ms = "run_socket_thread re ra (re_socket re) m0"
  have fr: "m_framer ?ms = Some fr" using m1(2) by (simp add: run_socket_thread_def m0_def ready_def holds_def)
  obtain rep where rep: "(case m_reply ?ms of Some q \<Rightarrow> Inr q | None \<Rightarrow> NewSQueue (re_lock_ok re) (re_reply_mem re)) = Inr rep"
    using assms(4) that by (cases "m_reply ?ms") (simp_all add: supplied_def stocked_def NewSQueue_def)
  define fr2 where "fr2 = configure_framer (ra_lengthFunc ra) (ra_header_len ra) (ra_fixed_frame_len ra)
    (ra_frame_queue_limit ra) (ra_max_frame_len ra) fr"
  let ?m2 = "?ms\<lparr>m_reply := Some rep, m_framer := Some fr2, framer_thread_made := re_threads re\<rparr>"
  have "run_framer re ra ?ms = Inr ?m2" using rep fr by (simp add: run_framer_def fr2_def)
  then have "SiDaqRun re ra m1 g = Inr (SIDAQ_RUN, run_finish ?m2, g + 1)"
    using run_connect_ok [OF assms(3), of m1] by (simp add: SiDaqRun_def m0_def run_finish_def)
  moreover have "holds (run_finish ?m2) q1 e1 fr2"
    using m1(2) by (simp add: ready_def holds_def run_finish_def run_socket_thread_def m0_def socket_error_def set_last_error_def)
  ultimately show ?thesis using m1 fr2_def by (auto simp: ready_def)
qed

text \<open>A reset does not reach the framer: the bytes of an unfinished frame survive
  \<open>SiDaqResetQueue\<close> and the next \<open>SiDaqRun\<close>, and the new measurement starts with the framer holding
  them.\<close>
theorem reset_keeps_unfinished_frame:
  assumes "ready m q e fr" "status m = SIDAQ_STOPPING" "connects re ra" "supplied re" "pending fr \<noteq> []"
  shows "\<exists>m1 m2 fr2. SiDaqResetQueue (Some m) = Inr (Some m1) \<and> SiDaqRun re ra m1 g = Inr (SIDAQ_RUN, m2, g + 1) \<and>
    m_framer m2 = Some fr2 \<and> pending fr2 = pending fr \<and> 0 < fr_rest fr2"
proof -
  let ?fr2 = "configure_framer (ra_lengthFunc ra) (ra_header_len ra) (ra_fixed_frame_len ra)
    (ra_frame_queue_limit ra) (ra_max_frame_len ra) fr"
  have "pending ?fr2 = pending fr" "fr_rest ?fr2 = fr_rest fr"
    by (simp_all add: configure_framer_def pending_def buff_bytes_def)
  moreover have "0 < fr_rest fr" using assms(5) by (cases "0 < fr_rest fr") (auto simp: pending_def)
  ultimately show ?thesis using reset_then_run [OF assms(1-4), of g] by (auto simp: holds_def)
qed

lemma demo_unfinished:
  obtains fr where "framer_ok fr" "rest_ok fr" "0 \<le> fr_queue_limit fr" "pending fr = [5]"
proof -
  obtain q where q: "sq_inv q" "sq_frames q = []" "sq_room q = 49" using demo_store by metis
  have p: "(0::int) < 2" "(2::int) < 1000" by simp_all
  note f = demo_framer_ok [OF p, of 0]
  have "length (pending (demo_framer 2 0)) + length (concat [[1, 2, 3, 4, 5 :: byte]]) \<le> sq_room q"
    "\<forall>d\<in>set [[1, 2, 3, 4, 5 :: byte]]. d \<noteq> [] \<and> length d < 2 ^ 31"
    "fr_header_len (demo_framer 2 0) < fr_max_frame_len (demo_framer 2 0)"
    "stream_ok (demo_framer 2 0) (pending (demo_framer 2 0) @ concat [[1, 2, 3, 4, 5]])"
    using q(3) f demo_split by simp_all
  from sqb.feed_splits [OF q(1) this(1) f(1,2,4) this(2) f(10) this(3,4), of 0] obtain fr q1 where
    "pending fr = snd (split_frames (demo_framer 2 0) (pending (demo_framer 2 0) @ concat [[1, 2, 3, 4, 5]]))"
    "framer_ok fr" "rest_ok fr" "same_config (demo_framer 2 0) fr" by blast
  then show thesis using that [of fr] demo_split(1) f(3,4) by (simp add: same_config_def)
qed

theorem reset_keeps_unfinished_frame_witness:
  "\<exists>q e fr m1 m2 fr2. pending fr = [5] \<and>
     SiDaqResetQueue (Some (demo_mngr SIDAQ_STOPPING q e fr)) = Inr (Some m1) \<and>
     SiDaqRun demo_run default_args m1 1 = Inr (SIDAQ_RUN, m2, 1 + 1) \<and> m_framer m2 = Some fr2 \<and> pending fr2 = [5]"
proof -
  obtain q where q: "sq_inv q" "sq_frames q = []" using demo_store by metis
  obtain fr where fr: "framer_ok fr" "rest_ok fr" "0 \<le> fr_queue_limit fr" "pending fr = [5]" by (rule demo_unfinished)
  have r: "ready (demo_mngr SIDAQ_STOPPING q q fr) q q fr"
    by (rule demo_ready) (use q fr in simp_all)
  have "status (demo_mngr SIDAQ_STOPPING q q fr) = SIDAQ_STOPPING" "pending fr \<noteq> []" using fr(4) by simp_all
  from reset_keeps_unfinished_frame [OF r this(1) demo_run_ok(3,1) this(2), of 1] fr(4) show ?thesis by metis
qed

section \<open>Registers\<close>

lemma rbcp_message_short:
  assumes "rw_memory net a n rd r w = (Inl e, r1, w1)"
  shows "length (message e) < 1024"
  using assms
  by (auto simp: rw_memory_def send_packet_def recv_packet_def check_packet_def SiTcpRbcpException_def Let_def
      split: prod.splits if_splits sum.splits)

lemma read_message_short:
  assumes "ReadBytes net b a n r w = Inr (Inl e, b1, r1, w1)"
  shows "length (message e) < 1024"
  using assms rbcp_message_short
  by (auto simp: ReadBytes_def SiTcpRbcpException_def Let_def split: prod.splits if_splits sum.splits option.splits)

lemma write_message_short:
  assumes "WriteBytes net b a n r w = Inr (Inl e, r1, w1)"
  shows "length (message e) < 1024"
  using assms rbcp_message_short
  by (auto simp: WriteBytes_def SiTcpRbcpException_def split: if_splits option.splits)

lemma ReadBytes_total:
  assumes "rbcp_ok r" "0 \<le> n" "length b = 255"
  shows "\<exists>res buf r1 w1. ReadBytes net (Some b) a n r w = Inr (res, buf, r1, w1) \<and>
    (case res of Inl e \<Rightarrow> buf = Some b
     | Inr bs \<Rightarrow> buf = Some bs \<and> length bs = 255 \<and> drop (nat n) bs = drop (nat n) b)"
proof (cases "255 < n")
  case True
  then show ?thesis by (simp add: ReadBytes_def rbcp_consts)
next
  case False
  obtain res0 r0 w0 where rw: "rw_memory net a n True r w = (res0, r0, w0)" by (cases "rw_memory net a n True r w")
  have len: "length (rbcp_buf r0) = 263"
    using rw_memory_ok [OF rw assms(1,2)] False by (simp add: rbcp_ok_def rbcp_consts)
  show ?thesis
  proof (cases res0)
    case (Inl e)
    then show ?thesis using rw False by (simp add: ReadBytes_def rbcp_consts)
  next
    case (Inr u)
    let ?bs = "write_at 0 (take (nat n) (drop 8 (rbcp_buf r0))) b"
    have "ReadBytes net (Some b) a n r w = Inr (Inr ?bs, Some ?bs, r0, w0)"
      using rw Inr False assms(2,3) by (simp add: ReadBytes_def rbcp_consts Let_def)
    moreover have "length ?bs = 255" "drop (nat n) ?bs = drop (nat n) b"
      using len False assms(2,3) by (simp_all add: write_at_def min_absorb2 nat_le_iff)
    ultimately show ?thesis by simp
  qed
qed

text \<open>Register reads through the manager: of at most 255 bytes, with the client present, a read never
  faults; a failure returns NULL, leaves the manager's copy of the registers as it was, and is reported
  with the client's message under the code of a write error, never under \<open>SITCP_READ_ERROR\<close>.\<close>
theorem rbcp_read_reports_write_error:
  assumes "m_sitcp m = Some r" "rbcp_ok r" "0 \<le> n" "length (sitcp_register m) = SiTCP_RBCP_SIZE"
  shows "\<exists>res m1 w1. SiDaqRbcpReadBytes net a n m w = Inr (res, m1, w1) \<and> status m1 = status m \<and>
    length (sitcp_register m1) = SiTCP_RBCP_SIZE \<and>
    (case res of
       None \<Rightarrow> sitcp_register m1 = sitcp_register m \<and> error_code m1 = sidaq_code SITCP_WRITE_ERROR \<and>
         (\<exists>e r1. ReadBytes net (Some (sitcp_register m)) a n r w = Inr (Inl e, Some (sitcp_register m), r1, w1) \<and>
            error_message m1 = message e)
     | Some bs \<Rightarrow> sitcp_register m1 = bs \<and> drop (nat n) bs = drop (nat n) (sitcp_register m) \<and>
         error_code m1 = error_code m)"
proof -
  have len: "length (sitcp_register m) = 255" using assms(4) by (simp add: mngr_consts)
  from ReadBytes_total [OF assms(2,3) len, of net a w] obtain res buf r1 w1 where rd:
    "ReadBytes net (Some (sitcp_register m)) a n r w = Inr (res, buf, r1, w1)"
    "case res of Inl e \<Rightarrow> buf = Some (sitcp_register m)
     | Inr bs \<Rightarrow> buf = Some bs \<and> length bs = 255 \<and> drop (nat n) bs = drop (nat n) (sitcp_register m)" by blast
  show ?thesis
  proof (cases res)
    case (Inl e)
    have "length (message e) < 1024" by (rule read_message_short [OF rd(1) [unfolded Inl]])
    then show ?thesis using rd Inl assms(1) len
      by (simp add: SiDaqRbcpReadBytes_def Let_def set_sidaq_error_ok mngr_consts)
  next
    case (Inr bs)
    then show ?thesis using rd assms(1) by (simp add: SiDaqRbcpReadBytes_def Let_def mngr_consts)
  qed
qed

theorem rbcp_read_reports_write_error_witness:
  "\<exists>q m1 w1. SiDaqRbcpReadBytes recording_udp 0 4 (fresh_mngr SIDAQ_IDLE q q) [] = Inr (None, m1, w1) \<and>
     error_code m1 = 102"
proof -
  obtain q where q: "sq_inv q" using demo_store by metis
  have m: "m_sitcp (fresh_mngr SIDAQ_IDLE q q) = Some demo_rbcp"
    "length (sitcp_register (fresh_mngr SIDAQ_IDLE q q)) = SiTCP_RBCP_SIZE"
    by (simp_all add: fresh_mngr_def) (simp add: demo_mngr_def zero_mngr_def)
  from rbcp_read_reports_write_error [OF m(1) demo_rbcp_ok _ m(2), of 4 recording_udp 0 "[]"]
  obtain res m1 w1 where r: "SiDaqRbcpReadBytes recording_udp 0 4 (fresh_mngr SIDAQ_IDLE q q) [] = Inr (res, m1, w1)"
    "res = None \<longrightarrow> error_code m1 = 102" by (auto split: option.splits)
  have "\<exists>m1 w1. SiDaqRbcpReadBytes recording_udp 0 4 (fresh_mngr SIDAQ_IDLE q q) [] = Inr (None, m1, w1)"
  proof -
    have "rw_memory recording_udp 0 4 True demo_rbcp [] = (Inl (SiTcpRbcpException SITCPRBCP_ERR_TIMEOUT ''select() timeout''),
        sent_object 0 4 True demo_rbcp, [request 0 4 True demo_rbcp])"
      using length_request [OF demo_rbcp_ok, of 4 0 True]
      by (simp add: rw_memory_send [OF demo_rbcp_ok] recording_udp_def recv_packet_def Let_def)
    then show ?thesis using m(1)
      by (simp add: SiDaqRbcpReadBytes_def ReadBytes_def rbcp_consts Let_def set_sidaq_error_ok SiTcpRbcpException_def)
  qed
  then show ?thesis using r by auto
qed

section \<open>Initialize and Terminate\<close>

text \<open>The allocations succeed, and so does \<open>WSAStartup\<close> where it is called.\<close>

definition init_supplied :: "init_env \<Rightarrow> bool" where
  "init_supplied ie \<longleftrightarrow> ie_mngr_alloc ie \<and> ie_wsa_startup ie = 0 \<and> ie_list_alloc ie \<and> ie_lock_ok ie \<and>
     0 < ie_recv_mem ie \<and> ie_recv_mem ie < 2 ^ 31 \<and> 0 < ie_event_mem ie \<and> ie_event_mem ie < 2 ^ 31"

definition wsa_count :: "bool \<Rightarrow> int \<Rightarrow> int" where
  "wsa_count not_wsa_cleanup g = (if \<not> not_wsa_cleanup \<and> g = 0 then 1 else g)"

text \<open>The manager handed to the first register access.\<close>

definition init_mngr :: "string \<Rightarrow> int \<Rightarrow> int \<Rightarrow> SiTcpRbcp \<Rightarrow> SiDaqMngr" where
  "init_mngr addr tcp udp r = (socket_error 0 (zero_mngr\<lparr>error_code := 0, error_message := ''No Error''\<rparr>))
     \<lparr>ip_address := addr, tcp_port := tcp, udp_port := udp, m_sitcp := Some r\<rparr>"

lemma init_unfold:
  assumes "init_supplied ie" "length addr < 256" "ie_ctor ie addr (udp mod 2 ^ 16) = (Inr (), r)"
  shows "SiDaqInitialize ie net (Some addr) tcp udp nw g w =
    obind (SiDaqRbcpReadBytes net 0xFFFFFF00 64 (init_mngr addr tcp udp r) w) (\<lambda>(rd, m2, w1).
      case rd of
        None \<Rightarrow> obind (set_sidaq_error (m2\<lparr>m_sitcp := None, status := SIDAQ_SYS_ERROR\<rparr>)
          (sidaq_code SIDAQ_INITIAL_CONNECT_FAILED) SYS_ERR_IVALID_ADDR 0) (\<lambda>m3. Inr (Inr (Some m3), wsa_count nw g, w1))
      | Some _ \<Rightarrow> obind (make_queues ie m2) (\<lambda>mo. Inr (Inr mo, wsa_count nw g, w1)))"
proof -
  have "(socket_error 0 (zero_mngr\<lparr>error_code := 0, error_message := ''No Error''\<rparr>))\<lparr>ip_address := addr,
      status := SIDAQ_IDLE, tcp_port := tcp, udp_port := udp, m_sitcp := Some r,
      sitcp_register := replicate SiTCP_RBCP_SIZE 0\<rparr> = init_mngr addr tcp udp r"
    by (simp add: init_mngr_def zero_mngr_def socket_error_def set_last_error_def)
  moreover have cnt: "(if \<not> nw \<and> g = 0 then g + 1 else g) = wsa_count nw g" by (simp add: wsa_count_def)
  ultimately show ?thesis
    using assms unfolding SiDaqInitialize_def Let_def cnt
    by (simp add: init_supplied_def set_sidaq_error_ok mngr_consts)
qed

lemma make_queues_ok:
  assumes "init_supplied ie"
  obtains q e where "make_queues ie m = Inr (Some (m\<lparr>sock_param := (sock_param m)\<lparr>sp_run := True, squeue_count := 1,
      squeue_index := 0, squeue_list_ptr := Some [q]\<rparr>, m_eventFrame := Some e\<rparr>))"
    "sq_inv q" "sq_frames q = []" "sq_inv e" "sq_frames e = []"
    "quota q + 1 = ie_recv_mem ie" "quota e + 1 = ie_event_mem ie"
proof -
  obtain q where q: "NewSQueue True (ie_recv_mem ie) = Inr q" "sq_inv q" "sq_frames q = []" "quota q = ie_recv_mem ie - 1"
    using NewSQueue_inv assms by (auto simp: init_supplied_def)
  obtain e where e: "NewSQueue True (ie_event_mem ie) = Inr e" "sq_inv e" "sq_frames e = []" "quota e = ie_event_mem ie - 1"
    using NewSQueue_inv assms by (auto simp: init_supplied_def)
  show thesis
    by (rule that [where q = q and e = e]) (use q e assms in \<open>simp_all add: make_queues_def init_supplied_def Let_def\<close>)
qed

lemma init_startable:
  assumes "init_supplied ie" "length addr < 256" "ie_ctor ie addr (udp mod 2 ^ 16) = (Inr (), r)" "rbcp_ok r"
    and "device_answers net inbox mem" "delivers_in_order net inbox mem" "inbox w = []"
  shows "\<exists>m q e w1. SiDaqInitialize ie net (Some addr) tcp udp nw g w = Inr (Inr (Some m), wsa_count nw g, w1) \<and>
    status m = SIDAQ_IDLE \<and> error_code m = 0 \<and> startable m q e \<and> sq_frames q = [] \<and> sq_frames e = [] \<and>
    take 64 (sitcp_register m) = registers (mem w) 0xFFFFFF00 64 \<and> m_sitcp m \<noteq> None"
proof -
  have a: "(0::int) \<le> 64" "(64::int) \<le> 255" "(0::int) \<le> 0xFFFFFF00" "(0xFFFFFF00::int) < 2 ^ 32" by simp_all
  obtain r1 w1 where rw: "rw_memory net 0xFFFFFF00 64 True r w = (Inr (), r1, w1)"
      "take 64 (drop 8 (rbcp_buf r1)) = registers (mem w) 0xFFFFFF00 64"
    using read_transaction [OF assms(5,6,4) a assms(7)] by (metis nat_numeral)
  let ?m0 = "init_mngr addr tcp udp r"
  have m0: "m_sitcp ?m0 = Some r" "length (sitcp_register ?m0) = 255" "status ?m0 = SIDAQ_IDLE" "error_code ?m0 = 0"
    "m_framer ?m0 = None" "m_reply ?m0 = None"
    by (simp_all add: init_mngr_def) (simp_all add: zero_mngr_def mngr_consts)
  let ?b = "write_at 0 (take 64 (drop 8 (rbcp_buf r1))) (sitcp_register ?m0)"
  let ?m1 = "?m0\<lparr>m_sitcp := Some r1, sitcp_register := ?b\<rparr>"
  have rd: "SiDaqRbcpReadBytes net 0xFFFFFF00 64 ?m0 w = Inr (Some ?b, ?m1, w1)"
    using m0(1,2) rw(1) by (simp add: SiDaqRbcpReadBytes_def ReadBytes_def rbcp_consts Let_def)
  obtain q e where qe: "make_queues ie ?m1 = Inr (Some (?m1\<lparr>sock_param := (sock_param ?m1)\<lparr>sp_run := True,
      squeue_count := 1, squeue_index := 0, squeue_list_ptr := Some [q]\<rparr>, m_eventFrame := Some e\<rparr>))"
      "sq_inv q" "sq_frames q = []" "sq_inv e" "sq_frames e = []"
    by (rule make_queues_ok [OF assms(1), of ?m1])
  let ?m = "?m1\<lparr>sock_param := (sock_param ?m1)\<lparr>sp_run := True, squeue_count := 1, squeue_index := 0,
      squeue_list_ptr := Some [q]\<rparr>, m_eventFrame := Some e\<rparr>"
  have "SiDaqInitialize ie net (Some addr) tcp udp nw g w = Inr (Inr (Some ?m), wsa_count nw g, w1)"
    unfolding init_unfold [OF assms(1-3)] using rd qe(1) by simp
  moreover have "startable ?m q e" using m0(5,6) qe(2-5) by (simp add: startable_def)
  moreover have "take 64 ?b = registers (mem w) 0xFFFFFF00 64"
    using rw(2) m0(2) by (simp add: write_at_def)
  ultimately show ?thesis using m0(3,4) qe(3,5)
    by (intro exI [of _ ?m] exI [of _ q] exI [of _ e] exI [of _ w1]) simp
qed

text \<open>C18. \<open>SiDaqInitialize\<close> with a device that answers: the manager is Idle without an error, its
  register copy starts with the 64 bytes read from the SiTCP area, and it is ready for \<open>SiDaqRun\<close> with
  two empty queues.\<close>
theorem init_ready:
  assumes "init_supplied ie" "length addr < 256" "ie_ctor ie addr (udp mod 2 ^ 16) = (Inr (), r)" "rbcp_ok r"
    and "device_answers net inbox mem" "delivers_in_order net inbox mem" "inbox w = []"
  shows "\<exists>m q e w1. SiDaqInitialize ie net (Some addr) tcp udp nw g w = Inr (Inr (Some m), wsa_count nw g, w1) \<and>
    status m = SIDAQ_IDLE \<and> error_code m = 0 \<and> startable m q e \<and> sq_frames q = [] \<and> sq_frames e = [] \<and>
    take 64 (sitcp_register m) = registers (mem w) 0xFFFFFF00 64"
  using init_startable [OF assms, of tcp nw g] by blast

definition demo_init :: init_env where
  "demo_init = \<lparr>ie_mngr_alloc = True, ie_wsa_startup = 0, ie_wsa_error = 0, ie_ctor = (\<lambda>_ _. (Inr (), demo_rbcp)),
     ie_list_alloc = True, ie_lock_ok = True, ie_recv_mem = 100, ie_event_mem = 100\<rparr>"

lemma demo_init_ok: "init_supplied demo_init" "ie_ctor demo_init a n = (Inr (), demo_rbcp)"
  by (simp_all add: init_supplied_def demo_init_def)

theorem init_ready_witness:
  "\<exists>m w1. SiDaqInitialize demo_init demo_udp (Some ''192.168.10.16'') 24 4660 False 0 ((\<lambda>_. 7), []) = Inr (Inr (Some m), 1, w1) \<and>
     status m = SIDAQ_IDLE \<and> error_code m = 0"
proof -
  have "length ''192.168.10.16'' < 256" "snd ((\<lambda>_. 7 :: byte) :: int \<Rightarrow> byte, [] :: byte list list) = []" by simp_all
  from init_ready [OF demo_init_ok(1) this(1) demo_init_ok(2) demo_rbcp_ok demo_answers demo_delivers this(2),
      where udp = 4660 and tcp = 24 and nw = False and g = 0]
  show ?thesis unfolding wsa_count_def by auto
qed

text \<open>\<open>SiDaqInitialize\<close> when the device does not answer: the returned manager is in System Error with
  the connection error, has no register client any more and no queues; asking it for a data count is then
  a NULL dereference, while \<open>SiDaqStop\<close> and register reads on it are harmless.\<close>
theorem init_failed_manager:
  assumes "init_supplied ie" "length addr < 256" "ie_ctor ie addr (udp mod 2 ^ 16) = (Inr (), r)" "rbcp_ok r"
    and "ReadBytes net (Some (replicate 255 0)) 0xFFFFFF00 64 r w = Inr (Inl e, buf, r1, w1)"
  shows "\<exists>m. SiDaqInitialize ie net (Some addr) tcp udp nw g w = Inr (Inr (Some m), wsa_count nw g, w1) \<and>
    status m = SIDAQ_SYS_ERROR \<and> error_code m = sidaq_code SIDAQ_INITIAL_CONNECT_FAILED \<and>
    SiDaqGetDataCount (Some m) = Inl Null_deref \<and> SiDaqGetFrameDataCount (Some m) = Inl Null_deref \<and>
    SiDaqResetQueue (Some m) = Inl Null_deref \<and> fst (SiDaqStop wait m) \<and>
    SiDaqRbcpReadBytes net a n m w1 = Inr (None, m, w1)"
proof -
  let ?m0 = "init_mngr addr tcp udp r"
  have m0: "m_sitcp ?m0 = Some r" "sitcp_register ?m0 = replicate 255 0" "squeue_list_ptr (sock_param ?m0) = None"
    "m_eventFrame ?m0 = None"
    by (simp_all add: init_mngr_def) (simp_all add: zero_mngr_def mngr_consts)
  define m1 where "m1 = socket_error 0 (?m0\<lparr>m_sitcp := Some r1, sitcp_register := (case buf of Some b \<Rightarrow> b | None \<Rightarrow> sitcp_register ?m0),
    error_code := 102, error_message := message e\<rparr>)"
  have rd: "SiDaqRbcpReadBytes net 0xFFFFFF00 64 ?m0 w = Inr (None, m1, w1)"
    using m0(1,2) assms(5) read_message_short [OF assms(5)]
    by (simp add: SiDaqRbcpReadBytes_def Let_def set_sidaq_error_ok m1_def)
  define m where "m = socket_error 0 (m1\<lparr>m_sitcp := None, status := SIDAQ_SYS_ERROR,
    error_code := 6, error_message := SYS_ERR_IVALID_ADDR\<rparr>)"
  have "SiDaqInitialize ie net (Some addr) tcp udp nw g w = Inr (Inr (Some m), wsa_count nw g, w1)"
    unfolding init_unfold [OF assms(1-3)] using rd by (simp add: set_sidaq_error_ok mngr_consts m_def)
  moreover have "squeue_list_ptr (sock_param m) = None" "m_eventFrame m = None" "m_sitcp m = None" "status m = SIDAQ_SYS_ERROR"
    "error_code m = 6"
    using m0(3,4) by (simp_all add: m_def m1_def)
  ultimately show ?thesis
    by (intro exI [of _ m]) (simp add: SiDaqGetDataCount_def SiDaqGetFrameDataCount_def SiDaqResetQueue_def
        recv_queue_def select_queue_def event_queue_def SiDaqStop_def SiDaqRbcpReadBytes_def)
qed

lemma recording_read:
  "\<exists>r1 w1. ReadBytes recording_udp (Some b) a 64 demo_rbcp [] = Inr (Inl (SiTcpRbcpException SITCPRBCP_ERR_TIMEOUT ''select() timeout''), Some b, r1, w1)"
proof -
  have "rw_memory recording_udp a 64 True demo_rbcp [] = (Inl (SiTcpRbcpException SITCPRBCP_ERR_TIMEOUT ''select() timeout''),
      sent_object a 64 True demo_rbcp, [request a 64 True demo_rbcp])"
    using length_request [OF demo_rbcp_ok, of 64 a True]
    by (simp add: rw_memory_send [OF demo_rbcp_ok] recording_udp_def recv_packet_def Let_def)
  then show ?thesis by (simp add: ReadBytes_def rbcp_consts)
qed

theorem init_failed_manager_witness:
  "\<exists>m w1. SiDaqInitialize demo_init recording_udp (Some ''192.168.10.16'') 24 4660 False 0 [] = Inr (Inr (Some m), 1, w1) \<and>
     error_code m = 6 \<and> SiDaqGetDataCount (Some m) = Inl Null_deref"
proof -
  have l: "length ''192.168.10.16'' < 256" by simp
  obtain r1 w1 where rd: "ReadBytes recording_udp (Some (replicate 255 0)) 0xFFFFFF00 64 demo_rbcp [] =
      Inr (Inl (SiTcpRbcpException SITCPRBCP_ERR_TIMEOUT ''select() timeout''), Some (replicate 255 0), r1, w1)"
    using recording_read by blast
  from init_failed_manager [OF demo_init_ok(1) l demo_init_ok(2) demo_rbcp_ok rd,
      where udp = 4660 and tcp = 24 and nw = False and g = 0 and wait = id and a = 0 and n = 4]
  show ?thesis unfolding wsa_count_def by auto
qed

lemma delete_queue_ok:
  assumes "sq_inv q"
  shows "\<exists>q1. DeleteSQueue q = Inr q1 \<and> cells q1 = Map.empty \<and> quota q1 = quota q + 2 * length (sq_frames q) + 1"
proof -
  have lk: "sq_lock q" using assms by (simp add: sq_inv_def sq_rep_def)
  obtain q1 where "sq_drain (Suc (nat (sq_count q))) q = Inr q1" "sq_inv q1" "sq_frames q1 = []"
    "quota q1 = quota q + 2 * length (sq_frames q)"
    using sq_drain_inv [OF assms, of "Suc (nat (sq_count q))"] sq_inv_count [OF assms] by auto
  then show ?thesis using lk sq_inv_empty_cells by (simp add: DeleteSQueue_def)
qed

lemma terminate_result:
  assumes "ready m q e fr" "m_reply m = Some rep" "sq_inv rep" "m_sitcp m = Some r" "keeps_queues wait" "0 < g"
  shows "\<exists>q1 rep1 e1. SiDaqTerminate wait (Some m) nw g =
      Inr (g - 1, g = 1 \<and> \<not> nw, [q1, rep1, e1], 2, Some (r\<lparr>rb_closed := Suc (rb_closed r)\<rparr>)) \<and>
    cells q1 = Map.empty \<and> cells rep1 = Map.empty \<and> cells e1 = Map.empty \<and>
    quota q1 = quota q + 2 * length (sq_frames q) + 1 \<and>
    quota rep1 = quota rep + 2 * length (sq_frames rep) + 1 \<and>
    quota e1 = quota e + 2 * length (sq_frames e) + 1"
proof -
  define m1 where "m1 = snd (SiDaqStop wait m)"
  have h: "holds m q e fr" using assms(1) by (simp add: ready_def)
  have "holds m1 q e fr" "m_reply m1 = Some rep" "m_sitcp m1 = Some r"
    using holds_stop [OF _ assms(5)] h holds_status [OF h] assms(2,4)
    by (simp_all add: m1_def SiDaqStop_def) (simp_all add: stop_socket_def)
  then have m1: "squeue_list_ptr (sock_param m1) = Some [q]" "squeue_count (sock_param m1) = 1"
    "m_eventFrame m1 = Some e" "m_framer m1 = Some fr" "m_reply m1 = Some rep" "m_sitcp m1 = Some r"
    by (simp_all add: holds_def)
  have inv: "sq_inv q" "sq_inv e" "fr_buff_ptr fr \<noteq> None" using assms(1) by (simp_all add: ready_def framer_ok_def)
  obtain q1 where q1: "DeleteSQueue q = Inr q1" "cells q1 = Map.empty" "quota q1 = quota q + 2 * length (sq_frames q) + 1"
    using delete_queue_ok [OF inv(1)] by blast
  obtain e1 where e1: "DeleteSQueue e = Inr e1" "cells e1 = Map.empty" "quota e1 = quota e + 2 * length (sq_frames e) + 1"
    using delete_queue_ok [OF inv(2)] by blast
  obtain rep1 where rep1: "DeleteSQueue rep = Inr rep1" "cells rep1 = Map.empty"
      "quota rep1 = quota rep + 2 * length (sq_frames rep) + 1"
    using delete_queue_ok [OF assms(3)] by blast
  have "SiDaqTerminate wait (Some m) nw g =
      Inr (g - 1, g = 1 \<and> \<not> nw, [q1, rep1, e1], 2, Some (r\<lparr>rb_closed := Suc (rb_closed r)\<rparr>))"
    using m1 q1(1) e1(1) rep1(1) inv(3) assms(6)
    by (simp add: SiDaqTerminate_def m1_def [symmetric] delete_queue_opt_def DellSiDaqFramer_def Let_def
        SiTcpRbcp_dtor_def rb_closesocket_def)
  then show ?thesis using q1(2,3) e1(2,3) rep1(2,3) by blast
qed

text \<open>C36. \<open>SiDaqTerminate\<close> releases what the manager owns: every block of the receive queue, the reply
  queue and the event queue, the queues themselves and the framer with its buffer are given back, and the
  register client's socket is closed once more; the initialisation count goes down by one, and
  \<open>WSACleanup\<close> is called when it reaches zero, unless the caller forbids it.\<close>
theorem terminate_releases:
  assumes "ready m q e fr" "m_reply m = Some rep" "sq_inv rep" "m_sitcp m = Some r" "keeps_queues wait" "0 < g"
  shows "\<exists>q1 rep1 e1. SiDaqTerminate wait (Some m) nw g =
      Inr (g - 1, g = 1 \<and> \<not> nw, [q1, rep1, e1], 2, Some (r\<lparr>rb_closed := Suc (rb_closed r)\<rparr>)) \<and>
    cells q1 = Map.empty \<and> cells rep1 = Map.empty \<and> cells e1 = Map.empty \<and>
    quota q1 = quota q + 2 * length (sq_frames q) + 1 \<and>
    quota rep1 = quota rep + 2 * length (sq_frames rep) + 1 \<and>
    quota e1 = quota e + 2 * length (sq_frames e) + 1"
  using assms by (rule terminate_result)

lemma run_connect_none: "run_connect re ra m = Inr (m1, None) \<Longrightarrow> status m1 = SIDAQ_SYS_ERROR"
  by (auto simp: run_connect_def run_fails_def to_sys_error_def split: if_splits)

text \<open>The Winsock count of one manager's life: \<open>SiDaqInitialize\<close> and every successful \<open>SiDaqRun\<close> add one,
  \<open>SiDaqTerminate\<close> takes one away; so after one measurement the count stays positive and \<open>WSACleanup\<close> is
  never called.\<close>
theorem wsa_never_cleaned_up:
  assumes "SiDaqInitialize ie net ip tcp udp False 0 w = Inr (Inr (Some m0), g0, w1)" "status m0 = SIDAQ_IDLE"
    and "SiDaqRun re ra m1 g0 = Inr (SIDAQ_RUN, m2, g1)"
    and "SiDaqTerminate wait (Some m3) False g1 = Inr (g2, cleaned, freed)"
  shows "g0 = 1 \<and> g1 = 2 \<and> g2 = 1 \<and> \<not> cleaned"
proof -
  have "g0 = 1"
    using assms(1,2) unfolding SiDaqInitialize_def Let_def
    by (auto simp: set_sidaq_error_ok mngr_consts split: option.splits if_splits prod.splits sum.splits)
  moreover have "g1 = g0 + 1"
    using assms(3) by (auto simp: SiDaqRun_def Let_def dest!: run_connect_none split: option.splits)
  moreover have "g2 = g1 - 1 \<and> cleaned = (g1 = 1)" if "0 < g1"
    using assms(4) that by (auto simp: SiDaqTerminate_def Let_def)
  ultimately show ?thesis by simp
qed

lemma demo_life:
  obtains m0 w1 m2 q2 e2 fr2 rep2 r2 where
    "SiDaqInitialize demo_init demo_udp (Some ''192.168.10.16'') 24 4660 False 0 ((\<lambda>_. 7), []) = Inr (Inr (Some m0), 1, w1)"
    "status m0 = SIDAQ_IDLE" "SiDaqRun demo_run default_args m0 1 = Inr (SIDAQ_RUN, m2, 2)"
    "ready m2 q2 e2 fr2" "m_reply m2 = Some rep2" "sq_inv rep2" "m_sitcp m2 = Some r2"
proof -
  have l: "length ''192.168.10.16'' < 256" "snd ((\<lambda>_. 7 :: byte) :: int \<Rightarrow> byte, [] :: byte list list) = []" by simp_all
  from init_startable [OF demo_init_ok(1) l(1) demo_init_ok(2) demo_rbcp_ok demo_answers demo_delivers l(2),
      where udp = 4660 and tcp = 24 and nw = False and g = 0]
  obtain m0 q e w1 where m0:
    "SiDaqInitialize demo_init demo_udp (Some ''192.168.10.16'') 24 4660 False 0 ((\<lambda>_. 7), []) = Inr (Inr (Some m0), 1, w1)"
    "status m0 = SIDAQ_IDLE" "startable m0 q e" "m_sitcp m0 \<noteq> None" unfolding wsa_count_def by auto
  from run_result [OF m0(3) supplied_stocked(1) [OF demo_run_ok(1)] demo_run_ok(2) supplied_stocked(3) [OF demo_run_ok(3)], of 1] demo_run_ok(3) obtain m2 fr rep where m2:
    "SiDaqRun demo_run default_args m0 1 = Inr (SIDAQ_RUN, m2, 1 + 1)" "ready m2 q e fr" "m_reply m2 = Some rep" "sq_inv rep"
    "m_sitcp m2 = m_sitcp m0" by fastforce
  from m0(4) m2(5) obtain r where r: "m_sitcp m2 = Some r" by auto
  show thesis by (rule that [OF m0(1,2) _ m2(2,3,4) r]) (use m2(1) in simp)
qed

theorem wsa_never_cleaned_up_witness:
  "\<exists>m0 w1 m2 g2 cleaned freed.
     SiDaqInitialize demo_init demo_udp (Some ''192.168.10.16'') 24 4660 False 0 ((\<lambda>_. 7), []) = Inr (Inr (Some m0), 1, w1) \<and>
     SiDaqRun demo_run default_args m0 1 = Inr (SIDAQ_RUN, m2, 2) \<and>
     SiDaqTerminate id (Some m2) False 2 = Inr (g2, cleaned, freed) \<and> g2 = 1 \<and> \<not> cleaned"
proof -
  obtain m0 w1 m2 q2 e2 fr2 rep2 r2 where d:
    "SiDaqInitialize demo_init demo_udp (Some ''192.168.10.16'') 24 4660 False 0 ((\<lambda>_. 7), []) = Inr (Inr (Some m0), 1, w1)"
    "status m0 = SIDAQ_IDLE" "SiDaqRun demo_run default_args m0 1 = Inr (SIDAQ_RUN, m2, 2)"
    "ready m2 q2 e2 fr2" "m_reply m2 = Some rep2" "sq_inv rep2" "m_sitcp m2 = Some r2" by (rule demo_life)
  have "(0::int) < 2" by simp
  from terminate_result [OF d(4-7) keeps_id(1) this, of False] obtain g2 cleaned freed where
    t: "SiDaqTerminate id (Some m2) False 2 = Inr (g2, cleaned, freed)" by blast
  from wsa_never_cleaned_up [OF d(1-3) t] show ?thesis using d(1,3) t by blast
qed

theorem terminate_releases_witness:
  "\<exists>m q e fr rep r q1 rep1 e1. ready m q e fr \<and>
     SiDaqTerminate id (Some m) False 1 = Inr (0, True, [q1, rep1, e1], 2, Some (r\<lparr>rb_closed := Suc (rb_closed r)\<rparr>)) \<and>
     cells q1 = Map.empty \<and> quota e1 = quota e + 2 * length (sq_frames e) + 1 \<and> m_reply m = Some rep"
proof -
  obtain m0 w1 m2 q2 e2 fr2 rep2 r2 where d:
    "ready m2 q2 e2 fr2" "m_reply m2 = Some rep2" "sq_inv rep2" "m_sitcp m2 = Some r2" by (rule demo_life)
  have "(0::int) < 1" by simp
  from terminate_releases [OF d keeps_id(1) this, of False] obtain q1 rep1 e1 where
    "SiDaqTerminate id (Some m2) False 1 = Inr (1 - 1, True, [q1, rep1, e1], 2, Some (r2\<lparr>rb_closed := Suc (rb_closed r2)\<rparr>))"
    "cells q1 = Map.empty" "quota e1 = quota e2 + 2 * length (sq_frames e2) + 1" by auto
  then show ?thesis using d(1,2)
    by (intro exI [of _ m2] exI [of _ q2] exI [of _ e2] exI [of _ fr2] exI [of _ rep2] exI [of _ r2]
        exI [of _ q1] exI [of _ rep1] exI [of _ e1]) simp
qed

text \<open>Two managers share one count: initialising a second manager does not raise it, so terminating
  the first one calls \<open>WSACleanup\<close> while the second is still in use.\<close>
theorem wsa_cleaned_up_early:
  assumes "SiDaqInitialize ieA netA ipA tcpA udpA False 0 wA = Inr (Inr (Some mA), gA, wA1)" "status mA = SIDAQ_IDLE"
    and "SiDaqInitialize ieB netB ipB tcpB udpB False gA wB = Inr (Inr (Some mB), gB, wB1)"
    and "SiDaqTerminate wait (Some mA) False gB = Inr (g2, cleaned, freed)"
  shows "cleaned \<and> g2 = 0"
proof -
  have gA: "gA = 1"
    using assms(1,2) unfolding SiDaqInitialize_def Let_def
    by (auto simp: set_sidaq_error_ok mngr_consts split: option.splits if_splits prod.splits sum.splits)
  have "gB = 1"
    using assms(3) unfolding gA SiDaqInitialize_def Let_def
    by (auto simp: set_sidaq_error_ok mngr_consts split: option.splits if_splits prod.splits sum.splits)
  with assms(4) show ?thesis by (auto simp: SiDaqTerminate_def Let_def)
qed

theorem wsa_cleaned_up_early_witness:
  "\<exists>mA wA mB wB g2 cleaned freed.
     SiDaqInitialize demo_init demo_udp (Some ''192.168.10.16'') 24 4660 False 0 ((\<lambda>_. 7), []) = Inr (Inr (Some mA), 1, wA) \<and>
     SiDaqInitialize demo_init demo_udp (Some ''192.168.10.16'') 24 4660 False 1 ((\<lambda>_. 7), []) = Inr (Inr (Some mB), 1, wB) \<and>
     SiDaqTerminate id (Some mA) False 1 = Inr (g2, cleaned, freed) \<and> cleaned"
proof -
  have l: "length ''192.168.10.16'' < 256" "snd ((\<lambda>_. 7 :: byte) :: int \<Rightarrow> byte, [] :: byte list list) = []" by simp_all
  note i = init_startable [OF demo_init_ok(1) l(1) demo_init_ok(2) demo_rbcp_ok demo_answers demo_delivers l(2),
      where udp = 4660 and tcp = 24 and nw = False]
  from i [where g = 0] obtain mA q e wA where A:
    "SiDaqInitialize demo_init demo_udp (Some ''192.168.10.16'') 24 4660 False 0 ((\<lambda>_. 7), []) = Inr (Inr (Some mA), 1, wA)"
    "status mA = SIDAQ_IDLE" "startable mA q e" unfolding wsa_count_def by auto
  from i [where g = 1] obtain mB wB where B:
    "SiDaqInitialize demo_init demo_udp (Some ''192.168.10.16'') 24 4660 False 1 ((\<lambda>_. 7), []) = Inr (Inr (Some mB), 1, wB)"
    unfolding wsa_count_def by auto
  obtain q1 e1 where qe: "DeleteSQueue q = Inr q1" "DeleteSQueue e = Inr e1"
    using delete_queue_ok A(3) unfolding startable_def by meson
  obtain reps where reps: "delete_queue_opt (m_reply mA) = Inr reps"
  proof (cases "m_reply mA")
    case (Some rep)
    then obtain rep1 where "DeleteSQueue rep = Inr rep1"
      using delete_queue_ok A(3) unfolding startable_def by meson
    with Some that show thesis by (simp add: delete_queue_opt_def)
  qed (use that in \<open>simp add: delete_queue_opt_def\<close>)
  have "delete_queue_opt (m_eventFrame mA) = Inr [e1]"
    "delete_queues (nat (squeue_count (sock_param mA))) (squeue_list_ptr (sock_param mA)) = Inr [q1]"
    "snd (SiDaqStop id mA) = mA"
    using A(2,3) qe by (simp_all add: startable_def delete_queue_opt_def SiDaqStop_def)
  then have "\<exists>g2 cleaned freed. SiDaqTerminate id (Some mA) False 1 = Inr (g2, cleaned, freed)"
    using reps by (simp add: SiDaqTerminate_def) (rule exI [of _ True], rule TrueI)
  then obtain g2 cleaned freed where t: "SiDaqTerminate id (Some mA) False 1 = Inr (g2, cleaned, freed)" by blast
  from wsa_cleaned_up_early [OF A(1,2) B t] A(1) B t show ?thesis by blast
qed

end
