(* ===== verification/Frame_Length.thy ===== *)
theory Frame_Length
  imports Framer_Props
begin

text \<open>
  The length function of the sample application (\<open>GetFrameLength\<close> in
  \<open>MfcSample/SiDaqMfcSampleDlg.cpp\<close>), which reads the length of a frame as a big-endian number from
  its header, and the framer configured with it: frames with such headers come back whole from any
  cutting of their stream.  Then two limits of the framer: headers of three or more bytes, and bytes
  left over from a measurement with longer frames.
\<close>

section \<open>GetFrameLength\<close>

text \<open>The shift count is unsigned and the platform's shift uses its low five bits; the additions are
  those of \<open>int\<close>.  The definition reads \<open>header_len\<close> bytes, of which the first test makes sure.\<close>

definition header_term :: "byte list \<Rightarrow> int \<Rightarrow> nat \<Rightarrow> int" where
  "header_term recv_data header_len i =
     i32 (push_bit (nat (u32 ((header_len - int i - 1) * 8) mod 32)) (uint (recv_data ! i)))"

definition GetFrameLength :: "byte list \<Rightarrow> int \<Rightarrow> int \<Rightarrow> int" where
  "GetFrameLength recv_data data_len header_len =
     (if data_len < header_len then -1
      else if header_len = 0 then i32 data_len
      else let header = foldl (\<lambda>h i. i32 (h + header_term recv_data header_len i)) 0 [0..<nat header_len]
           in if header = 0 then -1 else header)"

section \<open>Big-endian numbers\<close>

fun be_value :: "byte list \<Rightarrow> int" where
  "be_value [] = 0"
| "be_value (b # bs) = uint b * 256 ^ length bs + be_value bs"

definition be_bytes :: "nat \<Rightarrow> int \<Rightarrow> byte list" where
  "be_bytes n v = map (\<lambda>i. word_of_int (v div 256 ^ (n - 1 - i))) [0..<n]"

lemma length_be_bytes [simp]: "length (be_bytes n v) = n"
  by (simp add: be_bytes_def)

lemma be_value_range: "0 \<le> be_value bs \<and> be_value bs < 256 ^ length bs"
proof (induction bs)
  case (Cons b bs)
  have "0 \<le> uint b" "uint b \<le> 255" using uint_lt2p [of b] by (simp_all add: uint_ge_0)
  then have "uint b * 256 ^ length bs \<le> 255 * 256 ^ length bs" "0 \<le> uint b * 256 ^ length bs"
    by (intro mult_right_mono mult_nonneg_nonneg, simp_all)+
  moreover have "(256::int) ^ length (b # bs) = 256 * 256 ^ length bs" by simp
  ultimately show ?case using Cons unfolding be_value.simps by linarith
qed simp

lemma be_bytes_Suc: "be_bytes (Suc n) v = word_of_int (v div 256 ^ n) # be_bytes n v"
proof -
  have "[0..<Suc n] = 0 # map Suc [0..<n]" by (simp add: upt_conv_Cons map_Suc_upt)
  then show ?thesis by (simp add: be_bytes_def)
qed

lemma be_value_bytes: "be_value (be_bytes n v) = v mod 256 ^ n"
proof (induction n)
  case 0
  then show ?case by (simp add: be_bytes_def)
next
  case (Suc n)
  have "uint (word_of_int (v div 256 ^ n) :: byte) = (v div 256 ^ n) mod 256"
    by (simp add: uint_word_of_int)
  moreover have "v mod (256 ^ n * 256) = 256 ^ n * (v div 256 ^ n mod 256) + v mod 256 ^ n"
    by (rule zmod_zmult2_eq) simp
  ultimately show ?case using Suc by (simp add: be_bytes_Suc mult.commute)
qed

lemma i32_add: "i32 (i32 x + y) = i32 (x + y)" "i32 (x + i32 y) = i32 (x + y)"
  by (simp_all add: i32_def mod_simps algebra_simps)

text \<open>On one to four header bytes the function is the big-endian number, as an \<open>int\<close>; 0 is not a
  length.\<close>

lemma header_term_small:
  assumes "h \<le> 4" "i < h"
  shows "header_term bs (int h) i = i32 (uint (bs ! i) * 256 ^ (h - 1 - i))"
proof -
  have "(int h - int i - 1) * 8 = int (8 * (h - 1 - i))" using assms by (simp add: of_nat_diff)
  moreover have "8 * (h - 1 - i) < 32" using assms by linarith
  moreover have "u32 (int (8 * (h - 1 - i))) = int (8 * (h - 1 - i))" using assms by (intro u32_id) auto
  moreover have "int (8 * (h - 1 - i)) mod 32 = int (8 * (h - 1 - i))" using assms by (intro mod_pos_pos_trivial) auto
  ultimately have "nat (u32 ((int h - int i - 1) * 8) mod 32) = 8 * (h - 1 - i)" by (simp only: nat_int)
  then show ?thesis by (simp add: header_term_def push_bit_eq_mult power_mult)
qed

lemma foldl_i32:
  "foldl (\<lambda>h i. i32 (h + i32 (f i))) (i32 a) xs = i32 (a + (\<Sum>i\<leftarrow>xs. f i))"
proof (induction xs arbitrary: a)
  case (Cons x xs)
  from Cons [of "a + f x"] show ?case by (simp add: i32_add add.assoc)
qed simp

lemma be_value_sum: "be_value bs = (\<Sum>i\<leftarrow>[0..<length bs]. uint (bs ! i) * 256 ^ (length bs - 1 - i))"
proof (induction bs)
  case (Cons b bs)
  have "[0..<length (b # bs)] = 0 # map Suc [0..<length bs]" by (simp add: upt_conv_Cons map_Suc_upt del: upt_Suc)
  with Cons show ?case by (simp add: o_def)
qed simp

text \<open>What a length function answers to a header that reads as the number \<open>n\<close>.\<close>

definition header_answer :: "int \<Rightarrow> int" where
  "header_answer n = (let v = i32 n in if v = 0 then -1 else v)"

lemma u32_header_answer: "u32 (header_answer n) = (if u32 n = 0 then 2 ^ 32 - 1 else u32 n)"
proof -
  have "i32 n = 0 \<longleftrightarrow> u32 n = 0"
  proof
    assume "i32 n = 0"
    then have "u32 (i32 n) = 0" by (simp add: u32_def)
    then show "u32 n = 0" by (simp only: u32_i32)
  next
    assume "u32 n = 0"
    moreover have "(n + 2 ^ 31) mod 2 ^ 32 = (n mod 2 ^ 32 + 2 ^ 31) mod (2 ^ 32 :: int)" by (simp only: mod_add_left_eq)
    ultimately show "i32 n = 0" by (simp add: u32_def i32_def)
  qed
  moreover have "u32 (-1) = 2 ^ 32 - 1" by (simp add: u32_def)
  ultimately show ?thesis by (simp add: header_answer_def Let_def u32_i32)
qed

lemma GetFrameLength_be:
  assumes "0 < h" "h \<le> 4" "h \<le> length bs"
  shows "GetFrameLength bs (int (length bs)) (int h) =
    header_answer (be_value (take h bs))"
proof -
  have "foldl (\<lambda>hd i. i32 (hd + header_term bs (int h) i)) 0 [0..<h] =
      foldl (\<lambda>hd i. i32 (hd + i32 (uint (bs ! i) * 256 ^ (h - 1 - i)))) (i32 0) [0..<h]"
    using assms(2) by (intro foldl_cong) (simp_all add: header_term_small i32_def)
  also have "\<dots> = i32 (\<Sum>i\<leftarrow>[0..<h]. uint (bs ! i) * 256 ^ (h - 1 - i))"
    using foldl_i32 [of "\<lambda>i. uint (bs ! i) * 256 ^ (h - 1 - i)" 0] by simp
  also have "(\<Sum>i\<leftarrow>[0..<h]. uint (bs ! i) * 256 ^ (h - 1 - i)) = be_value (take h bs)"
    using assms(3) by (subst be_value_sum) (auto intro!: arg_cong [where f = sum_list] map_cong simp: min_absorb2)
  finally show ?thesis using assms by (simp add: GetFrameLength_def header_answer_def Let_def)
qed

section \<open>Frames with a length header\<close>

definition framed :: "nat \<Rightarrow> byte list \<Rightarrow> byte list" where
  "framed h p = be_bytes h (int (length p)) @ p"

lemma length_framed [simp]: "length (framed h p) = h + length p"
  by (simp add: framed_def)

text \<open>A framer configured with a length function and headers of \<open>h\<close> bytes, and the payloads that fit
  into such a frame.\<close>

definition header_reader :: "(byte list \<Rightarrow> int \<Rightarrow> int \<Rightarrow> int) \<Rightarrow> nat \<Rightarrow> int \<Rightarrow> SiDaqFramer \<Rightarrow> SiDaqFramer" where
  "header_reader f h mx fr0 = configure_framer (Some f) (int h) 0 0 mx fr0"

definition fits :: "nat \<Rightarrow> int \<Rightarrow> byte list \<Rightarrow> bool" where
  "fits h mx p \<longleftrightarrow> p \<noteq> [] \<and> int (length p) < 256 ^ h \<and> int h + int (length p) \<le> mx"

text \<open>The contract between a framer and the length function the application supplies: on headers of one to
  four bytes the function reads the big-endian number, as an \<open>int\<close>.\<close>

locale length_function =
  fixes len :: "byte list \<Rightarrow> int \<Rightarrow> int \<Rightarrow> int"
  assumes big_endian: "0 < h \<Longrightarrow> h \<le> 4 \<Longrightarrow> h \<le> length bs \<Longrightarrow>
      len bs (int (length bs)) (int h) = header_answer (be_value (take h bs))"
begin

lemma reads:
  assumes "0 < h" "h \<le> 4"
  shows "reads_header (Some len) (int h)"
proof -
  have "len bs (int (length bs)) (int h) = len (take h bs) (int h) (int h)"
    if "h \<le> length bs" for bs
    using big_endian [OF assms that] big_endian [OF assms, of "take h bs"] that
    by (simp add: min_absorb2)
  then show ?thesis by (simp add: reads_header_def)
qed

lemma reads_framed:
  assumes "0 < h" "h \<le> 4" "p \<noteq> []" "int (length p) < 256 ^ h" "length p < 2 ^ 31"
  shows "len (take h (framed h p @ rest)) (int h) (int h) = int (length p)"
proof -
  have t: "take h (framed h p @ rest) = be_bytes h (int (length p))" by (simp add: framed_def)
  have "be_value (be_bytes h (int (length p))) = int (length p)"
    using assms(4) by (simp add: be_value_bytes)
  moreover have "i32 (int (length p)) = int (length p)" using assms(5) by (intro i32_id) auto
  ultimately show ?thesis
    using big_endian [OF assms(1,2), of "be_bytes h (int (length p))"] assms(3) t
    by (simp add: header_answer_def Let_def)
qed

lemma reader_ok:
  assumes "NewSiDaqFramer True True = Some fr0" "0 < h" "h \<le> 2" "int h < mx" "mx \<le> DEFAULT_MAX_FRAME_LEN"
  shows "framer_ok (header_reader len h mx fr0)" "rest_ok (header_reader len h mx fr0)" "pending (header_reader len h mx fr0) = []"
    "fr_queue_limit (header_reader len h mx fr0) = 0" "fr_header_len (header_reader len h mx fr0) = int h"
    "fr_max_frame_len (header_reader len h mx fr0) = mx" "fr_error_code (header_reader len h mx fr0) = 0"
    "keyed (header_reader len h mx fr0)" "fr_lengthFunc (header_reader len h mx fr0) = Some len"
proof -
  have a: "0 \<le> int h" "int h \<le> 2" "0 \<le> mx" "(0::int) \<le> 0" "(0::int) < 2 ^ 32" using assms by auto
  have r: "reads_header (Some len) (int h)" using reads assms by simp
  note c = configured_ok [OF assms(1) a(1-3) assms(5) a(4,5) r header_reader_def]
  show "framer_ok (header_reader len h mx fr0)" "rest_ok (header_reader len h mx fr0)" "pending (header_reader len h mx fr0) = []"
    "fr_queue_limit (header_reader len h mx fr0) = 0" "fr_header_len (header_reader len h mx fr0) = int h"
    "fr_max_frame_len (header_reader len h mx fr0) = mx" "fr_error_code (header_reader len h mx fr0) = 0"
    "fr_lengthFunc (header_reader len h mx fr0) = Some len" by (fact c)+
  then show "keyed (header_reader len h mx fr0)" using assms(2) by (simp add: keyed_def)
qed

lemma reader_head:
  assumes "NewSiDaqFramer True True = Some fr0" "0 < h" "h \<le> 2" "int h < mx" "mx \<le> DEFAULT_MAX_FRAME_LEN" "fits h mx p"
  shows "frame_size (header_reader len h mx fr0) (framed h p @ rest) = int (h + length p)"
    "\<not> no_head (header_reader len h mx fr0) (framed h p @ rest)" "good_head (header_reader len h mx fr0) (framed h p @ rest)"
proof -
  note f = reader_ok [OF assms(1-5)]
  have l: "length p < 2 ^ 31" using assms(5,6) by (simp add: fits_def DEFAULT_MAX_FRAME_LEN_def)
  have g: "len (take h (framed h p @ rest)) (int h) (int h) = int (length p)"
    using assms(2,3,6) l by (intro reads_framed) (auto simp: fits_def)
  have i: "i32 (int (length p)) = int (length p)" "u32 (int h) = int h" using l assms(3)
    by (simp_all add: i32_id u32_id)
  have e: "head_event (header_reader len h mx fr0) (framed h p @ rest) = int (length p)"
    unfolding head_event_def event_length_def f(5,9) nat_int using assms(2) i g by simp
  show "frame_size (header_reader len h mx fr0) (framed h p @ rest) = int (h + length p)"
    by (simp add: frame_size_def e f(5))
  then show "good_head (header_reader len h mx fr0) (framed h p @ rest)"
    using assms(6) by (simp add: good_head_def e f(6) fits_def)
  show "\<not> no_head (header_reader len h mx fr0) (framed h p @ rest)"
    using assms(6) by (simp add: no_head_def f(5) framed_def fits_def)
qed

lemma reader_stream:
  assumes "NewSiDaqFramer True True = Some fr0" "0 < h" "h \<le> 2" "int h < mx" "mx \<le> DEFAULT_MAX_FRAME_LEN"
    and "\<forall>p\<in>set ps. fits h mx p"
  shows "split_frames (header_reader len h mx fr0) (concat (map (framed h) ps)) = (map (framed h) ps, []) \<and>
    stream_ok (header_reader len h mx fr0) (concat (map (framed h) ps))"
  using assms(6)
proof (induction ps)
  case Nil
  have n: "no_head (header_reader len h mx fr0) []" by (simp add: no_head_def)
  then have "stream_ok (header_reader len h mx fr0) []" by (subst stream_ok.simps) (simp add: Let_def)
  with n show ?case by (simp add: split_none)
next
  case (Cons p ps)
  then have p: "fits h mx p" by simp
  let ?s = "framed h p @ concat (map (framed h) ps)"
  note hd = reader_head [OF assms(1-5) p, of "concat (map (framed h) ps)"]
  have n: "nat (frame_size (header_reader len h mx fr0) ?s) = length (framed h p)"
    unfolding hd(1) by simp
  have pos: "0 < length (framed h p)" "length (framed h p) \<le> length ?s" using assms(2) by simp_all
  have "split_frames (header_reader len h mx fr0) ?s = (map (framed h) (p # ps), [])"
    using split_cons [OF hd(2)] hd(1) Cons assms(2) n by simp
  moreover have "stream_ok (header_reader len h mx fr0) ?s"
    using hd(2,3) Cons n pos by (subst stream_ok.simps) (simp add: Let_def)
  ultimately show ?case by simp
qed

text \<open>A stream of whole frames that breaks off somewhere: the whole frames in it are cut, and what is left is a
  proper beginning of the next frame.\<close>

lemma reader_cut:
  assumes "NewSiDaqFramer True True = Some fr0" "0 < h" "h \<le> 2" "int h < mx" "mx \<le> DEFAULT_MAX_FRAME_LEN"
    and "\<forall>p\<in>set ps. fits h mx p" "used @ rest = concat (map (framed h) ps)"
  shows "\<exists>n\<le>length ps. fst (split_frames (header_reader len h mx fr0) used) = map (framed h) (take n ps) \<and>
    (snd (split_frames (header_reader len h mx fr0) used) = [] \<or> n < length ps \<and>
      (\<exists>k. 0 < k \<and> k < length (framed h (ps ! n)) \<and>
        snd (split_frames (header_reader len h mx fr0) used) = take k (framed h (ps ! n))))"
  using assms(6,7)
proof (induction ps arbitrary: used)
  case Nil
  then show ?case by (simp add: split_none no_head_def)
next
  case (Cons p ps)
  let ?fr = "header_reader len h mx fr0" and ?f = "framed h p"
  have p: "fits h mx p" "\<forall>p\<in>set ps. fits h mx p" using Cons.prems(1) by simp_all
  have h: "0 \<le> fr_header_len ?fr" using reader_ok(5) [OF assms(1-5)] by simp
  show ?case
  proof (cases "length ?f \<le> length used")
    case True
    have "take (length ?f) (used @ rest) = ?f" unfolding Cons.prems(2) by simp
    then have f: "take (length ?f) used = ?f" using True by simp
    define u where "u = drop (length ?f) used"
    have u1: "used = ?f @ u" using f unfolding u_def by (metis append_take_drop_id)
    have u: "used = ?f @ u" "u @ rest = concat (map (framed h) ps)" using Cons.prems(2) u1 by simp_all
    note hd = reader_head [OF assms(1-5) p(1), of u]
    have "nat (frame_size ?fr (?f @ u)) = length ?f" unfolding hd(1) by simp
    then have c: "split_frames ?fr used = (?f # fst (split_frames ?fr u), snd (split_frames ?fr u))"
      using split_cons [OF hd(2)] hd(1) assms(2) u(1) by simp
    from Cons.IH [OF p(2) u(2)] obtain n where "n \<le> length ps" "fst (split_frames ?fr u) = map (framed h) (take n ps)"
      "snd (split_frames ?fr u) = [] \<or> n < length ps \<and> (\<exists>k. 0 < k \<and> k < length (framed h (ps ! n)) \<and>
        snd (split_frames ?fr u) = take k (framed h (ps ! n)))" by blast
    then show ?thesis using c by (intro exI [of _ "Suc n"]) auto
  next
    case False
    have "take (length used) (used @ rest) = take (length used) ?f" unfolding Cons.prems(2) using False by simp
    then have t: "used = take (length used) ?f" by simp
    then have t2: "?f = used @ drop (length used) ?f" by (metis append_take_drop_id)
    have "split_frames ?fr used = ([], used)"
    proof (cases "no_head ?fr used")
      case nh: False
      have "frame_size ?fr used = int (length ?f)"
        using frame_size_append [OF h nh] reader_head(1) [OF assms(1-5) p(1), of "[]"] t2 by (metis append_Nil2 length_framed)
      then show ?thesis using False by (simp add: split_none)
    qed (simp add: split_none)
    then show ?thesis using t False by (cases "used = []") (auto intro!: exI [of _ "0::nat"] exI [of _ "length used"])
  qed
qed

lemma frames_roundtrip:
  assumes "NewSiDaqFramer True True = Some fr0" "0 < h" "h \<le> 2" "int h < mx" "mx \<le> DEFAULT_MAX_FRAME_LEN"
    and "\<forall>p\<in>set ps. fits h mx p" "concat ds = concat (map (framed h) ps)"
    and "\<forall>d\<in>set ds. d \<noteq> [] \<and> length d < 2 ^ 31"
    and "sq_inv q" "sq_frames q = []" "length (concat ds) \<le> sq_room q"
  shows "\<exists>fr1 q1 q2. feed SQPut (Some past) ds (header_reader len h mx fr0) q = Inr (fr1, q1) \<and>
    get_n (SQGet (\<lambda>_. id) False) w (length ps) q1 = Inr (map (\<lambda>p. Some (framed h p)) ps, q2) \<and>
    sq_frames q2 = [] \<and> pending fr1 = [] \<and> fr_error_code fr1 = framer_code FRAMER_NO_ERROR"
proof -
  note f = reader_ok [OF assms(1-5)]
  note st = reader_stream [OF assms(1-6)]
  have so: "stream_ok (header_reader len h mx fr0) (pending (header_reader len h mx fr0) @ concat ds)"
    using st assms(7) f(3) by simp
  have rm: "length (pending (header_reader len h mx fr0)) + length (concat ds) \<le> sq_room q" using assms(11) f(3) by simp
  have hm: "fr_header_len (header_reader len h mx fr0) < fr_max_frame_len (header_reader len h mx fr0)"
    using assms(4) f(5,6) by simp
  from sqb.feed_splits [OF assms(9) rm f(1,2,4) assms(8) f(8) hm so, of past] f(3,7) assms(7,10) st
  obtain fr1 q1 where 1: "feed SQPut (Some past) ds (header_reader len h mx fr0) q = Inr (fr1, q1)" "sq_inv q1"
    "sq_frames q1 = map (framed h) ps" "pending fr1 = []" "fr_error_code fr1 = 0" by auto
  with sqf.get_n_law [OF 1(2), of "length ps" w] show ?thesis by (auto simp: o_def)
qed

end

interpretation mfc: length_function GetFrameLength
  by unfold_locales (rule GetFrameLength_be)

abbreviation header_framer :: "nat \<Rightarrow> int \<Rightarrow> SiDaqFramer \<Rightarrow> SiDaqFramer" where
  "header_framer \<equiv> header_reader GetFrameLength"

text \<open>C15: Round trip of length-prefixed frames, from the socket side to the application: however the
  stream of frames, each a big-endian length header of one or two bytes and its payload, is cut into
  received chunks, a fresh framer with the sample's length function puts exactly these frames on the
  queue, and as many \<open>SQGet\<close> calls return them, header and payload, in order; nothing is left.\<close>

theorem header_frames_roundtrip:
  assumes "NewSiDaqFramer True True = Some fr0" "0 < h" "h \<le> 2" "int h < mx" "mx \<le> DEFAULT_MAX_FRAME_LEN"
    and "\<forall>p\<in>set ps. fits h mx p" "concat ds = concat (map (framed h) ps)"
    and "\<forall>d\<in>set ds. d \<noteq> [] \<and> length d < 2 ^ 31"
    and "sq_inv q" "sq_frames q = []" "length (concat ds) \<le> sq_room q"
  shows "\<exists>fr1 q1 q2. feed SQPut (Some past) ds (header_framer h mx fr0) q = Inr (fr1, q1) \<and>
    get_n (SQGet (\<lambda>_. id) False) w (length ps) q1 = Inr (map (\<lambda>p. Some (framed h p)) ps, q2) \<and>
    sq_frames q2 = [] \<and> pending fr1 = [] \<and> fr_error_code fr1 = framer_code FRAMER_NO_ERROR"
  using assms by (rule mfc.frames_roundtrip)

theorem header_frames_roundtrip_witness:
  "\<exists>fr0 q fr1 q1 q2. NewSiDaqFramer True True = Some fr0 \<and> NewSQueue True 100 = Inr q \<and>
     feed SQPut (Some 0) [[0], [3, 7], [8, 9, 0, 1], [5]] (header_framer 2 262144 fr0) q = Inr (fr1, q1) \<and>
     get_n (SQGet (\<lambda>_. id) False) 10 2 q1 = Inr ([Some [0, 3, 7, 8, 9], Some [0, 1, 5]], q2)"
proof -
  obtain fr0 where n: "NewSiDaqFramer True True = Some fr0" by (simp add: NewSiDaqFramer_def)
  obtain q where q: "NewSQueue True 100 = Inr q" "sq_inv q" "sq_frames q = []" "sq_room q = 49"
    using demo_queue [of 100] by auto
  let ?ps = "[[7, 8, 9], [5 :: byte]]" and ?ds = "[[0], [3, 7], [8, 9, 0, 1], [5 :: byte]]"
  have fr: "framed 2 [7, 8, 9] = [0, 3, 7, 8, 9]" "framed 2 [5] = [0, 1, 5]" by (simp_all add: framed_def be_bytes_def upt_rec)
  have a: "(0::nat) < 2" "(2::nat) \<le> 2" "int 2 < 262144" "262144 \<le> DEFAULT_MAX_FRAME_LEN"
    "\<forall>p\<in>set ?ps. fits 2 262144 p" "concat ?ds = concat (map (framed 2) ?ps)"
    "\<forall>d\<in>set ?ds. d \<noteq> [] \<and> length d < 2 ^ 31" "length (concat ?ds) \<le> sq_room q"
    using q(4) fr by (simp_all add: DEFAULT_MAX_FRAME_LEN_def fits_def)
  from header_frames_roundtrip [OF n a(1-7) q(2,3) a(8), of 0 10]
  obtain fr1 q1 q2 where r: "feed SQPut (Some 0) ?ds (header_framer 2 262144 fr0) q = Inr (fr1, q1)"
    "get_n (SQGet (\<lambda>_. id) False) 10 (length ?ps) q1 = Inr (map (\<lambda>p. Some (framed 2 p)) ?ps, q2)" by blast
  have "length ?ps = 2" "map (\<lambda>p. Some (framed 2 p)) ?ps = [Some [0, 3, 7, 8, 9], Some [0, 1, 5]]"
    using fr by simp_all
  with r n q(1) show ?thesis by metis
qed

end
