(* ===== verification/Framer_Limits.thy ===== *)
theory Framer_Limits
  imports SiDaq_Props Frame_Length
begin

text \<open>
  Three limits of the framer.  A header of three or more bytes that is split over two chunks loses all
  but its first byte; a fixed frame length has no effect besides a length function; and bytes of an unfinished frame that a reset left in the framer are a fault
  when the next measurement has shorter frames.
\<close>

section \<open>Headers of three or more bytes\<close>

text \<open>C30. A header that arrives in two chunks: when a chunk ends inside a header, the framer records how
  many bytes there were but stores only the first one; behind it stand whatever bytes the buffer held
  before.  The header is kept only if these happen to be the same, which they always are for a header
  of two bytes.\<close>

theorem split_header_keeps_first_byte:
  assumes "fr_rest fr = 0" "fr_buff_ptr fr = Some b" "data \<noteq> []" "length data \<le> length b"
    and "int (length data) < fr_header_len fr"
  shows "\<exists>fr1. RecvSiDaqData sqput past fr data (int (length data)) q = Inr (0, fr1, q) \<and>
    fr_rest fr1 = int (length data) \<and> pending fr1 = hd data # take (length data - 1) (tl b) \<and>
    (pending fr1 = data \<longleftrightarrow> tl data = take (length data - 1) (tl b))"
proof -
  obtain d ds where d: "data = d # ds" using assms(3) by (cases data) auto
  obtain x xs where x: "b = x # xs" using assms(3,4) by (cases b) auto
  let ?fr1 = "fr\<lparr>fr_rest := int (length data), fr_buff_ptr := Some (d # xs)\<rparr>"
  have "RecvSiDaqData sqput past fr data (int (length data)) q = Inr (0, ?fr1, q)"
    using assms(1,2,5) d x by (simp add: RecvSiDaqData_def recv_loop_Suc buff_write_def write_at_def)
  moreover have "pending ?fr1 = hd data # take (length data - 1) (tl b)"
    using d x by (simp add: pending_def buff_bytes_def nat_add_distrib)
  ultimately show ?thesis using d by auto
qed

theorem split_header_keeps_first_byte_witness:
  "\<exists>fr0 fr1 q. NewSiDaqFramer True True = Some fr0 \<and>
     RecvSiDaqData SQPut (Some 9) (configure_framer (Some GetFrameLength) 3 0 0 262144 fr0) [1, 2] 2 q = Inr (0, fr1, q) \<and>
     pending fr1 = [1, 0]"
proof -
  obtain fr0 where n: "NewSiDaqFramer True True = Some fr0"
    "fr_rest fr0 = 0" "fr_buff_ptr fr0 = Some (replicate 262144 0)"
    by (simp add: NewSiDaqFramer_def DEFAULT_MAX_FRAME_LEN_def)
  let ?fr = "configure_framer (Some GetFrameLength) 3 0 0 262144 fr0"
  have a: "fr_rest ?fr = 0" "fr_buff_ptr ?fr = Some (replicate 262144 0)" "[1, 2 :: byte] \<noteq> []"
    "length [1, 2 :: byte] \<le> length (replicate 262144 (0 :: byte))" "int (length [1, 2 :: byte]) < fr_header_len ?fr"
    using n by (simp_all add: configure_framer_def i32_def)
  have "take (length [1, 2 :: byte] - 1) (tl (replicate 262144 (0 :: byte))) = [0]"
    by (simp add: take_tl replicate_app_Cons_same)
  with split_header_keeps_first_byte [OF a, of SQPut "Some 9"] n(1) show ?thesis by fastforce
qed

section \<open>A fixed frame length besides a length function\<close>

text \<open>The function wins: with a header and a function, the fixed length is never looked at.\<close>

lemma fixed_unused:
  assumes "fr_lengthFunc fr \<noteq> None" "fr_header_len fr \<noteq> 0"
  shows "split_frames (fr\<lparr>fr_fixed_frame_len := k\<rparr>) bs = split_frames fr bs"
    "stream_ok (fr\<lparr>fr_fixed_frame_len := k\<rparr>) bs = stream_ok fr bs"
proof -
  have "event_length (fr\<lparr>fr_fixed_frame_len := k\<rparr>) b n = event_length fr b n" for b n
    using assms by (auto simp: event_length_def split: option.split)
  then have e: "frame_size (fr\<lparr>fr_fixed_frame_len := k\<rparr>) b = frame_size fr b" "no_head (fr\<lparr>fr_fixed_frame_len := k\<rparr>) b = no_head fr b"
    "good_head (fr\<lparr>fr_fixed_frame_len := k\<rparr>) b = good_head fr b" for b
    by (simp_all add: frame_size_def head_event_def no_head_def good_head_def)
  show "split_frames (fr\<lparr>fr_fixed_frame_len := k\<rparr>) bs = split_frames fr bs"
    "stream_ok (fr\<lparr>fr_fixed_frame_len := k\<rparr>) bs = stream_ok fr bs" by (rule spec_cong; fact e)+
qed

text \<open>C23. A fixed frame length is ignored when a length function and a header length are given. Whatever fixed
  length \<open>k\<close> the application asks for, a framer with the sample's length function and a header of one or
  two bytes cuts a stream of frames, in whatever chunks it arrives, at the lengths in their headers. According to
  README.md a fixed length other than 0 is used for all frames, and the function is not executed.\<close>

theorem fixed_length_ignored:
  assumes "NewSiDaqFramer True True = Some fr0" "0 < h" "h \<le> 2" "int h < mx" "mx \<le> DEFAULT_MAX_FRAME_LEN"
    and "\<forall>p\<in>set ps. fits h mx p" "concat ds = concat (map (framed h) ps)"
    and "\<forall>d\<in>set ds. d \<noteq> [] \<and> length d < 2 ^ 31"
    and "sq_inv q" "length (concat ds) \<le> sq_room q" "0 \<le> k" "k < 2 ^ 32"
  shows "\<exists>fr1 q1. feed SQPut (Some past) ds (configure_framer (Some GetFrameLength) (int h) k 0 mx fr0) q = Inr (fr1, q1) \<and>
    sq_frames q1 = sq_frames q @ map (framed h) ps \<and> pending fr1 = [] \<and> fr_fixed_frame_len fr1 = k"
proof -
  let ?fr = "header_framer h mx fr0" and ?fk = "configure_framer (Some GetFrameLength) (int h) k 0 mx fr0"
  note f = mfc.reader_ok [OF assms(1-5)] and st = mfc.reader_stream [OF assms(1-6)]
  have a: "0 \<le> int h" "int h \<le> 2" "0 \<le> mx" using assms(2-4) by auto
  have r: "reads_header (Some GetFrameLength) (int h)" using mfc.reads assms(2,3) by simp
  note c = configured_ok [OF assms(1) a assms(5,11,12) r refl, of 0]
  have k: "?fk = ?fr\<lparr>fr_fixed_frame_len := k\<rparr>" by (simp add: header_reader_def configure_framer_def)
  have "fr_lengthFunc ?fr \<noteq> None" "fr_header_len ?fr \<noteq> 0" using f(5,9) assms(2) by simp_all
  note u = fixed_unused [OF this, of k "concat ds", folded k]
  have p: "length (pending ?fk) + length (concat ds) \<le> sq_room q" "keyed ?fk" "fr_header_len ?fk < fr_max_frame_len ?fk"
    "stream_ok ?fk (pending ?fk @ concat ds)"
    using c assms(2,4,7,10) u(2) st by (auto simp: keyed_def)
  from sqb.feed_splits [OF assms(9) p(1) c(1,2,4) assms(8) p(2-4), of past] c(3) u(1) st assms(7) obtain fr1 q1 where
    "feed SQPut (Some past) ds ?fk q = Inr (fr1, q1)" "sq_frames q1 = sq_frames q @ map (framed h) ps" "pending fr1 = []"
    "same_config ?fk fr1" by auto
  with c(10) show ?thesis by (auto simp: same_config_def)
qed

theorem fixed_length_ignored_witness:
  "\<exists>fr0 q fr1 q1. NewSiDaqFramer True True = Some fr0 \<and>
     feed SQPut (Some 0) [[1, 9, 2], [5, 6]] (configure_framer (Some GetFrameLength) 1 4 0 262144 fr0) q = Inr (fr1, q1) \<and>
     sq_frames q1 = [[1, 9], [2, 5, 6]] \<and> fr_fixed_frame_len fr1 = 4"
proof -
  obtain fr0 where n: "NewSiDaqFramer True True = Some fr0" by (simp add: NewSiDaqFramer_def)
  obtain q where q: "sq_inv q" "sq_frames q = []" "sq_room q = 49" using demo_store by metis
  let ?ps = "[[9], [5, 6 :: byte]]" and ?ds = "[[1, 9, 2], [5, 6 :: byte]]"
  have w: "map (framed 1) ?ps = [[1, 9], [2, 5, 6]]" by (simp add: framed_def be_bytes_def)
  have a: "(0::nat) < 1" "(1::nat) \<le> 2" "int 1 < 262144" "262144 \<le> DEFAULT_MAX_FRAME_LEN" "\<forall>p\<in>set ?ps. fits 1 262144 p"
    "concat ?ds = concat (map (framed 1) ?ps)" "\<forall>d\<in>set ?ds. d \<noteq> [] \<and> length d < 2 ^ 31" "length (concat ?ds) \<le> sq_room q"
    "(0::int) \<le> 4" "(4::int) < 2 ^ 32"
    using w q(3) by (simp_all add: DEFAULT_MAX_FRAME_LEN_def fits_def)
  from fixed_length_ignored [OF n a(1-7) q(1) a(8-10), of 0] obtain fr1 q1 where
    "feed SQPut (Some 0) ?ds (configure_framer (Some GetFrameLength) (int 1) 4 0 262144 fr0) q = Inr (fr1, q1)"
    "sq_frames q1 = [[1, 9], [2, 5, 6]]" "fr_fixed_frame_len fr1 = 4" unfolding w q(2) by auto
  with n show ?thesis unfolding of_nat_1 by blast
qed

section \<open>Bytes left from a measurement with longer frames\<close>

lemma recv_stale_rest:
  assumes b: "fr_buff_ptr fr = Some b" "int (length b) = fr_buff_size fr" "fr_buff_size fr < 2 ^ 31"
    "fr_rest fr \<le> fr_buff_size fr"
    and fixed: "fr_lengthFunc fr = None" "fr_header_len fr = 0" "0 < fr_fixed_frame_len fr"
    "fr_fixed_frame_len fr < fr_rest fr" "fr_fixed_frame_len fr \<le> fr_max_frame_len fr"
    and d: "data \<noteq> []" "length data < 2 ^ 31" and q: "sq_inv q" "0 < sq_room q"
  shows "RecvSiDaqData SQPut past fr data (int (length data)) q = Inl Out_of_bounds"
proof -
  define nc where "nc = (if int (length data) < fr_buff_size fr - fr_rest fr then int (length data)
    else fr_buff_size fr - fr_rest fr)"
  let ?L = "fr_fixed_frame_len fr"
  have nc: "0 \<le> nc" "nc \<le> int (length data)" "fr_rest fr + nc \<le> fr_buff_size fr"
    using assms(4) by (auto simp: nc_def)
  have L: "i32 ?L = ?L" "u32 ?L = ?L" "i32 (?L - fr_rest fr) = ?L - fr_rest fr"
    using b fixed by (simp_all add: i32_id u32_id)
  have w: "nat (fr_rest fr) + length (take (nat nc) data) \<le> length b"
    using nc b fixed by (simp add: min_absorb2 nat_le_iff nat_add_distrib [symmetric] le_nat_iff)
  define fr1 where "fr1 = fr\<lparr>fr_buff_ptr := Some (write_at (nat (fr_rest fr)) (take (nat nc) data) b)\<rparr>"
  have bw: "buff_write (nat (fr_rest fr)) (take (nat nc) data) fr = Inr fr1"
    using w b(1) by (simp add: buff_write_def fr1_def)
  have fr1: "fr_rest fr1 = fr_rest fr" "fr_lengthFunc fr1 = None" "fr_header_len fr1 = 0"
    "fr_fixed_frame_len fr1 = ?L" "fr_max_frame_len fr1 = fr_max_frame_len fr"
    using fixed by (simp_all add: fr1_def)
  have ev: "event_length fr1 bs n = ?L" for bs n using fr1 L fixed by (simp add: event_length_def)
  have ck: "check_length fr1 ?L n = (fr1, ?L)" for n using fr1 L fixed by (simp add: check_length_def)
  have "?L \<le> int (length (buff_bytes fr1))"
    using length_write_at [OF w] b fixed by (simp add: fr1_def buff_bytes_def)
  with SQPut_inv [OF q, of ?L "buff_bytes fr1"] fixed
  obtain q1 where q1: "SQPut (buff_bytes fr1) ?L q = Inr (int (length (sq_frames q)) + 1, q1)" by auto
  have "recv_rest SQPut fr data (int (length data)) q = Inl Out_of_bounds"
    unfolding recv_rest_def Let_def nc_def [symmetric]
    using b fixed nc bw fr1 ev ck q1 L d by (auto simp: Let_def set_error_def)
  then show ?thesis using fixed d by (simp add: RecvSiDaqData_def)
qed

text \<open>C29. After a reset, shorter frames are a fault: when an unfinished frame was left in the framer by
  \<open>SiDaqResetQueue\<close> and the next \<open>SiDaqRun\<close> asks for fixed frames shorter than these bytes,
  the manager reports Running, and the framer thread computes a pointer before the block of the first chunk that
  arrives, whatever the chunk is.\<close>

theorem reset_then_shorter_frames_fault:
  assumes "ready m q e fr" "status m = SIDAQ_STOPPING" "connects re ra" "supplied re"
    and "ra_lengthFunc ra = None" "ra_header_len ra = 0" "0 < ra_fixed_frame_len ra"
    and "ra_fixed_frame_len ra < int (length (pending fr))" "ra_fixed_frame_len ra \<le> ra_max_frame_len ra"
    and "0 < sq_room q" "0 < sq_room e"
  shows "\<exists>m1 m2 q2 e2. SiDaqResetQueue (Some m) = Inr (Some m1) \<and> SiDaqRun re ra m1 g = Inr (SIDAQ_RUN, m2, g + 1) \<and>
    recv_queue m2 = Inr q2 \<and> event_queue m2 = Inr e2 \<and>
    (\<forall>env d. undisturbed env \<and> d \<noteq> [] \<and> length d < 2 ^ 31 \<longrightarrow>
       (\<exists>q3. SQPut d (int (length d)) q2 = Inr (1, q3) \<and> framer_round env (set_recv_queue q3 m2) = Inl Out_of_bounds))"
proof -
  let ?fr2 = "configure_framer (ra_lengthFunc ra) (ra_header_len ra) (ra_fixed_frame_len ra)
    (ra_frame_queue_limit ra) (ra_max_frame_len ra) fr"
  from reset_then_run [OF assms(1-4), of g] obtain m1 m2 q2 e2 where m: "SiDaqResetQueue (Some m) = Inr (Some m1)"
    "SiDaqRun re ra m1 g = Inr (SIDAQ_RUN, m2, g + 1)" and h: "holds m2 q2 e2 ?fr2"
    and q2: "sq_inv q2" "sq_inv e2" "sq_frames q2 = []" and room: "0 < sq_room q2" "0 < sq_room e2"
    using assms(10,11) less_le_trans [of 0 "sq_room q"] less_le_trans [of 0 "sq_room e"] by blast
  have ok: "framer_ok fr" using assms(1) by (simp add: ready_def)
  have f: "fr_buff_ptr ?fr2 = Some (buff_bytes fr)" "int (length (buff_bytes fr)) = fr_buff_size ?fr2"
    "fr_buff_size ?fr2 < 2 ^ 31" "fr_rest ?fr2 \<le> fr_buff_size ?fr2" "fr_lengthFunc ?fr2 = None" "fr_header_len ?fr2 = 0"
    "0 < fr_fixed_frame_len ?fr2" "fr_fixed_frame_len ?fr2 < fr_rest ?fr2" "fr_fixed_frame_len ?fr2 \<le> fr_max_frame_len ?fr2"
    using ok assms(5-9) length_pending [OF ok]
    by (auto simp: configure_framer_def framer_ok_def buff_bytes_def i32_def)
  have "\<exists>q3. SQPut d (int (length d)) q2 = Inr (1, q3) \<and> framer_round env (set_recv_queue q3 m2) = Inl Out_of_bounds"
    if env: "undisturbed env" and d: "d \<noteq> []" "length d < 2 ^ 31" for env d
  proof -
    obtain q3 where put: "SQPut d (int (length d)) q2 = Inr (1, q3)" and q3: "sq_inv q3" "sq_frames q3 = [d]"
      using SQPut_inv [OF q2(1) room(1), of "int (length d)" d] q2(3) by auto
    have h3: "holds (set_recv_queue q3 m2) q3 e2 ?fr2" using holds_set_recv [OF h] .
    obtain q4 where g: "SQGet (\<lambda>_. id) False 50 q3 = Inr (Some d, int (length d), q4)"
      using sqf.get_some [OF q3(1), of d "[]" 50] q3(2) by auto
    have h4: "holds (set_recv_queue q4 (set_recv_queue q3 m2)) q4 e2 ?fr2" using holds_set_recv [OF h3] .
    have "framer_receive env d (int (length d)) (set_recv_queue q4 (set_recv_queue q3 m2)) = Inl Out_of_bounds"
      using recv_stale_rest [OF f d q2(2) room(2)] h4 d(1) by (simp add: framer_receive_def)
    moreover have "squeue_index (sock_param (set_recv_queue q3 m2)) = 0" using h3 by (simp add: holds_def)
    ultimately show ?thesis using env g h3 put
      by (intro exI [of _ q3]) (simp add: framer_round_def undisturbed_def Let_def)
  qed
  with m h show ?thesis by auto
qed

lemma demo_two_unfinished:
  obtains fr where "framer_ok fr" "rest_ok fr" "0 \<le> fr_queue_limit fr" "pending fr = [4, 5]"
proof -
  obtain q where q: "sq_inv q" "sq_frames q = []" "sq_room q = 49" using demo_store by metis
  have p: "(0::int) < 3" "(3::int) < 1000" by simp_all
  note f = demo_framer_ok [OF p, of 0]
  have sp: "split_frames (demo_framer 3 0) [4, 5] = ([], [4, 5])"
    by (rule split_none) (simp add: frame_size_def f)
  have so: "stream_ok (demo_framer 3 0) [4, 5]"
    by (subst stream_ok.simps) (simp add: good_head_def frame_size_def f Let_def)
  have "length (pending (demo_framer 3 0)) + length (concat [[4, 5 :: byte]]) \<le> sq_room q"
    "\<forall>d\<in>set [[4, 5 :: byte]]. d \<noteq> [] \<and> length d < 2 ^ 31"
    "fr_header_len (demo_framer 3 0) < fr_max_frame_len (demo_framer 3 0)"
    "stream_ok (demo_framer 3 0) (pending (demo_framer 3 0) @ concat [[4, 5]])"
    using q(3) f so by simp_all
  from sqb.feed_splits [OF q(1) this(1) f(1,2,4) this(2) f(10) this(3,4), of 0] obtain fr q1 where
    "pending fr = snd (split_frames (demo_framer 3 0) (pending (demo_framer 3 0) @ concat [[4, 5]]))"
    "framer_ok fr" "rest_ok fr" "same_config (demo_framer 3 0) fr" by blast
  then show thesis using that [of fr] sp f(3,4) by (simp add: same_config_def)
qed

theorem reset_then_shorter_frames_fault_witness:
  "\<exists>q e fr m1 m2 q2 e2. pending fr = [4, 5] \<and>
     SiDaqResetQueue (Some (demo_mngr SIDAQ_STOPPING q e fr)) = Inr (Some m1) \<and>
     SiDaqRun demo_run (default_args\<lparr>ra_fixed_frame_len := 1\<rparr>) m1 1 = Inr (SIDAQ_RUN, m2, 1 + 1) \<and>
     recv_queue m2 = Inr q2 \<and> event_queue m2 = Inr e2 \<and>
     (\<exists>q3. SQPut [6] 1 q2 = Inr (1, q3) \<and> framer_round quiet_env (set_recv_queue q3 m2) = Inl Out_of_bounds)"
proof -
  obtain q where q: "sq_inv q" "sq_frames q = []" "sq_room q = 49" using demo_store by metis
  obtain fr where fr: "framer_ok fr" "rest_ok fr" "0 \<le> fr_queue_limit fr" "pending fr = [4, 5]" by (rule demo_two_unfinished)
  let ?m = "demo_mngr SIDAQ_STOPPING q q fr" and ?ra = "default_args\<lparr>ra_fixed_frame_len := 1\<rparr>"
  have r: "ready ?m q q fr" by (rule demo_ready) (use q fr in simp_all)
  have a: "status ?m = SIDAQ_STOPPING" "connects demo_run ?ra" "ra_lengthFunc ?ra = None" "ra_header_len ?ra = 0"
    "0 < ra_fixed_frame_len ?ra" "ra_fixed_frame_len ?ra < int (length (pending fr))"
    "ra_fixed_frame_len ?ra \<le> ra_max_frame_len ?ra"
    using demo_run_ok(3) fr(4) by (simp_all add: connects_def default_args_def DEFAULT_MAX_FRAME_LEN_def)
  have "length [6 :: byte] < 2 ^ 31" "int (length [6 :: byte]) = 1" "[6 :: byte] \<noteq> []" by simp_all
  moreover have "0 < sq_room q" using q(3) by simp
  ultimately show ?thesis
    using reset_then_shorter_frames_fault [OF r a(1,2) demo_run_ok(1) a(3-7), of 1] fr(4) undisturbed_quiet
    by metis
qed

end
