(* ===== verification/SiDaq_System.thy ===== *)
theory SiDaq_System
  imports SiDaq_Props
begin

text \<open>
  One measurement: the application, the framer thread and the socket thread on one manager, as an
  inductive relation of interleaved steps.  The state starts inside \<open>SiDaqRun\<close>, after both threads
  have been created and before the status is set; from then on every order of the threads' rounds and
  of the application's calls is a run.  \<open>SiDaqStop\<close> is two steps, because it waits for the socket thread
  in between, and so is \<open>SiDaqResetQueue\<close>, because the other threads can see the status it sets in
  between.  Pausing, resuming and taking data may come from a second thread of the application, so
  they are possible while the first one is inside a stop or a reset.

  \<open>sy_in\<close> and \<open>sy_out\<close> record the bytes that \<open>recv\<close> returned and the blocks the application took.
\<close>

section \<open>States and steps\<close>

datatype fr_pc = Fr_start | Fr_loop | Fr_exit | Fr_done

record sys =
  sy_m :: SiDaqMngr
  sy_sock :: "sock_thread option"   \<comment> \<open>None until the socket thread has started\<close>
  sy_fr :: fr_pc
  sy_in_run :: bool   \<comment> \<open>\<open>SiDaqRun\<close> has not returned yet\<close>
  sy_stop :: bool   \<comment> \<open>inside \<open>SiDaqStop\<close>, waiting for the socket thread\<close>
  sy_reset :: "SiDaqStatus option"   \<comment> \<open>inside \<open>SiDaqResetQueue\<close>, with the status it found\<close>
  sy_in :: "byte list"
  sy_out :: "byte list list"
  sy_was_reset :: bool

definition session :: "SiDaqMngr \<Rightarrow> sys" where
  "session m = \<lparr>sy_m = m, sy_sock = None, sy_fr = Fr_start, sy_in_run = True, sy_stop = False, sy_reset = None,
     sy_in = [], sy_out = [], sy_was_reset = False\<rparr>"

text \<open>The two halves of \<open>SiDaqStop\<close>, before and after the wait for the socket thread.\<close>

definition stop_begin :: "SiDaqMngr \<Rightarrow> SiDaqMngr" where
  "stop_begin m = (let m1 = (if status m = SIDAQ_RUN then m\<lparr>status := SIDAQ_STOPPING\<rparr> else m)
     in m1\<lparr>sock_param := (sock_param m1)\<lparr>sp_run := False\<rparr>\<rparr>)"

definition stop_end :: "SiDaqMngr \<Rightarrow> SiDaqMngr" where
  "stop_end m = m\<lparr>sock_param := (sock_param m)\<lparr>sp_socket := INVALID_SOCKET\<rparr>\<rparr>"

lemma stop_halves:
  "status m \<in> {SIDAQ_RUN, SIDAQ_SYS_ERROR} \<Longrightarrow>
     SiDaqStop wait m = (True, stop_end ((stop_begin m)\<lparr>sock_param := wait (sock_param (stop_begin m))\<rparr>))"
  by (auto simp: SiDaqStop_def stop_socket_def stop_begin_def stop_end_def Let_def)

text \<open>The two halves of \<open>SiDaqResetQueue\<close>.\<close>

definition reset_begin :: "SiDaqMngr \<Rightarrow> SiDaqMngr" where
  "reset_begin m = m\<lparr>status := SIDAQ_RESET\<rparr>"

definition reset_end :: "SiDaqStatus \<Rightarrow> SiDaqMngr \<Rightarrow> SiDaqMngr outcome" where
  "reset_end found m =
     obind (recv_queue m) (\<lambda>q. obind (sq_drain (Suc (nat (sq_count q))) q) (\<lambda>q'.
       let m2 = set_recv_queue q' m in
       obind (event_queue m2) (\<lambda>e. obind (sq_drain (Suc (nat (sq_count e))) e) (\<lambda>e'.
         Inr (m2\<lparr>m_eventFrame := Some e',
           status := (if found = SIDAQ_SYS_ERROR then SIDAQ_SYS_ERROR else SIDAQ_IDLE)\<rparr>)))))"

lemma reset_halves:
  "SiDaqResetQueue (Some m) = (if status m = SIDAQ_STOPPING \<or> status m = SIDAQ_SYS_ERROR
     then obind (reset_end (status m) (reset_begin m)) (\<lambda>m1. Inr (Some m1)) else Inr (Some m))"
  by (simp add: SiDaqResetQueue_def reset_end_def reset_begin_def Let_def obind_assoc)

text \<open>\<open>SiDaqGetData\<close> and the \<open>SiDaqDeleteData\<close> of the block.\<close>

definition get_and_delete :: "int \<Rightarrow> SiDaqMngr \<Rightarrow> (byte list \<times> SiDaqMngr) outcome" where
  "get_and_delete wait_msec m =
     obind (SiDaqGetData (\<lambda>_. id) False m wait_msec) (\<lambda>(p, n, m1).
     obind (event_queue m1) (\<lambda>e.
       Inr (case p of None \<Rightarrow> [] | Some bs \<Rightarrow> bs, m1\<lparr>m_eventFrame := Some (SiDaqDeleteData p e)\<rparr>)))"

text \<open>There is memory for the next round of a thread.\<close>

definition sock_memory :: "SiDaqMngr \<Rightarrow> bool" where
  "sock_memory m \<longleftrightarrow> (\<forall>q. recv_queue m = Inr q \<longrightarrow> 0 < sq_room q)"

definition framer_memory :: "SiDaqMngr \<Rightarrow> bool" where
  "framer_memory m \<longleftrightarrow> (\<forall>q e fr. recv_queue m = Inr q \<and> event_queue m = Inr e \<and> framer_of m = Inr fr \<longrightarrow>
     length (pending fr) + length (case sq_frames q of [] \<Rightarrow> [] | f # _ \<Rightarrow> f) \<le> sq_room e)"

definition app_free :: "sys \<Rightarrow> bool" where
  "app_free s \<longleftrightarrow> \<not> sy_in_run s \<and> \<not> sy_stop s \<and> sy_reset s = None"

inductive sys_step :: "sys \<Rightarrow> sys \<Rightarrow> bool" where
  run_returns: "sy_in_run s \<Longrightarrow> sys_step s (s\<lparr>sy_m := run_finish (sy_m s), sy_in_run := False\<rparr>)"
| stop_1: "app_free s \<Longrightarrow> status (sy_m s) = SIDAQ_RUN \<or> status (sy_m s) = SIDAQ_SYS_ERROR \<Longrightarrow>
    sys_step s (s\<lparr>sy_m := stop_begin (sy_m s), sy_stop := True\<rparr>)"
| stop_2: "sy_stop s \<Longrightarrow> sys_step s (s\<lparr>sy_m := stop_end (sy_m s), sy_stop := False\<rparr>)"
| pause: "\<not> sy_in_run s \<Longrightarrow> SiDaqPauseRecvData (Some (sy_m s)) = Some m1 \<Longrightarrow> sys_step s (s\<lparr>sy_m := m1\<rparr>)"
| resume: "\<not> sy_in_run s \<Longrightarrow> SiDaqResumeRecvData (Some (sy_m s)) = Some m1 \<Longrightarrow> sys_step s (s\<lparr>sy_m := m1\<rparr>)"
| reset_1: "app_free s \<Longrightarrow> status (sy_m s) = SIDAQ_STOPPING \<or> status (sy_m s) = SIDAQ_SYS_ERROR \<Longrightarrow>
    sys_step s (s\<lparr>sy_m := reset_begin (sy_m s), sy_reset := Some (status (sy_m s)), sy_was_reset := True\<rparr>)"
| reset_2: "sy_reset s = Some found \<Longrightarrow> reset_end found (sy_m s) = Inr m1 \<Longrightarrow>
    sys_step s (s\<lparr>sy_m := m1, sy_reset := None\<rparr>)"
| get: "\<not> sy_in_run s \<Longrightarrow> get_and_delete w (sy_m s) = Inr (bs, m1) \<Longrightarrow>
    sys_step s (s\<lparr>sy_m := m1, sy_out := sy_out s @ nonempty bs\<rparr>)"
| sock_start: "sy_sock s = None \<Longrightarrow> sock_thread_start True (sock_param (sy_m s)) = Inr (lp, th) \<Longrightarrow>
    sys_step s (s\<lparr>sy_m := (sy_m s)\<lparr>sock_param := lp\<rparr>, sy_sock := Some th\<rparr>)"
| sock_round: "sy_sock s = Some th \<Longrightarrow> os_ok (t_buf_size th) (Round os) \<Longrightarrow> sock_memory (sy_m s) \<Longrightarrow>
    sock_step SQPut os (sock_param (sy_m s), th) = Inr (lp, th1) \<Longrightarrow>
    sys_step s (s\<lparr>sy_m := (sy_m s)\<lparr>sock_param := lp\<rparr>, sy_sock := Some th1,
      sy_in := sy_in s @ concat (taken os (sock_param (sy_m s), th))\<rparr>)"
| fr_start: "sy_fr s = Fr_start \<Longrightarrow> framer_thread_start (sy_m s) = Inr m1 \<Longrightarrow>
    sys_step s (s\<lparr>sy_m := m1, sy_fr := Fr_loop\<rparr>)"
| fr_round: "sy_fr s = Fr_loop \<Longrightarrow> framer_runs (sy_m s) \<Longrightarrow> settled env \<Longrightarrow> framer_memory (sy_m s) \<Longrightarrow>
    framer_round env (sy_m s) = Inr (m1, ends) \<Longrightarrow>
    sys_step s (s\<lparr>sy_m := m1, sy_fr := (if ends then Fr_exit else Fr_loop)\<rparr>)"
| fr_leave: "sy_fr s = Fr_loop \<Longrightarrow> \<not> framer_runs (sy_m s) \<Longrightarrow> sys_step s (s\<lparr>sy_fr := Fr_exit\<rparr>)"
| fr_exit: "sy_fr s = Fr_exit \<Longrightarrow> settled env \<Longrightarrow> framer_exit env (sy_m s) = Inr m1 \<Longrightarrow>
    sys_step s (s\<lparr>sy_m := m1, sy_fr := Fr_done\<rparr>)"

inductive reachable :: "SiDaqMngr \<Rightarrow> sys \<Rightarrow> bool" for m where
  start: "reachable m (session m)"
| step: "reachable m s \<Longrightarrow> sys_step s s1 \<Longrightarrow> reachable m s1"

inductive_cases sys_stepE: "sys_step s s1"

lemmas sys_step_cases = sys_stepE [consumes 1, case_names run_returns stop_1 stop_2 pause resume reset_1 reset_2 get
  sock_start sock_round fr_start fr_round fr_leave fr_exit]

inductive_simps reachable_iff: "reachable m s"

section \<open>The invariant\<close>

text \<open>The queues, the framer and the socket thread are well formed, and, as long as nothing was reset
  and the event queue has no limit, what \<open>recv\<close> returned is what the application took, what waits in
  the event queue, what the framer holds and what waits in the receive queue, in this order.\<close>

definition accounted :: "sys \<Rightarrow> sqstore \<Rightarrow> sqstore \<Rightarrow> SiDaqFramer \<Rightarrow> bool" where
  "accounted s q e fr \<longleftrightarrow> sy_was_reset s \<or> fr_queue_limit fr \<noteq> 0 \<or>
     sy_in s = concat (sy_out s) @ concat (sq_frames e) @ pending fr @ concat (sq_frames q)"

definition thread_ok :: "sys \<Rightarrow> bool" where
  "thread_ok s \<longleftrightarrow> (\<forall>th. sy_sock s = Some th \<longrightarrow> t_queue th = 0 \<and> t_buf_size th < 2 ^ 31) \<and>
     (sy_reset s \<noteq> None \<longrightarrow> sy_was_reset s)"

definition sys_inv :: "int \<Rightarrow> sys \<Rightarrow> bool" where
  "sys_inv lim s \<longleftrightarrow> (\<exists>q e fr. ready (sy_m s) q e fr \<and> fr_queue_limit fr = lim \<and> accounted s q e fr) \<and> thread_ok s"

lemma sys_invI:
  "ready (sy_m s) q e fr \<Longrightarrow> fr_queue_limit fr = lim \<Longrightarrow> accounted s q e fr \<Longrightarrow> thread_ok s \<Longrightarrow> sys_inv lim s"
  unfolding sys_inv_def by blast

lemma sys_invE:
  assumes "sys_inv lim s"
  obtains q e fr where "ready (sy_m s) q e fr" "accounted s q e fr" "thread_ok s" "fr_queue_limit fr = lim"
  using assms unfolding sys_inv_def by blast

lemma ready_status: "ready m q e fr \<Longrightarrow> ready (m\<lparr>status := st\<rparr>) q e fr"
  by (simp add: ready_def holds_def)

lemma ready_stop:
  assumes "ready m q e fr"
  shows "ready (stop_begin m) q e fr" "ready (stop_end m) q e fr"
  using assms by (auto simp: stop_begin_def stop_end_def ready_def holds_def Let_def)

lemma ready_stop_whole:
  assumes "ready m q e fr" "keeps_queues wait"
  shows "ready (snd (SiDaqStop wait m)) q e fr"
proof -
  have h: "holds m q e fr" using assms(1) by (simp add: ready_def)
  show ?thesis
    using holds_stop [OF h assms(2)] holds_stop [OF holds_status [OF h] assms(2)] assms(1)
    by (auto simp: SiDaqStop_def ready_def)
qed

lemma ready_pause:
  "ready m q e fr \<Longrightarrow> SiDaqPauseRecvData (Some m) = Some m1 \<Longrightarrow> ready m1 q e fr"
  "ready m q e fr \<Longrightarrow> SiDaqResumeRecvData (Some m) = Some m1 \<Longrightarrow> ready m1 q e fr"
  by (auto simp: SiDaqPauseRecvData_def SiDaqResumeRecvData_def ready_def holds_def split: if_splits)

lemma reset_end_ready:
  assumes "ready m q e fr"
  shows "\<exists>m1 q1 e1. reset_end found m = Inr m1 \<and> ready m1 q1 e1 fr \<and> sq_frames q1 = [] \<and> sq_frames e1 = []"
proof -
  have h: "holds m q e fr" "sq_inv q" "sq_inv e" using assms by (simp_all add: ready_def)
  obtain q1 where q1: "sq_drain (Suc (nat (sq_count q))) q = Inr q1" "sq_inv q1" "sq_frames q1 = []"
    using drain_all [OF h(2)] by blast
  obtain e1 where e1: "sq_drain (Suc (nat (sq_count e))) e = Inr e1" "sq_inv e1" "sq_frames e1 = []"
    using drain_all [OF h(3)] by blast
  note h2 = holds_set_recv [OF h(1), of q1]
  let ?m1 = "(set_recv_queue q1 m)\<lparr>m_eventFrame := Some e1,
    status := (if found = SIDAQ_SYS_ERROR then SIDAQ_SYS_ERROR else SIDAQ_IDLE)\<rparr>"
  have "reset_end found m = Inr ?m1"
    using h(1) h2 q1(1) e1(1) by (simp add: reset_end_def Let_def)
  moreover have "ready ?m1 q1 e1 fr"
    using h2 q1(2,3) e1(2) assms by (simp add: ready_def holds_def)
  ultimately show ?thesis using q1(3) e1(3) by blast
qed

text \<open>Taking the oldest frame, or nothing.\<close>

lemma event_queue_upd [simp]: "event_queue (m\<lparr>m_eventFrame := Some e\<rparr>) = Inr e"
  by (simp add: event_queue_def)

lemma take_block:
  assumes "sq_inv e" "sq_frames e = f # fs"
  shows "\<exists>e1. SQGet (\<lambda>_. id) False w e = Inr (Some f, int (length f), e1) \<and>
    sq_inv (e1\<lparr>quota := quota e1 + 1\<rparr>) \<and> sq_frames (e1\<lparr>quota := quota e1 + 1\<rparr>) = fs"
proof -
  have cnt: "0 < sq_count e" using assms(2) sq_inv_count [OF assms(1)] by simp
  from SQGet_first [OF sq_wait_nonempty [OF cnt] assms] obtain e1 where e1:
    "SQGet (\<lambda>_. id) False w e = Inr (Some f, int (length f), e1)" "sq_inv e1" "sq_frames e1 = fs" "quota e1 = quota e + 1"
    by blast
  have "quota e1 + 1 + 2 * length (sq_frames e1) < 2 ^ 31"
    using sq_inv_quota_free [OF assms(1)] e1(3,4) assms(2) by simp
  from sq_inv_free_block [OF e1(2) this] e1(1,3) show ?thesis by auto
qed

lemma get_ready:
  assumes "ready m q e fr"
  shows "\<exists>bs m1 e1. get_and_delete w m = Inr (bs, m1) \<and> ready m1 q e1 fr \<and>
    concat (sq_frames e) = bs @ concat (sq_frames e1) \<and> (if sq_frames e = [] then bs = [] \<and> sq_frames e1 = [] else sq_frames e = bs # sq_frames e1)"
proof -
  have h: "holds m q e fr" "sq_inv e" using assms by (simp_all add: ready_def)
  show ?thesis
  proof (cases "sq_frames e")
    case Nil
    have "SQGet (\<lambda>_. id) False w e = Inr (None, 0, e)" by (rule sqf.get_none [OF h(2) Nil])
    then have "get_and_delete w m = Inr ([], m\<lparr>m_eventFrame := Some e\<rparr>)"
      using h(1) by (simp add: get_and_delete_def SiDaqGetData_def SiDaqDeleteData_def)
    moreover have "m\<lparr>m_eventFrame := Some e\<rparr> = m" using h(1) by (simp add: holds_def)
    ultimately show ?thesis using assms Nil by auto
  next
    case (Cons f fs)
    from take_block [OF h(2) Cons, of w] obtain e1 where
      e1: "SQGet (\<lambda>_. id) False w e = Inr (Some f, int (length f), e1)" and
      e2: "sq_inv (e1\<lparr>quota := quota e1 + 1\<rparr>)" "sq_frames (e1\<lparr>quota := quota e1 + 1\<rparr>) = fs" by blast
    let ?e2 = "e1\<lparr>quota := quota e1 + 1\<rparr>"
    have "get_and_delete w m = Inr (f, m\<lparr>m_eventFrame := Some ?e2\<rparr>)"
      using h(1) e1 by (simp add: get_and_delete_def SiDaqGetData_def SiDaqDeleteData_def)
    moreover have "ready (m\<lparr>m_eventFrame := Some ?e2\<rparr>) q ?e2 fr"
      using assms e2(1) by (simp add: ready_def holds_def)
    ultimately show ?thesis using Cons e2(2)
      by (intro exI [of _ f] exI [of _ "m\<lparr>m_eventFrame := Some ?e2\<rparr>"] exI [of _ ?e2]) simp
  qed
qed

lemma ready_sock_param:
  assumes "ready m q e fr" "sq_inv q1" "squeue_list_ptr lp = Some [q1]" "squeue_index lp = 0"
    "squeue_count lp = squeue_count (sock_param m)" "\<forall>f\<in>set (sq_frames q1). length f < 2 ^ 31"
  shows "ready (m\<lparr>sock_param := lp\<rparr>) q1 e fr"
  using assms by (simp add: ready_def holds_def)

lemma sock_round_ready:
  assumes "ready m q e fr" "t_queue th = 0" "t_buf_size th < 2 ^ 31" "os_ok (t_buf_size th) (Round os)" "sock_memory m"
  shows "\<exists>lp th1 q1. sock_step SQPut os (sock_param m, th) = Inr (lp, th1) \<and> ready (m\<lparr>sock_param := lp\<rparr>) q1 e fr \<and>
    t_queue th1 = 0 \<and> t_buf_size th1 = t_buf_size th \<and> sq_frames q1 = sq_frames q @ taken os (sock_param m, th)"
proof -
  have h: "holds m q e fr" "sq_inv q" "\<forall>f\<in>set (sq_frames q). length f < 2 ^ 31"
    using assms(1) by (simp_all add: ready_def)
  have sv: "serves (sock_param m) th q" using h(1) assms(2) by (simp add: serves_def holds_def)
  have "0 < sq_room q" using assms(5) h(1) by (simp add: sock_memory_def)
  from sqb.step_serves [OF sv h(2) assms(4) this] obtain lp th1 q1 where s:
    "sock_step SQPut os (sock_param m, th) = Inr (lp, th1)" "serves lp th1 q1" "sq_inv q1" "t_buf_size th1 = t_buf_size th"
    "sq_frames q1 = sq_frames q @ taken os (sock_param m, th)"
    "\<forall>c\<in>set (taken os (sock_param m, th)). int (length c) \<le> t_buf_size th" by blast
  have "\<forall>f\<in>set (sq_frames q1). length f < 2 ^ 31"
    using s(5,6) h(3) assms(3) by fastforce
  moreover have "squeue_count lp = squeue_count (sock_param m)" by (rule sock_step_keeps(1) [OF s(1)])
  ultimately have "ready (m\<lparr>sock_param := lp\<rparr>) q1 e fr"
    using ready_sock_param [OF assms(1) s(3)] s(2) by (simp add: serves_def)
  then show ?thesis using s by (auto simp: serves_def)
qed

section \<open>The framer thread in any state\<close>

text \<open>Framers that differ in the error fields only.\<close>

lemma framer_same:
  assumes "framer_ok fr" "rest_ok fr" "same_config fr fr2" "fr_rest fr2 = fr_rest fr"
    "fr_buff_ptr fr2 = fr_buff_ptr fr" "fr_buff_size fr2 = fr_buff_size fr"
  shows "framer_ok fr2" "rest_ok fr2" "pending fr2 = pending fr"
proof -
  have b: "buff_bytes fr2 = buff_bytes fr" using assms(5) by (simp add: buff_bytes_def)
  show "framer_ok fr2" using assms(1,3-6) b by (simp add: framer_ok_def same_config_def header_only_def)
  show p: "pending fr2 = pending fr" using assms(4) b by (simp add: pending_def)
  show "rest_ok fr2"
  proof (cases "fr_rest fr = 0 \<or> fr_rest fr < fr_header_len fr")
    case True
    then show ?thesis using assms(3,4) by (auto simp: rest_ok_def same_config_def)
  next
    case False
    then obtain n where n: "cut fr (pending fr) = (fr, n)" "fr_rest fr < n" using assms(2) by (auto simp: rest_ok_def)
    have l: "int (length (pending fr)) = fr_rest fr" using length_pending [OF assms(1)] .
    then have "pending fr \<noteq> []" "length (pending fr) < 2 ^ 31"
      using False assms(1) by (auto simp: framer_ok_def)
    from same_config_cut [OF assms(3) n(1) assms(1) this] n(2) l have "cut fr2 (pending fr2) = (fr2, n)"
      using p by simp
    then show ?thesis using n(2) assms(4) by (auto simp: rest_ok_def)
  qed
qed

lemma ready_framer_error:
  assumes "ready m q e fr" "fr2 = fr\<lparr>fr_error_code := c, fr_error_flg := g\<rparr>"
  shows "ready (m\<lparr>m_framer := Some fr2\<rparr>) q e fr2" "pending fr2 = pending fr" "fr_queue_limit fr2 = fr_queue_limit fr"
proof -
  have "framer_ok fr2" "rest_ok fr2" "pending fr2 = pending fr"
    using framer_same [of fr fr2] assms by (auto simp: ready_def same_config_def)
  then show "ready (m\<lparr>m_framer := Some fr2\<rparr>) q e fr2" "pending fr2 = pending fr"
    using assms by (auto simp: ready_def holds_def)
  show "fr_queue_limit fr2 = fr_queue_limit fr" using assms(2) by simp
qed

lemma start_ready:
  assumes "ready m q e fr"
  shows "\<exists>m1 fr1. framer_thread_start m = Inr m1 \<and> ready m1 q e fr1 \<and> pending fr1 = pending fr \<and>
    fr_queue_limit fr1 = fr_queue_limit fr \<and> same_config fr fr1"
proof -
  have "framer_thread_start m = Inr (m\<lparr>m_framer := Some (fr\<lparr>fr_error_code := 0, fr_error_flg := fr_error_flg fr\<rparr>)\<rparr>)"
    using assms by (simp add: framer_thread_start_def framer_of_def ready_def holds_def)
  moreover have "same_config fr (fr\<lparr>fr_error_code := 0, fr_error_flg := fr_error_flg fr\<rparr>)" by (simp add: same_config_def)
  ultimately show ?thesis using ready_framer_error [OF assms refl] by blast
qed

lemma fail_ready:
  assumes "ready m q e fr" "length msg < 1024"
  shows "\<exists>m1 fr1. obind (framer_failed m) (\<lambda>m1. set_sidaq_error m1 c msg 0) = Inr m1 \<and> ready m1 q e fr1 \<and>
    pending fr1 = pending fr \<and> same_config fr fr1 \<and> fr_rest fr1 = fr_rest fr"
proof -
  define fr1 where "fr1 = fr\<lparr>fr_error_code := fr_error_code fr, fr_error_flg := -1\<rparr>"
  note r = ready_framer_error [OF assms(1) fr1_def]
  let ?m1 = "m\<lparr>m_framer := Some fr1, status := SIDAQ_SYS_ERROR\<rparr>"
  have f: "framer_failed m = Inr ?m1" using assms(1) by (simp add: framer_failed_def framer_of_def ready_def holds_def fr1_def)
  have h: "holds ?m1 q e fr1" using r(1) by (simp add: ready_def holds_def)
  obtain m2 where "set_sidaq_error ?m1 c msg 0 = Inr m2" "holds m2 q e fr1"
    by (rule set_sidaq_error_holds [OF h assms(2)])
  then show ?thesis using f r by (intro exI [of _ m2] exI [of _ fr1]) (auto simp: ready_def fr1_def same_config_def)
qed

text \<open>A round that finds no block: either nothing happens, or the unfinished frame goes out and the loop
  ends.\<close>

lemma no_data_ready:
  assumes r: "ready m q e fr" and room: "fr_rest fr = 0 \<or> 0 < sq_room e"
  shows "\<exists>m1 ends e1 fr1. framer_no_data m = Inr (m1, ends) \<and> ready m1 q e1 fr1 \<and> same_config fr fr1 \<and>
    (if ends then sq_frames e1 = sq_frames e @ nonempty (pending fr) \<and> pending fr1 = []
     else sq_frames e1 = sq_frames e \<and> pending fr1 = pending fr)"
proof -
  have put: "\<exists>m1 e1 fr1. put_rest_frame m' = Inr m1 \<and> ready m1 q e1 fr1 \<and> same_config fr' fr1 \<and>
      sq_frames e1 = sq_frames e @ nonempty (pending fr') \<and> pending fr1 = []"
    if "ready m' q e fr'" "fr_rest fr' = fr_rest fr" for m' fr'
    using put_rest_ready [OF that(1)] room that(2) by fastforce
  have f: "framer_of m = Inr fr" using r framer_of_holds by (auto simp: ready_def)
  consider (stopping) "status m = SIDAQ_STOPPING" | (opened) "status m \<noteq> SIDAQ_STOPPING" "is_socket_open m"
    | (closed) "status m \<noteq> SIDAQ_STOPPING" "\<not> is_socket_open m" by blast
  then show ?thesis
  proof cases
    case stopping
    from put [OF r refl] obtain m1 e1 fr1 where p: "put_rest_frame m = Inr m1" "ready m1 q e1 fr1" "same_config fr fr1"
      "sq_frames e1 = sq_frames e @ nonempty (pending fr)" "pending fr1 = []" by blast
    then have "framer_no_data m = Inr (m1, True)" using stopping by (simp add: framer_no_data_def)
    with p show ?thesis by (intro exI [of _ m1] exI [of _ True] exI [of _ e1] exI [of _ fr1]) simp
  next
    case opened
    then show ?thesis using r
      by (intro exI [of _ m] exI [of _ False] exI [of _ e] exI [of _ fr]) (simp add: framer_no_data_def)
  next
    case closed
    obtain m1 fr1 where m1: "(if fr_error_flg fr = 0 \<and> queue_error_code (sock_param m) \<noteq> sockqueue_code SOCKQUEUE_NO_ERROR
        then obind (framer_failed m) (\<lambda>m1. set_sidaq_error m1
          (decode_sock_queue_error (queue_error_code (sock_param m))) ''Socket Receive Queue Error'' 0)
        else Inr m) = Inr m1" "ready m1 q e fr1" "pending fr1 = pending fr" "same_config fr fr1" "fr_rest fr1 = fr_rest fr"
    proof (cases "fr_error_flg fr = 0 \<and> queue_error_code (sock_param m) \<noteq> sockqueue_code SOCKQUEUE_NO_ERROR")
      case True
      have "length ''Socket Receive Queue Error'' < 1024" by simp
      from fail_ready [OF r this, of "decode_sock_queue_error (queue_error_code (sock_param m))"] True that
      show thesis by auto
    qed (use r that in auto)
    from put [OF m1(2,5)] obtain m2 e2 fr2 where p: "put_rest_frame m1 = Inr m2" "ready m2 q e2 fr2" "same_config fr1 fr2"
      "sq_frames e2 = sq_frames e @ nonempty (pending fr1)" "pending fr2 = []" by blast
    have "framer_no_data m = Inr (m2, True)" using closed f m1(1) p(1) by (simp add: framer_no_data_def)
    with p m1(3) same_config_trans [OF m1(4) p(3)] show ?thesis
      by (intro exI [of _ m2] exI [of _ True] exI [of _ e2] exI [of _ fr2]) simp
  qed
qed

text \<open>A round that finds no block, as a whole.\<close>

lemma round_none:
  assumes "ready m q e fr" "settled env" "sq_frames q = []" "framer_memory m"
  shows "\<exists>m1 ends e1 fr1. framer_round env m = Inr (m1, ends) \<and> ready m1 q e1 fr1 \<and> same_config fr fr1 \<and>
    (if ends then sq_frames e1 = sq_frames e @ nonempty (pending fr) \<and> pending fr1 = []
     else sq_frames e1 = sq_frames e \<and> pending fr1 = pending fr)"
proof -
  have h: "holds m q e fr" "sq_inv q" using assms(1) by (simp_all add: ready_def)
  have "length (pending fr) \<le> sq_room e" using assms(3,4) h(1) by (auto simp: framer_memory_def)
  moreover have "int (length (pending fr)) = fr_rest fr" using assms(1) length_pending by (simp add: ready_def)
  ultimately have "fr_rest fr = 0 \<or> 0 < sq_room e" by linarith
  moreover have "framer_round env m = framer_no_data m"
    using h sq_get_none [OF h(2) assms(3,2)] set_recv_queue_same [OF h(1)] by (simp add: framer_round_def holds_def)
  ultimately show ?thesis using no_data_ready [OF assms(1)] by simp
qed

lemma round_ready:
  assumes r: "ready m q e fr" and env: "settled env" and mem: "framer_memory m"
  shows "\<exists>m1 ends q1 e1 fr1. framer_round env m = Inr (m1, ends) \<and> ready m1 q1 e1 fr1 \<and>
    fr_queue_limit fr1 = fr_queue_limit fr \<and>
    (fr_queue_limit fr = 0 \<longrightarrow> concat (sq_frames e1) @ pending fr1 @ concat (sq_frames q1) =
       concat (sq_frames e) @ pending fr @ concat (sq_frames q))"
proof -
  have h: "holds m q e fr" "sq_inv q" using r by (simp_all add: ready_def)
  show ?thesis
  proof (cases "sq_frames q")
    case Nil
    from round_none [OF r env Nil mem] obtain m1 ends e1 fr1 where m1: "framer_round env m = Inr (m1, ends)"
      "ready m1 q e1 fr1" "same_config fr fr1"
      "if ends then sq_frames e1 = sq_frames e @ nonempty (pending fr) \<and> pending fr1 = []
       else sq_frames e1 = sq_frames e \<and> pending fr1 = pending fr" by blast
    then show ?thesis using Nil
      by (intro exI [of _ m1] exI [of _ ends] exI [of _ q] exI [of _ e1] exI [of _ fr1])
        (auto simp: same_config_def split: if_splits)
  next
    case (Cons f fs)
    have "length (pending fr) + length f \<le> sq_room e" using mem h(1) Cons by (auto simp: framer_memory_def)
    from round_data [OF r Cons env this] obtain m1 q1 e1 fr1 gs dropped where m1:
      "framer_round env m = Inr (m1, False)" "ready m1 q1 e1 fr1" "sq_frames q1 = fs" "sq_frames e1 = sq_frames e @ gs"
      "concat gs @ pending fr1 @ dropped = pending fr @ f" "fr_queue_limit fr = 0 \<longrightarrow> dropped = []"
      "fr_queue_limit fr1 = fr_queue_limit fr" by blast
    have "concat (sq_frames e1) @ pending fr1 @ concat (sq_frames q1) =
        concat (sq_frames e) @ pending fr @ concat (sq_frames q)" if "fr_queue_limit fr = 0"
    proof -
      have "concat gs @ pending fr1 = pending fr @ f" using m1(5,6) that by simp
      then show ?thesis using m1(3,4) Cons by (metis append.assoc concat.simps(2) concat_append)
    qed
    then show ?thesis using m1(1,2,7) by blast
  qed
qed

lemma exit_ready:
  assumes "ready m q e fr" "settled env"
  shows "\<exists>m1. framer_exit env m = Inr m1 \<and> ready m1 q e fr"
proof -
  have f: "framer_of m = Inr fr" using assms(1) framer_of_holds by (auto simp: ready_def)
  have "keeps_queues (fe_wait env)" using assms(2) by (simp add: settled_defs)
  from ready_stop_whole [OF assms(1) this] ready_status [OF assms(1), of SIDAQ_IDLE] f assms(1) show ?thesis
    by (auto simp: framer_exit_def)
qed

lemma sock_start_ready:
  assumes "ready m q e fr" "sock_thread_start True (sock_param m) = Inr (lp, th)"
  shows "ready (m\<lparr>sock_param := lp\<rparr>) q e fr" "t_queue th = 0" "t_buf_size th < 2 ^ 31"
proof -
  have "lp = (sock_param m)\<lparr>queue_error_code := 0, pause_flg := False\<rparr>" "t_queue th = 0"
    "t_buf_size th = i32 (recv_buf_size (sock_param m))"
    using assms by (auto simp: sock_thread_start_def select_queue_def ready_def holds_def Let_def)
  then show "ready (m\<lparr>sock_param := lp\<rparr>) q e fr" "t_queue th = 0" "t_buf_size th < 2 ^ 31"
    using assms(1) i32_range by (auto simp: ready_def holds_def)
qed

section \<open>Preservation\<close>

text \<open>A step that moves no data.\<close>

lemma sys_inv_same:
  assumes "sys_inv lim s" "\<And>q e fr. ready (sy_m s) q e fr \<Longrightarrow> ready (sy_m s1) q e fr" "thread_ok s \<Longrightarrow> thread_ok s1"
    and "sy_in s1 = sy_in s" "sy_out s1 = sy_out s" "sy_was_reset s \<longrightarrow> sy_was_reset s1"
  shows "sys_inv lim s1"
proof -
  from assms(1) obtain q e fr where "ready (sy_m s) q e fr" "accounted s q e fr" "thread_ok s" "fr_queue_limit fr = lim"
    by (rule sys_invE)
  then show ?thesis using assms(2-6) by (intro sys_invI [of s1 q e fr]) (auto simp: accounted_def)
qed

text \<open>The steps that do.\<close>

lemma get_step_inv:
  assumes "get_and_delete w (sy_m s) = Inr (bs, m1)" "sys_inv lim s"
  shows "sys_inv lim (s\<lparr>sy_m := m1, sy_out := sy_out s @ nonempty bs\<rparr>)"
proof -
  from assms(2) obtain q e fr where r: "ready (sy_m s) q e fr" "accounted s q e fr" "thread_ok s" "fr_queue_limit fr = lim"
    by (rule sys_invE)
  from get_ready [OF r(1), of w] assms(1) obtain e1 where "ready m1 q e1 fr" "concat (sq_frames e) = bs @ concat (sq_frames e1)"
    by auto
  then show ?thesis using r by (intro sys_invI [of _ q e1 fr lim]) (auto simp: accounted_def thread_ok_def)
qed

lemma reset_step_inv:
  assumes "sy_reset s = Some found" "reset_end found (sy_m s) = Inr m1" "sys_inv lim s"
  shows "sys_inv lim (s\<lparr>sy_m := m1, sy_reset := None\<rparr>)"
proof -
  from assms(3) obtain q e fr where r: "ready (sy_m s) q e fr" "accounted s q e fr" "thread_ok s" "fr_queue_limit fr = lim"
    by (rule sys_invE)
  from reset_end_ready [OF r(1), of found] assms(2) obtain q1 e1 where "ready m1 q1 e1 fr" by auto
  moreover have "sy_was_reset s" using r(3) assms(1) by (simp add: thread_ok_def)
  ultimately show ?thesis using r by (intro sys_invI [of _ q1 e1 fr lim]) (simp_all add: accounted_def thread_ok_def)
qed

lemma sock_step_inv:
  assumes "sy_sock s = Some th" "os_ok (t_buf_size th) (Round os)" "sock_memory (sy_m s)"
    "sock_step SQPut os (sock_param (sy_m s), th) = Inr (lp, th1)" "sys_inv lim s"
  shows "sys_inv lim (s\<lparr>sy_m := (sy_m s)\<lparr>sock_param := lp\<rparr>, sy_sock := Some th1,
    sy_in := sy_in s @ concat (taken os (sock_param (sy_m s), th))\<rparr>)"
proof -
  from assms(5) obtain q e fr where r: "ready (sy_m s) q e fr" "accounted s q e fr" "thread_ok s" "fr_queue_limit fr = lim"
    by (rule sys_invE)
  have t: "t_queue th = 0" "t_buf_size th < 2 ^ 31" using r(3) assms(1) by (simp_all add: thread_ok_def)
  from sock_round_ready [OF r(1) t assms(2,3)] assms(4) obtain q1 where
    "ready ((sy_m s)\<lparr>sock_param := lp\<rparr>) q1 e fr" "t_queue th1 = 0" "t_buf_size th1 = t_buf_size th"
    "sq_frames q1 = sq_frames q @ taken os (sock_param (sy_m s), th)" by auto
  then show ?thesis using r t(2) by (intro sys_invI [of _ q1 e fr lim]) (auto simp: accounted_def thread_ok_def)
qed

lemma fr_start_inv:
  assumes "framer_thread_start (sy_m s) = Inr m1" "sys_inv lim s"
  shows "sys_inv lim (s\<lparr>sy_m := m1, sy_fr := Fr_loop\<rparr>)"
proof -
  from assms(2) obtain q e fr where r: "ready (sy_m s) q e fr" "accounted s q e fr" "thread_ok s" "fr_queue_limit fr = lim"
    by (rule sys_invE)
  from start_ready [OF r(1)] assms(1) obtain fr1 where "ready m1 q e fr1" "pending fr1 = pending fr"
    "fr_queue_limit fr1 = fr_queue_limit fr" by auto
  then show ?thesis using r by (intro sys_invI [of _ q e fr1 lim]) (simp_all add: accounted_def thread_ok_def)
qed

lemma fr_round_inv:
  assumes "settled env" "framer_memory (sy_m s)" "framer_round env (sy_m s) = Inr (m1, ends)" "sys_inv lim s"
  shows "sys_inv lim (s\<lparr>sy_m := m1, sy_fr := ph\<rparr>)"
proof -
  from assms(4) obtain q e fr where r: "ready (sy_m s) q e fr" "accounted s q e fr" "thread_ok s" "fr_queue_limit fr = lim"
    by (rule sys_invE)
  from round_ready [OF r(1) assms(1,2)] assms(3) obtain q1 e1 fr1 where
    "ready m1 q1 e1 fr1" "fr_queue_limit fr1 = fr_queue_limit fr"
    "fr_queue_limit fr = 0 \<longrightarrow> concat (sq_frames e1) @ pending fr1 @ concat (sq_frames q1) =
       concat (sq_frames e) @ pending fr @ concat (sq_frames q)" by auto
  then show ?thesis using r by (intro sys_invI [of _ q1 e1 fr1 lim]) (auto simp: accounted_def thread_ok_def)
qed

lemma sys_step_inv: "sys_step s s1 \<Longrightarrow> sys_inv lim s \<Longrightarrow> sys_inv lim s1"
proof (induction rule: sys_step.induct)
  case (run_returns s)
  show ?case by (rule sys_inv_same [OF run_returns.prems]) (simp_all add: ready_status run_finish_def thread_ok_def)
next
  case (stop_1 s)
  show ?case by (rule sys_inv_same [OF stop_1.prems]) (simp_all add: ready_stop thread_ok_def)
next
  case (stop_2 s)
  show ?case by (rule sys_inv_same [OF stop_2.prems]) (simp_all add: ready_stop thread_ok_def)
next
  case (pause s m1)
  show ?case by (rule sys_inv_same [OF pause.prems]) (simp_all add: ready_pause(1) [OF _ pause.hyps(2)] thread_ok_def)
next
  case (resume s m1)
  show ?case by (rule sys_inv_same [OF resume.prems]) (simp_all add: ready_pause(2) [OF _ resume.hyps(2)] thread_ok_def)
next
  case (reset_1 s)
  show ?case by (rule sys_inv_same [OF reset_1.prems]) (simp_all add: ready_status reset_begin_def thread_ok_def)
next
  case (sock_start s lp th)
  have "t_queue th = 0 \<and> t_buf_size th < 2 ^ 31"
    using sock_start.prems sock_start_ready(2,3) [OF _ sock_start.hyps(2)] by (blast elim: sys_invE)
  then show ?case using sock_start_ready(1) [OF _ sock_start.hyps(2)]
    by - (rule sys_inv_same [OF sock_start.prems], simp_all add: thread_ok_def)
next
  case (fr_leave s)
  show ?case by (rule sys_inv_same [OF fr_leave.prems]) (simp_all add: thread_ok_def)
next
  case (fr_exit s env m1)
  have "ready m1 q e fr" if "ready (sy_m s) q e fr" for q e fr
    using exit_ready [OF that fr_exit.hyps(2)] fr_exit.hyps(3) by auto
  then show ?case by - (rule sys_inv_same [OF fr_exit.prems], simp_all add: thread_ok_def)
qed (simp_all add: get_step_inv reset_step_inv sock_step_inv fr_start_inv fr_round_inv)

interpretation system: preserved sys_step "sys_inv lim" for lim
  by unfold_locales (rule sys_step_inv)

lemma reachable_run: "reachable m s \<longleftrightarrow> sys_step\<^sup>*\<^sup>* (session m) s"
proof
  show "reachable m s \<Longrightarrow> sys_step\<^sup>*\<^sup>* (session m) s"
    by (induction rule: reachable.induct) (auto intro: rtranclp.rtrancl_into_rtrancl)
  show "sys_step\<^sup>*\<^sup>* (session m) s \<Longrightarrow> reachable m s"
    by (induction rule: rtranclp_induct) (auto intro: reachable.intros)
qed

lemma reachable_inv:
  assumes "reachable m s" "ready m q e fr" "sq_frames q = []" "sq_frames e = []" "pending fr = []"
  shows "sys_inv (fr_queue_limit fr) s"
proof (rule system.run [OF assms(1) [unfolded reachable_run]])
  show "sys_inv (fr_queue_limit fr) (session m)"
    using assms(2-5) by (intro sys_invI [of _ q e fr]) (simp_all add: session_def accounted_def thread_ok_def)
qed

section \<open>A run for the examples\<close>

lemma reachable_sock:
  assumes "reachable m s" "sy_sock s = Some th" "os_ok (t_buf_size th) (Round os)" "sock_memory (sy_m s)"
    "sock_step SQPut os (sock_param (sy_m s), th) = Inr (lp, th1)"
  shows "reachable m (s\<lparr>sy_m := (sy_m s)\<lparr>sock_param := lp\<rparr>, sy_sock := Some th1,
    sy_in := sy_in s @ concat (taken os (sock_param (sy_m s), th))\<rparr>)"
  using reachable.step [OF assms(1) sys_step.sock_round [OF assms(2-5)]] .

text \<open>A session in which the socket thread has entered its receive loop.\<close>

definition demo_th :: "sock_pc \<Rightarrow> sock_thread" where
  "demo_th pc = \<lparr>t_pc = pc, t_socket = 7, t_queue = 0, t_buf_size = 262144,
     t_recv_len = (if pc = Inner_loop then -1 else 0)\<rparr>"

lemma demo_receiving:
  assumes "sq_inv q" "sq_frames q = []" "sq_room q = 49"
    and "framer_ok fr" "rest_ok fr" "0 \<le> fr_queue_limit fr" "pending fr = []"
  defines "m \<equiv> demo_mngr SIDAQ_IDLE q q fr"
  shows "ready m q q fr" "sock_memory m" "framer_memory m"
    "reachable m ((session m)\<lparr>sy_sock := Some (demo_th Inner_loop)\<rparr>)"
proof -
  show r: "ready m q q fr" unfolding m_def by (rule demo_ready) (use assms in simp_all)
  then have h: "holds m q q fr" by (simp add: ready_def)
  then show mem: "sock_memory m" "framer_memory m"
    using assms by (auto simp: sock_memory_def framer_memory_def)
  have start: "sock_thread_start True (sock_param m) = Inr (sock_param m, demo_th Outer_loop)"
    by (simp add: m_def demo_th_def fresh_block_def sock_thread_start_def select_queue_def Let_def i32_def)
  have same: "m\<lparr>sock_param := sock_param m\<rparr> = m" by simp
  have "sys_step (session m) ((session m)\<lparr>sy_m := (sy_m (session m))\<lparr>sock_param := sock_param m\<rparr>,
      sy_sock := Some (demo_th Outer_loop)\<rparr>)"
    by (rule sys_step.sock_start) (simp_all add: session_def start)
  then have r1: "reachable m ((session m)\<lparr>sy_sock := Some (demo_th Outer_loop)\<rparr>)"
    using reachable.step [OF reachable.start] by (simp add: session_def)
  have "sock_step SQPut (demo_round []) (sock_param m, demo_th Outer_loop) = Inr (sock_param m, demo_th Inner_loop)"
    by (simp add: m_def demo_th_def fresh_block_def demo_round_def sock_step_def outer_step_def select_queue_def
        INVALID_SOCKET_def)
  then show "reachable m ((session m)\<lparr>sy_sock := Some (demo_th Inner_loop)\<rparr>)"
    using reachable_sock [OF r1, of "demo_th Outer_loop" "demo_round []" "sock_param m" "demo_th Inner_loop"] mem
    by (simp add: session_def os_ok_def demo_round_def taken_def demo_th_def)
qed

text \<open>One chunk has been received.\<close>

lemma demo_fed:
  assumes q: "sq_inv q" "sq_frames q = []" "sq_room q = 49"
    and fr: "framer_ok fr" "rest_ok fr" "0 \<le> fr_queue_limit fr" "pending fr = []" and bs: "bs \<noteq> []" "length bs < 1000"
  defines "m \<equiv> demo_mngr SIDAQ_IDLE q q fr"
  obtains lp th q1 where "reachable m ((session m)\<lparr>sy_m := m\<lparr>sock_param := lp\<rparr>, sy_sock := Some th, sy_in := bs\<rparr>)"
    "ready m q q fr" "ready (m\<lparr>sock_param := lp\<rparr>) q1 q fr" "sq_frames q1 = [bs]"
proof -
  note d = demo_receiving [OF q fr, folded m_def]
  have t: "t_queue (demo_th Inner_loop) = 0" "t_buf_size (demo_th Inner_loop) < 2 ^ 31"
    "os_ok (t_buf_size (demo_th Inner_loop)) (Round (demo_round bs))"
    using bs by (simp_all add: demo_th_def os_ok_def demo_round_def)
  have tk: "taken (demo_round bs) (sock_param m, demo_th Inner_loop) = [bs]"
    using bs by (simp add: taken_def m_def demo_th_def fresh_block_def demo_round_def)
  from sock_round_ready [OF d(1) t d(2)] tk q(2) obtain lp th q1 where
    st: "sock_step SQPut (demo_round bs) (sock_param m, demo_th Inner_loop) = Inr (lp, th)"
    "ready (m\<lparr>sock_param := lp\<rparr>) q1 q fr" "sq_frames q1 = [bs]" by auto
  from reachable_sock [OF d(4) _ t(3), of lp th] d(2) st(1) tk have
    "reachable m ((session m)\<lparr>sy_m := m\<lparr>sock_param := lp\<rparr>, sy_sock := Some th, sy_in := bs\<rparr>)"
    by (simp add: session_def)
  then show thesis using that d(1) st(2,3) by blast
qed

lemma demo_session:
  obtains m q e fr s where "ready m q e fr" "sq_frames q = []" "sq_frames e = []" "pending fr = []" "fr_queue_limit fr = 0"
    "status m = SIDAQ_IDLE" "reachable m s" "sy_in s = [1, 2, 3]" "\<not> sy_was_reset s" "sy_in_run s"
proof -
  obtain q where q: "sq_inv q" "sq_frames q = []" "sq_room q = 49" using demo_store by metis
  have p: "(0::int) < 2" "(2::int) < 1000" by simp_all
  note f = demo_framer_ok [OF p, of 0]
  have a: "0 \<le> fr_queue_limit (demo_framer 2 0)" "[1, 2, 3 :: byte] \<noteq> []" "length [1, 2, 3 :: byte] < 1000"
    using f(4) by simp_all
  from demo_fed [OF q f(1,2) a(1) f(3) a(2,3)] obtain lp th q1 where
    r: "reachable (demo_mngr SIDAQ_IDLE q q (demo_framer 2 0)) ((session (demo_mngr SIDAQ_IDLE q q (demo_framer 2 0)))
      \<lparr>sy_m := (demo_mngr SIDAQ_IDLE q q (demo_framer 2 0))\<lparr>sock_param := lp\<rparr>, sy_sock := Some th, sy_in := [1, 2, 3]\<rparr>)"
    "ready (demo_mngr SIDAQ_IDLE q q (demo_framer 2 0)) q q (demo_framer 2 0)" by blast
  from that [OF r(2) q(2,2) f(3,4) _ r(1)] show thesis by (simp add: session_def)
qed

section \<open>Properties\<close>

text \<open>End to end, for every interleaving of one measurement without an event queue limit: as long as the
  application has not reset the queues, the bytes \<open>recv\<close> returned are exactly the bytes the application
  took, followed by those in the event queue, in the framer and in the receive queue, in this order;
  stop, pause, resume, framing errors and queue limits of the receive queue included.\<close>
theorem session_conserves:
  assumes "reachable m s" "ready m q e fr" "sq_frames q = []" "sq_frames e = []" "pending fr = []" "fr_queue_limit fr = 0"
  shows "\<exists>q1 e1 fr1. squeue_list_ptr (sock_param (sy_m s)) = Some [q1] \<and> m_eventFrame (sy_m s) = Some e1 \<and>
    m_framer (sy_m s) = Some fr1 \<and> sq_inv q1 \<and> sq_inv e1 \<and> framer_ok fr1 \<and>
    (\<not> sy_was_reset s \<longrightarrow> sy_in s = concat (sy_out s) @ concat (sq_frames e1) @ pending fr1 @ concat (sq_frames q1))"
proof -
  from reachable_inv [OF assms(1-5)] obtain q1 e1 fr1 where r: "ready (sy_m s) q1 e1 fr1" "accounted s q1 e1 fr1"
      "fr_queue_limit fr1 = fr_queue_limit fr" by (rule sys_invE)
  then show ?thesis using assms(6)
    by (intro exI [of _ q1] exI [of _ e1] exI [of _ fr1]) (auto simp: ready_def holds_def accounted_def)
qed

theorem session_conserves_witness:
  "\<exists>m s q1 e1 fr1. reachable m s \<and> sy_in s = [1, 2, 3] \<and>
     squeue_list_ptr (sock_param (sy_m s)) = Some [q1] \<and> m_eventFrame (sy_m s) = Some e1 \<and>
     [1, 2, 3] = concat (sy_out s) @ concat (sq_frames e1) @ pending fr1 @ concat (sq_frames q1)"
proof -
  obtain m q e fr s where d: "ready m q e fr" "sq_frames q = []" "sq_frames e = []" "pending fr = []" "fr_queue_limit fr = 0"
    "reachable m s" "sy_in s = [1, 2, 3]" "\<not> sy_was_reset s" by (rule demo_session)
  from session_conserves [OF d(6,1-5)] d(6-8) show ?thesis by metis
qed

text \<open>Safety, for every interleaving and every queue limit: no operation of a reachable state faults.
  The next round of either thread (given memory, and a \<open>recv\<close> that returns what it wrote), the framer
  thread's start and exit, both halves of a reset, taking data and asking for counts all return.\<close>
theorem session_never_faults:
  assumes "reachable m s" "ready m q e fr" "sq_frames q = []" "sq_frames e = []" "pending fr = []"
  shows "(\<forall>env. settled env \<and> framer_memory (sy_m s) \<longrightarrow> (\<exists>r. framer_round env (sy_m s) = Inr r)) \<and>
    (\<forall>env. settled env \<longrightarrow> (\<exists>m1. framer_exit env (sy_m s) = Inr m1)) \<and>
    (\<exists>m1. framer_thread_start (sy_m s) = Inr m1) \<and>
    (\<forall>th os. sy_sock s = Some th \<and> os_ok (t_buf_size th) (Round os) \<and> sock_memory (sy_m s) \<longrightarrow>
       (\<exists>r. sock_step SQPut os (sock_param (sy_m s), th) = Inr r)) \<and>
    (\<exists>r. SiDaqResetQueue (Some (sy_m s)) = Inr r) \<and> (\<exists>m1. reset_end found (sy_m s) = Inr m1) \<and>
    (\<exists>r. get_and_delete w (sy_m s) = Inr r) \<and>
    (\<exists>n. SiDaqGetDataCount (Some (sy_m s)) = Inr n) \<and> (\<exists>n. SiDaqGetFrameDataCount (Some (sy_m s)) = Inr n)"
proof -
  from reachable_inv [OF assms] obtain q1 e1 fr1 where r: "ready (sy_m s) q1 e1 fr1" and t: "thread_ok s"
    by (rule sys_invE)
  have h: "holds (sy_m s) q1 e1 fr1" using r by (simp add: ready_def)
  have "\<exists>r. sock_step SQPut os (sock_param (sy_m s), th) = Inr r"
    if "sy_sock s = Some th" "os_ok (t_buf_size th) (Round os)" "sock_memory (sy_m s)" for th os
    using sock_round_ready [OF r _ _ that(2,3)] t that(1) by (auto simp: thread_ok_def)
  moreover have "\<exists>r. SiDaqResetQueue (Some (sy_m s)) = Inr r"
  proof (cases "status (sy_m s) = SIDAQ_STOPPING \<or> status (sy_m s) = SIDAQ_SYS_ERROR")
    case True
    from reset_ready [OF r True] show ?thesis by blast
  qed (simp add: SiDaqResetQueue_def)
  moreover have "\<exists>n. SiDaqGetDataCount (Some (sy_m s)) = Inr n" "\<exists>n. SiDaqGetFrameDataCount (Some (sy_m s)) = Inr n"
    using h by (simp_all add: SiDaqGetDataCount_def SiDaqGetFrameDataCount_def)
  moreover have "\<exists>x. framer_round env (sy_m s) = Inr x" if "settled env" "framer_memory (sy_m s)" for env
    using round_ready [OF r that] by blast
  moreover have "\<exists>m1. framer_exit env (sy_m s) = Inr m1" if "settled env" for env
    using exit_ready [OF r that] by blast
  moreover have "\<exists>m1. framer_thread_start (sy_m s) = Inr m1" using start_ready [OF r] by blast
  moreover have "\<exists>m1. reset_end found (sy_m s) = Inr m1" using reset_end_ready [OF r] by blast
  moreover have "\<exists>x. get_and_delete w (sy_m s) = Inr x" using get_ready [OF r] by blast
  ultimately show ?thesis by blast
qed

theorem session_never_faults_witness:
  "\<exists>m s. reachable m s \<and> sy_in s = [1, 2, 3] \<and>
     (\<exists>m1. framer_exit quiet_env (sy_m s) = Inr m1) \<and> (\<exists>r. SiDaqResetQueue (Some (sy_m s)) = Inr r) \<and>
     (\<exists>n. SiDaqGetDataCount (Some (sy_m s)) = Inr n)"
proof -
  obtain m q e fr s where d: "ready m q e fr" "sq_frames q = []" "sq_frames e = []" "pending fr = []"
    "reachable m s" "sy_in s = [1, 2, 3]" by (rule demo_session)
  from session_never_faults [OF d(5,1-4)] settled_quiet d(5,6) show ?thesis by blast
qed

section \<open>Data that arrive during a stop\<close>

text \<open>The measurement is over: the framer thread has ended, the manager is Idle, no call is running.\<close>

definition over :: "sys \<Rightarrow> bool" where
  "over s \<longleftrightarrow> sy_fr s = Fr_done \<and> status (sy_m s) = SIDAQ_IDLE \<and> app_free s"

lemma over_step:
  assumes "sys_step s s1" "over s" "sys_inv lim s" "recv_queue (sy_m s) = Inr q"
  shows "over s1 \<and> (\<exists>q1 ds. recv_queue (sy_m s1) = Inr q1 \<and> sq_frames q1 = sq_frames q @ ds)"
proof -
  from assms(3) obtain q' e fr where r: "ready (sy_m s) q' e fr" and t: "thread_ok s" by (rule sys_invE)
  have q: "q' = q" using assms(4) r recv_queue_holds by (auto simp: ready_def)
  from assms(1) show ?thesis
  proof (cases rule: sys_step_cases)
    case (pause m1)
    have "status m1 = status (sy_m s)" using pause(3) by (auto simp: SiDaqPauseRecvData_def split: if_splits)
    then show ?thesis using assms(2) pause(1) recv_queue_holds ready_pause(1) [OF r pause(3)] q
      by (fastforce simp: over_def app_free_def ready_def)
  next
    case (resume m1)
    have "status m1 = status (sy_m s)" using resume(3) by (auto simp: SiDaqResumeRecvData_def split: if_splits)
    then show ?thesis using assms(2) resume(1) recv_queue_holds ready_pause(2) [OF r resume(3)] q
      by (fastforce simp: over_def app_free_def ready_def)
  next
    case (get w bs m1)
    from get_ready [OF r, of w] get(3) obtain e1 where "ready m1 q e1 fr" using q by auto
    moreover have "status m1 = status (sy_m s)"
      using get(3) by (auto simp: get_and_delete_def SiDaqGetData_def)
    ultimately show ?thesis using assms(2) get(1) recv_queue_holds by (fastforce simp: over_def app_free_def ready_def)
  next
    case (sock_start lp th)
    from sock_start_ready(1) [OF r sock_start(3)] show ?thesis
      using assms(2) sock_start(1) recv_queue_holds q by (fastforce simp: over_def app_free_def ready_def)
  next
    case (sock_round th os lp th1)
    have "t_queue th = 0" "t_buf_size th < 2 ^ 31" using t sock_round(2) by (simp_all add: thread_ok_def)
    from sock_round_ready [OF r this sock_round(3,4)] sock_round(5) obtain q1 where
      "ready ((sy_m s)\<lparr>sock_param := lp\<rparr>) q1 e fr" "sq_frames q1 = sq_frames q @ taken os (sock_param (sy_m s), th)"
      using q by auto
    then show ?thesis using assms(2) sock_round(1) recv_queue_holds by (fastforce simp: over_def app_free_def ready_def)
  qed (use assms(2) in \<open>auto simp: over_def app_free_def\<close>)
qed

text \<open>What is on the receive queue stays there, and more may come.\<close>

definition only_grows :: "sys \<Rightarrow> sys \<Rightarrow> bool" where
  "only_grows s s1 \<longleftrightarrow> (\<forall>q. recv_queue (sy_m s) = Inr q \<longrightarrow>
     (\<exists>q1 ds. recv_queue (sy_m s1) = Inr q1 \<and> sq_frames q1 = sq_frames q @ ds))"

lemma only_grows_trans: "only_grows s s1 \<Longrightarrow> only_grows s1 s2 \<Longrightarrow> only_grows s s2"
  unfolding only_grows_def by (metis append.assoc)

interpretation ended: monitored sys_step "\<lambda>s. over s \<and> sys_inv lim s" only_grows for lim
proof
  fix s s1 assume step: "sys_step s s1" and o: "over s \<and> sys_inv lim s"
  from o obtain q e fr where "ready (sy_m s) q e fr" by (blast elim: sys_invE)
  then have "recv_queue (sy_m s) = Inr q" using recv_queue_holds by (auto simp: ready_def)
  then show "over s1 \<and> sys_inv lim s1" using over_step [OF step] sys_step_inv [OF step] o by blast
  show "only_grows s s1" using over_step [OF step] o by (auto simp: only_grows_def)
qed (simp add: only_grows_def, rule only_grows_trans)

text \<open>Blocks that reach the receive queue when the framer thread has already ended are never framed:
  whatever the threads and the application do from then on, short of another \<open>SiDaqRun\<close>, the manager stays
  Idle and the blocks stay where they are, while \<open>SiDaqStop\<close> and \<open>SiDaqResetQueue\<close> have no effect.  The
  socket thread can produce such blocks as long as \<open>SiDaqStop\<close> waits for it.\<close>

theorem stop_strands_data:
  assumes "reachable m s" "ready m q0 e0 fr0" "sq_frames q0 = []" "sq_frames e0 = []" "pending fr0 = []"
    and "over s" "recv_queue (sy_m s) = Inr q" "sys_step\<^sup>*\<^sup>* s s1"
  shows "over s1 \<and> (\<exists>q1 ds. recv_queue (sy_m s1) = Inr q1 \<and> sq_frames q1 = sq_frames q @ ds) \<and>
    SiDaqResetQueue (Some (sy_m s1)) = Inr (Some (sy_m s1)) \<and> SiDaqStop wait (sy_m s1) = (True, sy_m s1)"
proof -
  have start: "over s \<and> sys_inv (fr_queue_limit fr0) s" using assms(6) reachable_inv [OF assms(1-5)] by blast
  have "over s1" "only_grows s s1" using ended.run [OF assms(8) start] ended.run_rel [OF assms(8) start] by simp_all
  then show ?thesis using assms(7) by (auto simp: over_def only_grows_def SiDaqResetQueue_def SiDaqStop_def)
qed

lemma demo_ended:
  obtains m m4 q fr where "sq_frames q = []" "sq_room q = 49" "ready m q q fr" "pending fr = []"
    "ready m4 q q fr" "status m4 = SIDAQ_IDLE" "\<not> pause_flg (sock_param m4)"
    "reachable m ((session m)\<lparr>sy_m := m4, sy_sock := Some (demo_th Inner_loop), sy_in_run := False, sy_fr := Fr_done,
       sy_stop := True\<rparr>)"
proof -
  obtain q where q: "sq_inv q" "sq_frames q = []" "sq_room q = 49" using demo_store by metis
  have p: "(0::int) < 2" "(2::int) < 1000" by simp_all
  note f = demo_framer_ok [OF p, of 0]
  let ?fr = "demo_framer 2 0" and ?th = "demo_th Inner_loop"
  let ?m = "demo_mngr SIDAQ_IDLE q q ?fr"
  have f0: "0 \<le> fr_queue_limit ?fr" using f(4) by simp
  note d = demo_receiving [OF q f(1,2) f0 f(3)]
  let ?s1 = "(session ?m)\<lparr>sy_sock := Some ?th\<rparr>"
  let ?m2 = "run_finish ?m" and ?m3 = "stop_begin (run_finish ?m)"
  have r2: "reachable ?m (?s1\<lparr>sy_m := ?m2, sy_in_run := False\<rparr>)"
    using reachable.step [OF d(4) sys_step.run_returns] by (simp add: session_def)
  have fe: "?fr\<lparr>fr_error_code := 0\<rparr> = ?fr" using f(12) by simp
  have "framer_thread_start ?m2 = Inr ?m2"
    using fe by (simp add: framer_thread_start_def framer_of_def run_finish_def demo_mngr_def)
  then have r3: "reachable ?m (?s1\<lparr>sy_m := ?m2, sy_in_run := False, sy_fr := Fr_loop\<rparr>)"
    using reachable.step [OF r2 sys_step.fr_start] by (simp add: session_def)
  have r4: "reachable ?m (?s1\<lparr>sy_m := ?m3, sy_in_run := False, sy_fr := Fr_loop, sy_stop := True\<rparr>)"
    using reachable.step [OF r3 sys_step.stop_1] by (simp add: session_def app_free_def run_finish_def)
  have rd2: "ready ?m2 q q ?fr" using ready_status [OF d(1)] by (simp add: run_finish_def)
  note rd3 = ready_stop(1) [OF rd2]
  have h3: "holds ?m3 q q ?fr" using rd3 by (simp add: ready_def)
  have s3: "status ?m3 = SIDAQ_STOPPING" by (simp add: stop_begin_def run_finish_def Let_def)
  have mem3: "framer_memory ?m3" "sock_memory ?m3" using h3 q f(3) by (auto simp: framer_memory_def sock_memory_def)
  have "put_rest_frame ?m3 = Inr ?m3" using h3 f(7) by (simp add: put_rest_frame_def)
  then have "framer_round quiet_env ?m3 = Inr (?m3, True)"
    using h3 s3 sq_get_none [OF q(1,2) settled_quiet] set_recv_queue_same [OF h3]
    by (simp add: framer_round_def framer_no_data_def holds_def)
  then have r5: "reachable ?m (?s1\<lparr>sy_m := ?m3, sy_in_run := False, sy_fr := Fr_exit, sy_stop := True\<rparr>)"
    using reachable.step [OF r4 sys_step.fr_round [where env = quiet_env]] s3 mem3 settled_quiet
    by (simp add: session_def framer_runs_def)
  let ?m4 = "?m3\<lparr>status := SIDAQ_IDLE\<rparr>"
  have fl: "fr_error_flg ?fr = 0" by (simp add: demo_framer_def configure_framer_def)
  have "framer_exit quiet_env ?m3 = Inr ?m4" using h3 s3 fl by (simp add: framer_exit_def)
  then have r6: "reachable ?m (?s1\<lparr>sy_m := ?m4, sy_in_run := False, sy_fr := Fr_done, sy_stop := True\<rparr>)"
    using reachable.step [OF r5 sys_step.fr_exit [where env = quiet_env]] settled_quiet by (simp add: session_def)
  have rd4: "ready ?m4 q q ?fr" using ready_status [OF rd3] .
  have "\<not> pause_flg (sock_param ?m4)" by (simp add: stop_begin_def run_finish_def Let_def fresh_block_def)
  moreover have "reachable ?m ((session ?m)\<lparr>sy_m := ?m4, sy_sock := Some ?th, sy_in_run := False, sy_fr := Fr_done,
      sy_stop := True\<rparr>)" using r6 by (simp add: session_def)
  ultimately show thesis using that [OF q(2,3) d(1) f(3) rd4] by simp
qed

lemma demo_stranded:
  obtains m q e fr s q1 where "ready m q e fr" "sq_frames q = []" "sq_frames e = []" "pending fr = []"
    "reachable m s" "over s" "recv_queue (sy_m s) = Inr q1" "sq_frames q1 = [[1, 2, 3]]"
proof -
  let ?th = "demo_th Inner_loop" and ?os = "demo_round [1, 2, 3]"
  obtain m m4 q fr where m: "sq_frames q = []" "sq_room q = 49" "ready m q q fr" "pending fr = []"
    "ready m4 q q fr" "status m4 = SIDAQ_IDLE" "\<not> pause_flg (sock_param m4)"
    "reachable m ((session m)\<lparr>sy_m := m4, sy_sock := Some ?th, sy_in_run := False, sy_fr := Fr_done, sy_stop := True\<rparr>)"
    by (rule demo_ended)
  have mem4: "sock_memory m4" using m(2,5) by (auto simp: sock_memory_def ready_def)
  have t: "t_queue ?th = 0" "t_buf_size ?th < 2 ^ 31" "os_ok (t_buf_size ?th) (Round ?os)"
    by (simp_all add: demo_th_def os_ok_def demo_round_def)
  have tk: "taken ?os (sock_param m4, ?th) = [[1, 2, 3]]"
    using m(7) by (simp add: taken_def demo_th_def demo_round_def)
  from sock_round_ready [OF m(5) t mem4] tk m(1) obtain lp th1 q1 where
    st: "sock_step SQPut ?os (sock_param m4, ?th) = Inr (lp, th1)" and rd5: "ready (m4\<lparr>sock_param := lp\<rparr>) q1 q fr"
    "sq_frames q1 = [[1, 2, 3]]" by auto
  have r7: "reachable m ((session m)\<lparr>sy_m := m4\<lparr>sock_param := lp\<rparr>, sy_sock := Some th1, sy_in_run := False, sy_fr := Fr_done,
      sy_stop := True, sy_in := [1, 2, 3]\<rparr>)"
    using reachable_sock [OF m(8) _ t(3), of lp th1] mem4 st tk by (simp add: session_def)
  let ?s8 = "(session m)\<lparr>sy_m := stop_end (m4\<lparr>sock_param := lp\<rparr>), sy_sock := Some th1, sy_in_run := False, sy_fr := Fr_done,
      sy_stop := False, sy_in := [1, 2, 3]\<rparr>"
  have r8: "reachable m ?s8" using reachable.step [OF r7 sys_step.stop_2] by (simp add: session_def)
  have "over ?s8" using m(6) by (simp add: over_def app_free_def session_def stop_end_def)
  moreover have "recv_queue (sy_m ?s8) = Inr q1" using ready_stop(2) [OF rd5(1)] recv_queue_holds by (fastforce simp: ready_def)
  ultimately show thesis using that [OF m(3,1,1,4) r8] rd5(2) by blast
qed

theorem stop_strands_data_witness:
  "\<exists>m s q1. reachable m s \<and> over s \<and> recv_queue (sy_m s) = Inr q1 \<and> sq_frames q1 = [[1, 2, 3]] \<and>
     SiDaqResetQueue (Some (sy_m s)) = Inr (Some (sy_m s)) \<and> SiDaqStop id (sy_m s) = (True, sy_m s)"
proof -
  obtain m q e fr s q1 where d: "ready m q e fr" "sq_frames q = []" "sq_frames e = []" "pending fr = []"
    "reachable m s" "over s" "recv_queue (sy_m s) = Inr q1" "sq_frames q1 = [[1, 2, 3]]" by (rule demo_stranded)
  from stop_strands_data [OF d(5,1-4,6,7) rtranclp.rtrancl_refl, of id] d(5-8) show ?thesis by blast
qed

end
