(* ===== verification/Cs_Length.thy ===== *)
theory Cs_Length
  imports Frame_Length
begin

text \<open>
  The length function of the C# sample, \<open>GetHeaderLengthFuncSample\<close> of \<open>CsSample/SiDaqConnect.cs\<close>.  The
  README names it, beside \<open>GetFrameLength\<close> of the MFC sample, as the one to follow; here the two are
  compared, and the contract of a framer's length function is proved of it.
\<close>

section \<open>GetHeaderLengthFuncSample\<close>

text \<open>\<open>BitConverter.ToUInt32\<close> at offset 0, on the little-endian platform the sample runs on.\<close>

definition ToUInt32 :: "byte list \<Rightarrow> int" where
  "ToUInt32 bs = uint (bs ! 0) + 256 * uint (bs ! 1) + 65536 * uint (bs ! 2) + 16777216 * uint (bs ! 3)"

text \<open>The header is copied in reverse into a zeroed array of at least four bytes.\<close>

definition reversed_header :: "byte list \<Rightarrow> nat \<Rightarrow> byte list" where
  "reversed_header ret_data header_len =
     foldl (\<lambda>header i. header[i := ret_data ! (header_len - 1 - i)])
       (replicate (if header_len > 4 then header_len else 4) 0) [0..<header_len]"

text \<open>\<open>data_len\<close> and \<open>header_len\<close> are unsigned; the casts to \<open>int\<close> do not check.  An array of more than
  0x7FFFFFC7 bytes cannot be had: \<open>new\<close> throws, and the function catches every exception and returns -1.\<close>

definition GetHeaderLengthFuncSample :: "byte list \<Rightarrow> int \<Rightarrow> int \<Rightarrow> int" where
  "GetHeaderLengthFuncSample recv_data data_len header_len =
     (if data_len < header_len then -1
      else if header_len = 0 then i32 data_len
      else if 0x7FFFFFC7 < header_len then -1
      else let ret_data = take (nat header_len) recv_data;
               ret = ToUInt32 (reversed_header ret_data (nat header_len))
           in if ret = 0 then -1 else i32 ret)"

lemma fill_foldl:
  "length buf = n \<Longrightarrow> k \<le> n \<Longrightarrow> foldl (\<lambda>buf i. buf[i := f i]) buf [0..<k] = map f [0..<k] @ drop k buf"
proof (induction k)
  case (Suc k)
  then have "drop k buf = buf ! k # drop (Suc k) buf" by (intro Cons_nth_drop_Suc [symmetric]) simp
  with Suc show ?case by (simp add: list_update_append)
qed simp

lemma reversed_header_rev:
  assumes "length hs = h"
  shows "reversed_header hs h = rev hs @ replicate (4 - h) 0"
proof -
  have "map (\<lambda>i. hs ! (h - 1 - i)) [0..<h] = rev hs"
    using assms by (auto intro!: nth_equalityI simp: rev_nth)
  then show ?thesis unfolding reversed_header_def by (subst fill_foldl [OF refl]) auto
qed

lemma ToUInt32_be:
  assumes "length hs \<le> 4"
  shows "ToUInt32 (rev hs @ replicate (4 - length hs) 0) = be_value hs"
proof -
  consider "hs = []" | a where "hs = [a]" | a b where "hs = [a, b]" | a b c where "hs = [a, b, c]"
    | a b c d where "hs = [a, b, c, d]"
    using assms by (auto simp: numeral_eq_Suc le_Suc_eq length_Suc_conv)
  then show ?thesis by cases (simp_all add: ToUInt32_def eval_nat_numeral)
qed

lemma i32_be_value:
  assumes "length hs \<le> 4"
  shows "i32 (be_value hs) = 0 \<longleftrightarrow> be_value hs = 0"
proof -
  have "(256::int) ^ length hs \<le> 256 ^ 4" using assms by (intro power_increasing) simp_all
  with be_value_range [of hs] have v: "0 \<le> be_value hs" "be_value hs < 2 ^ 32" by simp_all
  have "u32 (i32 (be_value hs)) = be_value hs" unfolding u32_i32 using v by (rule u32_id)
  moreover have "i32 0 = 0" "u32 0 = 0" by (simp_all add: i32_def u32_def)
  ultimately show ?thesis by metis
qed

lemma GetHeaderLengthFuncSample_be:
  assumes "0 < h" "h \<le> 4" "h \<le> length bs"
  shows "GetHeaderLengthFuncSample bs (int (length bs)) (int h) =
    header_answer (be_value (take h bs))"
proof -
  have l: "length (take h bs) = h" using assms(3) by simp
  have "ToUInt32 (reversed_header (take h bs) h) = be_value (take h bs)"
    using ToUInt32_be [of "take h bs"] reversed_header_rev [OF l] l assms(2) by simp
  then show ?thesis
    using assms l i32_be_value [of "take h bs"] by (simp add: GetHeaderLengthFuncSample_def header_answer_def Let_def)
qed

interpretation forms: length_function GetHeaderLengthFuncSample
  by unfold_locales (rule GetHeaderLengthFuncSample_be)

section \<open>The two length functions\<close>

text \<open>Behind zeros both functions read the last four bytes of a longer header.\<close>

lemma header_term_drop: "k \<le> h \<Longrightarrow> k + i < length bs \<Longrightarrow>
    header_term bs (int h) (k + i) = header_term (drop k bs) (int (h - k)) i"
  by (simp add: header_term_def of_nat_diff algebra_simps)

lemma foldl_zero: "\<forall>i\<in>set xs. f i = (0::int) \<Longrightarrow> foldl (\<lambda>h i. i32 (h + f i)) 0 xs = 0"
  by (induction xs) (simp_all add: i32_def)

lemma GetFrameLength_drop:
  assumes "set (take k bs) \<subseteq> {0}" "k < h" "h \<le> length bs"
  shows "GetFrameLength bs (int (length bs)) (int h) =
    GetFrameLength (drop k bs) (int (length (drop k bs))) (int (h - k))"
proof -
  have z: "bs ! i = 0" if "i < k" for i
  proof -
    have "take k bs ! i \<in> set (take k bs)" using that assms(2,3) by (intro nth_mem) simp
    then show ?thesis using assms(1) that by auto
  qed
  have u: "[0..<h] = [0..<k] @ map (\<lambda>i. k + i) [0..<h - k]"
    using assms(2) upt_add_eq_append [of 0 k "h - k"] map_add_upt [of k "h - k"] by (simp add: add.commute)
  have "foldl (\<lambda>hd i. i32 (hd + header_term bs (int h) i)) 0 [0..<k] = 0"
    by (intro foldl_zero) (simp add: header_term_def z i32_def)
  then have "foldl (\<lambda>hd i. i32 (hd + header_term bs (int h) i)) 0 [0..<h] =
      foldl (\<lambda>hd i. i32 (hd + header_term bs (int h) (k + i))) 0 [0..<h - k]"
    unfolding u by (simp add: foldl_map)
  also have "\<dots> = foldl (\<lambda>hd i. i32 (hd + header_term (drop k bs) (int (h - k)) i)) 0 [0..<h - k]"
    using assms(2,3) by (intro foldl_cong) (simp_all add: header_term_drop)
  finally show ?thesis using assms(2,3) by (simp add: GetFrameLength_def Let_def del: of_nat_diff_if of_nat_diff)
qed

lemma ToUInt32_rev:
  assumes "4 \<le> length hs"
  shows "ToUInt32 (rev hs) = be_value (drop (length hs - 4) hs)"
proof -
  let ?l = "drop (length hs - 4) hs"
  have "rev hs = rev ?l @ rev (take (length hs - 4) hs)"
    by (metis append_take_drop_id rev_append)
  moreover have "length ?l = 4" using assms by simp
  ultimately have "ToUInt32 (rev hs) = ToUInt32 (rev ?l)" by (simp add: ToUInt32_def nth_append)
  then show ?thesis using ToUInt32_be [of ?l] \<open>length ?l = 4\<close> by simp
qed

text \<open>A header of more than four bytes: the last four count, whatever stands before them.\<close>

lemma GetHeaderLengthFuncSample_long:
  assumes "4 \<le> h" "h \<le> length bs" "int h \<le> 0x7FFFFFC7"
  shows "GetHeaderLengthFuncSample bs (int (length bs)) (int h) =
    header_answer (be_value (drop (h - 4) (take h bs)))"
proof -
  have l: "length (take h bs) = h" using assms(2) by simp
  have "ToUInt32 (reversed_header (take h bs) h) = be_value (drop (h - 4) (take h bs))"
    using ToUInt32_rev [of "take h bs"] reversed_header_rev [OF l] l assms(1) by simp
  then show ?thesis
    using assms l i32_be_value [of "drop (h - 4) (take h bs)"] by (simp add: GetHeaderLengthFuncSample_def header_answer_def Let_def)
qed

lemma GetFrameLength_5:
  assumes "length hs = 4"
  shows "GetFrameLength (a # hs) 5 5 =
    header_answer (uint a + be_value hs)"
proof -
  have "header_term (a # hs) 5 0 = i32 (uint a)" by (simp add: header_term_def u32_def)
  moreover have "header_term (a # hs) 5 (Suc i) = header_term hs 4 i" if "i < 4" for i
    using header_term_drop [of 1 5 i "a # hs"] that assms by simp
  moreover have "[0..<5] = 0 # map Suc [0..<4]" by (simp add: upt_rec)
  ultimately have "foldl (\<lambda>hd i. i32 (hd + header_term (a # hs) 5 i)) 0 [0..<5] =
      foldl (\<lambda>hd i. i32 (hd + header_term hs 4 i)) (i32 (uint a)) [0..<4]"
    using i32_add(1) [of "uint a" 0] by (auto simp: foldl_map intro!: foldl_cong)
  also have "\<dots> = foldl (\<lambda>hd i. i32 (hd + i32 (uint (hs ! i) * 256 ^ (4 - 1 - i)))) (i32 (uint a)) [0..<4]"
    using header_term_small [of 4 _ hs] by (intro foldl_cong) simp_all
  also have "\<dots> = i32 (uint a + be_value hs)"
    unfolding foldl_i32 be_value_sum assms ..
  finally show ?thesis by (simp add: GetFrameLength_def header_answer_def Let_def)
qed

lemma length_functions_differ:
  assumes "length hs = 4" "a \<noteq> 0" "\<not> (a = 1 \<and> be_value hs = 2 ^ 32 - 1)"
  shows "GetHeaderLengthFuncSample (a # hs) 5 5 \<noteq> GetFrameLength (a # hs) 5 5"
proof
  assume eq: "GetHeaderLengthFuncSample (a # hs) 5 5 = GetFrameLength (a # hs) 5 5"
  let ?x = "be_value hs" and ?a = "uint a"
  have x: "0 \<le> ?x" "?x < 2 ^ 32" using be_value_range [of hs] assms(1) by simp_all
  have "?a \<noteq> 0" using assms(2) by (simp add: uint_0_iff)
  then have a: "0 < ?a" "?a < 256" using uint_lt2p [of a] uint_ge_0 [of a] by (linarith, simp)
  have "GetHeaderLengthFuncSample (a # hs) 5 5 = header_answer ?x"
    using GetHeaderLengthFuncSample_long [of 5 "a # hs"] assms(1) by (simp add: numeral_eq_Suc)
  with eq GetFrameLength_5 [OF assms(1), of a] have "header_answer ?x = header_answer (?a + ?x)" by simp
  then have "u32 (header_answer ?x) = u32 (header_answer (?a + ?x))" by simp
  then have e: "(if u32 ?x = 0 then 2 ^ 32 - 1 else u32 ?x) =
      (if u32 (?a + ?x) = 0 then 2 ^ 32 - 1 else u32 (?a + ?x))"
    by (simp only: u32_header_answer)
  have "u32 ?x = ?x" using x by (rule u32_id)
  moreover have "u32 (?a + ?x) = (if ?a + ?x < 2 ^ 32 then ?a + ?x else ?a + ?x - 2 ^ 32)"
  proof (cases "?a + ?x < 2 ^ 32")
    case True
    then show ?thesis using x a by (simp add: u32_id)
  next
    case False
    have "u32 (?a + ?x) = u32 (?a + ?x - 2 ^ 32)" by (simp add: u32_def)
    also have "\<dots> = ?a + ?x - 2 ^ 32" using False x a by (intro u32_id) simp_all
    finally show ?thesis using False by simp
  qed
  ultimately have "?a = 1 \<and> ?x = 2 ^ 32 - 1" using e x a by (auto split: if_splits)
  moreover have "a = 1" if "?a = 1" using that by (simp add: word_uint_eq_iff)
  ultimately show False using assms(3) by blast
qed

text \<open>C33: The two length functions the README names give the same length for every header of at most four
  bytes, and for longer ones whose bytes before the last four are zero.  Beyond that they are different
  functions: on every header of five bytes that starts with another byte they disagree, except that both
  answer -1 to 1, 255, 255, 255, 255.\<close>

theorem length_functions_agree:
  assumes "h \<le> 4 \<or> set (take (h - 4) bs) \<subseteq> {0} \<and> int h \<le> 0x7FFFFFC7"
  shows "GetHeaderLengthFuncSample bs (int (length bs)) (int h) = GetFrameLength bs (int (length bs)) (int h) \<and>
    (\<forall>a hs. length hs = 4 \<and> a \<noteq> 0 \<and> \<not> (a = 1 \<and> be_value hs = 2 ^ 32 - 1) \<longrightarrow>
      GetHeaderLengthFuncSample (a # hs) 5 5 \<noteq> GetFrameLength (a # hs) 5 5)"
proof -
  consider "length bs < h" | "h = 0" | "0 < h" "h \<le> 4" "h \<le> length bs" | "4 < h" "h \<le> length bs" by linarith
  then have "GetHeaderLengthFuncSample bs (int (length bs)) (int h) = GetFrameLength bs (int (length bs)) (int h)"
  proof cases
    case 4
    then have "set (take (h - 4) bs) \<subseteq> {0}" "int h \<le> 0x7FFFFFC7" using assms by auto
    with 4 GetFrameLength_drop [of "h - 4" bs h] GetFrameLength_be [of 4 "drop (h - 4) bs"]
      GetHeaderLengthFuncSample_long [of h bs]
    show ?thesis by (simp add: drop_take)
  qed (simp_all add: GetFrameLength_be GetHeaderLengthFuncSample_be,
       simp_all add: GetFrameLength_def GetHeaderLengthFuncSample_def)
  then show ?thesis using length_functions_differ by blast
qed

theorem length_functions_agree_witness:
  "GetHeaderLengthFuncSample [0, 0, 0, 1, 2, 9] 6 5 = GetFrameLength [0, 0, 0, 1, 2, 9] 6 5 \<and>
   GetHeaderLengthFuncSample [0, 0, 0, 1, 2, 9] 6 5 = 258 \<and>
   GetHeaderLengthFuncSample [1, 0, 0, 0, 8] 5 5 \<noteq> GetFrameLength [1, 0, 0, 0, 8] 5 5"
proof -
  let ?bs = "[0, 0, 0, 1, 2, 9 :: byte]"
  have "GetHeaderLengthFuncSample ?bs (int (length ?bs)) (int 5) = GetFrameLength ?bs (int (length ?bs)) (int 5) \<and>
    (\<forall>a hs. length hs = 4 \<and> a \<noteq> 0 \<and> \<not> (a = 1 \<and> be_value hs = 2 ^ 32 - 1) \<longrightarrow>
      GetHeaderLengthFuncSample (a # hs) 5 5 \<noteq> GetFrameLength (a # hs) 5 5)"
    by (rule length_functions_agree) simp
  moreover have "GetHeaderLengthFuncSample ?bs 6 5 = 258" by code_simp
  ultimately show ?thesis by simp
qed

end
