(* ===== verification/SiDaq_Frames.thy ===== *)
theory SiDaq_Frames
  imports SiDaq_System Cs_Length
begin

text \<open>
  A measurement frame by frame: for every interleaving the blocks the application takes are exactly the
  frames of the received stream, as the specification \<open>split_frames\<close> cuts it.
\<close>

section \<open>The specification\<close>

lemma split_nonempty: "[] \<notin> set (fst (split_frames fr bs))"
proof (induction fr bs rule: split_frames.induct)
  case (1 fr bs)
  let ?n = "nat (frame_size fr bs)"
  show ?case
  proof (cases "no_head fr bs \<or> ?n = 0 \<or> length bs < ?n")
    case True
    then show ?thesis by (subst split_frames.simps) (auto simp: Let_def)
  next
    case False
    then have "take ?n bs \<noteq> []" by (cases bs) auto
    then show ?thesis using "1.IH" [OF refl False] False by (subst split_frames.simps) (auto simp: Let_def split: prod.split)
  qed
qed

text \<open>A framer whose cuts depend on the header only, and without a queue limit.\<close>

definition stream_framer :: "SiDaqFramer \<Rightarrow> bool" where
  "stream_framer fr \<longleftrightarrow> fr_queue_limit fr = 0 \<and> keyed fr \<and> fr_header_len fr < fr_max_frame_len fr \<and> 0 \<le> fr_header_len fr"

lemma stream_framer_same: "stream_framer fr \<Longrightarrow> same_config fr fr2 \<Longrightarrow> stream_framer fr2"
  by (simp add: stream_framer_def same_config_def keyed_def)

section \<open>A round of the framer thread\<close>

text \<open>A round that finds a block whose frames are acceptable.\<close>

lemma round_frames:
  assumes r: "ready m q e fr" and f: "sq_frames q = f # fs" and env: "settled env" and mem: "framer_memory m"
    and st: "stream_framer fr" "stream_ok fr (pending fr @ f)"
  shows "\<exists>m1 q1 e1 fr1. framer_round env m = Inr (m1, False) \<and> ready m1 q1 e1 fr1 \<and> same_config fr fr1 \<and>
    sq_frames q1 = fs \<and> sq_frames e1 = sq_frames e @ fst (split_frames fr (pending fr @ f)) \<and>
    pending fr1 = snd (split_frames fr (pending fr @ f))"
proof -
  have h: "holds m q e fr" and e: "sq_inv e" and ok: "framer_ok fr" "rest_ok fr" "0 \<le> fr_queue_limit fr"
    and sizes: "\<forall>f\<in>set (sq_frames q). length f < 2 ^ 31"
    using r by (simp_all add: ready_def)
  have k: "fr_queue_limit fr = 0" "keyed fr" "fr_header_len fr < fr_max_frame_len fr"
    using st(1) by (simp_all add: stream_framer_def)
  have room: "length (pending fr) + length f \<le> sq_room e" using mem h f by (auto simp: framer_memory_def)
  obtain q1 where q2: "sq_inv (q1\<lparr>quota := quota q1 + 1\<rparr>)" "sq_frames (q1\<lparr>quota := quota q1 + 1\<rparr>) = fs" and
    run: "framer_round env m = obind (framer_receive env f (int (length f)) (set_recv_queue q1 m)) (\<lambda>m2.
       obind (framer_error_check env (set_recv_queue (q1\<lparr>quota := quota q1 + 1\<rparr>) m2)) (\<lambda>m3. Inr (m3, False)))"
    by (rule round_get [OF r f env])
  let ?q2 = "q1\<lparr>quota := quota q1 + 1\<rparr>" and ?s = "split_frames fr (pending fr @ f)"
  obtain m2 e1 fr1 where m2: "framer_receive env f (int (length f)) (set_recv_queue q1 m) = Inr m2"
    "holds m2 q1 e1 fr1" "sq_inv e1" "framer_ok fr1" "rest_ok fr1" "same_config fr fr1"
    "sq_frames e1 = sq_frames e @ fst ?s" "pending fr1 = snd ?s"
  proof (cases "f = []")
    case True
    then show thesis using that [of "set_recv_queue q1 m" e fr] e ok holds_set_recv [OF h, of q1] split_pending k(2)
      by (simp add: framer_receive_def)
  next
    case False
    have "length f < 2 ^ 31" using sizes f by simp
    from sqb.recv_splits [OF e room ok(1,2) k(1) this False k(2,3) st(2), of "the (fe_past env)", folded settled_past [OF env]] obtain fr1 e1 where rr:
      "RecvSiDaqData SQPut (fe_past env) fr f (int (length f)) e = Inr (int (length (fst ?s)), fr1, e1)"
      "sq_inv e1" "sq_frames e1 = sq_frames e @ fst ?s" "pending fr1 = snd ?s" "framer_ok fr1" "rest_ok fr1"
      "same_config fr fr1" by blast
    let ?m2 = "(set_recv_queue q1 m)\<lparr>m_framer := Some fr1, m_eventFrame := Some e1\<rparr>"
    have "framer_receive env f (int (length f)) (set_recv_queue q1 m) = Inr ?m2"
      using False holds_set_recv [OF h, of q1] rr(1) by (simp add: framer_receive_def)
    moreover have "holds ?m2 q1 e1 fr1" using holds_set_recv [OF h, of q1] by (simp add: holds_def)
    ultimately show thesis using that rr by blast
  qed
  have rd: "ready (set_recv_queue ?q2 m2) ?q2 e1 fr1"
    using m2(3-6) ok(3) holds_set_recv [OF m2(2), of ?q2] q2 sizes f by (auto simp: ready_def same_config_def)
  have kq: "keeps_queues (fe_wait env)" using env by (simp add: settled_defs)
  from ready_error_check [OF rd kq] obtain m4 fr4 where m4:
    "framer_error_check env (set_recv_queue ?q2 m2) = Inr m4" "ready m4 ?q2 e1 fr4" "pending fr4 = pending fr1"
    "same_config fr1 fr4" by blast
  have "framer_round env m = Inr (m4, False)" using run m2(1) m4(1) by simp
  then show ?thesis using m4(2,3) same_config_trans [OF m2(6) m4(4)] q2(2) m2(7,8)
    by (intro exI [of _ m4] exI [of _ ?q2] exI [of _ e1] exI [of _ fr4]) simp
qed

section \<open>The invariant\<close>

text \<open>\<open>used\<close> is what the framer has consumed.  Its frames are with the application or on the event queue; what
  is left of it is in the framer, or, once the framer thread has left its loop, was delivered as it is.\<close>

definition delivered :: "SiDaqFramer \<Rightarrow> byte list \<Rightarrow> sys \<Rightarrow> sqstore \<Rightarrow> SiDaqFramer \<Rightarrow> bool" where
  "delivered fr0 used s e fr \<longleftrightarrow>
     sy_out s @ sq_frames e = fst (split_frames fr0 used) \<and> pending fr = snd (split_frames fr0 used) \<or>
     sy_fr s \<in> {Fr_exit, Fr_done} \<and> pending fr = [] \<and>
       sy_out s @ sq_frames e = fst (split_frames fr0 used) @ nonempty (snd (split_frames fr0 used))"

definition frames_inv :: "SiDaqFramer \<Rightarrow> sys \<Rightarrow> bool" where
  "frames_inv fr0 s \<longleftrightarrow> (\<exists>q e fr used. ready (sy_m s) q e fr \<and> same_config fr0 fr \<and>
     sy_in s = used @ concat (sq_frames q) \<and> delivered fr0 used s e fr)"

lemma frames_invI:
  "ready (sy_m s) q e fr \<Longrightarrow> same_config fr0 fr \<Longrightarrow> sy_in s = used @ concat (sq_frames q) \<Longrightarrow>
   delivered fr0 used s e fr \<Longrightarrow> frames_inv fr0 s"
  unfolding frames_inv_def by blast

lemma frames_invE:
  assumes "frames_inv fr0 s"
  obtains q e fr used where "ready (sy_m s) q e fr" "same_config fr0 fr" "sy_in s = used @ concat (sq_frames q)"
    "delivered fr0 used s e fr"
  using assms unfolding frames_inv_def by blast

text \<open>Steps that leave the queues, the framer, the framer thread and the two records alone.\<close>

lemma frames_inv_same:
  assumes "frames_inv fr0 s" "\<And>q e fr. ready (sy_m s) q e fr \<Longrightarrow> ready (sy_m s1) q e fr"
    and "sy_in s1 = sy_in s" "sy_out s1 = sy_out s" "sy_fr s1 = sy_fr s"
  shows "frames_inv fr0 s1"
proof -
  from assms(1) obtain q e fr used where r: "ready (sy_m s) q e fr" "same_config fr0 fr"
    "sy_in s = used @ concat (sq_frames q)" "delivered fr0 used s e fr" by (rule frames_invE)
  show ?thesis
    by (rule frames_invI [OF assms(2) [OF r(1)] r(2), of used]) (use r assms in \<open>simp_all add: delivered_def\<close>)
qed

lemma frames_step_framer:
  assumes "frames_inv fr0 s" "stream_framer fr0" "stream_ok fr0 (sy_in s)" "sy_fr s = Fr_loop" "settled env"
    "framer_memory (sy_m s)" "framer_round env (sy_m s) = Inr (m1, ends)"
  shows "frames_inv fr0 (s\<lparr>sy_m := m1, sy_fr := (if ends then Fr_exit else Fr_loop)\<rparr>)"
proof -
  from assms(1) obtain q e fr used where r: "ready (sy_m s) q e fr" "same_config fr0 fr"
    "sy_in s = used @ concat (sq_frames q)" "delivered fr0 used s e fr" by (rule frames_invE)
  have d: "sy_out s @ sq_frames e = fst (split_frames fr0 used)" "pending fr = snd (split_frames fr0 used)"
    using r(4) assms(4) by (auto simp: delivered_def)
  show ?thesis
  proof (cases "sq_frames q")
    case Nil
    from round_none [OF r(1) assms(5) Nil assms(6)] assms(7) obtain e1 fr1 where m1: "ready m1 q e1 fr1" "same_config fr fr1"
      "if ends then sq_frames e1 = sq_frames e @ nonempty (pending fr) \<and> pending fr1 = []
       else sq_frames e1 = sq_frames e \<and> pending fr1 = pending fr" by auto
    show ?thesis
      by (rule frames_invI [of _ q e1 fr1 fr0 used])
        (use m1 r(3) d same_config_trans [OF r(2) m1(2)] in \<open>auto simp: delivered_def split: if_splits\<close>)
  next
    case (Cons f fs)
    have h: "0 \<le> fr_header_len fr0" using assms(2) by (simp add: stream_framer_def)
    have "stream_ok fr0 ((used @ f) @ concat fs)" using assms(3) r(3) Cons by simp
    then have "stream_ok fr0 (used @ f)" using stream_ok_append [OF h] by blast
    then have so: "stream_ok fr0 (pending fr @ f)" using stream_ok_append [OF h] d(2) by metis
    note sp = split_append [OF h, of used f]
    note same = same_config_spec [OF r(2)]
    have sf: "stream_framer fr" using stream_framer_same [OF assms(2) r(2)] .
    have "stream_ok fr (pending fr @ f)" using so same(2) by simp
    from round_frames [OF r(1) Cons assms(5,6) sf this] assms(7) obtain q1 e1 fr1 where
      m1: "\<not> ends" "ready m1 q1 e1 fr1" "same_config fr fr1" "sq_frames q1 = fs"
      "sq_frames e1 = sq_frames e @ fst (split_frames fr (pending fr @ f))"
      "pending fr1 = snd (split_frames fr (pending fr @ f))" by auto
    show ?thesis
      by (rule frames_invI [of _ q1 e1 fr1 fr0 "used @ f"])
        (use m1 r(3) Cons d sp same(1) same_config_trans [OF r(2) m1(3)] in \<open>simp_all add: delivered_def\<close>)
  qed
qed

lemma frames_step_get:
  assumes "frames_inv fr0 s" "get_and_delete w (sy_m s) = Inr (bs, m1)"
  shows "frames_inv fr0 (s\<lparr>sy_m := m1, sy_out := sy_out s @ nonempty bs\<rparr>)"
proof -
  from assms(1) obtain q e fr used where r: "ready (sy_m s) q e fr" "same_config fr0 fr"
    "sy_in s = used @ concat (sq_frames q)" "delivered fr0 used s e fr" by (rule frames_invE)
  from get_ready [OF r(1), of w] assms(2) obtain e1 where g: "ready m1 q e1 fr"
    "if sq_frames e = [] then bs = [] \<and> sq_frames e1 = [] else sq_frames e = bs # sq_frames e1" by auto
  have "[] \<notin> set (sy_out s @ sq_frames e)"
    using r(4) split_nonempty [of fr0 used] nonempty_simps(4) unfolding delivered_def by (metis Un_iff set_append)
  then have "(sy_out s @ nonempty bs) @ sq_frames e1 = sy_out s @ sq_frames e"
    using g(2) by (auto split: if_splits)
  then show ?thesis
    by (intro frames_invI [of _ q e1 fr fr0 used]) (use r g(1) in \<open>simp_all add: delivered_def\<close>)
qed

lemma frames_step_sock:
  assumes "frames_inv fr0 s" "thread_ok s" "sy_sock s = Some th" "os_ok (t_buf_size th) (Round os)" "sock_memory (sy_m s)"
    "sock_step SQPut os (sock_param (sy_m s), th) = Inr (lp, th1)"
  shows "frames_inv fr0 (s\<lparr>sy_m := (sy_m s)\<lparr>sock_param := lp\<rparr>, sy_sock := Some th1,
    sy_in := sy_in s @ concat (taken os (sock_param (sy_m s), th))\<rparr>)"
proof -
  from assms(1) obtain q e fr used where r: "ready (sy_m s) q e fr" "same_config fr0 fr"
    "sy_in s = used @ concat (sq_frames q)" "delivered fr0 used s e fr" by (rule frames_invE)
  have "t_queue th = 0" "t_buf_size th < 2 ^ 31" using assms(2,3) by (simp_all add: thread_ok_def)
  from sock_round_ready [OF r(1) this assms(4,5)] assms(6) obtain q1 where
    "ready ((sy_m s)\<lparr>sock_param := lp\<rparr>) q1 e fr" "sq_frames q1 = sq_frames q @ taken os (sock_param (sy_m s), th)" by auto
  then show ?thesis
    by (intro frames_invI [of _ q1 e fr fr0 used]) (use r in \<open>simp_all add: delivered_def\<close>)
qed

text \<open>What has been received only grows, and a reset is not forgotten.\<close>

lemma sys_step_grows:
  "sys_step s s1 \<Longrightarrow> (\<exists>bs. sy_in s1 = sy_in s @ bs) \<and> (sy_was_reset s \<longrightarrow> sy_was_reset s1)"
  by (induction rule: sys_step.induct) simp_all

lemma frames_step_start:
  assumes "frames_inv fr0 s" "framer_thread_start (sy_m s) = Inr m1" "sy_fr s = Fr_start"
  shows "frames_inv fr0 (s\<lparr>sy_m := m1, sy_fr := Fr_loop\<rparr>)"
proof -
  from assms(1) obtain q e fr used where r: "ready (sy_m s) q e fr" "same_config fr0 fr"
    "sy_in s = used @ concat (sq_frames q)" "delivered fr0 used s e fr" by (rule frames_invE)
  from start_ready [OF r(1)] assms(2) obtain fr1 where m1: "ready m1 q e fr1" "pending fr1 = pending fr" "same_config fr fr1"
    by auto
  show ?thesis
    by (rule frames_invI [of _ q e fr1 fr0 used])
      (use r m1 assms(3) same_config_trans [OF r(2) m1(3)] in \<open>simp_all add: delivered_def\<close>)
qed

lemma frames_step_exit:
  assumes "frames_inv fr0 s" "framer_exit env (sy_m s) = Inr m1" "settled env" "sy_fr s = Fr_exit"
  shows "frames_inv fr0 (s\<lparr>sy_m := m1, sy_fr := Fr_done\<rparr>)"
proof -
  from assms(1) obtain q e fr used where r: "ready (sy_m s) q e fr" "same_config fr0 fr"
    "sy_in s = used @ concat (sq_frames q)" "delivered fr0 used s e fr" by (rule frames_invE)
  from exit_ready [OF r(1) assms(3)] assms(2) have "ready m1 q e fr" by auto
  then show ?thesis by (intro frames_invI [of _ q e fr fr0 used]) (use r assms(4) in \<open>auto simp: delivered_def\<close>)
qed

lemma frames_step:
  assumes "sys_step s s1" "frames_inv fr0 s" "sys_inv lim s" "stream_framer fr0" "stream_ok fr0 (sy_in s1)" "\<not> sy_was_reset s1"
  shows "frames_inv fr0 s1"
  using assms
proof (cases rule: sys_step_cases)
  case run_returns
  then show ?thesis using frames_inv_same [OF assms(2)] ready_status by (simp add: run_finish_def)
next
  case stop_1
  then show ?thesis using frames_inv_same [OF assms(2)] ready_stop(1) by simp
next
  case stop_2
  then show ?thesis using frames_inv_same [OF assms(2)] ready_stop(2) by simp
next
  case (pause m1)
  then show ?thesis using frames_inv_same [OF assms(2)] ready_pause(1) by simp
next
  case (resume m1)
  then show ?thesis using frames_inv_same [OF assms(2)] ready_pause(2) by simp
next
  case reset_1
  then show ?thesis using assms(6) by simp
next
  case (reset_2 found m1)
  then have "sy_was_reset s" using assms(3) by (auto simp: sys_inv_def thread_ok_def)
  then show ?thesis using assms(6) reset_2 by simp
next
  case (get w bs m1)
  then show ?thesis using frames_step_get [OF assms(2)] by simp
next
  case (sock_start lp th)
  then show ?thesis using frames_inv_same [OF assms(2)] sock_start_ready(1) by simp
next
  case (sock_round th os lp th1)
  have "thread_ok s" using assms(3) by (simp add: sys_inv_def)
  with sock_round show ?thesis using frames_step_sock [OF assms(2)] by simp
next
  case (fr_start m1)
  then show ?thesis using frames_step_start [OF assms(2)] by simp
next
  case (fr_round env m1 ends)
  then have "stream_ok fr0 (sy_in s)" using assms(5) by simp
  with fr_round show ?thesis using frames_step_framer [OF assms(2,4)] by simp
next
  case fr_leave
  from assms(2) show ?thesis unfolding fr_leave(1) using fr_leave(2) by (auto simp: frames_inv_def delivered_def)
next
  case (fr_exit env m1)
  then show ?thesis using frames_step_exit [OF assms(2)] by simp
qed

lemma frames_reachable:
  assumes "reachable m s" "ready m q e fr" "sq_frames q = []" "sq_frames e = []" "pending fr = []"
    and "stream_framer fr" "stream_ok fr (sy_in s)" "\<not> sy_was_reset s"
  shows "frames_inv fr s"
  using assms(1,7,8)
proof (induction rule: reachable.induct)
  case start
  have "split_frames fr [] = ([], [])" by (simp add: split_none no_head_def)
  then show ?case using assms(2-6)
    by (intro frames_invI [of _ q e fr fr "[]"]) (simp_all add: session_def delivered_def)
next
  case (step s s1)
  have g: "\<not> sy_was_reset s" "stream_ok fr (sy_in s)"
    using sys_step_grows [OF step.hyps(2)] step.prems stream_ok_append assms(6) by (auto simp: stream_framer_def)
  show ?case
    using frames_step [OF step.hyps(2) step.IH [OF g(2,1)] reachable_inv [OF step.hyps(1) assms(2-5)] assms(6) step.prems] .
qed

section \<open>A run for the examples\<close>

text \<open>One chunk has been received and framed.\<close>

lemma demo_framed:
  assumes q: "sq_inv q" "sq_frames q = []" "sq_room q = 49"
    and fr: "framer_ok fr" "rest_ok fr" "stream_framer fr" "pending fr = []"
    and bs: "bs \<noteq> []" "length bs < 49" "stream_ok fr bs"
  obtains s q1 e1 fr1 where "reachable (demo_mngr SIDAQ_IDLE q q fr) s" "ready (demo_mngr SIDAQ_IDLE q q fr) q q fr"
    "\<not> sy_in_run s" "sy_in s = bs" "sy_out s = []" "\<not> sy_was_reset s" "sy_fr s = Fr_loop" "ready (sy_m s) q1 e1 fr1"
    "sq_frames q1 = []" "sq_frames e1 = fst (split_frames fr bs)"
proof -
  let ?m = "demo_mngr SIDAQ_IDLE q q fr"
  have l: "0 \<le> fr_queue_limit fr" "length bs < 1000" using fr(3) bs(2) by (simp_all add: stream_framer_def)
  obtain lp th q1 where s0: "reachable ?m ((session ?m)\<lparr>sy_m := ?m\<lparr>sock_param := lp\<rparr>, sy_sock := Some th, sy_in := bs\<rparr>)"
    "ready ?m q q fr" "ready (?m\<lparr>sock_param := lp\<rparr>) q1 q fr" "sq_frames q1 = [bs]"
    by (rule demo_fed [OF q fr(1,2) l(1) fr(4) bs(1) l(2)])
  let ?m1 = "run_finish (?m\<lparr>sock_param := lp\<rparr>)"
  let ?s1 = "(session ?m)\<lparr>sy_m := ?m1, sy_sock := Some th, sy_in := bs, sy_in_run := False\<rparr>"
  have s1: "reachable ?m ?s1" using reachable.step [OF s0(1) sys_step.run_returns] by (simp add: session_def)
  have r1: "ready ?m1 q1 q fr" using ready_status [OF s0(3)] by (simp add: run_finish_def)
  let ?fr2 = "fr\<lparr>fr_error_code := 0, fr_error_flg := fr_error_flg fr\<rparr>"
  let ?m2 = "?m1\<lparr>m_framer := Some ?fr2\<rparr>"
  note r2 = ready_framer_error [OF r1 refl, where c = 0 and g = "fr_error_flg fr"]
  have "framer_thread_start ?m1 = Inr ?m2"
    using r1 by (simp add: framer_thread_start_def framer_of_def ready_def holds_def)
  then have s2: "reachable ?m (?s1\<lparr>sy_m := ?m2, sy_fr := Fr_loop\<rparr>)"
    using reachable.step [OF s1 sys_step.fr_start] by (simp add: session_def)
  have c: "same_config fr ?fr2" by (simp add: same_config_def)
  have mem: "framer_memory ?m2" using r2(1,2) s0(4) q(3) bs(2) fr(4) by (auto simp: framer_memory_def ready_def)
  have so: "stream_ok ?fr2 (pending ?fr2 @ bs)" using r2(2) fr(4) bs(3) same_config_spec(2) [OF c] by simp
  from round_frames [OF r2(1) s0(4) settled_quiet mem stream_framer_same [OF fr(3) c] so] obtain m3 q3 e3 fr3 where
    m3: "framer_round quiet_env ?m2 = Inr (m3, False)" "ready m3 q3 e3 fr3" "sq_frames q3 = []"
      "sq_frames e3 = sq_frames q @ fst (split_frames ?fr2 (pending ?fr2 @ bs))" by blast
  have "reachable ?m (?s1\<lparr>sy_m := m3, sy_fr := Fr_loop\<rparr>)"
    using reachable.step [OF s2 sys_step.fr_round [where env = quiet_env and ends = False]] m3(1) mem settled_quiet
    by (simp add: session_def framer_runs_def run_finish_def)
  then show thesis
    by (rule that [of _ q3 e3 fr3])
      (use s0(2) m3(2-4) q(2) r2(2) fr(4) same_config_spec(1) [OF c] in \<open>simp_all add: session_def\<close>)
qed

text \<open>The application takes everything.\<close>

lemma demo_taken:
  assumes "reachable m s" "\<not> sy_in_run s" "ready (sy_m s) q e fr" "sq_frames e = fs" "[] \<notin> set fs"
  shows "\<exists>s1 e1. reachable m s1 \<and> ready (sy_m s1) q e1 fr \<and> sq_frames e1 = [] \<and> sy_in s1 = sy_in s \<and>
    sy_out s1 = sy_out s @ fs \<and> sy_was_reset s1 = sy_was_reset s \<and> sy_fr s1 = sy_fr s"
  using assms
proof (induction fs arbitrary: s e)
  case Nil
  then show ?case by auto
next
  case (Cons f fs)
  from get_ready [OF Cons.prems(3), of 10] Cons.prems(4) obtain m1 e1 where
    g: "get_and_delete 10 (sy_m s) = Inr (f, m1)" "ready m1 q e1 fr" "sq_frames e1 = fs" by auto
  let ?s1 = "s\<lparr>sy_m := m1, sy_out := sy_out s @ nonempty f\<rparr>"
  have "reachable m ?s1" by (rule reachable.step [OF Cons.prems(1) sys_step.get [OF Cons.prems(2) g(1)]])
  moreover have "ready (sy_m ?s1) q e1 fr" "\<not> sy_in_run ?s1" "[] \<notin> set fs" "f \<noteq> []" using g(2) Cons.prems(2,5) by auto
  ultimately show ?case using Cons.IH [of ?s1 e1] g(3) by auto
qed

section \<open>Properties\<close>

text \<open>C2. End to end, frame by frame, for a header of at most two bytes (\<open>ready\<close>), no event queue
  limit, and a received stream whose announced lengths are acceptable: in every interleaving of whole rounds and
  calls, as long as nothing was reset, the blocks the application took, followed by those on the event queue, are
  exactly the frames into which the specification cuts what the framer has consumed, and the framer holds its
  unfinished end; the framer thread, once out of its loop, may have delivered that end as a last block. What was not
  consumed waits in the receive queue.\<close>

theorem session_frames:
  assumes "reachable m s" "ready m q e fr" "sq_frames q = []" "sq_frames e = []" "pending fr = []"
    and "stream_framer fr" "stream_ok fr (sy_in s)" "\<not> sy_was_reset s"
  shows "\<exists>q1 e1 fr1 used. recv_queue (sy_m s) = Inr q1 \<and> event_queue (sy_m s) = Inr e1 \<and> framer_of (sy_m s) = Inr fr1 \<and>
    sy_in s = used @ concat (sq_frames q1) \<and>
    (sy_out s @ sq_frames e1 = fst (split_frames fr used) \<and> pending fr1 = snd (split_frames fr used) \<or>
     sy_fr s \<in> {Fr_exit, Fr_done} \<and> pending fr1 = [] \<and>
       sy_out s @ sq_frames e1 = fst (split_frames fr used) @ nonempty (snd (split_frames fr used)))"
proof -
  from frames_reachable [OF assms] obtain q1 e1 fr1 used where r: "ready (sy_m s) q1 e1 fr1"
    "sy_in s = used @ concat (sq_frames q1)" "delivered fr used s e1 fr1" by (rule frames_invE)
  moreover have "recv_queue (sy_m s) = Inr q1" "event_queue (sy_m s) = Inr e1" "framer_of (sy_m s) = Inr fr1"
    using r(1) by (auto simp: ready_def)
  ultimately show ?thesis unfolding delivered_def by blast
qed

theorem session_frames_witness:
  "\<exists>m s q1 e1 fr1. reachable m s \<and> sy_in s = [1, 2, 3, 4, 5] \<and> recv_queue (sy_m s) = Inr q1 \<and> sq_frames q1 = [] \<and>
     event_queue (sy_m s) = Inr e1 \<and> framer_of (sy_m s) = Inr fr1 \<and>
     sy_out s @ sq_frames e1 = [[1, 2], [3, 4]] \<and> pending fr1 = [5]"
proof -
  obtain q where q: "sq_inv q" "sq_frames q = []" "sq_room q = 49" using demo_store by metis
  have p: "(0::int) < 2" "(2::int) < 1000" by simp_all
  note f = demo_framer_ok [OF p, of 0]
  have sf: "stream_framer (demo_framer 2 0)" using f by (simp add: stream_framer_def)
  have bs: "[1, 2, 3, 4, 5 :: byte] \<noteq> []" "length [1, 2, 3, 4, 5 :: byte] < 49" by simp_all
  obtain s q1 e1 fr1 where s: "reachable (demo_mngr SIDAQ_IDLE q q (demo_framer 2 0)) s"
    "ready (demo_mngr SIDAQ_IDLE q q (demo_framer 2 0)) q q (demo_framer 2 0)" "\<not> sy_in_run s" "sy_in s = [1, 2, 3, 4, 5]"
    "sy_out s = []" "\<not> sy_was_reset s" "sy_fr s = Fr_loop" "ready (sy_m s) q1 e1 fr1" "sq_frames q1 = []"
    "sq_frames e1 = fst (split_frames (demo_framer 2 0) [1, 2, 3, 4, 5])"
    by (rule demo_framed [OF q f(1,2) sf f(3) bs demo_split(2)])
  have "stream_ok (demo_framer 2 0) (sy_in s)" using s(4) demo_split(2) by simp
  from session_frames [OF s(1,2) q(2,2) f(3) sf this s(6)] s(4,7-9) demo_split(1) show ?thesis
    using s(1) by (fastforce simp: ready_def)
qed

section \<open>Frames with length headers\<close>

lemma split_concat: "concat (fst (split_frames fr bs)) @ snd (split_frames fr bs) = bs"
proof (induction fr bs rule: split_frames.induct)
  case (1 fr bs)
  let ?n = "nat (frame_size fr bs)"
  show ?case
  proof (cases "no_head fr bs \<or> ?n = 0 \<or> length bs < ?n")
    case True
    then show ?thesis by (subst (1 2) split_frames.simps) (simp add: Let_def)
  next
    case False
    then have nb: "\<not> no_head fr bs" "0 < frame_size fr bs" "frame_size fr bs \<le> int (length bs)" by auto
    then show ?thesis using "1.IH" [OF refl False] split_cons [OF nb] by simp
  qed
qed

context length_function
begin

lemma reader_setup:
  assumes "NewSiDaqFramer True True = Some fr0" "0 < h" "h \<le> 2" "int h < mx" "mx \<le> DEFAULT_MAX_FRAME_LEN"
  shows "stream_framer (header_reader len h mx fr0)" "0 \<le> fr_header_len (header_reader len h mx fr0)"
  using reader_ok [OF assms] assms(4) by (simp_all add: stream_framer_def)

lemma reader_delivered:
  assumes "reachable m s" "ready m q e (header_reader len h mx fr0)" "sq_frames q = []" "sq_frames e = []"
    and "NewSiDaqFramer True True = Some fr0" "0 < h" "h \<le> 2" "int h < mx" "mx \<le> DEFAULT_MAX_FRAME_LEN"
    and "\<forall>p\<in>set ps. fits h mx p" "sy_in s @ rest = concat (map (framed h) ps)" "\<not> sy_was_reset s"
  shows "\<exists>q1 e1 fr1 n tail. recv_queue (sy_m s) = Inr q1 \<and> event_queue (sy_m s) = Inr e1 \<and>
    framer_of (sy_m s) = Inr fr1 \<and> sy_out s @ sq_frames e1 = map (framed h) (take n ps) @ tail \<and>
    sy_in s = concat (sy_out s @ sq_frames e1) @ pending fr1 @ concat (sq_frames q1) \<and>
    (tail = [] \<or> sy_fr s \<in> {Fr_exit, Fr_done} \<and> n < length ps \<and>
      (\<exists>k. 0 < k \<and> k < length (framed h (ps ! n)) \<and> tail = [take k (framed h (ps ! n))])) \<and>
    (rest = [] \<and> sq_frames q1 = [] \<and> sq_frames e1 = [] \<longrightarrow> sy_out s = map (framed h) ps)"
proof -
  let ?fr = "header_reader len h mx fr0"
  note f = reader_ok [OF assms(5-9)] and st = reader_stream [OF assms(5-10)]
    and su = reader_setup [OF assms(5-9)]
  have "stream_ok ?fr (sy_in s @ rest)" using st assms(11) by simp
  then have so: "stream_ok ?fr (sy_in s)" using stream_ok_append [OF su(2)] by blast
  from frames_reachable [OF assms(1-4) f(3) su(1) so assms(12)] obtain q1 e1 fr1 used where
    r: "ready (sy_m s) q1 e1 fr1" "sy_in s = used @ concat (sq_frames q1)" "delivered ?fr used s e1 fr1"
    by (rule frames_invE)
  have cut: "used @ concat (sq_frames q1) @ rest = concat (map (framed h) ps)" using assms(11) r(2) by simp
  from reader_cut [OF assms(5-10) this] obtain n where n: "fst (split_frames ?fr used) = map (framed h) (take n ps)"
    "snd (split_frames ?fr used) = [] \<or> n < length ps \<and> (\<exists>k. 0 < k \<and> k < length (framed h (ps ! n)) \<and>
        snd (split_frames ?fr used) = take k (framed h (ps ! n)))" by blast
  have whole: "fst (split_frames ?fr used) = map (framed h) ps" "snd (split_frames ?fr used) = []"
    if "rest = []" "sq_frames q1 = []"
    using st cut that by simp_all
  from r(3) obtain tail where t: "sy_out s @ sq_frames e1 = fst (split_frames ?fr used) @ tail"
    "tail = [] \<and> pending fr1 = snd (split_frames ?fr used) \<or> tail = nonempty (snd (split_frames ?fr used)) \<and>
      sy_fr s \<in> {Fr_exit, Fr_done} \<and> pending fr1 = []"
    unfolding delivered_def by (metis append_Nil2)
  have "tail = [] \<or> sy_fr s \<in> {Fr_exit, Fr_done} \<and> n < length ps \<and>
      (\<exists>k. 0 < k \<and> k < length (framed h (ps ! n)) \<and> tail = [take k (framed h (ps ! n))])"
    using t(2) n(2) by (auto simp: nonempty_def split: if_splits)
  moreover have "concat (sy_out s @ sq_frames e1) @ pending fr1 = used"
    using t(2) split_concat [of ?fr used] unfolding t(1) by (auto simp: nonempty_def split: if_splits)
  then have "sy_in s = concat (sy_out s @ sq_frames e1) @ pending fr1 @ concat (sq_frames q1)"
    unfolding r(2) append_assoc [symmetric] by simp
  moreover have "sy_out s = map (framed h) ps" if "rest = []" "sq_frames q1 = []" "sq_frames e1 = []"
    using t whole [OF that(1,2)] that(3) by auto
  moreover have "recv_queue (sy_m s) = Inr q1" "event_queue (sy_m s) = Inr e1" "framer_of (sy_m s) = Inr fr1"
    using r(1) by (auto simp: ready_def)
  moreover have "sy_out s @ sq_frames e1 = map (framed h) (take n ps) @ tail" using t(1) n(1) by simp
  ultimately show ?thesis by (intro exI [of _ q1] exI [of _ e1] exI [of _ fr1] exI [of _ n] exI [of _ tail]) simp
qed

end

text \<open>C4. What a user of the library relies on: when the device sends frames with big-endian length headers of
  one or two bytes, the measurement runs with the length function of either sample and without an event queue
  limit, and nothing was reset, then in every state of an interleaving of whole rounds the blocks the application
  took and finds on the event queue are the first frames the device sent, whole and in order.  Only after the
  framer thread has left its loop may one more block follow, which is a proper beginning of the next frame.
  With what the framer and the receive queue hold they are all that was received; and when everything sent has
  arrived and both queues are empty, they are all the frames.\<close>

theorem session_headers:
  assumes "reachable m s" "ready m q e (header_reader len h mx fr0)" "sq_frames q = []" "sq_frames e = []"
    and "NewSiDaqFramer True True = Some fr0" "0 < h" "h \<le> 2" "int h < mx" "mx \<le> DEFAULT_MAX_FRAME_LEN"
    and "\<forall>p\<in>set ps. fits h mx p" "sy_in s @ rest = concat (map (framed h) ps)" "\<not> sy_was_reset s"
    and "len = GetFrameLength \<or> len = GetHeaderLengthFuncSample"
  shows "\<exists>q1 e1 fr1 n tail. recv_queue (sy_m s) = Inr q1 \<and> event_queue (sy_m s) = Inr e1 \<and>
    framer_of (sy_m s) = Inr fr1 \<and> sy_out s @ sq_frames e1 = map (framed h) (take n ps) @ tail \<and>
    sy_in s = concat (sy_out s @ sq_frames e1) @ pending fr1 @ concat (sq_frames q1) \<and>
    (tail = [] \<or> sy_fr s \<in> {Fr_exit, Fr_done} \<and> n < length ps \<and>
      (\<exists>k. 0 < k \<and> k < length (framed h (ps ! n)) \<and> tail = [take k (framed h (ps ! n))])) \<and>
    (rest = [] \<and> sq_frames q1 = [] \<and> sq_frames e1 = [] \<longrightarrow> sy_out s = map (framed h) ps)"
  using assms(13)
proof
  assume "len = GetFrameLength"
  from mfc.reader_delivered [OF assms(1) assms(2) [unfolded this] assms(3-12)] show ?thesis .
next
  assume "len = GetHeaderLengthFuncSample"
  from forms.reader_delivered [OF assms(1) assms(2) [unfolded this] assms(3-12)] show ?thesis .
qed

theorem session_headers_witness:
  "\<exists>m s. reachable m s \<and> sy_in s = [0, 3, 7, 8, 9, 0, 1, 5] \<and> sy_out s = [[0, 3, 7, 8, 9], [0, 1, 5]]"
proof -
  obtain fr0 where n: "NewSiDaqFramer True True = Some fr0" by (simp add: NewSiDaqFramer_def)
  obtain q where q: "sq_inv q" "sq_frames q = []" "sq_room q = 49" using demo_store by metis
  let ?ps = "[[7, 8, 9], [5 :: byte]]" and ?fr = "header_framer 2 262144 fr0"
  have a: "(0::nat) < 2" "(2::nat) \<le> 2" "int 2 < 262144" "262144 \<le> DEFAULT_MAX_FRAME_LEN" "\<forall>p\<in>set ?ps. fits 2 262144 p"
    by (simp_all add: DEFAULT_MAX_FRAME_LEN_def fits_def)
  note f = mfc.reader_ok [OF n a(1-4)] and st = mfc.reader_stream [OF n a]
  have w: "concat (map (framed 2) ?ps) = [0, 3, 7, 8, 9, 0, 1, 5]" "map (framed 2) ?ps = [[0, 3, 7, 8, 9], [0, 1, 5]]"
    by (simp_all add: framed_def be_bytes_def upt_rec)
  have so: "stream_ok ?fr [0, 3, 7, 8, 9, 0, 1, 5]"
    "fst (split_frames ?fr [0, 3, 7, 8, 9, 0, 1, 5]) = [[0, 3, 7, 8, 9], [0, 1, 5]]"
    using st w by simp_all
  have bs: "[0, 3, 7, 8, 9, 0, 1, 5 :: byte] \<noteq> []" "length [0, 3, 7, 8, 9, 0, 1, 5 :: byte] < 49" by simp_all
  obtain s q1 e1 fr1 where s: "reachable (demo_mngr SIDAQ_IDLE q q ?fr) s"
    "ready (demo_mngr SIDAQ_IDLE q q ?fr) q q ?fr" "\<not> sy_in_run s" "sy_in s = [0, 3, 7, 8, 9, 0, 1, 5]"
    "sy_out s = []" "\<not> sy_was_reset s" "sy_fr s = Fr_loop" "ready (sy_m s) q1 e1 fr1" "sq_frames q1 = []"
    "sq_frames e1 = fst (split_frames ?fr [0, 3, 7, 8, 9, 0, 1, 5])"
    by (rule demo_framed [OF q f(1,2) mfc.reader_setup(1) [OF n a(1-4)] f(3) bs so(1)])
  from demo_taken [OF s(1,3,8) s(10) split_nonempty] s(4,6) obtain s1 e2 where
    s1: "reachable (demo_mngr SIDAQ_IDLE q q ?fr) s1" "ready (sy_m s1) q1 e2 fr1" "sq_frames e2 = []"
    "sy_in s1 = [0, 3, 7, 8, 9, 0, 1, 5]" "\<not> sy_was_reset s1" by auto
  have "sy_in s1 @ [] = concat (map (framed 2) ?ps)" using s1(4) w(1) by simp
  from session_headers [OF s1(1) s(2) q(2,2) n a this s1(5) disjI1 [OF refl]] obtain q3 e3 where
    "recv_queue (sy_m s1) = Inr q3" "event_queue (sy_m s1) = Inr e3"
    "sq_frames q3 = [] \<and> sq_frames e3 = [] \<longrightarrow> sy_out s1 = map (framed 2) ?ps" by blast
  moreover have "recv_queue (sy_m s1) = Inr q1" "event_queue (sy_m s1) = Inr e2" using s1(2) by (auto simp: ready_def)
  ultimately have "sy_out s1 = [[0, 3, 7, 8, 9], [0, 1, 5]]" using s1(3) s(9) w(2) by simp
  with s1(1,4) show ?thesis by blast
qed

end
