(* ===== verification/Pseudo_Device.thy ===== *)
theory Pseudo_Device
  imports SiDaq_Frames
begin

text \<open>
  The data side of the pseudo device (\<open>Pseudo/SiDaqPseudo.py\<close>): the generator of its frames, whose
  stream the library frames with the sample's length function.  Python's unbounded integers are naturals
  here; \<open>int.to_bytes\<close> is big endian.  The server that sends one frame after the other belongs to the
  package \<open>sitcpy\<close>, and its sending is stated as what arrives.
\<close>

section \<open>The generator\<close>

text \<open>\<open>int.bit_length\<close>.\<close>

fun bit_length :: "nat \<Rightarrow> nat" where
  "bit_length n = (if n = 0 then 0 else Suc (bit_length (n div 2)))"

declare bit_length.simps [simp del]

record PseudoDataGenerator =
  gn_data_buffer :: "byte list"
  gn_data_unit :: nat
  gn_header :: nat
  gn_send_unit :: nat

definition MAX_UNIT_COUNT :: int where "MAX_UNIT_COUNT = 4096"

definition check_header_length :: "PseudoDataGenerator \<Rightarrow> PseudoDataGenerator" where
  "check_header_length g =
     (if gn_header g * 8 < bit_length (gn_data_unit g * gn_send_unit g) then g\<lparr>gn_header := 0\<rparr> else g)"

definition new_generator :: "int \<Rightarrow> int \<Rightarrow> PseudoDataGenerator" where
  "new_generator header send_unit =
     (let buf = [0x1F, 0x3E, 0x01, 0x23, 0x45, 0x67, 0x89, 0xAB]
      in check_header_length \<lparr>gn_data_buffer = buf, gn_data_unit = length buf,
           gn_header = nat (if header < 0 then 0 else header),
           gn_send_unit = nat (if send_unit < 1 then 1 else if MAX_UNIT_COUNT < send_unit then MAX_UNIT_COUNT else send_unit)\<rparr>)"

definition create_fixed_pattern :: "PseudoDataGenerator \<Rightarrow> byte list" where
  "create_fixed_pattern g =
     (let data = concat (replicate (gn_send_unit g) (gn_data_buffer g)) in
      if gn_header g \<noteq> 0 \<and> bit_length (length data) \<le> gn_header g * 8
      then be_bytes (gn_header g) (int (length data)) @ data
      else data)"

definition create_data :: "PseudoDataGenerator \<Rightarrow> byte list" where
  "create_data g = create_fixed_pattern g"

section \<open>Its frames\<close>

lemma bit_length_le: "bit_length n \<le> k \<longleftrightarrow> n < 2 ^ k"
proof (induction n arbitrary: k rule: bit_length.induct)
  case (1 n)
  show ?case
  proof (cases "n = 0")
    case True
    then show ?thesis by (simp add: bit_length.simps [of 0])
  next
    case False
    show ?thesis
    proof (cases k)
      case 0
      then show ?thesis using False by (simp add: bit_length.simps [of n])
    next
      case (Suc j)
      have "n div 2 < 2 ^ j \<longleftrightarrow> n < 2 ^ Suc j" by (simp add: less_mult_imp_div_less div_less_iff_less_mult mult.commute)
      then show ?thesis using "1.IH" [OF False, of j] Suc False by (simp add: bit_length.simps [of n])
    qed
  qed
qed

text \<open>The payload of a frame, and when a header is long enough for it.\<close>

definition payload :: "nat \<Rightarrow> byte list" where
  "payload u = concat (replicate u [0x1F, 0x3E, 0x01, 0x23, 0x45, 0x67, 0x89, 0xAB])"

lemma length_payload [simp]: "length (payload u) = 8 * u"
  by (induction u) (simp_all add: payload_def)

lemma pow_bytes: "(2::nat) ^ (h * 8) = 256 ^ h"
  by (subst mult.commute, subst power_mult) simp

text \<open>A frame within the bounds of the constructor: the header is there when it can hold the length.\<close>

lemma created:
  assumes "1 \<le> u" "u \<le> 4096" "0 \<le> h"
  shows "create_data (new_generator h u) =
    (if h \<noteq> 0 \<and> 8 * nat u < 256 ^ nat h then framed (nat h) (payload (nat u)) else payload (nat u))"
proof -
  define g where "g = \<lparr>gn_data_buffer = [0x1F, 0x3E, 0x01, 0x23, 0x45, 0x67, 0x89, 0xAB :: byte], gn_data_unit = 8,
    gn_header = nat h, gn_send_unit = nat u\<rparr>"
  have g: "gn_data_unit g = 8" "gn_header g = nat h" "gn_send_unit g = nat u"
    "concat (replicate (gn_send_unit g) (gn_data_buffer g)) = payload (nat u)"
    by (simp_all add: g_def payload_def)
  have "new_generator h u = check_header_length g"
    using assms by (simp add: new_generator_def MAX_UNIT_COUNT_def g_def Let_def numeral_eq_Suc)
  moreover have "nat h * 8 < bit_length (8 * nat u) \<longleftrightarrow> 256 ^ nat h \<le> 8 * nat u"
    using bit_length_le [of "8 * nat u" "nat h * 8"] unfolding pow_bytes by linarith
  ultimately show ?thesis using assms(3) g bit_length_le [of "8 * nat u" "nat h * 8", unfolded pow_bytes]
    by (auto simp: create_data_def create_fixed_pattern_def check_header_length_def framed_def Let_def)
qed

section \<open>A measurement with the pseudo device\<close>

text \<open>The pseudo device, the library and the sample's length function fit together: for every header length
  of one or two bytes and every unit count whose frame length the header can hold, when the device has
  sent any number of its frames and the measurement runs with the same header length, the blocks that the
  application takes and finds on the event queue are copies of this frame, with at most a proper beginning of
  one behind them after the framer thread has left its loop; none is missing when everything has arrived and both queues are empty.\<close>

theorem pseudo_device_frames:
  assumes "reachable m s" "ready m q e (header_framer h DEFAULT_MAX_FRAME_LEN fr0)" "sq_frames q = []" "sq_frames e = []"
    and "NewSiDaqFramer True True = Some fr0" "0 < h" "h \<le> 2" "1 \<le> u" "u \<le> 4096" "8 * u < 256 ^ h"
    and "sy_in s @ rest = concat (replicate k (create_data (new_generator (int h) u)))" "\<not> sy_was_reset s"
  shows "\<exists>q1 e1 fr1 n tail. recv_queue (sy_m s) = Inr q1 \<and> event_queue (sy_m s) = Inr e1 \<and>
    framer_of (sy_m s) = Inr fr1 \<and> n \<le> k \<and>
    sy_out s @ sq_frames e1 = replicate n (create_data (new_generator (int h) u)) @ tail \<and>
    sy_in s = concat (sy_out s @ sq_frames e1) @ pending fr1 @ concat (sq_frames q1) \<and>
    (tail = [] \<or> sy_fr s \<in> {Fr_exit, Fr_done} \<and> n < k \<and> (\<exists>j. 0 < j \<and>
      j < length (create_data (new_generator (int h) u)) \<and> tail = [take j (create_data (new_generator (int h) u))])) \<and>
    (rest = [] \<and> sq_frames q1 = [] \<and> sq_frames e1 = [] \<longrightarrow>
       sy_out s = replicate k (create_data (new_generator (int h) u)))"
proof -
  let ?p = "payload (nat u)" and ?ps = "replicate k (payload (nat u))"
  have "int (8 * nat u) < int (256 ^ h)" using assms(8,10) by simp
  then have u: "8 * nat u < 256 ^ h" by (simp only: of_nat_less_iff)
  have c: "create_data (new_generator (int h) u) = framed h ?p"
    using created [of u "int h"] assms(6,8,9) u by simp
  have "int (length ?p) < 256 ^ h" "int h + int (length ?p) \<le> DEFAULT_MAX_FRAME_LEN" "?p \<noteq> []"
    using assms(7-10) length_payload [of "nat u"] by (auto simp: DEFAULT_MAX_FRAME_LEN_def simp flip: length_0_conv)
  then have fits: "\<forall>p\<in>set ?ps. fits h DEFAULT_MAX_FRAME_LEN p" by (simp add: fits_def)
  have mx: "int h < DEFAULT_MAX_FRAME_LEN" "DEFAULT_MAX_FRAME_LEN \<le> DEFAULT_MAX_FRAME_LEN"
    using assms(7) by (simp_all add: DEFAULT_MAX_FRAME_LEN_def)
  have "sy_in s @ rest = concat (map (framed h) ?ps)" using assms(11) c by simp
  from mfc.reader_delivered [OF assms(1-7) mx fits this assms(12)] obtain q1 e1 fr1 n tail where o:
    "recv_queue (sy_m s) = Inr q1" "event_queue (sy_m s) = Inr e1" "framer_of (sy_m s) = Inr fr1"
    "sy_out s @ sq_frames e1 = map (framed h) (take n ?ps) @ tail"
    "sy_in s = concat (sy_out s @ sq_frames e1) @ pending fr1 @ concat (sq_frames q1)"
    "tail = [] \<or> sy_fr s \<in> {Fr_exit, Fr_done} \<and> n < length ?ps \<and>
      (\<exists>j. 0 < j \<and> j < length (framed h (?ps ! n)) \<and> tail = [take j (framed h (?ps ! n))])"
    "rest = [] \<and> sq_frames q1 = [] \<and> sq_frames e1 = [] \<longrightarrow> sy_out s = map (framed h) ?ps" by blast
  have "tail = [] \<or> sy_fr s \<in> {Fr_exit, Fr_done} \<and> min n k < k \<and>
      (\<exists>j. 0 < j \<and> j < length (framed h ?p) \<and> tail = [take j (framed h ?p)])"
    using o(6) by auto
  moreover have "map (framed h) (take n ?ps) = replicate (min n k) (framed h ?p)" by (simp add: min.commute)
  moreover have "map (framed h) ?ps = replicate k (framed h ?p)" by simp
  ultimately show ?thesis using o(1-5,7) min.cobounded2 [of n k] unfolding c by metis
qed

text \<open>A measurement of two frames of nine bytes that has come to its end.\<close>

lemma demo_pseudo:
  obtains fr0 q s1 where "NewSiDaqFramer True True = Some fr0" "sq_inv q" "sq_frames q = []"
    "ready (demo_mngr SIDAQ_IDLE q q (header_framer 1 DEFAULT_MAX_FRAME_LEN fr0)) q q (header_framer 1 DEFAULT_MAX_FRAME_LEN fr0)"
    "reachable (demo_mngr SIDAQ_IDLE q q (header_framer 1 DEFAULT_MAX_FRAME_LEN fr0)) s1" "\<not> sy_was_reset s1"
    "sy_in s1 = concat (replicate 2 (create_data (new_generator (int 1) 1)))"
    "\<exists>q1 e1. recv_queue (sy_m s1) = Inr q1 \<and> event_queue (sy_m s1) = Inr e1 \<and> sq_frames q1 = [] \<and> sq_frames e1 = []"
proof -
  obtain fr0 where n: "NewSiDaqFramer True True = Some fr0" by (simp add: NewSiDaqFramer_def)
  obtain q where q: "sq_inv q" "sq_frames q = []" "sq_room q = 49" using demo_store by metis
  let ?fr = "header_framer 1 DEFAULT_MAX_FRAME_LEN fr0" and ?f = "[8, 0x1F, 0x3E, 0x01, 0x23, 0x45, 0x67, 0x89, 0xAB :: byte]"
  have c: "create_data (new_generator (int 1) 1) = ?f" and p: "framed 1 (payload 1) = ?f"
    using created [of 1 "int 1"] by (simp_all add: framed_def payload_def be_bytes_def)
  have a: "(0::nat) < 1" "(1::nat) \<le> 2" "int 1 < DEFAULT_MAX_FRAME_LEN" "DEFAULT_MAX_FRAME_LEN \<le> DEFAULT_MAX_FRAME_LEN"
    "\<forall>p\<in>set [payload 1, payload 1]. fits 1 DEFAULT_MAX_FRAME_LEN p"
    by (simp_all add: DEFAULT_MAX_FRAME_LEN_def fits_def) (simp add: payload_def)
  note f = mfc.reader_ok [OF n a(1-4)] and st = mfc.reader_stream [OF n a]
  have bs: "?f @ ?f \<noteq> []" "length (?f @ ?f) < 49" "stream_ok ?fr (?f @ ?f)" "fst (split_frames ?fr (?f @ ?f)) = [?f, ?f]"
    using st p by simp_all
  obtain s q1 e1 fr1 where s: "reachable (demo_mngr SIDAQ_IDLE q q ?fr) s"
    "ready (demo_mngr SIDAQ_IDLE q q ?fr) q q ?fr" "\<not> sy_in_run s" "sy_in s = ?f @ ?f"
    "sy_out s = []" "\<not> sy_was_reset s" "sy_fr s = Fr_loop" "ready (sy_m s) q1 e1 fr1" "sq_frames q1 = []"
    "sq_frames e1 = fst (split_frames ?fr (?f @ ?f))"
    by (rule demo_framed [OF q f(1,2) mfc.reader_setup(1) [OF n a(1-4)] f(3) bs(1-3)])
  from demo_taken [OF s(1,3,8) s(10) split_nonempty] s(4,6) obtain s1 e2 where
    s1: "reachable (demo_mngr SIDAQ_IDLE q q ?fr) s1" "ready (sy_m s1) q1 e2 fr1" "sq_frames e2 = []"
    "sy_in s1 = ?f @ ?f" "\<not> sy_was_reset s1" by auto
  have i: "sy_in s1 = concat (replicate 2 (create_data (new_generator (int 1) 1)))"
    using s1(4) unfolding c by (simp add: numeral_2_eq_2)
  moreover have "recv_queue (sy_m s1) = Inr q1 \<and> event_queue (sy_m s1) = Inr e2" using s1(2) by (auto simp: ready_def)
  ultimately show thesis using that [OF n q(1,2) s(2) s1(1,5)] s1(3) s(9) by blast
qed

end
