(* ===== verification/Mfc_Consumer.thy ===== *)
theory Mfc_Consumer
  imports SiDaq_System
begin

text \<open>
  The consumer of the sample application (\<open>MfcSample/SiDaqMfcSampleDlg.cpp\<close>): the thread \<open>recv_thread\<close>,
  which takes frames from the manager until the measurement is over and both queues stay empty, and
  the log file it writes.

  The managers of the application live in a store from addresses (0 is NULL) to managers, because the
  dialog and its thread hold pointers to the same one and one of them may be freed under the other.
  The store is a field of \<open>world\<close>, next to the library's initialisation count, the files and the
  network of the register client.
\<close>

section \<open>The world of the application\<close>

record 'n world =
  wd_mngrs :: "addr \<rightharpoonup> SiDaqMngr"
  wd_next :: addr   \<comment> \<open>the next fresh address\<close>
  wd_wsa :: int   \<comment> \<open>\<open>g_wsa_init\<close>\<close>
  wd_names :: "int \<rightharpoonup> string"   \<comment> \<open>\<open>_g_status_name\<close>\<close>
  wd_files :: "string \<Rightarrow> string"
  wd_net :: 'n

definition mngr_at :: "addr \<Rightarrow> 'n world \<Rightarrow> SiDaqMngr outcome" where
  "mngr_at a w = (if a = 0 then Inl Null_deref
     else case wd_mngrs w a of None \<Rightarrow> Inl Use_after_free | Some m \<Rightarrow> Inr m)"

definition mngr_upd :: "addr \<Rightarrow> SiDaqMngr \<Rightarrow> 'n world \<Rightarrow> 'n world" where
  "mngr_upd a m w = w\<lparr>wd_mngrs := (wd_mngrs w)(a \<mapsto> m)\<rparr>"

text \<open>Calls through a pointer that test it for NULL.\<close>

definition status_at :: "addr \<Rightarrow> 'n world \<Rightarrow> SiDaqStatus outcome" where
  "status_at a w = (if a = 0 then Inr (SiDaqGetStatus None)
     else obind (mngr_at a w) (\<lambda>m. Inr (SiDaqGetStatus (Some m))))"

definition counts_at :: "addr \<Rightarrow> 'n world \<Rightarrow> (int \<times> int) outcome" where
  "counts_at a w = (if a = 0 then Inr (0, 0)
     else obind (mngr_at a w) (\<lambda>m.
       obind (SiDaqGetDataCount (Some m)) (\<lambda>recv_count.
       obind (SiDaqGetFrameDataCount (Some m)) (\<lambda>frame_count. Inr (recv_count, frame_count)))))"

section \<open>The log file\<close>

text \<open>A line is \<open>"%02X "\<close> for every byte and \<open>"\r\n"\<close>; the file is opened in text mode, in which the
  runtime library writes a line feed as carriage return and line feed.\<close>

definition hex_byte :: "byte \<Rightarrow> string" where
  "hex_byte b = [hex_digit (unat b div 16), hex_digit (unat b mod 16), CHR '' '']"

definition crt_text :: "string \<Rightarrow> string" where
  "crt_text s = concat (map (\<lambda>c. if c = CHR 0x0A then [CHR 0x0D, CHR 0x0A] else [c]) s)"

definition WriteDataToFile :: "bool \<Rightarrow> string \<Rightarrow> byte list \<Rightarrow> 'n world \<Rightarrow> 'n world" where
  "WriteDataToFile opened file_name data w =
     (if \<not> opened then w
      else w\<lparr>wd_files := (wd_files w)(file_name :=
        wd_files w file_name @ crt_text (concat (map hex_byte data) @ [CHR 0x0D, CHR 0x0A]))\<rparr>)"

section \<open>The thread\<close>

record SiDaqThreadParam =
  tp_mngr :: addr
  tp_receive_bytes :: int
  tp_write_file :: bool
  tp_force_exit :: bool   \<comment> \<open>despite its name, the thread runs while it is true\<close>
  tp_path :: string

text \<open>What one round of the loop meets: the other threads during the \<open>Sleep(100)\<close> with so many polls
  left, the environment and the timeout of \<open>SQGet\<close>, and whether the file could be opened.\<close>

record 'n recv_env =
  rv_other :: "nat \<Rightarrow> 'n world \<Rightarrow> 'n world"
  rv_sleep :: "nat \<Rightarrow> sqstore \<Rightarrow> sqstore"
  rv_timed_out :: bool
  rv_open :: bool

text \<open>The polling loop: whether something turned up in one of the queues.\<close>

fun poll_counts :: "nat \<Rightarrow> (nat \<Rightarrow> 'n world \<Rightarrow> 'n world) \<Rightarrow> addr \<Rightarrow> 'n world \<Rightarrow> (bool \<times> 'n world) outcome" where
  "poll_counts 0 other a w = Inr (False, w)"
| "poll_counts (Suc n) other a w = obind (counts_at a w) (\<lambda>(recv_count, frame_count).
     if recv_count = 0 \<and> frame_count = 0 then poll_counts n other a (other n w) else Inr (True, w))"

text \<open>The test for the end: the measurement is over and both queues stay empty.\<close>

definition recv_ends :: "'n recv_env \<Rightarrow> addr \<Rightarrow> 'n world \<Rightarrow> (bool \<times> 'n world) outcome" where
  "recv_ends env a w = obind (status_at a w) (\<lambda>run_status.
     if run_status = SIDAQ_IDLE \<or> run_status = SIDAQ_STOPPING \<or> run_status = SIDAQ_SYS_ERROR then
       obind (counts_at a w) (\<lambda>(recv_count, frame_count).
         if recv_count = 0 \<and> frame_count = 0 then
           obind (poll_counts 10 (rv_other env) a w) (\<lambda>(remain_flg, w1). Inr (\<not> remain_flg, w1))
         else Inr (False, w))
     else Inr (False, w))"

text \<open>Taking one frame.\<close>

definition recv_take :: "'n recv_env \<Rightarrow> SiDaqThreadParam \<Rightarrow> 'n world \<Rightarrow> (SiDaqThreadParam \<times> 'n world) outcome" where
  "recv_take env tp w = obind (mngr_at (tp_mngr tp) w) (\<lambda>m.
     obind (SiDaqGetData (rv_sleep env) (rv_timed_out env) m 10) (\<lambda>(data_ptr, data_len, m1).
     case data_ptr of
       None \<Rightarrow> Inr (tp, mngr_upd (tp_mngr tp) m1 w)
     | Some data \<Rightarrow>
         let w1 = (if tp_write_file tp then WriteDataToFile (rv_open env) (tp_path tp) data w else w);
             m2 = (if tp_write_file tp
                   then the (SiDaqResumeRecvData (SiDaqPauseRecvData (Some m1))) else m1)
         in obind (event_queue m2) (\<lambda>e.
              Inr (tp\<lparr>tp_receive_bytes := i64 (tp_receive_bytes tp + data_len)\<rparr>,
                mngr_upd (tp_mngr tp) (m2\<lparr>m_eventFrame := Some (SiDaqDeleteData data_ptr e)\<rparr>) w1))))"

text \<open>One round; the flag says that the loop has ended.\<close>

definition recv_round :: "'n recv_env \<Rightarrow> SiDaqThreadParam \<Rightarrow> 'n world \<Rightarrow> (SiDaqThreadParam \<times> 'n world \<times> bool) outcome" where
  "recv_round env tp w =
     (if \<not> tp_force_exit tp \<or> tp_mngr tp = 0 then Inr (tp, w, True)
      else obind (recv_ends env (tp_mngr tp) w) (\<lambda>(ends, w1).
        if ends then Inr (tp, w1, True)
        else obind (recv_take env tp w1) (\<lambda>(tp1, w2). Inr (tp1, w2, False))))"

fun recv_rounds :: "'n recv_env list \<Rightarrow> SiDaqThreadParam \<Rightarrow> 'n world \<Rightarrow> (SiDaqThreadParam \<times> 'n world \<times> bool) outcome" where
  "recv_rounds [] tp w = Inr (tp, w, False)"
| "recv_rounds (env # envs) tp w = obind (recv_round env tp w) (\<lambda>(tp1, w1, ends).
     if ends then Inr (tp1, w1, True) else recv_rounds envs tp1 w1)"

definition recv_thread :: "'n recv_env list \<Rightarrow> SiDaqThreadParam \<Rightarrow> 'n world \<Rightarrow> (SiDaqThreadParam \<times> 'n world \<times> bool) outcome" where
  "recv_thread envs tp w = recv_rounds envs (tp\<lparr>tp_receive_bytes := 0\<rparr>) w"

end
