(* ===== verification/Mfc_Consumer_Props.thy ===== *)
theory Mfc_Consumer_Props
  imports Mfc_Consumer
begin

text \<open>
  What the consumer of the sample application guarantees: its log can be read back into the frames, and
  after a measurement it takes every frame and ends.
\<close>

section \<open>Reading the log back\<close>

text \<open>Carriage returns are skipped, a line feed ends a frame, everything else is two digits and a
  blank.\<close>

definition hex_value :: "char \<Rightarrow> nat" where
  "hex_value c = (let n = of_char c :: nat in if n < 65 then n - 48 else n - 55)"

function read_log :: "string \<Rightarrow> byte list \<Rightarrow> byte list list" where
  "read_log s frame = (case s of
       [] \<Rightarrow> []
     | c # cs \<Rightarrow>
         if c = CHR 0x0A then frame # read_log cs []
         else if c = CHR 0x0D then read_log cs frame
         else case cs of
             d # sp # rest \<Rightarrow> read_log rest (frame @ [word_of_nat (16 * hex_value c + hex_value d)])
           | _ \<Rightarrow> [])"
  by pat_completeness auto
termination
  by (relation "measure (\<lambda>(s, frame). length s)") auto

declare read_log.simps [simp del]

lemma read_log_simps [simp]:
  "read_log [] frame = []"
  "read_log (CHR 0x0A # cs) frame = frame # read_log cs []"
  "read_log (CHR 0x0D # cs) frame = read_log cs frame"
  "c \<noteq> CHR 0x0A \<Longrightarrow> c \<noteq> CHR 0x0D \<Longrightarrow>
     read_log (c # d # sp # rest) frame = read_log rest (frame @ [word_of_nat (16 * hex_value c + hex_value d)])"
  by (simp_all add: read_log.simps [of "_ # _"] read_log.simps [of "[]"])

lemma hex_digit_cases:
  "n < 16 \<Longrightarrow> hex_value (hex_digit n) = n \<and> hex_digit n \<noteq> CHR 0x0A \<and> hex_digit n \<noteq> CHR 0x0D"
proof -
  assume "n < 16"
  then have "n \<in> set [0..<16]" by simp
  moreover have "\<forall>n\<in>set [0..<16]. hex_value (hex_digit n) = n \<and> hex_digit n \<noteq> CHR 0x0A \<and> hex_digit n \<noteq> CHR 0x0D"
    by (simp add: hex_value_def hex_digit_def upt_rec Let_def)
  ultimately show ?thesis by blast
qed

lemma nibbles: "unat (b :: byte) div 16 < 16" "unat b mod 16 < 16"
proof -
  have "unat b < 256" using uint_lt2p [of b] by (simp add: nat_less_iff flip: nat_uint_eq)
  then show "unat b div 16 < 16" "unat b mod 16 < 16" by (auto simp: less_mult_imp_div_less)
qed

lemma crt_text_append: "crt_text (s @ t) = crt_text s @ crt_text t"
  by (simp add: crt_text_def)

lemma crt_hex_byte: "crt_text (hex_byte b) = hex_byte b"
  using hex_digit_cases [OF nibbles(1) [of b]] hex_digit_cases [OF nibbles(2) [of b]]
  by (simp add: crt_text_def hex_byte_def)

lemma crt_hex_bytes: "crt_text (concat (map hex_byte data)) = concat (map hex_byte data)"
  by (induction data) (simp_all add: crt_hex_byte crt_text_append, simp add: crt_text_def)

definition log_line :: "byte list \<Rightarrow> string" where
  "log_line data = concat (map hex_byte data) @ [CHR 0x0D, CHR 0x0D, CHR 0x0A]"

lemma crt_log_line: "crt_text (concat (map hex_byte data) @ [CHR 0x0D, CHR 0x0A]) = log_line data"
  by (simp add: crt_text_append crt_hex_bytes log_line_def) (simp add: crt_text_def)

lemma read_hex_byte: "read_log (hex_byte b @ rest) frame = read_log rest (frame @ [b])"
proof -
  note n = nibbles [of b]
  have "16 * hex_value (hex_digit (unat b div 16)) + hex_value (hex_digit (unat b mod 16)) = unat b"
    using n hex_digit_cases by simp
  then show ?thesis using n hex_digit_cases by (simp add: hex_byte_def)
qed

lemma read_hex_bytes: "read_log (concat (map hex_byte data) @ rest) frame = read_log rest (frame @ data)"
  by (induction data arbitrary: frame) (simp_all add: read_hex_byte)

lemma read_log_line: "read_log (log_line data @ rest) [] = data # read_log rest []"
  by (simp add: log_line_def read_hex_bytes)

lemma read_log_lines: "read_log (concat (map log_line fs) @ rest) [] = fs @ read_log rest []"
  by (induction fs) (simp_all add: read_log_line)

text \<open>The log is faithful: writing frames one after the other with \<open>WriteDataToFile\<close> appends text
  from which exactly these frames, in order, can be read back, whatever bytes they hold; no other file
  changes.\<close>

theorem log_roundtrip:
  "\<exists>text. wd_files (fold (WriteDataToFile True name) frames w) = (wd_files w)(name := wd_files w name @ text) \<and>
     read_log text [] = frames"
proof -
  have "wd_files (fold (WriteDataToFile True name) frames w) =
      (wd_files w)(name := wd_files w name @ concat (map log_line frames))"
    by (induction frames arbitrary: w) (simp_all add: WriteDataToFile_def crt_log_line)
  then show ?thesis using read_log_lines [of frames "[]"] by auto
qed

section \<open>After a measurement\<close>

text \<open>Rounds in which nothing else happens and the file can be opened.\<close>

definition quiet_recv :: "'n recv_env \<Rightarrow> bool" where
  "quiet_recv env \<longleftrightarrow> rv_other env = (\<lambda>_. id) \<and> rv_sleep env = (\<lambda>_. id) \<and> \<not> rv_timed_out env \<and> rv_open env"

lemma mngr_at_upd [simp]: "a \<noteq> 0 \<Longrightarrow> mngr_at a (mngr_upd a m w) = Inr m"
  by (simp add: mngr_at_def mngr_upd_def)

lemma write_other [simp]:
  "wd_mngrs (WriteDataToFile b name data w) = wd_mngrs w" "wd_files (mngr_upd a m w) = wd_files w"
  by (simp_all add: WriteDataToFile_def mngr_upd_def)

lemma counts_ready:
  assumes "a \<noteq> 0" "mngr_at a w = Inr m" "ready m q e fr"
  shows "counts_at a w = Inr (int (length (sq_frames q)), int (length (sq_frames e)))"
proof -
  have h: "holds m q e fr" "sq_inv q" "sq_inv e" using assms(3) by (simp_all add: ready_def)
  then show ?thesis using assms(1,2) sq_inv_count
    by (simp add: counts_at_def SiDaqGetDataCount_def SiDaqGetFrameDataCount_def)
qed

lemma status_ready: "a \<noteq> 0 \<Longrightarrow> mngr_at a w = Inr m \<Longrightarrow> status_at a w = Inr (status m)"
  by (simp add: status_at_def SiDaqGetStatus_def)

lemma poll_quiet:
  assumes "counts_at a w = Inr (0, 0)"
  shows "poll_counts n (\<lambda>_. id) a w = Inr (False, w)"
  by (induction n) (simp_all add: assms)

text \<open>A frame that waits is taken, written and counted.\<close>

lemma recv_take_frame:
  assumes "a \<noteq> 0" "mngr_at a w = Inr m" "ready m q e fr" "sq_frames e = f # fs" "quiet_recv env"
    and "tp_mngr tp = a" "tp_write_file tp"
  shows "\<exists>m1 e1. recv_take env tp w = Inr (tp\<lparr>tp_receive_bytes := i64 (tp_receive_bytes tp + int (length f))\<rparr>,
      mngr_upd a m1 (WriteDataToFile True (tp_path tp) f w)) \<and>
    ready m1 q e1 fr \<and> sq_frames e1 = fs \<and> status m1 = status m"
proof -
  have h: "holds m q e fr" "sq_inv e" using assms(3) by (simp_all add: ready_def)
  from take_block [OF h(2) assms(4), of 10] obtain e1 where
    e1: "SQGet (\<lambda>_. id) False 10 e = Inr (Some f, int (length f), e1)" and
    e2: "sq_inv (e1\<lparr>quota := quota e1 + 1\<rparr>)" "sq_frames (e1\<lparr>quota := quota e1 + 1\<rparr>) = fs" by blast
  let ?m1 = "m\<lparr>m_eventFrame := Some e1\<rparr>" and ?e2 = "e1\<lparr>quota := quota e1 + 1\<rparr>"
  obtain m2 where m2: "SiDaqResumeRecvData (SiDaqPauseRecvData (Some ?m1)) = Some m2" "m_eventFrame m2 = Some e1"
    "status m2 = status m" "squeue_list_ptr (sock_param m2) = squeue_list_ptr (sock_param m)"
    "squeue_index (sock_param m2) = squeue_index (sock_param m)" "squeue_count (sock_param m2) = squeue_count (sock_param m)"
    "m_framer m2 = m_framer m"
    by (simp add: SiDaqResumeRecvData_def SiDaqPauseRecvData_def)
  let ?m3 = "m2\<lparr>m_eventFrame := Some ?e2\<rparr>"
  have "event_queue m2 = Inr e1" using m2(2) by (simp add: event_queue_def)
  then have "recv_take env tp w = Inr (tp\<lparr>tp_receive_bytes := i64 (tp_receive_bytes tp + int (length f))\<rparr>,
      mngr_upd a ?m3 (WriteDataToFile True (tp_path tp) f w))"
    using assms(2,5-7) h(1) e1 m2(1)
    by (simp add: recv_take_def SiDaqGetData_def SiDaqDeleteData_def quiet_recv_def Let_def)
  moreover have "ready ?m3 q ?e2 fr" using assms(3) m2 e2(1) by (simp add: ready_def holds_def)
  ultimately show ?thesis using m2(3) e2(2) by (intro exI [of _ ?m3] exI [of _ ?e2]) simp
qed

lemma recv_round_frame:
  assumes "a \<noteq> 0" "mngr_at a w = Inr m" "ready m q e fr" "sq_frames e = f # fs" "quiet_recv env"
    and "tp_mngr tp = a" "tp_write_file tp" "tp_force_exit tp"
  shows "\<exists>m1 e1. recv_round env tp w = Inr (tp\<lparr>tp_receive_bytes := i64 (tp_receive_bytes tp + int (length f))\<rparr>,
      mngr_upd a m1 (WriteDataToFile True (tp_path tp) f w), False) \<and>
    ready m1 q e1 fr \<and> sq_frames e1 = fs \<and> status m1 = status m"
proof -
  have "recv_ends env a w = Inr (False, w)"
    using status_ready [OF assms(1,2)] counts_ready [OF assms(1-3)] assms(4) by (simp add: recv_ends_def)
  with recv_take_frame [OF assms(1-7)] assms(1,6,8) show ?thesis by (auto simp: recv_round_def)
qed

lemma recv_rounds_drain:
  assumes "a \<noteq> 0" "mngr_at a w = Inr m" "ready m q e fr" "sq_frames q = []" "status m = SIDAQ_IDLE"
    and "\<forall>env\<in>set envs. quiet_recv env" "length envs = Suc (length (sq_frames e))"
    and "tp_mngr tp = a" "tp_write_file tp" "tp_force_exit tp"
    and "0 \<le> tp_receive_bytes tp" "tp_receive_bytes tp + int (length (concat (sq_frames e))) < 2 ^ 63"
  shows "\<exists>w1 m1 e1. recv_rounds envs tp w = Inr (tp\<lparr>tp_receive_bytes :=
      tp_receive_bytes tp + int (length (concat (sq_frames e)))\<rparr>, w1, True) \<and>
    mngr_at a w1 = Inr m1 \<and> ready m1 q e1 fr \<and> sq_frames e1 = [] \<and> status m1 = SIDAQ_IDLE \<and>
    wd_files w1 = (wd_files w)(tp_path tp := wd_files w (tp_path tp) @ concat (map log_line (sq_frames e)))"
  using assms
proof (induction envs arbitrary: tp w m e)
  case Nil
  then show ?case by simp
next
  case (Cons env envs)
  have env: "quiet_recv env" using Cons.prems(6) by simp
  show ?case
  proof (cases "sq_frames e")
    case Nil
    have c: "counts_at a w = Inr (0, 0)" using counts_ready [OF Cons.prems(1-3)] Nil Cons.prems(4) by simp
    then have "recv_ends env a w = Inr (True, w)"
      using status_ready [OF Cons.prems(1,2)] Cons.prems(5) env poll_quiet [OF c]
      by (simp add: recv_ends_def quiet_recv_def)
    then have "recv_rounds (env # envs) tp w = Inr (tp, w, True)"
      using Cons.prems(1,8,10) by (simp add: recv_round_def)
    then show ?thesis using Cons.prems(2,3,5) Nil
      by (intro exI [of _ w] exI [of _ m] exI [of _ e]) simp
  next
    case (Cons f fs)
    let ?tp = "tp\<lparr>tp_receive_bytes := i64 (tp_receive_bytes tp + int (length f))\<rparr>"
    let ?wf = "WriteDataToFile True (tp_path tp) f w"
    from recv_round_frame [OF Cons.prems(1-3) Cons env Cons.prems(8-10)] obtain m1 e1 where
      r: "recv_round env tp w = Inr (?tp, mngr_upd a m1 ?wf, False)" and
      m1: "ready m1 q e1 fr" "sq_frames e1 = fs" "status m1 = status m" by blast
    have b: "tp_receive_bytes ?tp = tp_receive_bytes tp + int (length f)"
      using Cons.prems(11,12) Cons by (simp add: i64_id)
    have s: "status m1 = SIDAQ_IDLE" using m1(3) Cons.prems(5) by simp
    have e: "\<forall>env\<in>set envs. quiet_recv env" "length envs = Suc (length (sq_frames e1))"
      using Cons.prems(6,7) Cons m1(2) by simp_all
    have t: "tp_mngr ?tp = a" "tp_write_file ?tp" "tp_force_exit ?tp" "0 \<le> tp_receive_bytes ?tp"
      "tp_receive_bytes ?tp + int (length (concat (sq_frames e1))) < 2 ^ 63"
      using Cons.prems(8-12) b m1(2) Cons by simp_all
    from Cons.IH [OF Cons.prems(1) mngr_at_upd [OF Cons.prems(1)] m1(1) Cons.prems(4) s e t, of ?wf]
    obtain w1 m2 e2 where ih: "recv_rounds envs ?tp (mngr_upd a m1 ?wf) = Inr (?tp\<lparr>tp_receive_bytes :=
        tp_receive_bytes ?tp + int (length (concat (sq_frames e1)))\<rparr>, w1, True)"
      "mngr_at a w1 = Inr m2" "ready m2 q e2 fr" "sq_frames e2 = []" "status m2 = SIDAQ_IDLE"
      "wd_files w1 = (wd_files (mngr_upd a m1 ?wf))(tp_path ?tp :=
        wd_files (mngr_upd a m1 ?wf) (tp_path ?tp) @ concat (map log_line (sq_frames e1)))" by blast
    have "wd_files w1 = (wd_files w)(tp_path tp := wd_files w (tp_path tp) @ concat (map log_line (sq_frames e)))"
      using ih(6) Cons m1(2) by (simp add: WriteDataToFile_def crt_log_line)
    moreover have "tp_receive_bytes ?tp + int (length (concat (sq_frames e1))) =
        tp_receive_bytes tp + int (length (concat (sq_frames e)))" using b m1(2) Cons by simp
    moreover have "recv_rounds (env # envs) tp w = recv_rounds envs ?tp (mngr_upd a m1 ?wf)" using r by simp
    ultimately show ?thesis using ih(1-5)
      by (intro exI [of _ w1] exI [of _ m2] exI [of _ e2]) (simp del: recv_rounds.simps)
  qed
qed

text \<open>C16. The consumer delivers everything and ends: on a finished measurement with an empty receive
  queue, started with logging to a new file, it ends after one round per waiting frame and one more; the
  event queue is then empty, \<open>receive_bytes\<close> is the number of bytes of all frames, and the file reads
  back as exactly these frames.\<close>

theorem consumer_delivers:
  assumes "a \<noteq> 0" "mngr_at a w = Inr m" "ready m q e fr" "sq_frames q = []" "status m = SIDAQ_IDLE"
    and "\<forall>env\<in>set envs. quiet_recv env" "length envs = Suc (length (sq_frames e))"
    and "tp_mngr tp = a" "tp_write_file tp" "tp_force_exit tp" "wd_files w (tp_path tp) = []"
    and "int (length (concat (sq_frames e))) < 2 ^ 63"
  shows "\<exists>tp1 w1 m1 e1. recv_thread envs tp w = Inr (tp1, w1, True) \<and> mngr_at a w1 = Inr m1 \<and>
    m_eventFrame m1 = Some e1 \<and> sq_frames e1 = [] \<and>
    tp_receive_bytes tp1 = int (length (concat (sq_frames e))) \<and> read_log (wd_files w1 (tp_path tp)) [] = sq_frames e"
proof -
  let ?tp = "tp\<lparr>tp_receive_bytes := 0\<rparr>"
  have t: "tp_mngr ?tp = a" "tp_write_file ?tp" "tp_force_exit ?tp" "0 \<le> tp_receive_bytes ?tp"
    "tp_receive_bytes ?tp + int (length (concat (sq_frames e))) < 2 ^ 63" using assms(8-12) by simp_all
  from recv_rounds_drain [OF assms(1-7) t] obtain w1 m1 e1 where r: "recv_rounds envs ?tp w = Inr (?tp\<lparr>tp_receive_bytes :=
      tp_receive_bytes ?tp + int (length (concat (sq_frames e)))\<rparr>, w1, True)" "mngr_at a w1 = Inr m1" "ready m1 q e1 fr"
    "sq_frames e1 = []" "wd_files w1 = (wd_files w)(tp_path ?tp := wd_files w (tp_path ?tp) @ concat (map log_line (sq_frames e)))"
    by blast
  have "read_log (wd_files w1 (tp_path tp)) [] = sq_frames e"
    using r(5) assms(11) read_log_lines [of "sq_frames e" "[]"] by simp
  moreover have "m_eventFrame m1 = Some e1" using r(3) by (simp add: ready_def holds_def)
  ultimately show ?thesis using r(1,2,4) by (auto simp: recv_thread_def)
qed

definition demo_world :: "SiDaqMngr \<Rightarrow> unit world" where
  "demo_world m = \<lparr>wd_mngrs = [1 \<mapsto> m], wd_next = 2, wd_wsa = 1, wd_names = Map.empty, wd_files = (\<lambda>_. []), wd_net = ()\<rparr>"

definition demo_recv_env :: "unit recv_env" where
  "demo_recv_env = \<lparr>rv_other = (\<lambda>_. id), rv_sleep = (\<lambda>_. id), rv_timed_out = False, rv_open = True\<rparr>"

theorem consumer_delivers_witness:
  "\<exists>q e tp1 w1. sq_frames e = [[1, 2, 3], [4, 5]] \<and>
     recv_thread [demo_recv_env, demo_recv_env, demo_recv_env]
       \<lparr>tp_mngr = 1, tp_receive_bytes = 99, tp_write_file = True, tp_force_exit = True, tp_path = ''log''\<rparr>
       (demo_world (demo_mngr SIDAQ_IDLE q e (demo_framer 2 0))) = Inr (tp1, w1, True) \<and>
     tp_receive_bytes tp1 = 5 \<and> read_log (wd_files w1 ''log'') [] = [[1, 2, 3], [4, 5]]"
proof -
  obtain q where q: "sq_inv q" "sq_frames q = []" using demo_store by metis
  obtain e where e: "sq_inv e" "sq_frames e = [[1, 2, 3], [4, 5]]" by (rule demo_received)
  have p: "(0::int) < 2" "(2::int) < 1000" by simp_all
  note f = demo_framer_ok [OF p, of 0]
  let ?m = "demo_mngr SIDAQ_IDLE q e (demo_framer 2 0)"
  let ?tp = "\<lparr>tp_mngr = 1, tp_receive_bytes = 99, tp_write_file = True, tp_force_exit = True, tp_path = ''log''\<rparr>"
  have r: "ready ?m q e (demo_framer 2 0)" by (rule demo_ready) (use q e f in simp_all)
  have a: "(1::nat) \<noteq> 0" "mngr_at 1 (demo_world ?m) = Inr ?m" by (simp_all add: mngr_at_def demo_world_def)
  have b: "status ?m = SIDAQ_IDLE" "\<forall>env\<in>set [demo_recv_env, demo_recv_env, demo_recv_env]. quiet_recv env"
    "length [demo_recv_env, demo_recv_env, demo_recv_env] = Suc (length (sq_frames e))" "tp_mngr ?tp = 1"
    "tp_write_file ?tp" "tp_force_exit ?tp" "wd_files (demo_world ?m) (tp_path ?tp) = []"
    "int (length (concat (sq_frames e))) < 2 ^ 63"
    using e by (simp_all add: quiet_recv_def demo_recv_env_def demo_world_def)
  from consumer_delivers [OF a r q(2) b] e(2) show ?thesis
    by (intro exI [of _ q] exI [of _ e]) auto
qed

end
