(* ===== verification/Mfc_Info.thy ===== *)
theory Mfc_Info
  imports Mfc_Consumer_Props
begin

text \<open>
  The register report of the sample application (\<open>CreateSiTCPInfo\<close> in
  \<open>MfcSample/SiDaqMfcSampleDlg.cpp\<close>): the text the dialog logs after it has read the 64 SiTCP registers.
  \<open>ret_data\<close> is the manager's copy of the registers, 255 bytes of which the report reads the first 48.
\<close>

section \<open>Numbers in text\<close>

fun dec :: "nat \<Rightarrow> string" where
  "dec n = (if n < 10 then [hex_digit n] else dec (n div 10) @ [hex_digit (n mod 10)])"

declare dec.simps [simp del]

text \<open>\<open>"%d"\<close> of a byte and of a two-byte register, \<open>"%02X"\<close> of a byte.\<close>

definition reg8 :: "byte list \<Rightarrow> nat \<Rightarrow> nat" where
  "reg8 ret_data i = unat (ret_data ! i)"

definition reg16 :: "byte list \<Rightarrow> nat \<Rightarrow> nat" where
  "reg16 ret_data i = push_bit 8 (unat (ret_data ! i)) + unat (ret_data ! (i + 1))"

definition hex2 :: "byte list \<Rightarrow> nat \<Rightarrow> string" where
  "hex2 ret_data i = [hex_digit (unat (ret_data ! i) div 16), hex_digit (unat (ret_data ! i) mod 16)]"

definition CRLF :: string where
  "CRLF = [CHR 0x0D, CHR 0x0A]"

section \<open>The report\<close>

definition msec_line :: "string \<Rightarrow> nat \<Rightarrow> string" where
  "msec_line label n = label @ dec n @ '' msec'' @ CRLF"

definition CreateSiTCPInfo :: "byte list option \<Rightarrow> string" where
  "CreateSiTCPInfo ret = ''SiTCP Info'' @ CRLF @ (case ret of None \<Rightarrow> [] | Some r \<Rightarrow>
     ''IP Address : '' @ dec (reg8 r 0x18) @ ''.'' @ dec (reg8 r 0x19) @ ''.'' @ dec (reg8 r 0x1a) @ ''.'' @
       dec (reg8 r 0x1b) @ CRLF @
     ''TCP Port : '' @ dec (reg16 r 0x1c) @ CRLF @
     ''UDP Port : '' @ dec (reg16 r 0x22) @ CRLF @
     ''MAC Address : '' @ hex2 r 0x12 @ '':'' @ hex2 r 0x13 @ '':'' @ hex2 r 0x14 @ '':'' @ hex2 r 0x15 @ '':'' @
       hex2 r 0x16 @ '':'' @ hex2 r 0x17 @ CRLF @
     ''TCP Command Port : '' @ dec (reg16 r 0x1e) @ CRLF @
     ''TCP Max Segment Size : '' @ dec (reg16 r 0x20) @ CRLF @
     msec_line ''TCP Keep Alive (Buffer Not Empty) : '' (reg16 r 0x24) @
     msec_line ''TCP Keep Alive (Buffer Empty) : '' (reg16 r 0x26) @
     msec_line ''TCP Timeout Connecting : '' (reg16 r 0x28) @
     msec_line ''TCP Timeout Disconnect: '' (reg16 r 0x2a * 256) @
     msec_line ''TCP Recconect Interval : '' (reg16 r 0x2c) @
     msec_line ''TCP Retransmition timer : '' (reg16 r 0x2e) @
     (if r ! 0x10 = 0 then ''TCP KeepAlive Enabled : disable'' else ''TCP KeepAlive Enabled : eneble'') @ CRLF)"

section \<open>What the report tells\<close>

definition dec_value :: "string \<Rightarrow> nat" where
  "dec_value s = foldl (\<lambda>n c. 10 * n + hex_value c) 0 s"

lemma dec_value_dec: "dec_value (dec n) = n"
proof (induction n rule: dec.induct)
  case (1 n)
  show ?case
  proof (cases "n < 10")
    case True
    then show ?thesis using hex_digit_cases [of n] by (simp add: dec.simps [of n] dec_value_def)
  next
    case False
    have "hex_value (hex_digit (n mod 10)) = n mod 10" using hex_digit_cases [of "n mod 10"] by simp
    then show ?thesis using "1.IH" False by (simp add: dec.simps [of n] dec_value_def)
  qed
qed

lemma dec_inj [simp]: "dec m = dec n \<longleftrightarrow> m = n"
  using dec_value_dec by metis

definition digit :: "char \<Rightarrow> bool" where
  "digit c \<longleftrightarrow> c \<in> set ''0123456789''"

lemma hex_digit_10: "n < 10 \<Longrightarrow> digit (hex_digit n)"
proof -
  assume "n < 10"
  then have "n \<in> set [0..<10]" by simp
  moreover have "\<forall>n\<in>set [0..<10]. digit (hex_digit n)" by (simp add: digit_def hex_digit_def upt_rec)
  ultimately show ?thesis by blast
qed

lemma dec_digits: "c \<in> set (dec n) \<Longrightarrow> digit c"
proof (induction n rule: dec.induct)
  case (1 n)
  show ?case
  proof (cases "n < 10")
    case True
    then show ?thesis using "1.prems" hex_digit_10 by (simp add: dec.simps [of n])
  next
    case False
    then have "c \<in> set (dec (n div 10)) \<or> c = hex_digit (n mod 10)" using "1.prems" by (auto simp: dec.simps [of n])
    then show ?thesis using "1.IH" [OF False] hex_digit_10 [of "n mod 10"] by auto
  qed
qed

text \<open>A decimal number ends where the digits end, so it can be told from what follows.\<close>

lemma dec_append:
  assumes "\<not> digit c"
  shows "dec m @ c # s = dec n @ c # t \<longleftrightarrow> m = n \<and> s = t"
proof
  assume eq: "dec m @ c # s = dec n @ c # t"
  have tw: "takeWhile digit (dec k @ c # u) = dec k" for k u
    using assms dec_digits by (auto simp: takeWhile_append)
  have "dec m = dec n" using tw [of m s] tw [of n t] eq by simp
  with eq show "m = n \<and> s = t" by simp
qed simp

lemma dec_ends [simp]:
  "dec m @ CHR ''.'' # s = dec n @ CHR ''.'' # t \<longleftrightarrow> m = n \<and> s = t"
  "dec m @ CHR '' '' # s = dec n @ CHR '' '' # t \<longleftrightarrow> m = n \<and> s = t"
  "dec m @ CHR 0x0D # s = dec n @ CHR 0x0D # t \<longleftrightarrow> m = n \<and> s = t"
  by (rule dec_append, simp add: digit_def)+

lemma hex_digit_inj: "m < 16 \<Longrightarrow> n < 16 \<Longrightarrow> hex_digit m = hex_digit n \<longleftrightarrow> m = n"
  using hex_digit_cases by metis

lemma byte_nibbles: "(b :: byte) = c \<longleftrightarrow> unat b div 16 = unat c div 16 \<and> unat b mod 16 = unat c mod 16"
  by (metis div_mult_mod_eq word_unat_eq_iff)

lemma two_bytes:
  assumes "b < 256" "d < (256 :: nat)"
  shows "a * 256 + b = c * 256 + d \<longleftrightarrow> a = c \<and> b = d"
proof
  assume eq: "a * 256 + b = c * 256 + d"
  have "(a * 256 + b) mod 256 = b" "(c * 256 + d) mod 256 = d" using assms by simp_all
  with eq show "a = c \<and> b = d" by simp
qed simp

lemma regs_eq [simp]:
  "reg8 r i = reg8 r' i \<longleftrightarrow> r ! i = r' ! i"
  "hex2 r i @ s = hex2 r' i @ t \<longleftrightarrow> r ! i = r' ! i \<and> s = t"
  "reg16 r i = reg16 r' i \<longleftrightarrow> r ! i = r' ! i \<and> r ! (i + 1) = r' ! (i + 1)"
proof -
  show "reg8 r i = reg8 r' i \<longleftrightarrow> r ! i = r' ! i" by (simp add: reg8_def word_unat_eq_iff)
  show "hex2 r i @ s = hex2 r' i @ t \<longleftrightarrow> r ! i = r' ! i \<and> s = t"
    using byte_nibbles by (auto simp: hex2_def hex_digit_inj nibbles)
  have b: "unat (b :: byte) < 256" for b using uint_lt2p [of b] by (simp add: nat_less_iff flip: nat_uint_eq)
  show "reg16 r i = reg16 r' i \<longleftrightarrow> r ! i = r' ! i \<and> r ! (i + 1) = r' ! (i + 1)"
    unfolding reg16_def push_bit_eq_mult using two_bytes [OF b [of "r ! (i + 1)"] b [of "r' ! (i + 1)"]]
    by (simp add: word_unat_eq_iff)
qed

lemma msec_line_eq: "msec_line label m @ s = msec_line label n @ t \<longleftrightarrow> m = n \<and> s = t"
  by (simp add: msec_line_def)

lemma crlf_eq:
  "CRLF @ s = CRLF @ t \<longleftrightarrow> s = t" "dec m @ CRLF @ s = dec n @ CRLF @ t \<longleftrightarrow> m = n \<and> s = t"
  by (simp_all add: CRLF_def)

text \<open>C40. The report is exact: two register images give the same report if and only if they agree on every
  register from 0x12 to 0x2f and on whether the control register at 0x10 is zero.  So every number in
  the report can be read back, and nothing else of the image shows.\<close>

theorem sitcp_report_exact:
  "CreateSiTCPInfo (Some r) = CreateSiTCPInfo (Some r') \<longleftrightarrow>
     (\<forall>i\<in>{0x12..<0x30}. r ! i = r' ! i) \<and> (r ! 0x10 = 0 \<longleftrightarrow> r' ! 0x10 = 0)"
proof -
  have range: "{0x12..<0x30} = set [0x12..<0x30 :: nat]" by (rule atLeastLessThan_upt)
  have all: "(\<forall>i\<in>{0x12..<0x30}. r ! i = r' ! i) \<longleftrightarrow>
    r ! 18 = r' ! 18 \<and> r ! 19 = r' ! 19 \<and> r ! 20 = r' ! 20 \<and> r ! 21 = r' ! 21 \<and> r ! 22 = r' ! 22 \<and> r ! 23 = r' ! 23 \<and>
    r ! 24 = r' ! 24 \<and> r ! 25 = r' ! 25 \<and> r ! 26 = r' ! 26 \<and> r ! 27 = r' ! 27 \<and> r ! 28 = r' ! 28 \<and> r ! 29 = r' ! 29 \<and>
    r ! 30 = r' ! 30 \<and> r ! 31 = r' ! 31 \<and> r ! 32 = r' ! 32 \<and> r ! 33 = r' ! 33 \<and> r ! 34 = r' ! 34 \<and> r ! 35 = r' ! 35 \<and>
    r ! 36 = r' ! 36 \<and> r ! 37 = r' ! 37 \<and> r ! 38 = r' ! 38 \<and> r ! 39 = r' ! 39 \<and> r ! 40 = r' ! 40 \<and> r ! 41 = r' ! 41 \<and>
    r ! 42 = r' ! 42 \<and> r ! 43 = r' ! 43 \<and> r ! 44 = r' ! 44 \<and> r ! 45 = r' ! 45 \<and> r ! 46 = r' ! 46 \<and> r ! 47 = r' ! 47"
    unfolding range by (simp add: upt_rec)
  have k: "((if a then ''TCP KeepAlive Enabled : disable'' else ''TCP KeepAlive Enabled : eneble'') @ CRLF =
      (if b then ''TCP KeepAlive Enabled : disable'' else ''TCP KeepAlive Enabled : eneble'') @ CRLF) = (a = b)" for a b
    by (cases a; cases b) simp_all
  show ?thesis
    unfolding all CreateSiTCPInfo_def
    by (simp add: crlf_eq msec_line_eq k split del: if_split del: append_same_eq) blast
qed


text \<open>The reserved registers before 0x10 do not show; the first byte of the MAC address does.\<close>

theorem sitcp_report_exact_witness:
  "CreateSiTCPInfo (Some ((replicate 64 7)[0 := 1])) = CreateSiTCPInfo (Some (replicate 64 7)) \<and>
   CreateSiTCPInfo (Some ((replicate 64 7)[0x12 := 1])) \<noteq> CreateSiTCPInfo (Some (replicate 64 7))"
  using sitcp_report_exact [of "(replicate 64 7)[0 := 1]" "replicate 64 7"]
    sitcp_report_exact [of "(replicate 64 7)[0x12 := 1]" "replicate 64 7"]
  by (auto simp: nth_list_update)

end
