(* ===== verification/Mfc_Resources.thy ===== *)
theory Mfc_Resources
  imports SiDaq_Prelude
begin

text \<open>
  The resources of the sample application: the identifiers of \<open>MfcSample/resource.h\<close>, the one identifier the
  sample takes from the library's \<open>SiDaqApi/Resource.h\<close>, and the string table and the dialog's controls as
  \<open>SiDaqMfcSample.rc\<close> has them.

  The controls of the dialog are a datatype ordered by their identifiers.  \<open>SiDaqMfcSampleDlg.h\<close> includes
  \<open>SiDaqApi.h\<close>, and that file includes the \<open>resource.h\<close> of its own directory; this is where the sample's
  \<open>IDP_SOCKETS_INIT_FAILED\<close> comes from.
\<close>

section \<open>Controls\<close>

datatype ctrl = IDC_IP_ADDRESS | IDC_TCP_PORT | IDC_UDP_PORT | IDC_BUTTON_CONNECT | IDC_BUTTON_RUN
  | IDC_COMBO_RUN_MODE | IDC_HEADER_LEN | IDC_FRAME_LEN | IDC_RECV_LIMIT_CHECK | IDC_FRAME_LIMIT_CHECK
  | IDC_RECV_LIMIT_COUNT | IDC_FRAME_LIMIT_COUNT | IDC_WRITE_FILE_CHECK | IDC_BUTTON_FILE_BROWSE
  | IDC_BUTTON_RBCP_READ | IDC_BUTTON_RBCP_WRITE | IDC_BUTTON_RESET | IDC_STATIC_STATUS | IDC_STATIC_ERROR
  | IDC_STATIC_DEVICE_INFO | IDC_STATIC_GBPS_INFO | IDC_STATIC_RECEIVE | IDC_STATIC_EVENT | IDC_STATIC_FILEPATH

primrec ctrl_id :: "ctrl \<Rightarrow> int" where
  "ctrl_id IDC_BUTTON_CONNECT = 1000"
| "ctrl_id IDC_BUTTON_FILE_BROWSE = 1001"
| "ctrl_id IDC_IP_ADDRESS = 1002"
| "ctrl_id IDC_STATIC_DEVICE_INFO = 1003"
| "ctrl_id IDC_TCP_PORT = 1004"
| "ctrl_id IDC_UDP_PORT = 1005"
| "ctrl_id IDC_BUTTON_RUN = 1006"
| "ctrl_id IDC_HEADER_LEN = 1007"
| "ctrl_id IDC_FRAME_LEN = 1008"
| "ctrl_id IDC_RECV_LIMIT_COUNT = 1009"
| "ctrl_id IDC_FRAME_LIMIT_COUNT = 1010"
| "ctrl_id IDC_BUTTON_RBCP_READ = 1011"
| "ctrl_id IDC_STATIC_STATUS = 1012"
| "ctrl_id IDC_STATIC_ERROR = 1013"
| "ctrl_id IDC_COMBO_RUN_MODE = 1014"
| "ctrl_id IDC_STATIC_GBPS_INFO = 1015"
| "ctrl_id IDC_BUTTON_RESET = 1016"
| "ctrl_id IDC_BUTTON_RBCP_WRITE = 1017"
| "ctrl_id IDC_STATIC_RECEIVE = 1018"
| "ctrl_id IDC_STATIC_EVENT = 1019"
| "ctrl_id IDC_STATIC_FILEPATH = 1020"
| "ctrl_id IDC_RECV_LIMIT_CHECK = 1021"
| "ctrl_id IDC_WRITE_FILE_CHECK = 1022"
| "ctrl_id IDC_FRAME_LIMIT_CHECK = 1023"

text \<open>The identifiers are distinct, so a control is ordered and found by its identifier: the controls in the
  order of their identifiers are without a gap.\<close>

definition ctrls :: "ctrl list" where
  "ctrls = [IDC_BUTTON_CONNECT, IDC_BUTTON_FILE_BROWSE, IDC_IP_ADDRESS, IDC_STATIC_DEVICE_INFO, IDC_TCP_PORT, IDC_UDP_PORT,
     IDC_BUTTON_RUN, IDC_HEADER_LEN, IDC_FRAME_LEN, IDC_RECV_LIMIT_COUNT, IDC_FRAME_LIMIT_COUNT, IDC_BUTTON_RBCP_READ,
     IDC_STATIC_STATUS, IDC_STATIC_ERROR, IDC_COMBO_RUN_MODE, IDC_STATIC_GBPS_INFO, IDC_BUTTON_RESET,
     IDC_BUTTON_RBCP_WRITE, IDC_STATIC_RECEIVE, IDC_STATIC_EVENT, IDC_STATIC_FILEPATH, IDC_RECV_LIMIT_CHECK,
     IDC_WRITE_FILE_CHECK, IDC_FRAME_LIMIT_CHECK]"

lemma ctrls_nth: "ctrls ! nat (ctrl_id c - 1000) = c"
  by (cases c) (simp_all add: ctrls_def)

lemma ctrl_id_eq [simp]: "ctrl_id c = ctrl_id c1 \<longleftrightarrow> c = c1"
  by (metis ctrls_nth)

lemma inj_ctrl_id: "inj ctrl_id"
  by (rule injI) simp

lemma ctrl_id_range: "1000 \<le> ctrl_id c \<and> ctrl_id c < 1024"
  by (cases c) simp_all

text \<open>No control has the identifier of a standard command: \<open>IDOK\<close>, \<open>IDCANCEL\<close>, \<open>ID_APP_EXIT\<close>.\<close>

lemma ctrl_id_command [simp]:
  "ctrl_id c \<noteq> 1" "ctrl_id c \<noteq> 2" "ctrl_id c \<noteq> 0xE141" "1 \<noteq> ctrl_id c" "2 \<noteq> ctrl_id c" "0xE141 \<noteq> ctrl_id c"
  using ctrl_id_range [of c] by auto

instantiation ctrl :: linorder
begin

definition less_eq_ctrl :: "ctrl \<Rightarrow> ctrl \<Rightarrow> bool" where
  "c \<le> c1 \<longleftrightarrow> ctrl_id c \<le> ctrl_id c1"

definition less_ctrl :: "ctrl \<Rightarrow> ctrl \<Rightarrow> bool" where
  "c < c1 \<longleftrightarrow> ctrl_id c < ctrl_id c1"

instance
proof
  fix c c1 c2 :: ctrl
  show "c < c1 \<longleftrightarrow> c \<le> c1 \<and> \<not> c1 \<le> c" by (auto simp: less_eq_ctrl_def less_ctrl_def)
  show "c \<le> c" "c \<le> c1 \<or> c1 \<le> c" by (auto simp: less_eq_ctrl_def)
  show "c \<le> c1 \<Longrightarrow> c1 \<le> c2 \<Longrightarrow> c \<le> c2" by (simp add: less_eq_ctrl_def)
  show "c \<le> c1 \<Longrightarrow> c1 \<le> c \<Longrightarrow> c = c1" unfolding less_eq_ctrl_def by (metis antisym ctrl_id_eq)
qed

end

text \<open>\<open>ctrls\<close> lists all controls in this order.\<close>

lemma set_ctrls: "set ctrls = UNIV"
proof -
  have "c \<in> set ctrls" for c by (cases c) (simp_all add: ctrls_def)
  then show ?thesis by blast
qed

lemma sorted_ctrls: "sorted ctrls" "distinct ctrls"
  by (simp_all add: ctrls_def less_eq_ctrl_def)

instance ctrl :: finite
  by standard (simp flip: set_ctrls)

lemma sorted_list_ctrls: "sorted_list_of_set UNIV = ctrls"
  using sorted_ctrls by (simp add: sorted_list_of_set.idem_if_sorted_distinct flip: set_ctrls)

section \<open>Other identifiers\<close>

definition IDM_ABOUTBOX :: "32 word" where "IDM_ABOUTBOX = 0x0010"
definition IDS_ABOUTBOX :: int where "IDS_ABOUTBOX = 101"
definition IDP_SOCKETS_INIT_FAILED_STRING :: int where "IDP_SOCKETS_INIT_FAILED_STRING = 103"
definition IDR_MAINFRAME :: int where "IDR_MAINFRAME = 128"

text \<open>The library's resource header.\<close>

definition IDP_SOCKETS_INIT_FAILED :: int where "IDP_SOCKETS_INIT_FAILED = 101"

text \<open>The string table.\<close>

definition string_table :: "int \<rightharpoonup> string" where
  "string_table = [IDS_ABOUTBOX \<mapsto> ''&About MFCApplication2...'',
     IDP_SOCKETS_INIT_FAILED_STRING \<mapsto> ''Windows sockets initialization failed.'']"

lemmas resource_ids = IDS_ABOUTBOX_def IDP_SOCKETS_INIT_FAILED_STRING_def IDP_SOCKETS_INIT_FAILED_def IDR_MAINFRAME_def

lemma string_table_simps [simp]:
  "string_table IDS_ABOUTBOX = Some ''&About MFCApplication2...''"
  "string_table IDP_SOCKETS_INIT_FAILED_STRING = Some ''Windows sockets initialization failed.''"
  "string_table IDP_SOCKETS_INIT_FAILED = Some ''&About MFCApplication2...''"
  by (simp_all add: string_table_def resource_ids)

text \<open>\<open>IDM_ABOUTBOX\<close> is in the range of system commands, as \<open>OnInitDialog\<close> asserts.\<close>

lemma aboutbox_in_range: "and IDM_ABOUTBOX 0xFFF0 = IDM_ABOUTBOX" "IDM_ABOUTBOX < 0xF000"
  by (simp_all add: IDM_ABOUTBOX_def)

section \<open>The dialog as the resource file has it\<close>

text \<open>The two controls that start disabled, and the texts of the controls.\<close>

definition template_enabled :: "ctrl \<Rightarrow> bool" where
  "template_enabled c \<longleftrightarrow> c \<noteq> IDC_COMBO_RUN_MODE \<and> c \<noteq> IDC_BUTTON_RUN"

primrec template_text :: "ctrl \<Rightarrow> string" where
  "template_text IDC_IP_ADDRESS = []"
| "template_text IDC_TCP_PORT = []"
| "template_text IDC_UDP_PORT = []"
| "template_text IDC_BUTTON_CONNECT = ''Connect''"
| "template_text IDC_HEADER_LEN = []"
| "template_text IDC_FRAME_LEN = []"
| "template_text IDC_COMBO_RUN_MODE = []"
| "template_text IDC_BUTTON_RUN = ''Run''"
| "template_text IDC_RECV_LIMIT_CHECK = ''Limit''"
| "template_text IDC_RECV_LIMIT_COUNT = []"
| "template_text IDC_FRAME_LIMIT_CHECK = ''Limit''"
| "template_text IDC_FRAME_LIMIT_COUNT = []"
| "template_text IDC_BUTTON_RESET = ''Reset''"
| "template_text IDC_WRITE_FILE_CHECK = ''Save File''"
| "template_text IDC_BUTTON_FILE_BROWSE = ''Browse''"
| "template_text IDC_BUTTON_RBCP_READ = ''RBCP Read''"
| "template_text IDC_BUTTON_RBCP_WRITE = ''RBCP Write (Control Register Reset)''"
| "template_text IDC_STATIC_DEVICE_INFO = ''data received : ''"
| "template_text IDC_STATIC_STATUS = ''Disconnected''"
| "template_text IDC_STATIC_ERROR = ''No Error''"
| "template_text IDC_STATIC_GBPS_INFO = ''data receive rate : ''"
| "template_text IDC_STATIC_RECEIVE = ''receive queue count''"
| "template_text IDC_STATIC_EVENT = ''event queue count''"
| "template_text IDC_STATIC_FILEPATH = ''File Path''"

end
