(* ===== verification/Mfc_Dialog.thy ===== *)
theory Mfc_Dialog
  imports Mfc_Info Frame_Length Mfc_Resources "HOL-Library.Signed_Division"
begin

text \<open>
  The dialog of the sample application (\<open>MfcSample/SiDaqMfcSampleDlg.h\<close> and
  \<open>SiDaqMfcSampleDlg.cpp\<close>): its controls, its four states, and one definition per message handler.

  A handler maps the dialog and the world to the dialog and the world afterwards.  A control is its
  enabled flag, its text and its check mark; the conversions of the runtime library (the number in an
  edit box, the current time, floating point output), the time of day and the answers of the system are
  fields of \<open>gui_env\<close>.  The time stamp of the operation log is left out.
\<close>

section \<open>Data\<close>

datatype GUIStatus = GUI_NO_CONNECTION | GUI_IDLE | GUI_RUNNING | GUI_STOPPING

datatype menu_item = Menu_separator | Menu_string "32 word" string

record dialog =
  dl_enabled :: "ctrl \<Rightarrow> bool"
  dl_text :: "ctrl \<Rightarrow> string"
  dl_check :: "ctrl \<Rightarrow> bool"
  dl_cur_sel :: int   \<comment> \<open>the selected run mode\<close>
  dl_mngr :: addr   \<comment> \<open>\<open>m_pSiDaqMngr\<close>\<close>
  dl_status :: GUIStatus   \<comment> \<open>\<open>CurrentGuiStatus\<close>\<close>
  dl_ticking :: bool   \<comment> \<open>the update timer is set\<close>
  dl_worker :: bool   \<comment> \<open>\<open>m_winthread_ptr\<close> is not NULL\<close>
  dl_param :: SiDaqThreadParam
  dl_log :: "string list"
  dl_items :: "string list"   \<comment> \<open>the entries of the run mode box\<close>
  dl_sys_menu :: "menu_item list option"   \<comment> \<open>\<open>GetSystemMenu\<close>; \<open>None\<close> is NULL\<close>
  dl_hicon :: addr   \<comment> \<open>\<open>m_hIcon\<close>\<close>
  dl_icons :: "bool \<Rightarrow> addr"   \<comment> \<open>the window's big and small icon\<close>

record 'n gui_env =
  ge_init :: init_env
  ge_net :: "'n udp"
  ge_run :: run_env
  ge_int :: "string \<Rightarrow> int"   \<comment> \<open>\<open>GetDlgItemInt\<close> of the text\<close>
  ge_wait :: "sqstore SockThreadLparam \<Rightarrow> sqstore SockThreadLparam"   \<comment> \<open>the socket thread while \<open>SiDaqStop\<close> waits\<close>
  ge_consumer_runs :: bool   \<comment> \<open>the consumer has not ended when a handler comes to wait for it\<close>
  ge_join :: "'n world \<Rightarrow> 'n world"   \<comment> \<open>the consumer until it ends\<close>
  ge_other :: "nat \<Rightarrow> 'n world \<Rightarrow> 'n world"   \<comment> \<open>the other threads during a \<open>Sleep(100)\<close>\<close>
  ge_thread :: bool   \<comment> \<open>\<open>AfxBeginThread\<close> succeeds\<close>
  ge_timer :: bool   \<comment> \<open>\<open>SetTimer\<close> succeeds\<close>
  ge_datetime :: string
  ge_double :: "int \<Rightarrow> int \<Rightarrow> string"   \<comment> \<open>\<open>"%.3lf"\<close> of a quotient\<close>
  ge_rate :: "string option"   \<comment> \<open>the rate line, when time has passed\<close>
  ge_iconic :: bool   \<comment> \<open>\<open>IsIconic\<close>\<close>
  ge_icon_size :: "int \<times> int"   \<comment> \<open>\<open>SM_CXICON\<close>, \<open>SM_CYICON\<close>\<close>
  ge_client :: "int \<times> int"   \<comment> \<open>width and height of the client rectangle\<close>

section \<open>Controls\<close>

definition enable :: "ctrl \<Rightarrow> bool \<Rightarrow> dialog \<Rightarrow> dialog" where
  "enable c b d = d\<lparr>dl_enabled := (dl_enabled d)(c := b)\<rparr>"

definition set_text :: "ctrl \<Rightarrow> string \<Rightarrow> dialog \<Rightarrow> dialog" where
  "set_text c s d = d\<lparr>dl_text := (dl_text d)(c := s)\<rparr>"

text \<open>A run of \<open>EnableWindow\<close> calls, in order.\<close>

definition enable_all :: "(ctrl \<times> bool) list \<Rightarrow> dialog \<Rightarrow> dialog" where
  "enable_all cs d = fold (\<lambda>(c, b). enable c b) cs d"

definition AddOpelog :: "string \<Rightarrow> dialog \<Rightarrow> dialog" where
  "AddOpelog logString d = d\<lparr>dl_log := dl_log d @ [logString]\<rparr>"

definition FrameControlInitialize :: "int \<Rightarrow> dialog \<Rightarrow> dialog" where
  "FrameControlInitialize index d =
     (if index = 0 then enable_all [(IDC_HEADER_LEN, False), (IDC_FRAME_LEN, False)] d
      else if index = 1 then enable_all [(IDC_HEADER_LEN, True), (IDC_FRAME_LEN, False)] d
      else if index = 2 then enable_all [(IDC_HEADER_LEN, False), (IDC_FRAME_LEN, True)] d
      else enable_all [(IDC_HEADER_LEN, False), (IDC_FRAME_LEN, False)] d)"

fun UpdateGUIControlStatus :: "GUIStatus \<Rightarrow> dialog \<Rightarrow> dialog" where
  "UpdateGUIControlStatus GUI_NO_CONNECTION d =
     enable_all [(IDC_BUTTON_CONNECT, True), (IDC_BUTTON_RUN, False), (IDC_COMBO_RUN_MODE, False),
       (IDC_HEADER_LEN, False), (IDC_FRAME_LEN, False), (IDC_RECV_LIMIT_CHECK, False), (IDC_FRAME_LIMIT_CHECK, False),
       (IDC_RECV_LIMIT_COUNT, False), (IDC_FRAME_LIMIT_COUNT, False), (IDC_WRITE_FILE_CHECK, False),
       (IDC_BUTTON_FILE_BROWSE, False), (IDC_BUTTON_RBCP_READ, False), (IDC_BUTTON_RBCP_WRITE, False),
       (IDC_BUTTON_RESET, False)]
     (set_text IDC_BUTTON_RUN ''Run'' (set_text IDC_BUTTON_CONNECT ''Connect''
     (enable_all [(IDC_IP_ADDRESS, True), (IDC_TCP_PORT, True), (IDC_UDP_PORT, True)] d)))"
| "UpdateGUIControlStatus GUI_IDLE d =
     enable_all [(IDC_RECV_LIMIT_CHECK, True), (IDC_FRAME_LIMIT_CHECK, True), (IDC_RECV_LIMIT_COUNT, True),
       (IDC_FRAME_LIMIT_COUNT, True), (IDC_WRITE_FILE_CHECK, True), (IDC_BUTTON_FILE_BROWSE, True),
       (IDC_BUTTON_RBCP_READ, True), (IDC_BUTTON_RBCP_WRITE, True), (IDC_BUTTON_RESET, False)]
     (FrameControlInitialize (dl_cur_sel d)
     (enable_all [(IDC_BUTTON_CONNECT, True), (IDC_BUTTON_RUN, True), (IDC_COMBO_RUN_MODE, True)]
     (set_text IDC_BUTTON_RUN ''Run'' (set_text IDC_BUTTON_CONNECT ''Disconnect''
     (enable_all [(IDC_IP_ADDRESS, False), (IDC_TCP_PORT, False), (IDC_UDP_PORT, False)] d)))))"
| "UpdateGUIControlStatus GUI_RUNNING d =
     enable_all [(IDC_BUTTON_CONNECT, False), (IDC_BUTTON_RUN, True), (IDC_COMBO_RUN_MODE, False),
       (IDC_HEADER_LEN, False), (IDC_FRAME_LEN, False), (IDC_RECV_LIMIT_CHECK, False), (IDC_FRAME_LIMIT_CHECK, False),
       (IDC_RECV_LIMIT_COUNT, False), (IDC_FRAME_LIMIT_COUNT, False), (IDC_WRITE_FILE_CHECK, False),
       (IDC_BUTTON_FILE_BROWSE, False), (IDC_BUTTON_RBCP_READ, False), (IDC_BUTTON_RBCP_WRITE, False),
       (IDC_BUTTON_RESET, False)]
     (set_text IDC_BUTTON_RUN ''Stop'' (set_text IDC_BUTTON_CONNECT ''Disconnect''
     (enable_all [(IDC_IP_ADDRESS, False), (IDC_TCP_PORT, False), (IDC_UDP_PORT, False)] d)))"
| "UpdateGUIControlStatus GUI_STOPPING d =
     enable_all [(IDC_BUTTON_CONNECT, False), (IDC_BUTTON_RUN, False), (IDC_COMBO_RUN_MODE, False),
       (IDC_HEADER_LEN, False), (IDC_FRAME_LEN, False), (IDC_RECV_LIMIT_CHECK, False), (IDC_FRAME_LIMIT_CHECK, False),
       (IDC_RECV_LIMIT_COUNT, False), (IDC_FRAME_LIMIT_COUNT, False), (IDC_WRITE_FILE_CHECK, False),
       (IDC_BUTTON_FILE_BROWSE, False), (IDC_BUTTON_RBCP_READ, False), (IDC_BUTTON_RBCP_WRITE, False),
       (IDC_BUTTON_RESET, True)]
     (set_text IDC_BUTTON_RUN ''Stop'' (set_text IDC_BUTTON_CONNECT ''Disconnect''
     (enable_all [(IDC_IP_ADDRESS, False), (IDC_TCP_PORT, False), (IDC_UDP_PORT, False)] d)))"

definition set_status :: "GUIStatus \<Rightarrow> dialog \<Rightarrow> dialog" where
  "set_status st d = d\<lparr>dl_status := st\<rparr>"

text \<open>\<open>CurrentGuiStatus = st; UpdateGUIControlStatus(CurrentGuiStatus);\<close>\<close>

definition enter :: "GUIStatus \<Rightarrow> dialog \<Rightarrow> dialog" where
  "enter st d = UpdateGUIControlStatus st (set_status st d)"

section \<open>The library through the dialog's pointer\<close>

definition terminate_at :: "'n gui_env \<Rightarrow> addr \<Rightarrow> 'n world \<Rightarrow> 'n world outcome" where
  "terminate_at env a w = (if a = 0 then Inr w
     else obind (mngr_at a w) (\<lambda>m.
       obind (SiDaqTerminate (ge_wait env) (Some m) False (wd_wsa w)) (\<lambda>(g, _).
         Inr (w\<lparr>wd_mngrs := (wd_mngrs w)(a := None), wd_wsa := g\<rparr>))))"

text \<open>The two status lines.\<close>

definition show_status :: "addr \<Rightarrow> dialog \<times> 'n world \<Rightarrow> (dialog \<times> 'n world) outcome" where
  "show_status a = (\<lambda>(d, w).
     obind (if a = 0 then Inr None else obind (mngr_at a w) (\<lambda>m. Inr (Some m))) (\<lambda>mo.
       let (status_str, names) = SiDaqStatusText mo (wd_names w); w1 = w\<lparr>wd_names := names\<rparr> in
       obind (mngr_at a w1) (\<lambda>m.
         Inr (set_text IDC_STATIC_ERROR (SiDaqErrorMessage m) (set_text IDC_STATIC_STATUS status_str d), w1))))"

text \<open>The two queue counts, \<open>"%u"\<close>.\<close>

definition show_counts :: "int \<times> int \<Rightarrow> dialog \<Rightarrow> dialog" where
  "show_counts = (\<lambda>(recv_count, frame_count) d.
     set_text IDC_STATIC_EVENT (dec (nat (u32 frame_count)))
       (set_text IDC_STATIC_RECEIVE (dec (nat (u32 recv_count))) d))"

section \<open>Start\<close>

text \<open>The constructor, with the initializer of \<open>m_thread_param\<close>; \<open>icon\<close> is what \<open>LoadIcon(IDR_MAINFRAME)\<close> returns.\<close>

definition dialog_ctor :: "addr \<Rightarrow> dialog \<Rightarrow> dialog" where
  "dialog_ctor icon d = d\<lparr>dl_mngr := 0, dl_hicon := icon, dl_worker := False, dl_ticking := False,
     dl_status := GUI_NO_CONNECTION, dl_param := (dl_param d)\<lparr>tp_force_exit := True\<rparr>\<rparr>"

text \<open>The window when it has been created from the resource file: its controls, an empty run mode box without a
  selection, and the system menu.\<close>

definition dialog_template :: "menu_item list option \<Rightarrow> dialog \<Rightarrow> dialog" where
  "dialog_template sys_menu d = d\<lparr>dl_enabled := template_enabled, dl_text := template_text, dl_check := (\<lambda>_. False),
     dl_cur_sel := -1, dl_log := [], dl_items := [], dl_sys_menu := sys_menu, dl_icons := (\<lambda>_. 0)\<rparr>"

text \<open>A combo box without \<open>CBS_SORT\<close> appends a string; selecting an index that is not there clears the selection.\<close>

definition AddString :: "string \<Rightarrow> dialog \<Rightarrow> dialog" where
  "AddString s d = d\<lparr>dl_items := dl_items d @ [s]\<rparr>"

definition SetCurSel :: "int \<Rightarrow> dialog \<Rightarrow> dialog" where
  "SetCurSel i d = d\<lparr>dl_cur_sel := (if 0 \<le> i \<and> i < int (length (dl_items d)) then i else -1)\<rparr>"

text \<open>\<open>OnInitDialog\<close>: the entry of the about box in the system menu, the icons, and the controls; \<open>curDir\<close> is the
  directory of the executable, if known.\<close>

definition add_about_item :: "dialog \<Rightarrow> dialog outcome" where
  "add_about_item d =
     (if and IDM_ABOUTBOX 0xFFF0 \<noteq> IDM_ABOUTBOX \<or> \<not> IDM_ABOUTBOX < 0xF000 then Inl Assert_failed
      else case dl_sys_menu d of
        None \<Rightarrow> Inr d
      | Some items \<Rightarrow>
          (case string_table IDS_ABOUTBOX of
             None \<Rightarrow> Inl Assert_failed
           | Some strAboutMenu \<Rightarrow>
               Inr (if strAboutMenu = [] then d
                    else d\<lparr>dl_sys_menu := Some (items @ [Menu_separator, Menu_string IDM_ABOUTBOX strAboutMenu])\<rparr>)))"

definition init_controls :: "string option \<Rightarrow> dialog \<Rightarrow> dialog" where
  "init_controls curDir d =
     (let d0 = SetCurSel 0 (AddString ''Fixed'' (AddString ''Header'' (AddString ''NULL'' d)));
          d1 = enter GUI_NO_CONNECTION d0;
          d2 = set_text IDC_FRAME_LIMIT_COUNT ''10000'' (set_text IDC_RECV_LIMIT_COUNT ''5000''
            (set_text IDC_FRAME_LEN ''10000'' (set_text IDC_HEADER_LEN ''2'' (set_text IDC_UDP_PORT ''4660''
            (set_text IDC_TCP_PORT ''24242'' (set_text IDC_IP_ADDRESS ''localhost'' d1))))));
          d3 = (case curDir of None \<Rightarrow> d2 | Some dir \<Rightarrow> set_text IDC_STATIC_FILEPATH dir d2);
          d4 = AddOpelog ''System Start'' d3
      in d4\<lparr>dl_check := (dl_check d4)(IDC_RECV_LIMIT_CHECK := True, IDC_FRAME_LIMIT_CHECK := True,
           IDC_WRITE_FILE_CHECK := False)\<rparr>)"

definition OnInitDialog :: "string option \<Rightarrow> dialog \<Rightarrow> dialog outcome" where
  "OnInitDialog curDir d = obind (add_about_item d) (\<lambda>d1.
     Inr (init_controls curDir (d1\<lparr>dl_icons := (dl_icons d1)(True := dl_hicon d1, False := dl_hicon d1)\<rparr>)))"

section \<open>Drawing\<close>

text \<open>What \<open>OnPaint\<close> does: the icon at a position, or the work of the base class.  The division of C rounds towards
  zero.\<close>

datatype paint = Draw_icon int int addr | Base_paint

definition OnPaint :: "'n gui_env \<Rightarrow> dialog \<Rightarrow> paint" where
  "OnPaint env d =
     (if ge_iconic env then
        let (cxIcon, cyIcon) = ge_icon_size env; (width, height) = ge_client env;
            x = i32 (width - cxIcon + 1) sdiv 2; y = i32 (height - cyIcon + 1) sdiv 2
        in Draw_icon x y (dl_hicon d)
      else Base_paint)"

definition OnQueryDragIcon :: "dialog \<Rightarrow> addr" where
  "OnQueryDragIcon d = dl_hicon d"

section \<open>Connect\<close>

text \<open>\<open>Inl\<close> of the inner result is an exception of the register client's constructor, which nothing
  catches.\<close>

definition OnBnClickedButtonConnect :: "'n gui_env \<Rightarrow> dialog \<times> 'n world \<Rightarrow> (rbcp_exn + dialog \<times> 'n world) outcome" where
  "OnBnClickedButtonConnect env = (\<lambda>(d, w).
     let d0 = enable IDC_BUTTON_CONNECT False d in
     if dl_mngr d0 = 0 then
       obind (SiDaqInitialize (ge_init env) (ge_net env) (Some (dl_text d0 IDC_IP_ADDRESS))
           (i32 (ge_int env (dl_text d0 IDC_TCP_PORT))) 4660 False (wd_wsa w) (wd_net w)) (\<lambda>(res, g, n).
         let w1 = w\<lparr>wd_wsa := g, wd_net := n\<rparr> in
         case res of
           Inl e \<Rightarrow> Inr (Inl e)
         | Inr None \<Rightarrow> Inr (Inr (UpdateGUIControlStatus (dl_status d0) d0, w1))
         | Inr (Some m) \<Rightarrow>
             let a = wd_next w1; w2 = (mngr_upd a m w1)\<lparr>wd_next := a + 1\<rparr>; d1 = d0\<lparr>dl_mngr := a\<rparr> in
             if SiDaqGetStatus (Some m) \<noteq> SIDAQ_SYS_ERROR then
               Inr (Inr (enter GUI_IDLE (AddOpelog ''Connection Start'' (d1\<lparr>dl_ticking := ge_timer env\<rparr>)), w2))
             else
               obind (show_status a (d1, w2)) (\<lambda>(d2, w3).
               obind (terminate_at env a w3) (\<lambda>w4.
                 Inr (Inr (enter GUI_NO_CONNECTION (AddOpelog ''Connection Failed'' (d2\<lparr>dl_mngr := 0\<rparr>)), w4)))))
     else
       obind (terminate_at env (dl_mngr d0) w) (\<lambda>w1.
         Inr (Inr (enter GUI_NO_CONNECTION (AddOpelog ''Connection End'' (d0\<lparr>dl_mngr := 0, dl_ticking := False\<rparr>)), w1))))"

section \<open>Run and stop\<close>

text \<open>The arguments of \<open>SiDaqRun\<close> from the controls.\<close>

definition gui_args :: "'n gui_env \<Rightarrow> dialog \<Rightarrow> run_args" where
  "gui_args env d =
     (let num = (\<lambda>c. u32 (ge_int env (dl_text d c)));
          recv_limit = (if dl_check d IDC_RECV_LIMIT_CHECK then num IDC_RECV_LIMIT_COUNT else 0);
          frame_limit = (if dl_check d IDC_FRAME_LIMIT_CHECK then num IDC_FRAME_LIMIT_COUNT else 0);
          (func, header_len, fixed_len) =
            (if dl_cur_sel d = 0 then (None, 0, 0)
             else if dl_cur_sel d = 1 then (Some GetFrameLength, num IDC_HEADER_LEN, 0)
             else if dl_cur_sel d = 2 then (None, num IDC_HEADER_LEN, num IDC_FRAME_LEN)
             else (None, 0, 0))
      in \<lparr>ra_lengthFunc = func, ra_header_len = header_len, ra_fixed_frame_len = fixed_len,
          ra_rcv_buf_bytes = 100 * 1024 * 1024, ra_recv_queue_limit = recv_limit, ra_frame_queue_limit = frame_limit,
          ra_max_recv_buff = DEFAULT_RECV_BUFF_SIZE, ra_max_frame_len = DEFAULT_MAX_FRAME_LEN\<rparr>)"

text \<open>Telling the consumer to end and waiting for it.  The thread object that \<open>AfxBeginThread\<close> makes deletes
  itself when \<open>recv_thread\<close> has returned, and \<open>m_winthread_ptr\<close> is not cleared then, so reading \<open>m_hThread\<close> after
  that is a fault.\<close>

definition join_worker :: "'n gui_env \<Rightarrow> dialog \<times> 'n world \<Rightarrow> (dialog \<times> 'n world) outcome" where
  "join_worker env = (\<lambda>(d, w).
     if dl_worker d then
       if ge_consumer_runs env then
         Inr (d\<lparr>dl_param := (dl_param d)\<lparr>tp_force_exit := False\<rparr>, dl_worker := False\<rparr>, ge_join env w)
       else Inl Use_after_free
     else Inr (d, w))"

text \<open>The new consumer; it sets \<open>receive_bytes\<close> to 0 itself.\<close>

definition start_worker :: "'n gui_env \<Rightarrow> dialog \<Rightarrow> dialog" where
  "start_worker env d =
     (let check = dl_check d IDC_WRITE_FILE_CHECK;
          path = (if check then dl_text d IDC_STATIC_FILEPATH @ [CHR 0x5C] @ ge_datetime env @ ''.txt''
                  else tp_path (dl_param d))
      in d\<lparr>dl_param := (dl_param d)\<lparr>tp_mngr := dl_mngr d, tp_write_file := check, tp_force_exit := True, tp_path := path\<rparr>,
           dl_worker := ge_thread env\<rparr>)"

definition start_run :: "'n gui_env \<Rightarrow> dialog \<times> 'n world \<Rightarrow> (dialog \<times> 'n world) outcome" where
  "start_run env = (\<lambda>(d, w).
     let args = gui_args env d in
     obind (join_worker env (d, w)) (\<lambda>(d1, w1).
     let a = dl_mngr d1 in
     obind (mngr_at a w1) (\<lambda>m.
     obind (SiDaqRun (ge_run env) args m (wd_wsa w1)) (\<lambda>(new_status, m1, g).
       let w2 = (mngr_upd a m1 w1)\<lparr>wd_wsa := g\<rparr> in
       if new_status = SIDAQ_RUN then
         Inr (AddOpelog ''Run Start'' (enter GUI_RUNNING (start_worker env d1)), w2)
       else
         obind (show_status a (d1, w2)) (\<lambda>(d2, w3).
         obind (terminate_at env a w3) (\<lambda>w4.
           Inr (enter GUI_IDLE (AddOpelog ''Run Failed'' d2), w4)))))))"

definition stop_run :: "'n gui_env \<Rightarrow> dialog \<times> 'n world \<Rightarrow> (dialog \<times> 'n world) outcome" where
  "stop_run env = (\<lambda>(d, w).
     let d1 = AddOpelog ''Run Stopping...'' d; a = dl_mngr d1 in
     obind (mngr_at a w) (\<lambda>m.
       let w1 = mngr_upd a (snd (SiDaqStop (ge_wait env) m)) w; d2 = enter GUI_STOPPING d1 in
       obind (counts_at a w1) (\<lambda>counts. Inr (show_counts counts d2, w1))))"

text \<open>Between them the code falls through from \<open>SIDAQ_SYS_ERROR\<close> to \<open>SIDAQ_IDLE\<close>; the other statuses
  have no case.\<close>

definition OnBnClickedButtonRunStop :: "'n gui_env \<Rightarrow> dialog \<times> 'n world \<Rightarrow> (dialog \<times> 'n world) outcome" where
  "OnBnClickedButtonRunStop env = (\<lambda>(d, w).
     let d0 = enable IDC_BUTTON_CONNECT False (enable IDC_BUTTON_RUN False d) in
     if dl_mngr d0 = 0 then Inr (d0, w)
     else obind (status_at (dl_mngr d0) w) (\<lambda>sidaq_status.
       if (sidaq_status = SIDAQ_SYS_ERROR \<and> dl_status d0 = GUI_IDLE) \<or> sidaq_status = SIDAQ_IDLE
       then start_run env (d0, w)
       else if sidaq_status = SIDAQ_RUN then stop_run env (d0, w)
       else Inr (d0, w)))"

section \<open>The timer\<close>

definition bytes_text :: "'n gui_env \<Rightarrow> int \<Rightarrow> string" where
  "bytes_text env n = ''data received : '' @
     (if n < 1000 then (if n < 0 then ''-'' else []) @ dec (nat (abs n)) @ '' Bytes''
      else if n < 1000 * 1000 then ge_double env n 1000 @ '' KBytes''
      else if n < 1000 * 1000 * 1000 then ge_double env n (1000 * 1000) @ '' MBytes''
      else ge_double env n (1000 * 1000 * 1000) @ '' GBytes'')"

definition show_bytes :: "'n gui_env \<Rightarrow> dialog \<Rightarrow> dialog" where
  "show_bytes env d =
     (let d1 = set_text IDC_STATIC_DEVICE_INFO (bytes_text env (tp_receive_bytes (dl_param d))) d
      in case ge_rate env of None \<Rightarrow> d1 | Some rate \<Rightarrow> set_text IDC_STATIC_GBPS_INFO rate d1)"

text \<open>The end of the timer's handler: a failed measurement is stopping, and a stopping one is over when
  both queues stay empty.\<close>

definition timer_status :: "'n gui_env \<Rightarrow> SiDaqStatus \<Rightarrow> int \<times> int \<Rightarrow> dialog \<times> 'n world \<Rightarrow> (dialog \<times> 'n world) outcome" where
  "timer_status env run_status counts = (\<lambda>(d, w).
     let d1 = (if run_status = SIDAQ_SYS_ERROR \<and> dl_status d = GUI_RUNNING
               then AddOpelog ''Force Stopping...'' (enter GUI_STOPPING d) else d)
     in if dl_status d1 = GUI_STOPPING \<and> counts = (0, 0) then
          obind (poll_counts 10 (ge_other env) (dl_mngr d1) w) (\<lambda>(remain_flg, w1).
            Inr (if remain_flg then d1 else AddOpelog ''Run Stop'' (enter GUI_IDLE d1), w1))
        else Inr (d1, w))"

text \<open>\<open>m_update_timer\<close> is unsigned, so \<open>m_update_timer >= 0\<close> always holds; the timer is stopped during the
  handler.  1 is \<open>SIDAQ_UPDATE_TIMER_ID\<close>.\<close>

definition OnTimer :: "'n gui_env \<Rightarrow> int \<Rightarrow> dialog \<times> 'n world \<Rightarrow> (dialog \<times> 'n world) outcome" where
  "OnTimer env nIDEvent = (\<lambda>(d, w).
     let d0 = (if nIDEvent = 1 then d\<lparr>dl_ticking := False\<rparr> else d); a = dl_mngr d0 in
     obind (show_status a (d0, w)) (\<lambda>(d1, w1).
     obind (status_at a w1) (\<lambda>run_status.
       let d2 = (if run_status = SIDAQ_RUN then show_bytes env d1 else d1) in
       obind (counts_at a w1) (\<lambda>counts.
       obind (timer_status env run_status counts (show_counts counts d2, w1)) (\<lambda>(d3, w2).
         Inr (if nIDEvent = 1 then d3\<lparr>dl_ticking := ge_timer env\<rparr> else d3, w2))))))"

section \<open>The other handlers\<close>

definition OnBnClickedButtonReset :: "dialog \<times> 'n world \<Rightarrow> (dialog \<times> 'n world) outcome" where
  "OnBnClickedButtonReset = (\<lambda>(d, w).
     let d1 = AddOpelog ''Reset Queue Data...'' d; a = dl_mngr d1 in
     obind (if a = 0 then Inr w
            else obind (mngr_at a w) (\<lambda>m. obind (SiDaqResetQueue (Some m)) (\<lambda>mo. Inr (mngr_upd a (the mo) w)))) (\<lambda>w1.
       Inr (AddOpelog ''Reset Queue Data Finish'' d1, w1)))"

definition OnBnClickedButtonRbcpRead :: "'n gui_env \<Rightarrow> dialog \<times> 'n world \<Rightarrow> (dialog \<times> 'n world) outcome" where
  "OnBnClickedButtonRbcpRead env = (\<lambda>(d, w).
     obind (mngr_at (dl_mngr d) w) (\<lambda>m.
     obind (SiDaqRbcpReadBytes (ge_net env) 0xffffff00 64 m (wd_net w)) (\<lambda>(ret, m1, n).
       Inr (AddOpelog (CreateSiTCPInfo ret) d, (mngr_upd (dl_mngr d) m1 w)\<lparr>wd_net := n\<rparr>))))"

definition OnBnClickedButtonRbcpWrite :: "'n gui_env \<Rightarrow> dialog \<times> 'n world \<Rightarrow> (dialog \<times> 'n world) outcome" where
  "OnBnClickedButtonRbcpWrite env = (\<lambda>(d, w).
     obind (mngr_at (dl_mngr d) w) (\<lambda>m.
     obind (SiDaqRbcpWriteBytes (ge_net env) (Some [0x80]) 0xffffff10 1 m (wd_net w)) (\<lambda>(ret, m1, n).
       Inr (AddOpelog (if ret < 0 then ''RBCP Write Failed'' else ''RBCP Write Success. SiTCP Reset'') d,
         (mngr_upd (dl_mngr d) m1 w)\<lparr>wd_net := n\<rparr>))))"

definition OnCbnSelchangeComboRunMode :: "dialog \<times> 'n world \<Rightarrow> dialog \<times> 'n world" where
  "OnCbnSelchangeComboRunMode = (\<lambda>(d, w). (FrameControlInitialize (dl_cur_sel d) d, w))"

text \<open>\<open>picked\<close> is the folder chosen, if any.\<close>

definition OnBnClickedButtonFileBrowse :: "string option \<Rightarrow> dialog \<times> 'n world \<Rightarrow> dialog \<times> 'n world" where
  "OnBnClickedButtonFileBrowse picked = (\<lambda>(d, w).
     (case picked of None \<Rightarrow> d | Some path \<Rightarrow> set_text IDC_STATIC_FILEPATH path d, w))"

text \<open>Closing the window (\<open>WM_CLOSE\<close>, the OK button and the menu's exit), and the end of the window.\<close>

definition OnAppExit :: "'n gui_env \<Rightarrow> dialog \<times> 'n world \<Rightarrow> (dialog \<times> 'n world) outcome" where
  "OnAppExit env = (\<lambda>(d, w).
     obind (join_worker env (d, w)) (\<lambda>(d1, w1).
       if dl_mngr d1 \<noteq> 0 then obind (terminate_at env (dl_mngr d1) w1) (\<lambda>w2. Inr (d1\<lparr>dl_mngr := 0\<rparr>, w2))
       else Inr (d1, w1)))"

definition OnDestroy :: "'n gui_env \<Rightarrow> dialog \<times> 'n world \<Rightarrow> (dialog \<times> 'n world) outcome" where
  "OnDestroy env = (\<lambda>(d, w). obind (terminate_at env (dl_mngr d) w) (\<lambda>w1. Inr (d, w1)))"

end
