(* ===== verification/Mfc_Props.thy ===== *)
theory Mfc_Props
  imports Mfc_Dialog
begin

text \<open>
  The dialog of the sample application as a state machine: which controls are enabled in which state,
  that the dialog's pointer is alive, what a click on Run does, and where the dialog cannot go on.
\<close>

section \<open>Controls\<close>

text \<open>The controls a user can operate, and what each state of the dialog permits.\<close>

definition interactive :: "ctrl set" where
  "interactive = - {IDC_STATIC_STATUS, IDC_STATIC_ERROR, IDC_STATIC_DEVICE_INFO, IDC_STATIC_GBPS_INFO,
     IDC_STATIC_RECEIVE, IDC_STATIC_EVENT, IDC_STATIC_FILEPATH}"

fun permitted :: "GUIStatus \<Rightarrow> int \<Rightarrow> ctrl set" where
  "permitted GUI_NO_CONNECTION mode = {IDC_IP_ADDRESS, IDC_TCP_PORT, IDC_UDP_PORT, IDC_BUTTON_CONNECT}"
| "permitted GUI_IDLE mode = {IDC_BUTTON_CONNECT, IDC_BUTTON_RUN, IDC_COMBO_RUN_MODE, IDC_RECV_LIMIT_CHECK,
     IDC_FRAME_LIMIT_CHECK, IDC_RECV_LIMIT_COUNT, IDC_FRAME_LIMIT_COUNT, IDC_WRITE_FILE_CHECK, IDC_BUTTON_FILE_BROWSE,
     IDC_BUTTON_RBCP_READ, IDC_BUTTON_RBCP_WRITE} \<union>
     (if mode = 1 then {IDC_HEADER_LEN} else {}) \<union> (if mode = 2 then {IDC_FRAME_LEN} else {})"
| "permitted GUI_RUNNING mode = {IDC_BUTTON_RUN}"
| "permitted GUI_STOPPING mode = {IDC_BUTTON_RESET}"

definition controls :: "dialog \<Rightarrow> ctrl set" where
  "controls d = {c \<in> interactive. dl_enabled d c}"

definition controls_ok :: "dialog \<Rightarrow> bool" where
  "controls_ok d \<longleftrightarrow> controls d \<subseteq> permitted (dl_status d) (dl_cur_sel d)"

lemma enable_fields [simp]:
  "dl_text (enable c b d) = dl_text d" "dl_check (enable c b d) = dl_check d" "dl_cur_sel (enable c b d) = dl_cur_sel d"
  "dl_mngr (enable c b d) = dl_mngr d" "dl_status (enable c b d) = dl_status d" "dl_ticking (enable c b d) = dl_ticking d"
  "dl_worker (enable c b d) = dl_worker d" "dl_param (enable c b d) = dl_param d" "dl_log (enable c b d) = dl_log d" "dl_items (enable c b d) = dl_items d"
  by (simp_all add: enable_def)

lemma enable_all_simps [simp]: "enable_all [] d = d" "enable_all ((c, b) # cs) d = enable_all cs (enable c b d)"
  by (simp_all add: enable_all_def)

lemma set_text_fields [simp]:
  "dl_enabled (set_text c s d) = dl_enabled d" "dl_check (set_text c s d) = dl_check d"
  "dl_cur_sel (set_text c s d) = dl_cur_sel d" "dl_mngr (set_text c s d) = dl_mngr d"
  "dl_status (set_text c s d) = dl_status d" "dl_ticking (set_text c s d) = dl_ticking d"
  "dl_worker (set_text c s d) = dl_worker d" "dl_param (set_text c s d) = dl_param d" "dl_log (set_text c s d) = dl_log d" "dl_items (set_text c s d) = dl_items d"
  by (simp_all add: set_text_def)

lemma log_fields [simp]:
  "dl_enabled (AddOpelog s d) = dl_enabled d" "dl_check (AddOpelog s d) = dl_check d" "dl_text (AddOpelog s d) = dl_text d"
  "dl_cur_sel (AddOpelog s d) = dl_cur_sel d" "dl_mngr (AddOpelog s d) = dl_mngr d"
  "dl_status (AddOpelog s d) = dl_status d" "dl_ticking (AddOpelog s d) = dl_ticking d"
  "dl_worker (AddOpelog s d) = dl_worker d" "dl_param (AddOpelog s d) = dl_param d"
  "dl_log (AddOpelog s d) = dl_log d @ [s]" "dl_items (AddOpelog s d) = dl_items d"
  by (simp_all add: AddOpelog_def)

lemma frame_control_fields [simp]:
  "dl_cur_sel (FrameControlInitialize i d) = dl_cur_sel d" "dl_mngr (FrameControlInitialize i d) = dl_mngr d"
  "dl_status (FrameControlInitialize i d) = dl_status d" "dl_ticking (FrameControlInitialize i d) = dl_ticking d"
  "dl_worker (FrameControlInitialize i d) = dl_worker d" "dl_param (FrameControlInitialize i d) = dl_param d"
  "dl_log (FrameControlInitialize i d) = dl_log d" "dl_items (FrameControlInitialize i d) = dl_items d" "dl_check (FrameControlInitialize i d) = dl_check d"
  by (simp_all add: FrameControlInitialize_def)

lemma update_fields [simp]:
  "dl_cur_sel (UpdateGUIControlStatus st d) = dl_cur_sel d" "dl_mngr (UpdateGUIControlStatus st d) = dl_mngr d"
  "dl_status (UpdateGUIControlStatus st d) = dl_status d" "dl_ticking (UpdateGUIControlStatus st d) = dl_ticking d"
  "dl_worker (UpdateGUIControlStatus st d) = dl_worker d" "dl_param (UpdateGUIControlStatus st d) = dl_param d"
  "dl_log (UpdateGUIControlStatus st d) = dl_log d" "dl_items (UpdateGUIControlStatus st d) = dl_items d" "dl_check (UpdateGUIControlStatus st d) = dl_check d"
  by (cases st; simp)+

lemma enter_fields [simp]:
  "dl_cur_sel (enter st d) = dl_cur_sel d" "dl_mngr (enter st d) = dl_mngr d" "dl_status (enter st d) = st"
  "dl_ticking (enter st d) = dl_ticking d" "dl_worker (enter st d) = dl_worker d" "dl_param (enter st d) = dl_param d"
  "dl_log (enter st d) = dl_log d" "dl_items (enter st d) = dl_items d" "dl_check (enter st d) = dl_check d"
  by (simp_all add: enter_def set_status_def)

text \<open>After \<open>UpdateGUIControlStatus\<close> exactly what the state permits is enabled.\<close>

lemma controls_update: "controls (UpdateGUIControlStatus st d) = permitted st (dl_cur_sel d)"
proof -
  have "c \<in> controls (UpdateGUIControlStatus st d) \<longleftrightarrow> c \<in> permitted st (dl_cur_sel d)" for c
    by (cases st; cases c) (simp_all add: controls_def interactive_def enable_def FrameControlInitialize_def)
  then show ?thesis by blast
qed

declare UpdateGUIControlStatus.simps [simp del]

lemma controls_enter [simp]: "controls (enter st d) = permitted st (dl_cur_sel d)"
  by (simp add: enter_def controls_update set_status_def)

lemma controls_same: "dl_enabled d1 = dl_enabled d \<Longrightarrow> controls d1 = controls d"
  by (simp add: controls_def)

lemma controls_more [simp]:
  "controls (set_text c s d) = controls d" "controls (AddOpelog s d) = controls d"
  "controls (d\<lparr>dl_mngr := a\<rparr>) = controls d" "controls (d\<lparr>dl_ticking := b\<rparr>) = controls d"
  "controls (d\<lparr>dl_param := tp\<rparr>) = controls d" "controls (d\<lparr>dl_check := f\<rparr>) = controls d"
  "controls (SetCurSel i d) = controls d" "controls (d\<lparr>dl_cur_sel := i\<rparr>) = controls d" "controls (d\<lparr>dl_text := t\<rparr>) = controls d"
  by (simp_all add: controls_def SetCurSel_def)

lemma controls_disable [simp]: "controls (enable c False d) = controls d - {c}"
  by (auto simp: controls_def enable_def)

section \<open>The dialog as a state machine\<close>

text \<open>Other threads change managers but neither create nor free one.\<close>

definition same_mngrs :: "'n world \<Rightarrow> 'n world \<Rightarrow> bool" where
  "same_mngrs w w1 \<longleftrightarrow> dom (wd_mngrs w1) = dom (wd_mngrs w) \<and> wd_next w1 = wd_next w"

definition env_ok :: "'n gui_env \<Rightarrow> bool" where
  "env_ok env \<longleftrightarrow> (\<forall>w. same_mngrs w (ge_join env w)) \<and> (\<forall>n w. same_mngrs w (ge_other env n w))"

text \<open>A message reaches its handler only while the control is enabled, the timer's only while it is set;
  the user may also edit an enabled control.\<close>

inductive gui_msg :: "dialog \<times> 'n world \<Rightarrow> dialog \<times> 'n world \<Rightarrow> bool" where
  connect: "env_ok env \<Longrightarrow> dl_enabled d IDC_BUTTON_CONNECT \<Longrightarrow> OnBnClickedButtonConnect env (d, w) = Inr (Inr s1) \<Longrightarrow>
    gui_msg (d, w) s1"
| run_stop: "env_ok env \<Longrightarrow> dl_enabled d IDC_BUTTON_RUN \<Longrightarrow> OnBnClickedButtonRunStop env (d, w) = Inr s1 \<Longrightarrow>
    gui_msg (d, w) s1"
| timer: "env_ok env \<Longrightarrow> dl_ticking d \<Longrightarrow> OnTimer env 1 (d, w) = Inr s1 \<Longrightarrow> gui_msg (d, w) s1"
| reset: "dl_enabled d IDC_BUTTON_RESET \<Longrightarrow> OnBnClickedButtonReset (d, w) = Inr s1 \<Longrightarrow> gui_msg (d, w) s1"
| rbcp_read: "dl_enabled d IDC_BUTTON_RBCP_READ \<Longrightarrow> OnBnClickedButtonRbcpRead env (d, w) = Inr s1 \<Longrightarrow> gui_msg (d, w) s1"
| rbcp_write: "dl_enabled d IDC_BUTTON_RBCP_WRITE \<Longrightarrow> OnBnClickedButtonRbcpWrite env (d, w) = Inr s1 \<Longrightarrow> gui_msg (d, w) s1"
| select: "dl_enabled d IDC_COMBO_RUN_MODE \<Longrightarrow> 0 \<le> i \<Longrightarrow> i < int (length (dl_items d)) \<Longrightarrow>
    gui_msg (d, w) (OnCbnSelchangeComboRunMode (SetCurSel i d, w))"
| browse: "dl_enabled d IDC_BUTTON_FILE_BROWSE \<Longrightarrow> gui_msg (d, w) (OnBnClickedButtonFileBrowse picked (d, w))"
| edit: "dl_enabled d c \<Longrightarrow> gui_msg (d, w) (set_text c t d\<lparr>dl_check := (dl_check d)(c := b)\<rparr>, w)"

text \<open>Between two messages the other threads run.\<close>

inductive gui_step :: "dialog \<times> 'n world \<Rightarrow> dialog \<times> 'n world \<Rightarrow> bool" where
  message: "gui_msg s s1 \<Longrightarrow> gui_step s s1"
| threads: "same_mngrs w w1 \<Longrightarrow> gui_step (d, w) (d\<lparr>dl_param := (dl_param d)\<lparr>tp_receive_bytes := n\<rparr>\<rparr>, w1)"

inductive gui_reachable :: "dialog \<times> 'n world \<Rightarrow> bool" where
  start: "wd_mngrs w = Map.empty \<Longrightarrow> wd_next w \<noteq> 0 \<Longrightarrow>
    OnInitDialog dir (dialog_template sys_menu (dialog_ctor icon d)) = Inr d1 \<Longrightarrow> gui_reachable (d1, w)"
| step: "gui_reachable s \<Longrightarrow> gui_step s s1 \<Longrightarrow> gui_reachable s1"

text \<open>The invariant: only what the state permits is enabled; one of the three run modes is selected; the pointer
  is set exactly when there is a connection; the timer runs only then; and the pointer is alive unless a start
  has failed.\<close>

definition modes_ok :: "dialog \<Rightarrow> bool" where
  "modes_ok d \<longleftrightarrow> dl_items d = [''NULL'', ''Header'', ''Fixed''] \<and> dl_cur_sel d \<in> {0, 1, 2}"

definition dialog_ok :: "dialog \<Rightarrow> bool" where
  "dialog_ok d \<longleftrightarrow> controls_ok d \<and> modes_ok d \<and> (dl_status d = GUI_NO_CONNECTION \<longleftrightarrow> dl_mngr d = 0) \<and> (dl_ticking d \<longrightarrow> dl_mngr d \<noteq> 0)"

definition store_ok :: "'n world \<Rightarrow> bool" where
  "store_ok w \<longleftrightarrow> wd_next w \<noteq> 0 \<and> (\<forall>a\<in>dom (wd_mngrs w). a \<noteq> 0 \<and> a < wd_next w)"

definition live :: "dialog \<Rightarrow> 'n world \<Rightarrow> bool" where
  "live d w \<longleftrightarrow> (dl_mngr d \<noteq> 0 \<and> ''Run Failed'' \<notin> set (dl_log d) \<longrightarrow> dl_mngr d \<in> dom (wd_mngrs w))"

definition gui_inv :: "dialog \<times> 'n world \<Rightarrow> bool" where
  "gui_inv = (\<lambda>(d, w). dialog_ok d \<and> store_ok w \<and> live d w)"

text \<open>What the pieces of the handlers touch.\<close>

lemma same_mngrs_refl [simp]: "same_mngrs w w"
  by (simp add: same_mngrs_def)

lemma same_mngrs_trans [trans]: "same_mngrs w w1 \<Longrightarrow> same_mngrs w1 w2 \<Longrightarrow> same_mngrs w w2"
  by (simp add: same_mngrs_def)

lemma same_mngrs_fields [simp]:
  "same_mngrs w (w\<lparr>wd_names := ns\<rparr>)" "same_mngrs w (w\<lparr>wd_net := n\<rparr>)" "same_mngrs w (w\<lparr>wd_wsa := g\<rparr>)"
  by (simp_all add: same_mngrs_def)

lemma mngr_at_live: "mngr_at a w = Inr m \<Longrightarrow> a \<noteq> 0 \<and> wd_mngrs w a = Some m"
  by (auto simp: mngr_at_def split: if_splits option.splits)

lemma same_mngrs_upd: "mngr_at a w = Inr m \<Longrightarrow> same_mngrs w (mngr_upd a m1 w)"
  by (auto dest!: mngr_at_live simp: same_mngrs_def mngr_upd_def)

lemma live_same: "live d w \<Longrightarrow> same_mngrs w w1 \<Longrightarrow> dl_mngr d1 = dl_mngr d \<Longrightarrow> set (dl_log d) \<subseteq> set (dl_log d1) \<Longrightarrow> live d1 w1"
  by (auto simp: live_def same_mngrs_def)

lemma store_same: "store_ok w \<Longrightarrow> same_mngrs w w1 \<Longrightarrow> store_ok w1"
  by (simp add: store_ok_def same_mngrs_def)

lemma gui_inv_same:
  assumes "gui_inv (d, w)" "same_mngrs w w1" "dl_mngr d1 = dl_mngr d" "set (dl_log d) \<subseteq> set (dl_log d1)" "dialog_ok d1"
  shows "gui_inv (d1, w1)"
  using assms live_same store_same by (auto simp: gui_inv_def)

lemma modes_same [simp]:
  "modes_ok (enable c b d) = modes_ok d" "modes_ok (set_text c t d) = modes_ok d" "modes_ok (AddOpelog s d) = modes_ok d"
  "modes_ok (FrameControlInitialize i d) = modes_ok d" "modes_ok (UpdateGUIControlStatus st d) = modes_ok d"
  "modes_ok (enter st d) = modes_ok d" "modes_ok (start_worker env d) = modes_ok d"
  "modes_ok (show_counts cs d) = modes_ok d" "modes_ok (show_bytes env d) = modes_ok d"
  by (simp_all add: modes_ok_def start_worker_def show_counts_def show_bytes_def Let_def split: prod.split option.split)

lemma modes_upd [simp]:
  "modes_ok (d\<lparr>dl_mngr := a\<rparr>) = modes_ok d" "modes_ok (d\<lparr>dl_ticking := b\<rparr>) = modes_ok d"
  "modes_ok (d\<lparr>dl_param := tp\<rparr>) = modes_ok d" "modes_ok (d\<lparr>dl_check := f\<rparr>) = modes_ok d"
  "modes_ok (d\<lparr>dl_text := t\<rparr>) = modes_ok d" "modes_ok (d\<lparr>dl_worker := b\<rparr>) = modes_ok d"
  by (simp_all add: modes_ok_def)

lemma dialog_ok_modes: "dialog_ok d \<Longrightarrow> modes_ok d"
  by (simp add: dialog_ok_def)

lemma dialog_ok_enter:
  "st \<noteq> GUI_NO_CONNECTION \<Longrightarrow> dl_mngr d \<noteq> 0 \<Longrightarrow> modes_ok d \<Longrightarrow> dialog_ok (enter st d)"
  "dl_mngr d = 0 \<Longrightarrow> \<not> dl_ticking d \<Longrightarrow> modes_ok d \<Longrightarrow> dialog_ok (enter GUI_NO_CONNECTION d)"
  by (simp_all add: dialog_ok_def controls_ok_def)

lemma dialog_ok_log [simp]: "dialog_ok (AddOpelog s d) = dialog_ok d"
  by (simp add: dialog_ok_def controls_ok_def)

lemma dialog_ok_text [simp]: "dialog_ok (d\<lparr>dl_text := t\<rparr>) = dialog_ok d"
  by (simp add: dialog_ok_def controls_ok_def controls_def)

lemma dialog_ok_set_text [simp]: "dialog_ok (set_text c t d) = dialog_ok d"
  by (simp add: dialog_ok_def controls_ok_def)

lemma dialog_ok_disable: "dialog_ok d \<Longrightarrow> dialog_ok (enable c False d)"
  by (auto simp: dialog_ok_def controls_ok_def)

lemma show_status_effect:
  assumes "show_status a (d, w) = Inr (d1, w1)"
  shows "a \<noteq> 0 \<and> (\<exists>t. d1 = d\<lparr>dl_text := t\<rparr>) \<and> same_mngrs w w1"
  using assms by (auto simp: show_status_def set_text_def Let_def mngr_at_def split: prod.splits if_splits)

lemma terminate_effect:
  assumes "terminate_at env a w = Inr w1" "a \<noteq> 0"
  shows "wd_mngrs w1 = (wd_mngrs w)(a := None) \<and> wd_next w1 = wd_next w"
  using assms by (auto simp: terminate_at_def split: prod.splits)

lemma store_terminate: "store_ok w \<Longrightarrow> terminate_at env a w = Inr w1 \<Longrightarrow> a \<noteq> 0 \<Longrightarrow> store_ok w1"
  using terminate_effect [of env a w w1] by (simp add: store_ok_def)

text \<open>A consumer that has ended by itself, and the world after the wait for the consumer.\<close>

definition consumer_gone :: "'n gui_env \<Rightarrow> dialog \<Rightarrow> bool" where
  "consumer_gone env d \<longleftrightarrow> dl_worker d \<and> \<not> ge_consumer_runs env"

definition awaited :: "'n gui_env \<Rightarrow> dialog \<Rightarrow> 'n world \<Rightarrow> 'n world" where
  "awaited env d w = (if dl_worker d then ge_join env w else w)"

lemma join_gone: "consumer_gone env d \<Longrightarrow> join_worker env (d, w) = Inl Use_after_free"
  by (simp add: consumer_gone_def join_worker_def)

lemma join_waits:
  assumes "\<not> consumer_gone env d"
  obtains d1 where "join_worker env (d, w) = Inr (d1, awaited env d w)" "\<not> dl_worker d1"
    "dl_worker d \<longrightarrow> \<not> tp_force_exit (dl_param d1)" "\<exists>tp b. d1 = d\<lparr>dl_param := tp, dl_worker := b\<rparr>"
proof (cases "dl_worker d")
  case True
  then show thesis
    using assms by (intro that [of "d\<lparr>dl_param := (dl_param d)\<lparr>tp_force_exit := False\<rparr>, dl_worker := False\<rparr>"])
      (auto simp: consumer_gone_def awaited_def join_worker_def)
next
  case False
  then show thesis by (intro that [of d]) (cases d, auto simp: awaited_def join_worker_def)+
qed

lemma join_effect:
  assumes "join_worker env (d, w) = Inr (d1, w1)" "env_ok env"
  shows "same_mngrs w w1 \<and> (\<exists>tp b. d1 = d\<lparr>dl_param := tp, dl_worker := b\<rparr>)"
  using assms by (cases d) (auto simp: join_worker_def env_ok_def split: if_splits)

lemma poll_same:
  assumes "poll_counts n other a w = Inr (b, w1)" "\<forall>n w. same_mngrs w (other n w)"
  shows "same_mngrs w w1"
  using assms
proof (induction n arbitrary: w)
  case (Suc n)
  show ?case
  proof (cases "counts_at a w = Inr (0, 0)")
    case True
    then have "same_mngrs (other n w) w1" using Suc by simp
    with Suc.prems(2) show ?thesis using same_mngrs_trans by blast
  next
    case False
    with Suc.prems(1) show ?thesis by (auto split: if_splits)
  qed
qed simp

text \<open>The handlers preserve the invariant.\<close>

text \<open>The ways a click on Connect ends.\<close>

lemma connect_cases:
  assumes "OnBnClickedButtonConnect env (d, w) = Inr (Inr s1)"
  obtains (Disconnected) w1 where "dl_mngr d \<noteq> 0" "terminate_at env (dl_mngr d) w = Inr w1"
      "s1 = (enter GUI_NO_CONNECTION (AddOpelog ''Connection End''
         ((enable IDC_BUTTON_CONNECT False d)\<lparr>dl_mngr := 0, dl_ticking := False\<rparr>)), w1)"
    | (No_manager) g n where "dl_mngr d = 0"
      "s1 = (UpdateGUIControlStatus (dl_status d) (enable IDC_BUTTON_CONNECT False d), w\<lparr>wd_wsa := g, wd_net := n\<rparr>)"
    | (Connected) m g n where "dl_mngr d = 0"
      "s1 = (enter GUI_IDLE (AddOpelog ''Connection Start''
         ((enable IDC_BUTTON_CONNECT False d)\<lparr>dl_mngr := wd_next w, dl_ticking := ge_timer env\<rparr>)),
         (mngr_upd (wd_next w) m (w\<lparr>wd_wsa := g, wd_net := n\<rparr>))\<lparr>wd_next := wd_next w + 1\<rparr>)"
    | (Refused) m g n d2 w3 w4 where "dl_mngr d = 0"
      "show_status (wd_next w) ((enable IDC_BUTTON_CONNECT False d)\<lparr>dl_mngr := wd_next w\<rparr>,
         (mngr_upd (wd_next w) m (w\<lparr>wd_wsa := g, wd_net := n\<rparr>))\<lparr>wd_next := wd_next w + 1\<rparr>) = Inr (d2, w3)"
      "terminate_at env (wd_next w) w3 = Inr w4"
      "s1 = (enter GUI_NO_CONNECTION (AddOpelog ''Connection Failed'' (d2\<lparr>dl_mngr := 0\<rparr>)), w4)"
proof (cases "dl_mngr d = 0")
  case False
  then show thesis using assms that(1) by (auto simp: OnBnClickedButtonConnect_def Let_def)
next
  case True
  with assms obtain res g n where init: "SiDaqInitialize (ge_init env) (ge_net env) (Some (dl_text d IDC_IP_ADDRESS))
      (i32 (ge_int env (dl_text d IDC_TCP_PORT))) 4660 False (wd_wsa w) (wd_net w) = Inr (res, g, n)"
    by (auto simp: OnBnClickedButtonConnect_def Let_def)
  show thesis
  proof (cases "\<exists>m. res = Inr (Some m)")
    case False
    then show thesis using assms True init that(2)
      by (auto simp: OnBnClickedButtonConnect_def Let_def split: sum.splits option.splits)
  next
    case m: True
    show thesis
    proof (cases "SiDaqGetStatus (case res of Inr p \<Rightarrow> p | _ \<Rightarrow> None) \<noteq> SIDAQ_SYS_ERROR")
      case True
      then show thesis using assms \<open>dl_mngr d = 0\<close> init m that(3) by (auto simp: OnBnClickedButtonConnect_def Let_def)
    next
      case False
      then show thesis using assms \<open>dl_mngr d = 0\<close> init m that(4) by (auto simp: OnBnClickedButtonConnect_def Let_def)
    qed
  qed
qed

lemma connect_inv:
  assumes "gui_inv (d, w)" "OnBnClickedButtonConnect env (d, w) = Inr (Inr s1)"
  shows "gui_inv s1"
proof -
  let ?d = "enable IDC_BUTTON_CONNECT False d"
  have i: "dialog_ok ?d" "dialog_ok d" "store_ok w" "modes_ok d"
    using assms(1) dialog_ok_disable dialog_ok_modes by (auto simp: gui_inv_def)
  have t: "\<not> dl_ticking d \<and> dl_status d = GUI_NO_CONNECTION" if "dl_mngr d = 0" using that i(2) by (auto simp: dialog_ok_def)
  have added: "store_ok ((mngr_upd (wd_next w) m w1)\<lparr>wd_next := wd_next w + 1\<rparr>) \<and> wd_next w \<noteq> 0"
    if "same_mngrs w w1" for m w1
    using that i(3) by (auto simp: store_ok_def mngr_upd_def same_mngrs_def less_Suc_eq)
  from assms(2) show ?thesis
  proof (cases rule: connect_cases)
    case (Disconnected w1)
    then show ?thesis using store_terminate [OF i(3)] dialog_ok_enter(2) i(4) by (simp add: gui_inv_def live_def)
  next
    case (No_manager g n)
    then have "dialog_ok (UpdateGUIControlStatus (dl_status ?d) ?d)"
      using i(1) t by (simp add: dialog_ok_def controls_ok_def controls_update)
    then show ?thesis using No_manager i(3) by (simp add: gui_inv_def live_def store_ok_def)
  next
    case (Connected m g n)
    then show ?thesis using added [of "w\<lparr>wd_wsa := g, wd_net := n\<rparr>" m] dialog_ok_enter(1) i(4)
      by (simp add: gui_inv_def live_def mngr_upd_def same_mngrs_def)
  next
    case (Refused m g n d2 w3 w4)
    have a: "store_ok ((mngr_upd (wd_next w) m (w\<lparr>wd_wsa := g, wd_net := n\<rparr>))\<lparr>wd_next := wd_next w + 1\<rparr>)" "wd_next w \<noteq> 0"
      using added [of "w\<lparr>wd_wsa := g, wd_net := n\<rparr>" m] by (simp_all add: same_mngrs_def)
    have "store_ok w3" using store_same [OF a(1)] show_status_effect [OF Refused(2)] by simp
    then have "\<not> dl_ticking d2" "modes_ok d2" "store_ok w4"
      using show_status_effect [OF Refused(2)] t [OF Refused(1)] i(4) store_terminate [OF _ Refused(3)] a(2) by auto
    then show ?thesis using Refused(4) dialog_ok_enter(2) by (simp add: gui_inv_def live_def)
  qed
qed


text \<open>The two ways a start ends.\<close>

lemma start_run_joined:
  assumes "start_run env (d, w) = Inr s1"
  obtains d1 w1 where "join_worker env (d, w) = Inr (d1, w1)"
  using assms by (auto simp: start_run_def Let_def)

lemma start_run_cases:
  assumes "start_run env (d, w) = Inr s1" "join_worker env (d, w) = Inr (d1, w1)"
  obtains (Started) m m1 g where "mngr_at (dl_mngr d1) w1 = Inr m"
      "s1 = (AddOpelog ''Run Start'' (enter GUI_RUNNING (start_worker env d1)), (mngr_upd (dl_mngr d1) m1 w1)\<lparr>wd_wsa := g\<rparr>)"
    | (Start_failed) m m1 g d2 w3 w4 where "mngr_at (dl_mngr d1) w1 = Inr m"
      "show_status (dl_mngr d1) (d1, (mngr_upd (dl_mngr d1) m1 w1)\<lparr>wd_wsa := g\<rparr>) = Inr (d2, w3)"
      "terminate_at env (dl_mngr d1) w3 = Inr w4" "s1 = (enter GUI_IDLE (AddOpelog ''Run Failed'' d2), w4)"
proof -
  from assms obtain m new_status m1 g where m: "mngr_at (dl_mngr d1) w1 = Inr m"
    "SiDaqRun (ge_run env) (gui_args env d) m (wd_wsa w1) = Inr (new_status, m1, g)"
    by (auto simp: start_run_def Let_def)
  show thesis
  proof (cases "new_status = SIDAQ_RUN")
    case True
    then show thesis using assms m by (intro that(1) [OF m(1), of g m1]) (simp add: start_run_def Let_def)
  next
    case False
    then show thesis using assms m that(2) [OF m(1)] by (auto simp: start_run_def Let_def)
  qed
qed

lemma start_run_inv:
  assumes "gui_inv (d, w)" "env_ok env" "dl_mngr d \<noteq> 0" "start_run env (d, w) = Inr s1"
  shows "gui_inv s1"
proof -
  obtain d1 w1 where j: "join_worker env (d, w) = Inr (d1, w1)" by (rule start_run_joined [OF assms(4)])
  note je = join_effect [OF j assms(2)]
  have d1: "dl_mngr d1 = dl_mngr d" "dl_log d1 = dl_log d" "modes_ok d1"
    using je assms(1) dialog_ok_modes by (auto simp: gui_inv_def)
  have same: "same_mngrs w ((mngr_upd (dl_mngr d1) m1 w1)\<lparr>wd_wsa := g\<rparr>)" if "mngr_at (dl_mngr d1) w1 = Inr m" for m m1 g
    using je same_mngrs_upd [OF that, of m1] by (simp add: same_mngrs_def)
  from assms(4) j show ?thesis
  proof (cases rule: start_run_cases)
    case (Started m m1 g)
    have sw: "dl_mngr (start_worker env d1) = dl_mngr d" "dl_log (start_worker env d1) = dl_log d"
      using d1 by (simp_all add: start_worker_def Let_def)
    show ?thesis unfolding Started(2)
      by (rule gui_inv_same [OF assms(1) same [OF Started(1)]]) (use assms(3) d1(3) in \<open>auto simp: sw dialog_ok_enter(1)\<close>)
  next
    case (Start_failed m m1 g d2 w3 w4)
    note st = show_status_effect [OF Start_failed(2)]
    have "same_mngrs w w3" using same_mngrs_trans [OF same [OF Start_failed(1)]] st by blast
    then have "store_ok w3" using assms(1) store_same by (auto simp: gui_inv_def)
    then have "store_ok w4" using store_terminate Start_failed(3) d1(1) assms(3) by metis
    moreover have "dl_mngr d2 = dl_mngr d" "modes_ok d2" using st d1(1,3) by auto
    ultimately show ?thesis using Start_failed(4) dialog_ok_enter(1) assms(3) by (simp add: gui_inv_def live_def)
  qed
qed

lemma stop_run_inv:
  assumes "gui_inv (d, w)" "dl_mngr d \<noteq> 0" "stop_run env (d, w) = Inr s1"
  shows "gui_inv s1"
proof -
  from assms(3) obtain m counts where m: "mngr_at (dl_mngr d) w = Inr m" and
      m2: "s1 = (show_counts counts (enter GUI_STOPPING (AddOpelog ''Run Stopping...'' d)), mngr_upd (dl_mngr d) (snd (SiDaqStop (ge_wait env) m)) w)"
    by (auto simp: stop_run_def Let_def)
  have "modes_ok d" using assms(1) dialog_ok_modes by (simp add: gui_inv_def)
  then show ?thesis unfolding m2 using assms(2)
    by (intro gui_inv_same [OF assms(1) same_mngrs_upd [OF m]]) (auto simp: show_counts_def dialog_ok_enter(1) split: prod.splits)
qed

lemma run_stop_inv:
  assumes "gui_inv (d, w)" "env_ok env" "OnBnClickedButtonRunStop env (d, w) = Inr s1"
  shows "gui_inv s1"
proof -
  let ?d = "enable IDC_BUTTON_CONNECT False (enable IDC_BUTTON_RUN False d)"
  have "dialog_ok ?d" using assms(1) dialog_ok_disable by (simp add: gui_inv_def)
  then have i: "gui_inv (?d, w)" using gui_inv_same [OF assms(1)] by simp
  show ?thesis
  proof (cases "s1 = (?d, w)")
    case False
    then show ?thesis
      using assms(3) start_run_inv [OF i assms(2)] stop_run_inv [OF i]
      by (cases s1) (auto simp: OnBnClickedButtonRunStop_def Let_def split: if_splits)
  qed (use i in simp)
qed

lemma timer_inv:
  assumes "gui_inv (d, w)" "env_ok env" "OnTimer env 1 (d, w) = Inr s1"
  shows "gui_inv s1"
proof -
  let ?d0 = "d\<lparr>dl_ticking := False\<rparr>" and ?a = "dl_mngr d"
  from assms(3) obtain d1 w1 run_status counts d3 w2 where s: "show_status ?a (?d0, w) = Inr (d1, w1)"
    "timer_status env run_status counts (show_counts counts (if run_status = SIDAQ_RUN then show_bytes env d1 else d1), w1) = Inr (d3, w2)"
    "s1 = (d3\<lparr>dl_ticking := ge_timer env\<rparr>, w2)" by (auto simp: OnTimer_def Let_def)
  define d2 where "d2 = show_counts counts (if run_status = SIDAQ_RUN then show_bytes env d1 else d1)"
  note se = show_status_effect [OF s(1)]
  have "\<exists>t. d2 = ?d0\<lparr>dl_text := t\<rparr>"
    using se by (auto simp: d2_def show_counts_def show_bytes_def set_text_def Let_def split: prod.splits option.splits)
  then have d2: "dl_mngr d2 = ?a" "dl_log d2 = dl_log d" "dialog_ok d2" "?a \<noteq> 0"
    using assms(1) se by (auto simp: gui_inv_def dialog_ok_def controls_ok_def controls_def)
  have "dl_mngr d3 = ?a \<and> set (dl_log d) \<subseteq> set (dl_log d3) \<and> dialog_ok d3 \<and> same_mngrs w1 w2"
    using s(2) d2 dialog_ok_modes [OF d2(3)] assms(2) dialog_ok_enter(1) poll_same unfolding d2_def [symmetric]
    by (auto simp: timer_status_def env_ok_def Let_def split: if_splits)
  moreover from this have "dialog_ok (d3\<lparr>dl_ticking := ge_timer env\<rparr>)"
    using d2(4) by (simp add: dialog_ok_def controls_ok_def)
  moreover from calculation se have "same_mngrs w w2" by (blast intro: same_mngrs_trans)
  ultimately show ?thesis unfolding s(3) by (intro gui_inv_same [OF assms(1)]) auto
qed


lemma through_inv:
  assumes "gui_inv (d, w)" "mngr_at (dl_mngr d) w = Inr m"
  shows "gui_inv (AddOpelog s d, mngr_upd (dl_mngr d) m1 w)"
    "gui_inv (AddOpelog s d, (mngr_upd (dl_mngr d) m1 w)\<lparr>wd_net := n\<rparr>)"
proof -
  have u: "same_mngrs w (mngr_upd (dl_mngr d) m1 w)" using assms(2) by (rule same_mngrs_upd)
  then have v: "same_mngrs w ((mngr_upd (dl_mngr d) m1 w)\<lparr>wd_net := n\<rparr>)" by (simp add: same_mngrs_def)
  have "dialog_ok d" using assms(1) by (simp add: gui_inv_def)
  then show "gui_inv (AddOpelog s d, mngr_upd (dl_mngr d) m1 w)"
    "gui_inv (AddOpelog s d, (mngr_upd (dl_mngr d) m1 w)\<lparr>wd_net := n\<rparr>)"
    by (intro gui_inv_same [OF assms(1)] u v; auto)+
qed

lemma reset_inv:
  assumes "gui_inv (d, w)" "OnBnClickedButtonReset (d, w) = Inr s1"
  shows "gui_inv s1"
proof (cases "dl_mngr d = 0")
  case True
  with assms have "s1 = (AddOpelog ''Reset Queue Data Finish'' (AddOpelog ''Reset Queue Data...'' d), w)"
    by (simp add: OnBnClickedButtonReset_def Let_def)
  then show ?thesis using assms(1) True by (simp add: gui_inv_def live_def)
next
  case False
  with assms(2) obtain m m1 where m: "mngr_at (dl_mngr d) w = Inr m"
    "s1 = (AddOpelog ''Reset Queue Data Finish'' (AddOpelog ''Reset Queue Data...'' d), mngr_upd (dl_mngr d) m1 w)"
    by (auto simp: OnBnClickedButtonReset_def Let_def)
  have "gui_inv (AddOpelog ''Reset Queue Data...'' d, w)" using assms(1) by (simp add: gui_inv_def live_def)
  from through_inv(1) [OF this, of m] m show ?thesis by simp
qed

lemma SetCurSel_fields [simp]:
  "dl_mngr (SetCurSel i d) = dl_mngr d" "dl_status (SetCurSel i d) = dl_status d" "dl_ticking (SetCurSel i d) = dl_ticking d"
  "dl_log (SetCurSel i d) = dl_log d" "dl_items (SetCurSel i d) = dl_items d" "dl_enabled (SetCurSel i d) = dl_enabled d"
  by (simp_all add: SetCurSel_def)

lemma select_inv:
  assumes "gui_inv (d, w)" "dl_enabled d IDC_COMBO_RUN_MODE" "0 \<le> i" "i < int (length (dl_items d))"
  shows "gui_inv (OnCbnSelchangeComboRunMode (SetCurSel i d, w))"
proof -
  have "IDC_COMBO_RUN_MODE \<in> controls d" using assms(2) by (simp add: controls_def interactive_def)
  then have idle: "dl_status d = GUI_IDLE" "controls d \<subseteq> permitted GUI_IDLE (dl_cur_sel d)"
    using assms(1) by (cases "dl_status d"; auto simp: gui_inv_def dialog_ok_def controls_ok_def split: if_splits)+
  have i: "dl_cur_sel (SetCurSel i d) = i" using assms(3,4) by (simp add: SetCurSel_def)
  have "controls (FrameControlInitialize i (SetCurSel i d)) =
      controls d - {IDC_HEADER_LEN, IDC_FRAME_LEN} \<union> (if i = 1 then {IDC_HEADER_LEN} else {}) \<union> (if i = 2 then {IDC_FRAME_LEN} else {})"
    by (auto simp: controls_def interactive_def FrameControlInitialize_def enable_def)
  then have "controls_ok (FrameControlInitialize i (SetCurSel i d))"
    using idle i by (auto simp: controls_ok_def split: if_splits)
  moreover have "modes_ok (SetCurSel i d)" using assms(1,3,4) i by (auto simp: gui_inv_def dialog_ok_def modes_ok_def)
  ultimately have "dialog_ok (FrameControlInitialize i (SetCurSel i d))"
    using assms(1) by (simp add: gui_inv_def dialog_ok_def)
  then show ?thesis using gui_inv_same [OF assms(1), of w] i by (simp add: OnCbnSelchangeComboRunMode_def)
qed

lemma edit_inv:
  assumes "gui_inv (d, w)"
  shows "gui_inv (set_text c t d\<lparr>dl_check := f\<rparr>, w)"
proof -
  have "dialog_ok (set_text c t d\<lparr>dl_check := f\<rparr>)"
    using assms by (simp add: gui_inv_def dialog_ok_def controls_ok_def)
  then show ?thesis using gui_inv_same [OF assms, of w] by simp
qed

lemma browse_inv: "gui_inv (d, w) \<Longrightarrow> gui_inv (OnBnClickedButtonFileBrowse picked (d, w))"
  using gui_inv_same [of d w w "set_text IDC_STATIC_FILEPATH (the picked) d"]
  by (cases picked) (simp_all add: OnBnClickedButtonFileBrowse_def gui_inv_def)

lemma gui_msg_inv: "gui_msg s s1 \<Longrightarrow> gui_inv s \<Longrightarrow> gui_inv s1"
proof (induction rule: gui_msg.induct)
  case (rbcp_read d env w s1)
  then show ?case using through_inv(2) by (auto simp: OnBnClickedButtonRbcpRead_def)
next
  case (rbcp_write d env w s1)
  then show ?case using through_inv(2) by (auto simp: OnBnClickedButtonRbcpWrite_def)
qed (auto intro: connect_inv run_stop_inv timer_inv reset_inv select_inv browse_inv edit_inv)

lemma gui_step_inv: "gui_step s s1 \<Longrightarrow> gui_inv s \<Longrightarrow> gui_inv s1"
proof (induction rule: gui_step.induct)
  case (threads w w1 d n)
  then have "dialog_ok (d\<lparr>dl_param := (dl_param d)\<lparr>tp_receive_bytes := n\<rparr>\<rparr>)"
    by (simp add: gui_inv_def dialog_ok_def controls_ok_def)
  then show ?case using gui_inv_same [OF threads(2,1)] by simp
qed (rule gui_msg_inv)

interpretation gui: preserved gui_step gui_inv
  by unfold_locales (rule gui_step_inv)

text \<open>The start of the dialog: the assertions hold, and the about box is in the system menu.\<close>

lemma add_about_total:
  "add_about_item d = Inr (d\<lparr>dl_sys_menu := map_option (\<lambda>items. items @ [Menu_separator,
     Menu_string IDM_ABOUTBOX ''&About MFCApplication2...'']) (dl_sys_menu d)\<rparr>)"
  using aboutbox_in_range by (cases "dl_sys_menu d") (simp_all add: add_about_item_def)

lemma init_dialog:
  "\<exists>menu icons. OnInitDialog dir d = Inr (init_controls dir (d\<lparr>dl_sys_menu := menu, dl_icons := icons\<rparr>))"
  by (simp add: OnInitDialog_def add_about_total) blast

lemma init_controls_ok:
  assumes "dl_items d = []" "dl_mngr d = 0" "\<not> dl_ticking d"
  shows "dialog_ok (init_controls dir d)" "dl_mngr (init_controls dir d) = 0"
    "dl_log (init_controls dir d) = dl_log d @ [''System Start'']"
proof -
  let ?d = "SetCurSel 0 (AddString ''Fixed'' (AddString ''Header'' (AddString ''NULL'' d)))"
  have "modes_ok ?d" using assms(1) by (simp add: modes_ok_def SetCurSel_def AddString_def)
  then have "dialog_ok (enter GUI_NO_CONNECTION ?d)" using assms(2,3) by (intro dialog_ok_enter) (simp_all add: AddString_def)
  then show "dialog_ok (init_controls dir d)"
    using assms(2,3) by (cases dir) (simp_all add: init_controls_def Let_def dialog_ok_def controls_ok_def AddString_def)
qed (simp_all add: init_controls_def Let_def AddString_def assms(2) split: option.split)

lemma gui_reachable_inv: "gui_reachable s \<Longrightarrow> gui_inv s"
proof (induction rule: gui_reachable.induct)
  case (start w dir sys_menu icon d d1)
  let ?d = "(dialog_template sys_menu (dialog_ctor icon d))"
  obtain menu icons where "OnInitDialog dir ?d = Inr (init_controls dir (?d\<lparr>dl_sys_menu := menu, dl_icons := icons\<rparr>))"
    using init_dialog by blast
  with start have d1: "d1 = init_controls dir (?d\<lparr>dl_sys_menu := menu, dl_icons := icons\<rparr>)" by simp
  show ?case unfolding d1 using start(1,2) init_controls_ok [of "?d\<lparr>dl_sys_menu := menu, dl_icons := icons\<rparr>" dir]
    by (simp add: gui_inv_def store_ok_def live_def dialog_ctor_def dialog_template_def)
qed (rule gui.keeps)


text \<open>C13. The dialog keeps its promises in every state it reaches before a message that closes it
  (\<open>WM_CLOSE\<close>, the OK button, the Exit command, Escape), whatever the user clicks and edits and the other
  threads do: a control is enabled only where the state of the dialog permits it; one of the run modes NULL, Header
  and Fixed is selected; there is a pointer exactly when the dialog is connected, and the timer ticks only then; and
  as long as no start has failed the pointer is the one of a manager that is alive.\<close>

theorem gui_invariant:
  assumes "gui_reachable (d, w)"
  shows "(\<forall>c. c \<in> interactive \<and> dl_enabled d c \<longrightarrow> c \<in> permitted (dl_status d) (dl_cur_sel d)) \<and>
    dl_items d = [''NULL'', ''Header'', ''Fixed''] \<and> dl_cur_sel d \<in> {0, 1, 2} \<and>
    (dl_status d = GUI_NO_CONNECTION \<longleftrightarrow> dl_mngr d = 0) \<and> (dl_ticking d \<longrightarrow> dl_mngr d \<noteq> 0) \<and>
    (dl_mngr d \<noteq> 0 \<and> ''Run Failed'' \<notin> set (dl_log d) \<longrightarrow> (\<exists>m. mngr_at (dl_mngr d) w = Inr m))"
  using gui_reachable_inv [OF assms]
  by (auto simp: gui_inv_def dialog_ok_def controls_ok_def modes_ok_def controls_def live_def mngr_at_def)

section \<open>Examples\<close>

type_synonym demo_net = "(int \<Rightarrow> byte) \<times> byte list list"

definition demo_gui_env :: "run_env \<Rightarrow> demo_net gui_env" where
  "demo_gui_env re = \<lparr>ge_init = demo_init, ge_net = demo_udp, ge_run = re, ge_int = (\<lambda>_. 24), ge_wait = id,
     ge_consumer_runs = True, ge_join = id, ge_other = (\<lambda>_. id), ge_thread = True, ge_timer = True, ge_datetime = ''20240101000000'',
     ge_double = (\<lambda>_ _. ''0.000''), ge_rate = None,
     ge_iconic = False, ge_icon_size = (32, 32), ge_client = (500, 480)\<rparr>"

definition demo_mem :: dialog where
  "demo_mem = \<lparr>dl_enabled = (\<lambda>_. True), dl_text = (\<lambda>_. []), dl_check = (\<lambda>_. False),
     dl_cur_sel = 0, dl_mngr = 0, dl_status = GUI_IDLE, dl_ticking = True, dl_worker = True,
     dl_param = \<lparr>tp_mngr = 0, tp_receive_bytes = 0, tp_write_file = False, tp_force_exit = False, tp_path = []\<rparr>, dl_log = [],
     dl_items = [], dl_sys_menu = None, dl_hicon = 0, dl_icons = (\<lambda>_. 0)\<rparr>"

definition demo_window :: dialog where
  "demo_window = dialog_template (Some []) (dialog_ctor 1 demo_mem)"

definition demo_gui :: dialog where
  "demo_gui = projr (OnInitDialog (Some ''C:'') demo_window)"

lemma demo_gui_start: "OnInitDialog (Some ''C:'') demo_window = Inr demo_gui"
  using init_dialog [of "Some ''C:''" demo_window] by (auto simp: demo_gui_def)

definition demo_start :: "demo_net world" where
  "demo_start = \<lparr>wd_mngrs = Map.empty, wd_next = 1, wd_wsa = 0, wd_names = Map.empty, wd_files = (\<lambda>_. []), wd_net = ((\<lambda>_. 7), [])\<rparr>"

lemma demo_gui_facts:
  "gui_reachable (demo_gui, demo_start)" "dl_mngr demo_gui = 0" "dl_enabled demo_gui IDC_BUTTON_CONNECT"
  "length (dl_text demo_gui IDC_IP_ADDRESS) < 256" "dl_cur_sel demo_gui = 0" "\<not> dl_worker demo_gui"
  "dl_log demo_gui = [''System Start'']"
proof -
  show "gui_reachable (demo_gui, demo_start)"
    by (rule gui_reachable.start [OF _ _ demo_gui_start [unfolded demo_window_def]]) (simp_all add: demo_start_def)
  obtain menu icons where "OnInitDialog (Some ''C:'') demo_window =
      Inr (init_controls (Some ''C:'') (demo_window\<lparr>dl_sys_menu := menu, dl_icons := icons\<rparr>))"
    using init_dialog by blast
  then have d: "demo_gui = init_controls (Some ''C:'') (demo_window\<lparr>dl_sys_menu := menu, dl_icons := icons\<rparr>)"
    by (simp add: demo_gui_def)
  show "dl_mngr demo_gui = 0" "dl_enabled demo_gui IDC_BUTTON_CONNECT"
    "length (dl_text demo_gui IDC_IP_ADDRESS) < 256" "dl_cur_sel demo_gui = 0" "\<not> dl_worker demo_gui"
    "dl_log demo_gui = [''System Start'']"
    unfolding d by (simp_all add: init_controls_def demo_window_def demo_mem_def dialog_template_def dialog_ctor_def Let_def,
      simp_all add: enter_def UpdateGUIControlStatus.simps set_status_def set_text_def enable_def AddOpelog_def
        SetCurSel_def AddString_def)
qed

text \<open>A click on Connect with the example's device.\<close>

lemma demo_click:
  obtains d and w :: "demo_net world" and m q e where
    "OnBnClickedButtonConnect (demo_gui_env demo_run) (demo_gui, demo_start) = Inr (Inr (d, w))" "gui_reachable (d, w)" "dl_status d = GUI_IDLE" "dl_mngr d = 1" "wd_mngrs w 1 = Some m"
    "startable m q e" "status m = SIDAQ_IDLE" "\<not> dl_worker d" "dl_cur_sel d = 0" "dl_ticking d"
    "dl_log d = [''System Start'', ''Connection Start'']" "controls d = permitted GUI_IDLE 0"
proof -
  note f = demo_gui_facts
  let ?env = "demo_gui_env demo_run" and ?d = "enable IDC_BUTTON_CONNECT False demo_gui"
  have "length (dl_text ?d IDC_IP_ADDRESS) < 256" "snd (wd_net demo_start) = []" using f(4) by (simp_all add: demo_start_def)
  from init_startable [OF demo_init_ok(1) this(1) demo_init_ok(2) demo_rbcp_ok demo_answers demo_delivers this(2),
      where udp = 4660 and tcp = "i32 (ge_int ?env (dl_text ?d IDC_TCP_PORT))" and nw = False and g = 0]
  obtain m q e n where m: "SiDaqInitialize (ge_init ?env) (ge_net ?env) (Some (dl_text ?d IDC_IP_ADDRESS))
      (i32 (ge_int ?env (dl_text ?d IDC_TCP_PORT))) 4660 False (wd_wsa demo_start) (wd_net demo_start) =
      Inr (Inr (Some m), 1, n)" "status m = SIDAQ_IDLE" "startable m q e"
    unfolding wsa_count_def by (auto simp: demo_gui_env_def demo_start_def)
  let ?d1 = "enter GUI_IDLE (AddOpelog ''Connection Start'' (?d\<lparr>dl_mngr := 1, dl_ticking := True\<rparr>))"
  let ?w1 = "(mngr_upd 1 m (demo_start\<lparr>wd_wsa := 1, wd_net := n\<rparr>))\<lparr>wd_next := 2\<rparr>"
  have click: "OnBnClickedButtonConnect ?env (demo_gui, demo_start) = Inr (Inr (?d1, ?w1))"
    unfolding OnBnClickedButtonConnect_def Let_def prod.case
    using m(1,2) f(2) by (simp add: SiDaqGetStatus_def) (simp add: demo_start_def demo_gui_env_def)
  moreover have "env_ok ?env" by (simp add: env_ok_def demo_gui_env_def)
  ultimately have "gui_reachable (?d1, ?w1)"
    using f(1,3) by (blast intro: gui_reachable.step gui_step.message gui_msg.connect)
  with click show thesis by (rule that) (use f m in \<open>simp_all add: mngr_upd_def\<close>)
qed

lemma demo_connected:
  obtains d and w :: "demo_net world" and m q e where "gui_reachable (d, w)" "dl_status d = GUI_IDLE" "dl_mngr d = 1" "wd_mngrs w 1 = Some m"
    "startable m q e" "status m = SIDAQ_IDLE" "\<not> dl_worker d" "dl_cur_sel d = 0" "dl_ticking d"
    "dl_log d = [''System Start'', ''Connection Start'']" "controls d = permitted GUI_IDLE 0"
  by (rule demo_click) (rule that)

theorem gui_invariant_witness:
  "\<exists>d w m. gui_reachable (d, w :: demo_net world) \<and> dl_status d = GUI_IDLE \<and> dl_enabled d IDC_BUTTON_RUN \<and>
     dl_mngr d = 1 \<and> mngr_at 1 w = Inr m"
proof -
  obtain d and w :: "demo_net world" and m q e where d: "gui_reachable (d, w)" "dl_status d = GUI_IDLE" "dl_mngr d = 1"
    "dl_log d = [''System Start'', ''Connection Start'']" "controls d = permitted GUI_IDLE 0" by (rule demo_connected)
  have "IDC_BUTTON_RUN \<in> controls d" using d(5) by simp
  then have "dl_enabled d IDC_BUTTON_RUN" by (simp add: controls_def)
  moreover obtain m where "mngr_at 1 w = Inr m" using gui_invariant [OF d(1)] d(3,4) by auto
  ultimately show ?thesis using d(1-3) by blast
qed

end
