(* ===== verification/Pseudo_Session.thy ===== *)
theory Pseudo_Session
  imports Pseudo_Device Mfc_Props
begin

text \<open>
  The program side of the pseudo device (\<open>Pseudo/SiDaqPseudo.py\<close>): the session thread that sends the generator's
  frames to the library (\<open>SiDaqSessionThreadGen.run\<close>), and what \<open>main\<close> makes of the command line.

  Classes of the package \<open>sitcpy\<close> and Python's sockets are parameters: what \<open>select\<close> and \<open>send\<close> answer in a
  round of the loop, whether somebody stops the thread before it, and how the register server stores the
  bytes \<open>main\<close> writes.  \<open>socket.send\<close> returns the number of bytes it has accepted, which may be fewer than it was
  given.
\<close>

section \<open>The session thread\<close>

datatype thread_state = THREAD_INIT | THREAD_RUNNING | THREAD_STOPPING | THREAD_STOPPED

record session_thread =
  st_state :: thread_state
  st_sent :: "byte list"   \<comment> \<open>all bytes the socket has accepted\<close>
  st_closed :: bool

text \<open>A round: whether the thread has been told to stop, and what \<open>select\<close> and \<open>send\<close> do.  An exception of either
  is an \<open>OSError\<close>.\<close>

datatype send_result = Select_error | Not_writable | Send_error | Sent nat

fun session_loop :: "PseudoDataGenerator \<Rightarrow> (bool \<times> send_result) list \<Rightarrow> session_thread \<Rightarrow> session_thread \<times> bool" where
  "session_loop g [] s = (s, False)"
| "session_loop g ((told, io) # rounds) s =
     (let s1 = (if told then s\<lparr>st_state := THREAD_STOPPING\<rparr> else s) in
      if st_state s1 \<noteq> THREAD_RUNNING then (s1, True)
      else case io of
        Select_error \<Rightarrow> (s1, True)
      | Send_error \<Rightarrow> (s1, True)
      | Not_writable \<Rightarrow> session_loop g rounds s1
      | Sent n \<Rightarrow> session_loop g rounds (s1\<lparr>st_sent := st_sent s1 @ take n (create_data g)\<rparr>))"

definition session_run :: "PseudoDataGenerator \<Rightarrow> (bool \<times> send_result) list \<Rightarrow> session_thread \<Rightarrow> session_thread" where
  "session_run g rounds s =
     (let (s1, ended) = session_loop g rounds (s\<lparr>st_state := THREAD_RUNNING\<rparr>) in
      if ended then s1\<lparr>st_closed := True, st_state := THREAD_STOPPED\<rparr> else s1)"

text \<open>The counts of the sends that took place, and whether the loop has ended.\<close>

fun send_counts :: "(bool \<times> send_result) list \<Rightarrow> nat list" where
  "send_counts [] = []"
| "send_counts ((told, io) # rounds) =
     (if told then []
      else case io of Select_error \<Rightarrow> [] | Send_error \<Rightarrow> [] | Not_writable \<Rightarrow> send_counts rounds | Sent n \<Rightarrow> n # send_counts rounds)"

definition ends_session :: "(bool \<times> send_result) list \<Rightarrow> bool" where
  "ends_session rounds \<longleftrightarrow> (\<exists>(told, io)\<in>set rounds. told \<or> io = Select_error \<or> io = Send_error)"

lemma session_loop_sends:
  assumes "st_state s = THREAD_RUNNING"
  shows "\<exists>st. session_loop g rounds s =
    (s\<lparr>st_state := st, st_sent := st_sent s @ concat (map (\<lambda>n. take n (create_data g)) (send_counts rounds))\<rparr>, ends_session rounds) \<and>
    (\<not> ends_session rounds \<longrightarrow> st = THREAD_RUNNING)"
  using assms
proof (induction g rounds s rule: session_loop.induct)
  case (1 g s)
  then show ?case by (simp add: ends_session_def)
next
  case (2 g told io rounds s)
  show ?case
  proof (cases "told \<or> io = Select_error \<or> io = Send_error")
    case True
    then have e: "ends_session ((told, io) # rounds)" by (auto simp: ends_session_def)
    show ?thesis
    proof (cases told)
      case True
      then show ?thesis using e by (intro exI [of _ THREAD_STOPPING]) simp
    next
      case False
      then show ?thesis using e \<open>told \<or> _\<close> 2(3) by (intro exI [of _ THREAD_RUNNING]) auto
    qed
  next
    case False
    then have e: "ends_session ((told, io) # rounds) = ends_session rounds" by (auto simp: ends_session_def)
    show ?thesis
    proof (cases io)
      case Not_writable
      then show ?thesis using 2(1) [OF refl] 2(3) False e by simp
    next
      case (Sent n)
      then show ?thesis using 2(2) [OF refl] 2(3) False e by simp
    qed (use False in simp_all)
  qed
qed

text \<open>Whatever \<open>select\<close> and \<open>send\<close> answer: the stream is made of the beginnings of frames that the socket accepted;
  the thread is stopped and its socket closed exactly when it was stopped or a call failed.\<close>

lemma session_sends:
  assumes "\<not> st_closed s"
  shows "st_sent (session_run g rounds s) = st_sent s @ concat (map (\<lambda>n. take n (create_data g)) (send_counts rounds))"
    "st_closed (session_run g rounds s) = ends_session rounds"
    "st_state (session_run g rounds s) = (if ends_session rounds then THREAD_STOPPED else THREAD_RUNNING)"
  using session_loop_sends [of "s\<lparr>st_state := THREAD_RUNNING\<rparr>" g rounds] assms
  by (auto simp: session_run_def split: if_splits)

text \<open>When every send was complete, the stream is a row of whole frames.\<close>

lemma complete_sends:
  assumes "\<forall>n\<in>set ns. length f \<le> n"
  shows "concat (map (\<lambda>n. take n f) ns) = concat (replicate (length ns) f)"
  using assms by (induction ns) simp_all

text \<open>C17. Pseudo device, session thread, library and length function of the sample fit together, for a header of one
  or two bytes, every unit count whose frame length the header can hold, and a measurement without an event
  queue limit.  When every send of the session accepted the whole frame and nothing was reset, the blocks that the
  application took and finds on the event queue are, in every state of an interleaving of whole rounds, copies of
  the generator's frame; only after the framer thread has left its loop may one more block follow, a proper
  beginning of that frame.  With what the framer and the receive queue hold they are all that was received, and
  when everything sent has arrived and both queues are empty, they are as many frames as were sent.\<close>

theorem pseudo_session_frames:
  assumes "reachable m s" "ready m q e (header_framer h DEFAULT_MAX_FRAME_LEN fr0)" "sq_frames q = []" "sq_frames e = []"
    and "NewSiDaqFramer True True = Some fr0" "0 < h" "h \<le> 2" "1 \<le> u" "u \<le> 4096" "8 * u < 256 ^ h"
    and "sy_in s @ rest = st_sent (session_run (new_generator (int h) u) rounds s0)" "\<not> sy_was_reset s"
    and "st_sent s0 = []" "\<not> st_closed s0" "\<forall>n\<in>set (send_counts rounds). length (create_data (new_generator (int h) u)) \<le> n"
  shows "\<exists>q1 e1 fr1 n tail. recv_queue (sy_m s) = Inr q1 \<and> event_queue (sy_m s) = Inr e1 \<and>
    framer_of (sy_m s) = Inr fr1 \<and> n \<le> length (send_counts rounds) \<and>
    sy_out s @ sq_frames e1 = replicate n (create_data (new_generator (int h) u)) @ tail \<and>
    sy_in s = concat (sy_out s @ sq_frames e1) @ pending fr1 @ concat (sq_frames q1) \<and>
    (tail = [] \<or> sy_fr s \<in> {Fr_exit, Fr_done} \<and> n < length (send_counts rounds) \<and> (\<exists>j. 0 < j \<and>
      j < length (create_data (new_generator (int h) u)) \<and> tail = [take j (create_data (new_generator (int h) u))])) \<and>
    (rest = [] \<and> sq_frames q1 = [] \<and> sq_frames e1 = [] \<longrightarrow>
       sy_out s = replicate (length (send_counts rounds)) (create_data (new_generator (int h) u)))"
proof -
  have "sy_in s @ rest = concat (replicate (length (send_counts rounds)) (create_data (new_generator (int h) u)))"
    using assms(11,13) session_sends(1) [OF assms(14)] complete_sends [OF assms(15)] by simp
  from pseudo_device_frames [OF assms(1-10) this assms(12)] show ?thesis .
qed

definition demo_session_thread :: session_thread where
  "demo_session_thread = \<lparr>st_state = THREAD_INIT, st_sent = [], st_closed = False\<rparr>"

theorem pseudo_session_frames_witness:
  "\<exists>m s. reachable m s \<and> sy_in s = st_sent (session_run (new_generator 1 1) [(False, Sent 9), (False, Not_writable), (False, Sent 9)] demo_session_thread) \<and>
     sy_out s = [[8, 0x1F, 0x3E, 0x01, 0x23, 0x45, 0x67, 0x89, 0xAB], [8, 0x1F, 0x3E, 0x01, 0x23, 0x45, 0x67, 0x89, 0xAB]]"
proof -
  obtain fr0 q s where d: "NewSiDaqFramer True True = Some fr0" "sq_inv q" "sq_frames q = []"
    "ready (demo_mngr SIDAQ_IDLE q q (header_framer 1 DEFAULT_MAX_FRAME_LEN fr0)) q q (header_framer 1 DEFAULT_MAX_FRAME_LEN fr0)"
    "reachable (demo_mngr SIDAQ_IDLE q q (header_framer 1 DEFAULT_MAX_FRAME_LEN fr0)) s" "\<not> sy_was_reset s"
    "sy_in s = concat (replicate 2 (create_data (new_generator (int 1) 1)))"
    "\<exists>q1 e1. recv_queue (sy_m s) = Inr q1 \<and> event_queue (sy_m s) = Inr e1 \<and> sq_frames q1 = [] \<and> sq_frames e1 = []"
    by (rule demo_pseudo)
  let ?rounds = "[(False, Sent 9), (False, Not_writable), (False, Sent 9)]"
  have c: "create_data (new_generator (int 1) 1) = [8, 0x1F, 0x3E, 0x01, 0x23, 0x45, 0x67, 0x89, 0xAB]"
    using created [of 1 "int 1"] by (simp add: framed_def payload_def be_bytes_def)
  have i: "sy_in s @ [] = st_sent (session_run (new_generator (int 1) 1) ?rounds demo_session_thread)"
    using d(7) c session_sends(1) [of demo_session_thread "new_generator (int 1) 1" ?rounds] by (simp add: demo_session_thread_def numeral_2_eq_2)
  have a: "(0::nat) < 1" "(1::nat) \<le> 2" "(1::int) \<le> 1" "(1::int) \<le> 4096" "8 * (1::int) < 256 ^ 1" "st_sent demo_session_thread = []"
    "\<not> st_closed demo_session_thread" "\<forall>n\<in>set (send_counts ?rounds). length (create_data (new_generator (int 1) 1)) \<le> n"
    unfolding c by (simp_all add: demo_session_thread_def)
  from pseudo_session_frames [OF d(5,4,3,3,1) a(1-5) i d(6) a(6-8)] d(8)
  have "sy_out s = replicate 2 (create_data (new_generator (int 1) 1))" by (auto simp: numeral_2_eq_2)
  then show ?thesis using d(5) i unfolding c by (auto simp: numeral_2_eq_2)
qed

section \<open>A send that is not complete\<close>

text \<open>No byte of the payload is a multiple of eight.\<close>

lemma payload_byte:
  assumes "b \<in> set (payload u)"
  shows "uint b mod 8 \<noteq> 0"
proof -
  have "set (payload u) \<subseteq> {0x1F, 0x3E, 0x01, 0x23, 0x45, 0x67, 0x89, 0xAB}" by (auto simp: payload_def)
  then have "b \<in> {0x1F, 0x3E, 0x01, 0x23, 0x45, 0x67, 0x89, 0xAB}" using assms by blast
  then show ?thesis by auto
qed

text \<open>A stream that starts with a whole frame is cut behind it.\<close>

lemma cut_framed:
  assumes "NewSiDaqFramer True True = Some fr0" "0 < h" "h \<le> 2" "int h < mx" "mx \<le> DEFAULT_MAX_FRAME_LEN" "fits h mx p"
  shows "fst (split_frames (header_framer h mx fr0) (framed h p @ rest)) =
    framed h p # fst (split_frames (header_framer h mx fr0) rest)"
proof -
  note hd = mfc.reader_head [OF assms, of rest]
  have "nat (frame_size (header_framer h mx fr0) (framed h p @ rest)) = length (framed h p)" unfolding hd(1) by simp
  then show ?thesis using split_cons [OF hd(2)] hd(1) assms(2) by simp
qed

text \<open>A payload into which the header of the next frame, of one or two bytes, has slipped.\<close>

lemma slipped_header:
  assumes "0 < h" "h \<le> 2" "u \<le> 4096" "8 * u < 256 ^ h" "k < 8 * u"
  shows "take k (payload u) @ take (8 * u - k) (be_bytes h (int (8 * u)) @ payload u) \<noteq> payload u" (is "?p \<noteq> _")
proof
  let ?b = "be_bytes h (int (8 * u))"
  assume "?p = payload u"
  then have mem: "?p ! i \<in> set (payload u)" if "i < 8 * u" for i using that by (metis length_payload nth_mem)
  have at: "?p ! (k + i) = ?b ! i" if "i < h" "k + i < 8 * u" for i using that by (auto simp: nth_append)
  have last: "?b ! (h - 1) = word_of_int (int (8 * u))" using assms(1,2) by (simp add: be_bytes_def)
  have m8: "uint (word_of_int (int (8 * u)) :: byte) mod 8 = 0"
  proof -
    have "uint (word_of_int (int (8 * u)) :: byte) = int (8 * u) mod 256" by (subst uint_word_of_int) simp
    also have "\<dots> mod 8 = int (8 * u) mod 8" by (rule mod_mod_cancel) simp
    finally show ?thesis by simp
  qed
  show False
  proof (cases "k + (h - 1) < 8 * u")
    case True
    then have "word_of_int (int (8 * u)) \<in> set (payload u)" using mem [of "k + (h - 1)"] at [of "h - 1"] last assms(1) by simp
    then show False using payload_byte m8 by metis
  next
    case False
    then have h: "h = 2" "k = 8 * u - 1" "0 < u" using assms(1,2,5) by auto
    have "?p ! k = word_of_int (int (8 * u) div 256)" using at [of 0] assms(5) h(1) by (simp add: be_bytes_def)
    moreover have "payload u ! k = 0xAB"
    proof -
      obtain v where v: "u = Suc v" using h(3) by (cases u) auto
      have "payload u = payload v @ [0x1F, 0x3E, 0x01, 0x23, 0x45, 0x67, 0x89, 0xAB]"
        unfolding payload_def v replicate_Suc replicate_append_same [symmetric] by simp
      moreover have "k = length (payload v) + 7" using h(2) v by simp
      ultimately show ?thesis by (simp add: nth_append)
    qed
    moreover have "(word_of_int (int (8 * u) div 256) :: byte) \<noteq> 0xAB"
    proof
      assume "(word_of_int (int (8 * u) div 256) :: byte) = 0xAB"
      then have "uint (word_of_int (int (8 * u) div 256) :: byte) = 0xAB" by simp
      then have "int (8 * u) div 256 mod 256 = 0xAB" by (simp add: uint_word_of_int)
      moreover have "int (8 * u) div 256 \<le> 128" "0 \<le> int (8 * u) div 256" using assms(3) by simp_all
      ultimately show False by simp
    qed
    ultimately show False using \<open>?p = payload u\<close> by simp
  qed
qed

text \<open>C32. A send that accepts the header and only a part of the payload of a frame makes the library cut a block
  that is none of the device's frames, for every header of one or two bytes and every unit count it can hold: when
  the next send accepts a whole frame, and whatever is sent later, the stream starts with a block of the length of
  a frame that differs from the frame; the specification of the framer cuts it, and the framer puts it on the
  event queue however its bytes arrive.\<close>

theorem partial_send_breaks_frame:
  assumes "NewSiDaqFramer True True = Some fr0" "0 < h" "h \<le> 2" "1 \<le> u" "u \<le> 4096" "8 * u < 256 ^ h"
    and "f = create_data (new_generator (int h) u)" "h \<le> n" "n < length f" "st_sent s0 = []" "\<not> st_closed s0"
  shows "\<exists>x more. st_sent (session_run (new_generator (int h) u) ((False, Sent n) # (False, Sent (length f)) # rounds) s0) = x @ more \<and>
    length x = length f \<and> x \<noteq> f \<and>
    fst (split_frames (header_framer h DEFAULT_MAX_FRAME_LEN fr0) (x @ more)) =
      x # fst (split_frames (header_framer h DEFAULT_MAX_FRAME_LEN fr0) more) \<and>
    (\<forall>ds q. concat ds = x \<and> [] \<notin> set ds \<and> sq_inv q \<and> length x \<le> sq_room q \<longrightarrow>
      (\<exists>fr1 q1. feed SQPut (Some past) ds (header_framer h DEFAULT_MAX_FRAME_LEN fr0) q = Inr (fr1, q1) \<and>
        sq_frames q1 = sq_frames q @ [x] \<and> pending fr1 = []))"
proof -
  let ?fr = "header_framer h DEFAULT_MAX_FRAME_LEN fr0" and ?g = "new_generator (int h) u" and ?u = "nat u"
  have "int (8 * ?u) < int (256 ^ h)" using assms(4,6) by simp
  then have u: "8 * ?u < 256 ^ h" by (simp only: of_nat_less_iff)
  have f: "f = framed h (payload ?u)" using created [of u "int h"] assms(2,4,5,7) u by simp
  define p where "p = take (n - h) (payload ?u) @ take (8 * ?u - (n - h)) f"
  have k: "n - h < 8 * ?u" using assms(8,9) f by auto
  have len: "length p = 8 * ?u" using k f by (simp add: p_def)
  have ne: "p \<noteq> payload ?u" using slipped_header [OF assms(2,3) _ u k] assms(5) f by (simp add: p_def framed_def)
  define more where "more = drop (8 * ?u - (n - h)) f @ concat (map (\<lambda>n. take n f) (send_counts rounds))"
  have x: "framed h p = take n f @ take (8 * ?u - (n - h)) f"
    using assms(8) len f by (simp add: p_def framed_def)
  have stream: "st_sent (session_run ?g ((False, Sent n) # (False, Sent (length f)) # rounds) s0) = framed h p @ more"
    using session_sends(1) [OF assms(11)] assms(10) unfolding x more_def by (simp flip: assms(7))
  have mx: "int h < DEFAULT_MAX_FRAME_LEN" "DEFAULT_MAX_FRAME_LEN \<le> DEFAULT_MAX_FRAME_LEN"
    using assms(3) by (simp_all add: DEFAULT_MAX_FRAME_LEN_def)
  have pl: "int (length p) = 8 * u" using len assms(4) by simp
  have fits: "fits h DEFAULT_MAX_FRAME_LEN p"
    using pl assms(3-6) unfolding fits_def by (auto simp: DEFAULT_MAX_FRAME_LEN_def)
  have fed: "\<exists>fr1 q1. feed SQPut (Some past) ds ?fr q = Inr (fr1, q1) \<and> sq_frames q1 = sq_frames q @ [framed h p] \<and> pending fr1 = []"
    if "concat ds = framed h p" "[] \<notin> set ds" "sq_inv q" "length (framed h p) \<le> sq_room q" for ds q
  proof -
    note r = mfc.reader_ok [OF assms(1-3) mx] and st = mfc.reader_stream [OF assms(1-3) mx, of "[p]"]
    have "length d < 2 ^ 31" if "d \<in> set ds" for d
    proof -
      have "length d \<le> length (concat ds)" using that by (induction ds) auto
      also have "\<dots> = h + 8 * ?u" using \<open>concat ds = _\<close> len by simp
      finally show ?thesis using assms(3,5) by simp
    qed
    then have d: "\<forall>d\<in>set ds. d \<noteq> [] \<and> length d < 2 ^ 31" using that(2) by auto
    have a: "length (pending ?fr) + length (concat ds) \<le> sq_room q" "fr_header_len ?fr < fr_max_frame_len ?fr"
      "stream_ok ?fr (pending ?fr @ concat ds)"
      using that(1,4) r st fits mx by simp_all
    from sqb.feed_splits [OF that(3) a(1) r(1,2,4) d r(8) a(2,3), of past] st that(1) r(3) fits show ?thesis by auto
  qed
  moreover have "framed h p \<noteq> f" using ne f len by (simp add: framed_def)
  moreover have "length (framed h p) = length f" using len f by simp
  ultimately show ?thesis using stream cut_framed [OF assms(1-3) mx fits] by blast
qed

section \<open>The program\<close>

text \<open>The options of the command line, and their defaults.\<close>

record pseudo_args =
  pa_port :: int
  pa_header :: int
  pa_unit :: int

definition sidaq_pseudo_arg_parser :: pseudo_args where
  "sidaq_pseudo_arg_parser = \<lparr>pa_port = 24242, pa_header = 2, pa_unit = 4096\<rparr>"

text \<open>\<open>int.to_bytes(2, 'big')\<close>; a number that does not fit raises an exception, which ends the program.\<close>

definition to_bytes2 :: "int \<Rightarrow> byte list option" where
  "to_bytes2 v = (if 0 \<le> v \<and> v < 65536 then Some (be_bytes 2 v) else None)"

text \<open>\<open>main\<close> up to the start of the servers: the registers of the register server and the generator.\<close>

definition pseudo_main :: "(int \<Rightarrow> byte list \<Rightarrow> 'r \<Rightarrow> 'r) \<Rightarrow> pseudo_args \<Rightarrow> 'r \<Rightarrow> ('r \<times> PseudoDataGenerator) option" where
  "pseudo_main write_registers args rbcp_server =
     (let udp_port = 4660; data_port = pa_port args in
      case to_bytes2 udp_port of None \<Rightarrow> None
      | Some udp \<Rightarrow>
          (let r1 = write_registers 0xFFFFFF22 udp rbcp_server in
           case to_bytes2 data_port of None \<Rightarrow> None
           | Some tcp \<Rightarrow> Some (write_registers 0xFFFFFF1C tcp r1, new_generator (pa_header args) (pa_unit args))))"

text \<open>The register server keeps the bytes it is given at consecutive addresses.\<close>

definition keeps_registers :: "(int \<Rightarrow> byte list \<Rightarrow> 'r \<Rightarrow> 'r) \<Rightarrow> ('r \<Rightarrow> int \<Rightarrow> byte) \<Rightarrow> bool" where
  "keeps_registers write_registers register \<longleftrightarrow> (\<forall>a bs r i. register (write_registers a bs r) i =
     (if a \<le> i \<and> i < a + int (length bs) then bs ! nat (i - a) else register r i))"

lemma be_bytes_2: "be_bytes 2 v = [word_of_int (v div 256), word_of_int v]"
  by (simp add: be_bytes_def numeral_2_eq_2)

lemma reg16_bytes:
  assumes "r ! i = word_of_int (v div 256)" "r ! (i + 1) = word_of_int v" "0 \<le> v" "v < 65536"
  shows "reg16 r i = nat v"
proof -
  have "v div 256 mod 256 = v div 256" using assms(3,4) by (intro mod_pos_pos_trivial) auto
  then have "unat (word_of_int (v div 256) :: byte) = nat (v div 256)" "unat (word_of_int v :: byte) = nat (v mod 256)"
    by (simp_all add: unat_eq_nat_uint uint_word_of_int)
  moreover have "256 * nat (v div 256) + nat (v mod 256) = nat v"
    using assms(3) by (simp add: nat_div_distrib nat_mod_distrib)
  ultimately show ?thesis using assms(1,2) by (simp add: reg16_def push_bit_eq_mult mult.commute)
qed

text \<open>What the sample application reports about the pseudo device: with a port that fits, the register image that
  the library reads makes the report name the data port of the command line and the register port 4660; a port
  that does not fit ends the program before a server has been started.  With the default options these are the
  ports the dialog starts with, and the device's header length is the one in the dialog's box.\<close>

theorem pseudo_reported:
  assumes "keeps_registers write_registers register"
  shows "(if 0 \<le> pa_port args \<and> pa_port args < 65536
      then \<exists>r g pre post. pseudo_main write_registers args rbcp_server = Some (r, g) \<and>
        CreateSiTCPInfo (Some (map (\<lambda>i. register r (0xFFFFFF00 + int i)) [0..<64])) =
          pre @ ''TCP Port : '' @ dec (nat (pa_port args)) @ CRLF @ ''UDP Port : '' @ dec 4660 @ CRLF @ post
      else pseudo_main write_registers args rbcp_server = None) \<and>
    dl_text (init_controls dir d) IDC_TCP_PORT = dec (nat (pa_port sidaq_pseudo_arg_parser)) \<and>
    dl_text (init_controls dir d) IDC_UDP_PORT = dec 4660 \<and>
    dl_text (init_controls dir d) IDC_HEADER_LEN = dec (nat (pa_header sidaq_pseudo_arg_parser))"
proof (intro conjI)
  let ?port = "pa_port args"
  show "if 0 \<le> ?port \<and> ?port < 65536
      then \<exists>r g pre post. pseudo_main write_registers args rbcp_server = Some (r, g) \<and>
        CreateSiTCPInfo (Some (map (\<lambda>i. register r (0xFFFFFF00 + int i)) [0..<64])) =
          pre @ ''TCP Port : '' @ dec (nat ?port) @ CRLF @ ''UDP Port : '' @ dec 4660 @ CRLF @ post
      else pseudo_main write_registers args rbcp_server = None"
  proof (cases "0 \<le> ?port \<and> ?port < 65536")
    case True
    define r where "r = write_registers 0xFFFFFF1C (be_bytes 2 ?port) (write_registers 0xFFFFFF22 (be_bytes 2 4660) rbcp_server)"
    define ret where "ret = map (\<lambda>i. register r (0xFFFFFF00 + int i)) [0..<64]"
    have at: "register r i = (if i = 0xFFFFFF1C then word_of_int (?port div 256) else if i = 0xFFFFFF1D then word_of_int ?port
        else if i = 0xFFFFFF22 then word_of_int (4660 div 256) else if i = 0xFFFFFF23 then word_of_int 4660 else register rbcp_server i)" for i
      using assms unfolding keeps_registers_def r_def by (auto simp: be_bytes_2 nth_Cons' nat_eq_iff)
    have "reg16 ret 0x1c = nat ?port" "reg16 ret 0x22 = nat 4660"
      by (rule reg16_bytes; use True in \<open>simp add: ret_def at\<close>)+
    moreover have "\<exists>pre post. CreateSiTCPInfo (Some ret) = pre @ ''TCP Port : '' @ dec (reg16 ret 0x1c) @ CRLF @
        ''UDP Port : '' @ dec (reg16 ret 0x22) @ CRLF @ post"
      unfolding CreateSiTCPInfo_def option.case
      by (rule exI [of _ "''SiTCP Info'' @ CRLF @ ''IP Address : '' @ dec (reg8 ret 0x18) @ ''.'' @ dec (reg8 ret 0x19) @ ''.'' @
        dec (reg8 ret 0x1a) @ ''.'' @ dec (reg8 ret 0x1b) @ CRLF"]) (simp only: append_assoc, blast)
    ultimately show ?thesis using True unfolding ret_def r_def by (auto simp: pseudo_main_def to_bytes2_def)
  next
    case False
    then show ?thesis by (auto simp: pseudo_main_def to_bytes2_def)
  qed
qed (simp_all add: init_controls_def sidaq_pseudo_arg_parser_def set_text_def Let_def dec.simps hex_digit_def AddOpelog_def split: option.split)

section \<open>Examples\<close>

theorem partial_send_breaks_frame_witness:
  "\<exists>fr0 x more. NewSiDaqFramer True True = Some fr0 \<and>
     st_sent (session_run (new_generator 1 1) [(False, Sent 5), (False, Sent 9)] demo_session_thread) = x @ more \<and>
     x = [8, 0x1F, 0x3E, 0x01, 0x23, 8, 0x1F, 0x3E, 0x01] \<and>
     fst (split_frames (header_framer 1 DEFAULT_MAX_FRAME_LEN fr0) (x @ more)) =
       x # fst (split_frames (header_framer 1 DEFAULT_MAX_FRAME_LEN fr0) more)"
proof -
  obtain fr0 where n: "NewSiDaqFramer True True = Some fr0" by (simp add: NewSiDaqFramer_def)
  let ?f = "create_data (new_generator (int 1) 1)"
  have f: "?f = [8, 0x1F, 0x3E, 0x01, 0x23, 0x45, 0x67, 0x89, 0xAB]"
    using created [of 1 1] by (simp add: framed_def payload_def be_bytes_def)
  then have l: "length ?f = 9" by simp
  have a: "(0::nat) < 1" "(1::nat) \<le> 2" "(1::int) \<le> 1" "(1::int) \<le> 4096" "8 * (1::int) < 256 ^ 1" "(1::nat) \<le> 5" "5 < length ?f"
    "st_sent demo_session_thread = []" "\<not> st_closed demo_session_thread" using l by (simp_all add: demo_session_thread_def)
  from partial_send_breaks_frame [OF n a(1-5) refl a(6-9), of "[]" 0, unfolded l, unfolded of_nat_1] obtain x more where w:
    "st_sent (session_run (new_generator 1 1) [(False, Sent 5), (False, Sent 9)] demo_session_thread) = x @ more" "length x = 9"
    "fst (split_frames (header_framer 1 DEFAULT_MAX_FRAME_LEN fr0) (x @ more)) =
       x # fst (split_frames (header_framer 1 DEFAULT_MAX_FRAME_LEN fr0) more)"
    by (elim exE conjE) (rule that; assumption)
  have e: "st_sent (session_run (new_generator 1 1) [(False, Sent 5), (False, Sent 9)] demo_session_thread) =
      [8, 0x1F, 0x3E, 0x01, 0x23, 8, 0x1F, 0x3E, 0x01] @ [0x23, 0x45, 0x67, 0x89, 0xAB]"
    using session_sends(1) [of demo_session_thread "new_generator (int 1) 1" "[(False, Sent 5), (False, Sent 9)]"] f
    by (simp add: demo_session_thread_def)
  have "x = take 9 ([8, 0x1F, 0x3E, 0x01, 0x23, 8, 0x1F, 0x3E, 0x01] @ [0x23, 0x45, 0x67, 0x89, 0xAB])"
    using w(1,2) unfolding e by (metis append_eq_conv_conj)
  then have "x = [8, 0x1F, 0x3E, 0x01, 0x23, 8, 0x1F, 0x3E, 0x01]" by simp
  with n w(1,3) show ?thesis by blast
qed

text \<open>A register server as a map from addresses to bytes.\<close>

definition demo_write :: "int \<Rightarrow> byte list \<Rightarrow> (int \<Rightarrow> byte) \<Rightarrow> int \<Rightarrow> byte" where
  "demo_write a bs r i = (if a \<le> i \<and> i < a + int (length bs) then bs ! nat (i - a) else r i)"

theorem pseudo_reported_witness:
  "\<exists>r g pre post. pseudo_main demo_write sidaq_pseudo_arg_parser (\<lambda>_. 0) = Some (r, g) \<and>
     CreateSiTCPInfo (Some (map (\<lambda>i. r (0xFFFFFF00 + int i)) [0..<64])) =
       pre @ ''TCP Port : '' @ dec 24242 @ CRLF @ ''UDP Port : '' @ dec 4660 @ CRLF @ post"
proof -
  have k: "keeps_registers demo_write (\<lambda>r. r)" by (simp add: keeps_registers_def demo_write_def)
  have p: "pa_port sidaq_pseudo_arg_parser = 24242" by (simp add: sidaq_pseudo_arg_parser_def)
  from pseudo_reported [OF k, of sidaq_pseudo_arg_parser "\<lambda>_. 0" None demo_gui] show ?thesis unfolding p by simp
qed

end
