(* ===== verification/SQueue_Threads.thy ===== *)
theory SQueue_Threads
  imports SQueue
begin

text \<open>
  One queue of \<open>SiDaqApi/squeue_c/squeue.cpp\<close> shared by any number of threads, statement by statement.

  The operations of theory \<open>SQueue\<close> are atomic.  Here each thread has a program counter (\<open>sq_pc\<close>) inside
  \<open>SQPut\<close> or \<open>SQGet\<close>, a step executes one statement that reads or writes the shared queue, and the
  schedule decides which thread goes next.  The mutex is the field \<open>sc_owner\<close>: \<open>_sque_put\<close> and \<open>_sque_get\<close> hold
  it while they change the list, but \<open>SQGet\<close> looks at the count before it has the mutex, and both
  operations look at it or at their node after they have released it.

  Theory \<open>SQueue_Threads_Props\<close> shows that every schedule is equivalent to one in which each call takes effect
  at a single moment: a put when it increments the count, a get when it decrements the count or sees that there is
  nothing.
\<close>

section \<open>Statements of the critical sections\<close>

type_synonym queue_stmt = "sqstore \<Rightarrow> sqstore outcome"

text \<open>\<open>_sque_put\<close> between \<open>prevLast = que_ptr->_last\<close> and \<open>UNLOCK\<close>.\<close>

definition put_stmts :: "addr \<Rightarrow> addr \<Rightarrow> queue_stmt list" where
  "put_stmts sd prevLast =
     [\<lambda>s. Inr (s\<lparr>sq_last := sd\<rparr>),
      \<lambda>s. node_upd sd (\<lambda>d. d\<lparr>sd_parent := que_ptr s\<rparr>) s,
      \<lambda>s. node_upd sd (\<lambda>d. d\<lparr>sd_prev := prevLast\<rparr>) s,
      \<lambda>s. if prevLast \<noteq> 0 then node_upd prevLast (\<lambda>d. d\<lparr>sd_next := sd\<rparr>) s else Inr s,
      \<lambda>s. Inr (if sq_top s = 0 then s\<lparr>sq_top := sd\<rparr> else s),
      \<lambda>s. Inr (s\<lparr>sq_count := i32 (sq_count s + 1)\<rparr>)]"

text \<open>\<open>_sque_get\<close> inside \<open>if (pRet)\<close>.\<close>

definition get_stmts :: "addr \<Rightarrow> queue_stmt list" where
  "get_stmts pRet =
     [\<lambda>s. obind (node_at pRet s) (\<lambda>d. if sd_parent d \<noteq> que_ptr s then Inl Assert_failed else Inr s),
      \<lambda>s. obind (node_at pRet s) (\<lambda>d. Inr (s\<lparr>sq_top := sd_next d\<rparr>)),
      \<lambda>s. if sq_top s \<noteq> 0 then node_upd (sq_top s) (\<lambda>d. d\<lparr>sd_prev := 0\<rparr>) s else Inr s,
      \<lambda>s. node_upd pRet (\<lambda>d. d\<lparr>sd_next := 0\<rparr>) s,
      \<lambda>s. node_upd pRet (\<lambda>d. d\<lparr>sd_prev := 0\<rparr>) s,
      \<lambda>s. Inr (s\<lparr>sq_count := i32 (sq_count s - 1)\<rparr>),
      \<lambda>s. Inr (if sq_count s = 0 then s\<lparr>sq_top := 0, sq_last := 0\<rparr> else s),
      \<lambda>s. node_upd pRet (\<lambda>d. d\<lparr>sd_parent := 0\<rparr>) s]"

fun run_stmts :: "queue_stmt list \<Rightarrow> queue_stmt" where
  "run_stmts [] s = Inr s"
| "run_stmts (f # fs) s = obind (f s) (run_stmts fs)"

section \<open>Threads\<close>

datatype sq_call = CallPut "byte list" | CallGet int
datatype sq_ret = RetPut int | RetGet "byte list option" int

text \<open>The program counter: before and after \<open>LOCK\<close>, in the critical section with the number of the next
  statement, and after \<open>UNLOCK\<close>.\<close>

datatype sq_pc =
    Free
  | PutLock addr | PutHold addr | PutLink nat addr addr | PutCount
  | GetPoll int | GetTest int | GetEnter int | GetLock int | GetHold int | GetTake nat addr int | GetCopy addr

text \<open>The moments at which a call takes effect.\<close>

datatype sq_event = EvPut "byte list" | EvGot "byte list" | EvEmpty | EvTimeout

record sq_conc =
  sc_store :: sqstore
  sc_owner :: "nat option"   \<comment> \<open>the thread that holds the mutex\<close>
  sc_pc :: "nat \<Rightarrow> sq_pc"
  sc_calls :: "nat \<Rightarrow> sq_call list"   \<comment> \<open>the calls each thread has made\<close>
  sc_rets :: "nat \<Rightarrow> sq_ret list"   \<comment> \<open>and the results it got\<close>

text \<open>The start of a call; \<open>NewSQData\<close> touches no node but its own.\<close>

fun sq_begin :: "sq_call \<Rightarrow> sqstore \<Rightarrow> (sq_pc \<times> sq_ret option \<times> sqstore) outcome" where
  "sq_begin (CallPut bs) q = obind (NewSQData bs (int (length bs)) True q) (\<lambda>(sd, q1).
     if sd \<noteq> 0 then Inr (PutLock sd, None, q1) else Inr (Free, Some (RetPut (-1)), q1))"
| "sq_begin (CallGet wait_msec) q = Inr (GetPoll wait_msec, None, q)"

text \<open>One statement of thread \<open>t\<close>; \<open>late\<close> says that its wait for the mutex has timed out.  The result of
  \<open>SQGet\<close> without a block is its last \<open>else\<close> branches.\<close>

definition no_block :: "int \<Rightarrow> sq_ret" where
  "no_block wait_msec = RetGet None (if wait_msec < 0 then -2 else 0)"

fun sq_stmt :: "nat \<Rightarrow> bool \<Rightarrow> sq_pc \<Rightarrow> nat option \<Rightarrow> sqstore \<Rightarrow>
    (sq_pc \<times> sq_event option \<times> sq_ret option \<times> nat option \<times> sqstore) outcome" where
  "sq_stmt t late Free ow q = Inr (Free, None, None, ow, q)"
| "sq_stmt t late (PutLock sd) ow q =
     Inr (if ow = None then (PutHold sd, None, None, Some t, q) else (PutLock sd, None, None, ow, q))"
| "sq_stmt t late (PutHold sd) ow q = Inr (PutLink 0 sd (sq_last q), None, None, ow, q)"
| "sq_stmt t late (PutLink k sd prevLast) ow q =
     (if k < 6 then obind ((put_stmts sd prevLast ! k) q) (\<lambda>q1.
        Inr (PutLink (Suc k) sd prevLast, if k = 5 then Some (EvPut (block_of (cells q sd))) else None, None, ow, q1))
      else Inr (PutCount, None, None, None, q))"
| "sq_stmt t late PutCount ow q = Inr (Free, None, Some (RetPut (sq_count q)), ow, q)"
| "sq_stmt t late (GetPoll wait_msec) ow q =
     Inr (if 1 < wait_msec \<and> \<not> 0 < sq_count q then GetPoll (wait_msec - 1) else GetTest wait_msec, None, None, ow, q)"
| "sq_stmt t late (GetTest wait_msec) ow q =
     Inr (if 0 < sq_count q then (GetEnter wait_msec, None, None, ow, q)
          else (Free, Some EvEmpty, Some (RetGet None 0), ow, q))"
| "sq_stmt t late (GetEnter wait_msec) ow q =
     Inr (if sq_count q = 0 then (Free, Some EvEmpty, Some (no_block wait_msec), ow, q)
          else (GetLock wait_msec, None, None, ow, q))"
| "sq_stmt t late (GetLock wait_msec) ow q =
     Inr (if ow = None then (GetHold wait_msec, None, None, Some t, q)
          else if 0 \<le> wait_msec \<and> late then (Free, Some EvTimeout, Some (no_block wait_msec), ow, q)
          else (GetLock wait_msec, None, None, ow, q))"
| "sq_stmt t late (GetHold wait_msec) ow q =
     Inr (if sq_top q = 0 then (GetTake 8 0 wait_msec, Some EvEmpty, None, ow, q)
          else (GetTake 0 (sq_top q) wait_msec, None, None, ow, q))"
| "sq_stmt t late (GetTake k pRet wait_msec) ow q =
     (if k < 8 then obind ((get_stmts pRet ! k) q) (\<lambda>q1.
        Inr (GetTake (Suc k) pRet wait_msec, if k = 5 then Some (EvGot (block_of (cells q pRet))) else None, None, ow, q1))
      else Inr (if pRet = 0 then (Free, None, Some (no_block wait_msec), None, q) else (GetCopy pRet, None, None, None, q)))"
| "sq_stmt t late (GetCopy sd) ow q =
     obind (node_at sd q) (\<lambda>d. obind (DeleteSQData sd q) (\<lambda>q1.
       Inr (Free, None, Some (RetGet (sd_data d) (sd_size d)), ow, q1)))"

text \<open>A schedule names at each step the thread and what it does; a thread inside a call cannot begin
  another.\<close>

datatype sq_choice = Begin sq_call | Go | Late

definition sq_ret_add :: "nat \<Rightarrow> sq_ret option \<Rightarrow> (nat \<Rightarrow> sq_ret list) \<Rightarrow> nat \<Rightarrow> sq_ret list" where
  "sq_ret_add t r rs = (case r of None \<Rightarrow> rs | Some v \<Rightarrow> rs(t := rs t @ [v]))"

definition sq_conc_step :: "nat \<Rightarrow> sq_choice \<Rightarrow> sq_conc \<Rightarrow> ((nat \<times> sq_event) list \<times> sq_conc) outcome" where
  "sq_conc_step t ch s =
     (case ch of
        Begin c \<Rightarrow>
          if sc_pc s t \<noteq> Free then Inr ([], s)
          else obind (sq_begin c (sc_store s)) (\<lambda>(pc, r, q).
            Inr ([], s\<lparr>sc_store := q, sc_pc := (sc_pc s)(t := pc),
              sc_calls := (sc_calls s)(t := sc_calls s t @ [c]), sc_rets := sq_ret_add t r (sc_rets s)\<rparr>))
      | _ \<Rightarrow>
          obind (sq_stmt t (ch = Late) (sc_pc s t) (sc_owner s) (sc_store s)) (\<lambda>(pc, ev, r, ow, q).
            Inr (case ev of None \<Rightarrow> [] | Some e \<Rightarrow> [(t, e)],
              s\<lparr>sc_store := q, sc_owner := ow, sc_pc := (sc_pc s)(t := pc), sc_rets := sq_ret_add t r (sc_rets s)\<rparr>)))"

fun sq_conc_run :: "(nat \<times> sq_choice) list \<Rightarrow> sq_conc \<Rightarrow> ((nat \<times> sq_event) list \<times> sq_conc) outcome" where
  "sq_conc_run [] s = Inr ([], s)"
| "sq_conc_run ((t, ch) # sched) s = obind (sq_conc_step t ch s) (\<lambda>(es, s1).
     obind (sq_conc_run sched s1) (\<lambda>(tr, s2). Inr (es @ tr, s2)))"

definition sq_conc_start :: "sqstore \<Rightarrow> sq_conc" where
  "sq_conc_start q = \<lparr>sc_store = q, sc_owner = None, sc_pc = \<lambda>_. Free, sc_calls = \<lambda>_. [], sc_rets = \<lambda>_. []\<rparr>"

section \<open>The specification: a list\<close>

text \<open>The events in their order are a run of a queue whose operations are atomic.\<close>

fun replay :: "byte list list \<Rightarrow> (nat \<times> sq_event) list \<Rightarrow> byte list list option" where
  "replay fs [] = Some fs"
| "replay fs ((t, EvPut b) # tr) = replay (fs @ [b]) tr"
| "replay fs ((t, EvGot b) # tr) = (case fs of [] \<Rightarrow> None | f # gs \<Rightarrow> if f = b then replay gs tr else None)"
| "replay fs ((t, EvEmpty) # tr) = (if fs = [] then replay fs tr else None)"
| "replay fs ((t, EvTimeout) # tr) = replay fs tr"

lemma replay_append: "replay fs (tr @ tr1) = (case replay fs tr of None \<Rightarrow> None | Some gs \<Rightarrow> replay gs tr1)"
  by (induction fs tr rule: replay.induct) (auto split: list.splits)

end
