(* ===== verification/SQueue_Threads_Inv.thy ===== *)
theory SQueue_Threads_Inv
  imports SQueue_Threads
begin

text \<open>
  The invariant of the shared queue of theory \<open>SQueue_Threads\<close>, and that every statement keeps it.

  It has two halves.  \<open>heap_ok\<close>: every node is in the list or belongs to exactly one thread.
  \<open>lock_ok\<close>: the statements that are left in the critical section lead from the nodes they work on to a
  well-formed list; what the other threads do meanwhile concerns only their own nodes, and so is invisible there.
\<close>

section \<open>Statements and other threads\<close>

text \<open>\<open>core D b q\<close> is the queue with only the nodes of \<open>D\<close>; a statement that runs there runs on the whole
  heap in the same way, so what other threads do to their own nodes does not matter to it.\<close>

definition core :: "addr set \<Rightarrow> addr \<Rightarrow> sqstore \<Rightarrow> sqstore" where
  "core D b q = q\<lparr>cells := cells q |` D, brk := b, quota := 0\<rparr>"

definition same_outside :: "addr set \<Rightarrow> sqstore \<Rightarrow> sqstore \<Rightarrow> bool" where
  "same_outside D q q1 \<longleftrightarrow> dom (cells q1) = dom (cells q) \<and> (\<forall>a. a \<notin> D \<longrightarrow> cells q1 a = cells q a) \<and>
     (\<forall>a. block_of (cells q1 a) = block_of (cells q a)) \<and> quota q1 = quota q \<and> brk q1 = brk q"

definition local_stmt :: "queue_stmt \<Rightarrow> bool" where
  "local_stmt f \<longleftrightarrow> (\<forall>D b q c. f (core D b q) = Inr c \<longrightarrow>
     (\<exists>q1. f q = Inr q1 \<and> c = core D b q1 \<and> same_outside D q q1))"

lemma core_fields [simp]:
  "sq_top (core D b q) = sq_top q" "sq_last (core D b q) = sq_last q" "sq_count (core D b q) = sq_count q"
  "que_ptr (core D b q) = que_ptr q" "cells (core D b q) = cells q |` D" "brk (core D b q) = b" "quota (core D b q) = 0"
  "sq_lock (core D b q) = sq_lock q"
  by (simp_all add: core_def)

lemma core_eqI:
  "cells q1 |` D = cells q |` D \<Longrightarrow> sq_top q1 = sq_top q \<Longrightarrow> sq_last q1 = sq_last q \<Longrightarrow> sq_count q1 = sq_count q \<Longrightarrow>
   que_ptr q1 = que_ptr q \<Longrightarrow> sq_lock q1 = sq_lock q \<Longrightarrow> core D b q1 = core D b q"
  by (cases q; cases q1) (simp add: core_def)

lemma local_setter:
  "(\<And>D b q. f (core D b q) = core D b (f q)) \<Longrightarrow> (\<And>q. cells (f q) = cells q \<and> quota (f q) = quota q \<and> brk (f q) = brk q) \<Longrightarrow>
   local_stmt (\<lambda>s. Inr (f s))"
  by (auto simp: local_stmt_def same_outside_def)

lemma local_node_upd:
  assumes "\<And>d. sd_data (g d) = sd_data d"
  shows "node_upd x g (core D b q) = Inr c \<Longrightarrow> \<exists>q1. node_upd x g q = Inr q1 \<and> c = core D b q1 \<and> same_outside D q q1"
  by (auto simp: node_upd_def node_at_def same_outside_def core_def block_of_def assms restrict_map_def fun_eq_iff dom_def
      split: if_splits option.splits)

lemma same_outside_refl [simp]: "same_outside D q q"
  by (simp add: same_outside_def)

lemma node_at_core: "node_at x (core D b q) = Inr d \<Longrightarrow> node_at x q = Inr d"
  by (auto simp: node_at_def restrict_map_def split: if_splits option.splits)

lemma local_stmt_upd:
  "(\<And>s d. sd_data (g s d) = sd_data d) \<Longrightarrow> (\<And>D b s. x (core D b s) = x s) \<Longrightarrow> (\<And>D b s. g (core D b s) = g s) \<Longrightarrow>
   local_stmt (\<lambda>s. node_upd (x s) (g s) s)"
  by (simp add: local_stmt_def local_node_upd)

lemma local_stmt_if:
  "local_stmt f \<Longrightarrow> (\<And>D b s. P (core D b s) = P s) \<Longrightarrow> local_stmt (\<lambda>s. if P s then f s else Inr s)"
  by (auto simp: local_stmt_def)

lemma local_stmt_read:
  assumes "\<And>D b s d. f d (core D b s) = map_sum id (core D b) (f d s)"
    and "\<And>s d s1. f d s = Inr s1 \<Longrightarrow> cells s1 = cells s \<and> quota s1 = quota s \<and> brk s1 = brk s"
  shows "local_stmt (\<lambda>s. obind (node_at x s) (\<lambda>d. f d s))"
proof -
  have "\<exists>q1. f d q = Inr q1 \<and> c = core D b q1 \<and> same_outside D q q1" if "f d (core D b q) = Inr c" for d D b q c
    using assms(1) [of d D b q] assms(2) [of d q] that by (cases "f d q") (auto simp: same_outside_def)
  then show ?thesis
    by (fastforce simp: local_stmt_def obind_eq_Inr dest: node_at_core)
qed

lemma local_put: "f \<in> set (put_stmts sd prevLast) \<Longrightarrow> local_stmt f"
  unfolding put_stmts_def
  by (auto intro!: local_setter local_stmt_upd local_stmt_if simp: core_def)

lemma local_get: "f \<in> set (get_stmts pRet) \<Longrightarrow> local_stmt f"
  unfolding get_stmts_def
  by (auto intro!: local_setter local_stmt_upd local_stmt_if local_stmt_read simp: core_def split: if_splits)


text \<open>Together the statements of a critical section are the atomic operation.\<close>

lemma put_stmts_atomic: "run_stmts (put_stmts sd (sq_last s)) s = obind (sque_put sd s) (\<lambda>(_, s1). Inr s1)"
  by (auto simp: put_stmts_def sque_put_def Let_def node_upd_def node_at_def obind_def split: option.splits sum.splits)

lemma get_stmts_atomic:
  "sq_top s \<noteq> 0 \<Longrightarrow> 0 < sq_count s \<Longrightarrow> \<not> (0 \<le> w \<and> late) \<Longrightarrow>
   obind (run_stmts (get_stmts (sq_top s)) s) (\<lambda>s1. Inr (sq_top s, s1)) = sque_get late w s"
  by (auto simp: get_stmts_def sque_get_def Let_def node_upd_def node_at_def obind_def split: option.splits sum.splits)


lemma local_rest:
  assumes "run_stmts (drop k fs) (core D b q) = Inr s1" "k < length fs" "\<And>f. f \<in> set fs \<Longrightarrow> local_stmt f"
  shows "\<exists>q1. (fs ! k) q = Inr q1 \<and> run_stmts (drop (Suc k) fs) (core D b q1) = Inr s1 \<and> same_outside D q q1"
proof -
  have "drop k fs = fs ! k # drop (Suc k) fs" using assms(2) by (simp add: Cons_nth_drop_Suc)
  then obtain c where "(fs ! k) (core D b q) = Inr c" "run_stmts (drop (Suc k) fs) c = Inr s1"
    using assms(1) by auto
  moreover have "local_stmt (fs ! k)" using assms(2,3) by simp
  ultimately show ?thesis unfolding local_stmt_def by metis
qed

lemma put_stmts_length [simp]: "length (put_stmts sd p) = 6"
  by (simp add: put_stmts_def)

lemma get_stmts_length [simp]: "length (get_stmts x) = 8"
  by (simp add: get_stmts_def)

lemma put_stmts_count:
  assumes "(put_stmts sd p ! k) q = Inr q1" "k < 6"
  shows "sq_count q1 = (if k = 5 then i32 (sq_count q + 1) else sq_count q)"
proof -
  have "k = 0 \<or> k = 1 \<or> k = 2 \<or> k = 3 \<or> k = 4 \<or> k = 5" using assms(2) by linarith
  with assms(1) show ?thesis by (auto simp: put_stmts_def node_upd_def split: if_splits)
qed

lemma get_stmts_count:
  assumes "(get_stmts x ! k) q = Inr q1" "k < 8"
  shows "sq_count q1 = (if k = 5 then i32 (sq_count q - 1) else sq_count q)"
proof -
  have "k = 0 \<or> k = 1 \<or> k = 2 \<or> k = 3 \<or> k = 4 \<or> k = 5 \<or> k = 6 \<or> k = 7" using assms(2) by linarith
  with assms(1) show ?thesis by (auto simp: get_stmts_def node_upd_def split: if_splits)
qed

section \<open>The invariant\<close>

definition new_node :: "byte list \<Rightarrow> SQData" where
  "new_node bs = \<lparr>sd_parent = 0, sd_next = 0, sd_prev = 0, sd_size = int (length bs), sd_data = Some bs\<rparr>"

text \<open>A node that \<open>_sque_get\<close> has taken out of the list.\<close>

definition loose :: "sqstore \<Rightarrow> addr \<Rightarrow> bool" where
  "loose q a \<longleftrightarrow> (\<exists>d bs. cells q a = Some d \<and> sd_next d = 0 \<and> sd_prev d = 0 \<and> sd_data d = Some bs \<and> sd_size d = int (length bs))"

definition taken :: "addr \<Rightarrow> sqstore \<Rightarrow> addr list \<Rightarrow> bool" where
  "taken x s xs \<longleftrightarrow> loose s x \<and> (\<exists>n. sq_rep (s\<lparr>cells := (cells s)(x := None), quota := n\<rparr>) xs)"

fun in_cs :: "sq_pc \<Rightarrow> bool" where
  "in_cs (PutHold _) = True" | "in_cs (PutLink _ _ _) = True" | "in_cs (GetHold _) = True" | "in_cs (GetTake _ _ _) = True"
| "in_cs _ = False"

text \<open>The node a thread has to itself: a new one until it is counted, a taken one from then on.\<close>

fun private_of :: "sq_pc \<Rightarrow> addr option" where
  "private_of (PutLock sd) = Some sd" | "private_of (PutHold sd) = Some sd"
| "private_of (PutLink k sd _) = (if k \<le> 5 then Some sd else None)"
| "private_of (GetTake k x _) = (if k \<le> 5 \<or> x = 0 then None else Some x)"
| "private_of (GetCopy x) = Some x"
| "private_of _ = None"

text \<open>The statements left in a critical section, the nodes they work on, and where they lead.\<close>

fun rest_of :: "sq_pc \<Rightarrow> queue_stmt list" where
  "rest_of (PutLink k sd p) = drop k (put_stmts sd p)"
| "rest_of (GetTake k x _) = (if x = 0 then [] else drop k (get_stmts x))"
| "rest_of _ = []"

fun works_on :: "sq_pc \<Rightarrow> addr list \<Rightarrow> addr set" where
  "works_on (PutLink k sd _) xs = (if k \<le> 5 then insert sd (set xs) else set xs)"
| "works_on (GetTake k x _) xs = (if k \<le> 5 \<or> x = 0 then set xs else insert x (set xs))"
| "works_on _ xs = set xs"

fun leads_to :: "sq_pc \<Rightarrow> addr list \<Rightarrow> sqstore \<Rightarrow> bool" where
  "leads_to (PutLink k sd _) xs s = sq_rep s (if k \<le> 5 then xs @ [sd] else xs)"
| "leads_to (GetTake k x _) xs s = (if x = 0 then k = 8 \<and> sq_rep s xs
     else if k \<le> 5 then xs \<noteq> [] \<and> hd xs = x \<and> taken x s (tl xs) else taken x s xs)"
| "leads_to _ xs s = sq_rep s xs"

definition cs_ok :: "sq_pc \<Rightarrow> sqstore \<Rightarrow> addr list \<Rightarrow> bool" where
  "cs_ok pc q xs \<longleftrightarrow> (\<exists>b s. run_stmts (rest_of pc) (core (works_on pc xs) b q) = Inr s \<and> leads_to pc xs s)"

fun pc_ok :: "sq_pc \<Rightarrow> sqstore \<Rightarrow> bool" where
  "pc_ok (PutLock sd) q = (\<exists>bs. cells q sd = Some (new_node bs))"
| "pc_ok (PutHold sd) q = (\<exists>bs. cells q sd = Some (new_node bs))"
| "pc_ok (PutLink k _ _) q = (k \<le> 6)"
| "pc_ok (GetTake k x _) q = (k \<le> 8)"
| "pc_ok (GetCopy x) q = loose q x"
| "pc_ok _ q = True"

text \<open>Every node is in the list or belongs to exactly one thread.\<close>

definition pv :: "sq_pc \<Rightarrow> addr set" where
  "pv p = {a. private_of p = Some a}"

definition own_nodes :: "(nat \<Rightarrow> sq_pc) \<Rightarrow> addr list \<Rightarrow> addr set \<Rightarrow> bool" where
  "own_nodes pc xs D \<longleftrightarrow> D = set xs \<union> (\<Union>t. pv (pc t)) \<and> (\<forall>t. pv (pc t) \<inter> set xs = {}) \<and>
     (\<forall>t u. t \<noteq> u \<longrightarrow> pv (pc t) \<inter> pv (pc u) = {})"

definition heap_ok :: "nat \<Rightarrow> (nat \<Rightarrow> sq_pc) \<Rightarrow> addr list \<Rightarrow> sqstore \<Rightarrow> bool" where
  "heap_ok K pc xs q \<longleftrightarrow> sq_count q = int (length xs) \<and> distinct xs \<and> own_nodes pc xs (dom (cells q)) \<and>
     0 < brk q \<and> (\<forall>a\<in>dom (cells q). a \<noteq> 0 \<and> a < brk q) \<and>
     finite (dom (cells q)) \<and> quota q + 2 * card (dom (cells q)) \<le> K \<and> K < 2 ^ 31"

definition lock_ok :: "(nat \<Rightarrow> sq_pc) \<Rightarrow> nat option \<Rightarrow> addr list \<Rightarrow> sqstore \<Rightarrow> bool" where
  "lock_ok pc ow xs q \<longleftrightarrow> (\<forall>t. in_cs (pc t) \<longleftrightarrow> ow = Some t) \<and> (\<forall>t. pc_ok (pc t) q) \<and>
     cs_ok (case ow of None \<Rightarrow> Free | Some t \<Rightarrow> pc t) q xs"

lemma own_nodes_upd:
  assumes "own_nodes pc xs D" "set ys \<union> pv p = N" "pv p \<inter> set ys = {}"
    and "N \<inter> (D - (set xs \<union> pv (pc t))) = {}" "D1 = N \<union> (D - (set xs \<union> pv (pc t)))"
  shows "own_nodes (pc(t := p)) ys D1"
proof -
  have others: "(\<Union>u\<in>- {t}. pv (pc u)) = D - (set xs \<union> pv (pc t))"
    using assms(1) unfolding own_nodes_def by blast
  have split: "(\<Union>u. pv ((pc(t := p)) u)) = pv p \<union> (\<Union>u\<in>- {t}. pv (pc u))" by (auto split: if_splits)
  have out: "pv (pc u) \<inter> N = {}" if "u \<noteq> t" for u
    using that assms(4) others by blast
  show ?thesis
    unfolding own_nodes_def
  proof (intro conjI allI impI)
    show "D1 = set ys \<union> (\<Union>u. pv ((pc(t := p)) u))" unfolding split others assms(5) using assms(2) by blast
    show "pv ((pc(t := p)) u) \<inter> set ys = {}" for u
      using assms(2,3) out [of u] by (cases "u = t") auto
    show "pv ((pc(t := p)) u) \<inter> pv ((pc(t := p)) v) = {}" if "u \<noteq> v" for u v
      using that assms(1,2) out [of u] out [of v] unfolding own_nodes_def by (cases "u = t"; cases "v = t") auto
  qed
qed

lemma heap_okD:
  assumes h: "heap_ok K pc xs q"
  shows "sq_count q = int (length xs)" "distinct xs" "own_nodes pc xs (dom (cells q))"
    "private_of (pc t) = Some a \<Longrightarrow> a \<notin> set xs \<and> a \<noteq> 0 \<and> a < brk q \<and> a \<in> dom (cells q)"
    "private_of (pc t) = Some a \<Longrightarrow> private_of (pc u) = Some a \<Longrightarrow> t = u"
    "2 * length xs \<le> K" "2 * card (dom (cells q)) \<le> K" "K < 2 ^ 31" "set xs \<subseteq> dom (cells q)"
    "finite (dom (cells q))" "x \<in> set xs \<Longrightarrow> x \<noteq> 0 \<and> x < brk q" "brk q \<notin> dom (cells q)"
proof -
  show own: "own_nodes pc xs (dom (cells q))" and d: "distinct xs" and fin: "finite (dom (cells q))" and
    c: "2 * card (dom (cells q)) \<le> K" and "sq_count q = int (length xs)" "K < 2 ^ 31"
    using h by (simp_all add: heap_ok_def)
  show low: "brk q \<notin> dom (cells q)" using h unfolding heap_ok_def by blast
  show sub: "set xs \<subseteq> dom (cells q)" using own by (auto simp: own_nodes_def)
  show "a \<notin> set xs \<and> a \<noteq> 0 \<and> a < brk q \<and> a \<in> dom (cells q)" if a: "private_of (pc t) = Some a"
  proof -
    have "a \<in> pv (pc t)" using a by (simp add: pv_def)
    then have "a \<notin> set xs" "a \<in> dom (cells q)" using own unfolding own_nodes_def by blast+
    then show ?thesis using h unfolding heap_ok_def by blast
  qed
  show "t = u" if "private_of (pc t) = Some a" "private_of (pc u) = Some a"
  proof (rule ccontr)
    assume "t \<noteq> u"
    then have "pv (pc t) \<inter> pv (pc u) = {}" using own unfolding own_nodes_def by blast
    then show False using that by (auto simp: pv_def)
  qed
  show "x \<noteq> 0 \<and> x < brk q" if "x \<in> set xs" using that sub h unfolding heap_ok_def by blast
  have "length xs \<le> card (dom (cells q))" using card_mono [OF fin sub] d by (simp add: distinct_card)
  then show "2 * length xs \<le> K" using c by simp
qed

lemma heap_ok_same:
  assumes "heap_ok K pc xs q" "private_of p = private_of (pc t)" "same_outside D q q1" "sq_count q1 = sq_count q"
  shows "heap_ok K (pc(t := p)) xs q1"
proof -
  have p: "pv ((pc(t := p)) u) = pv (pc u)" for u using assms(2) by (simp add: pv_def)
  have q: "dom (cells q1) = dom (cells q)" "quota q1 = quota q" "brk q1 = brk q"
    using assms(3) by (simp_all add: same_outside_def)
  show ?thesis using assms(1) unfolding heap_ok_def own_nodes_def p q assms(4) .
qed

lemma pc_ok_same:
  assumes "pc_ok p q" "\<And>a. private_of p = Some a \<Longrightarrow> cells q1 a = cells q a"
  shows "pc_ok p q1"
  using assms by (cases p) (auto simp: loose_def)

lemma cs_ok_same:
  assumes "cs_ok p q xs" "\<And>a. a \<in> works_on p xs \<Longrightarrow> cells q1 a = cells q a"
    "sq_top q1 = sq_top q" "sq_last q1 = sq_last q" "sq_count q1 = sq_count q" "que_ptr q1 = que_ptr q" "sq_lock q1 = sq_lock q"
  shows "cs_ok p q1 xs"
proof -
  have "core (works_on p xs) b q1 = core (works_on p xs) b q" for b
    using assms(2-) by (intro core_eqI) (auto simp: restrict_map_def fun_eq_iff)
  then show ?thesis using assms(1) by (simp add: cs_ok_def)
qed

lemma cs_ok_plain: "rest_of p = [] \<Longrightarrow> works_on p xs = set xs \<Longrightarrow> (\<And>s. leads_to p xs s = sq_rep s xs) \<Longrightarrow>
  cs_ok p q xs \<longleftrightarrow> (\<exists>b. sq_rep (core (set xs) b q) xs)"
  by (simp add: cs_ok_def)

lemmas cs_ok_simps = cs_ok_plain [of Free, simplified] cs_ok_plain [of "PutHold sd" for sd, simplified]
  cs_ok_plain [of "GetHold w" for w, simplified] cs_ok_plain [of "GetTake 8 0 w" for w, simplified]

lemma works_on_subset: "works_on p xs \<subseteq> set xs \<union> pv p"
  by (cases p) (auto simp: pv_def)

text \<open>Beginning a critical section.\<close>

lemma sq_rep_brk: "sq_rep (core D b q) xs \<Longrightarrow> b \<le> c \<Longrightarrow> sq_rep (core D c q) xs"
  by (auto simp: sq_rep_def)

lemma put_begins:
  assumes "sq_rep (core (set xs) b q) xs" "cells q sd = Some (new_node bs)" "sd \<notin> set xs" "sd \<noteq> 0"
    and "2 * (length xs + 1) < 2 ^ 31"
  shows "\<exists>c s. run_stmts (put_stmts sd (sq_last q)) (core (insert sd (set xs)) c q) = Inr s \<and> sq_rep s (xs @ [sd])"
proof -
  let ?c = "max b (Suc sd)"
  have rep: "sq_rep (core (set xs) ?c q) xs" using sq_rep_brk [OF assms(1)] by simp
  have eq: "core (insert sd (set xs)) ?c q =
      (core (set xs) ?c q)\<lparr>brk := ?c, quota := 0, cells := (cells (core (set xs) ?c q))(sd \<mapsto> new_node bs)\<rparr>"
    using assms(2,3) by (auto simp: core_def restrict_map_def fun_eq_iff)
  have "int (length xs) + 1 < 2 ^ 31" "sd < ?c" "brk (core (set xs) ?c q) \<le> ?c" "0 + 2 * (length xs + 1) < 2 ^ 31"
    using assms(5) by auto
  from sque_put_rep [OF rep this(1) assms(4,3) this(2,3) new_node_def eq this(4)]
  obtain s where "sque_put sd (core (insert sd (set xs)) ?c q) = Inr (int (length xs) + 1, s)" "sq_rep s (xs @ [sd])"
    by blast
  then show ?thesis
    using put_stmts_atomic [of sd "core (insert sd (set xs)) ?c q"] by auto
qed

lemma get_begins:
  assumes "sq_rep (core (set xs) b q) xs" "sq_top q \<noteq> 0"
  shows "xs \<noteq> [] \<and> hd xs = sq_top q \<and>
    (\<exists>s. run_stmts (get_stmts (sq_top q)) (core (set xs) b q) = Inr s \<and> taken (sq_top q) s (tl xs))"
proof -
  obtain x ys where xs: "xs = x # ys" and top: "x = sq_top q"
    using assms by (cases xs) (auto simp: sq_rep_def)
  obtain s d where get: "sque_get False (-1) (core (set xs) b q) = Inr (x, s)" and
    d: "cells s x = Some d" "sd_next d = 0" "sd_prev d = 0" "sd_data d = Some (block_of (cells (core (set xs) b q) x))"
      "sd_size d = int (length (block_of (cells (core (set xs) b q) x)))" and
    rep: "sq_rep (s\<lparr>cells := (cells s)(x := None), quota := quota (core (set xs) b q) + 1\<rparr>) ys"
    using sque_get_rep [of "core (set xs) b q" x ys "-1" False] assms(1) xs by auto
  have "0 < sq_count q" using assms(1) xs by (auto simp: sq_rep_def)
  then have "run_stmts (get_stmts (sq_top q)) (core (set xs) b q) = Inr s"
    using get_stmts_atomic [of "core (set xs) b q" "-1" False] get assms(2) top by (auto simp: obind_eq_Inr)
  moreover have "taken x s ys" using d rep by (auto simp: taken_def loose_def)
  ultimately show ?thesis using xs top by auto
qed


section \<open>One step\<close>

text \<open>What a statement of thread \<open>t\<close> does: it runs, keeps the invariant, and changes the list of blocks
  only as its event says.\<close>

fun event_ok :: "sq_event option \<Rightarrow> byte list list \<Rightarrow> byte list list \<Rightarrow> bool" where
  "event_ok None fs gs = (gs = fs)"
| "event_ok (Some (EvPut b)) fs gs = (gs = fs @ [b])"
| "event_ok (Some (EvGot b)) fs gs = (fs = b # gs)"
| "event_ok (Some EvEmpty) fs gs = (fs = [] \<and> gs = [])"
| "event_ok (Some EvTimeout) fs gs = (gs = fs)"

definition blocks :: "sqstore \<Rightarrow> addr list \<Rightarrow> byte list list" where
  "blocks q xs = map (\<lambda>a. block_of (cells q a)) xs"

lemma blocks_same: "same_outside D q q1 \<Longrightarrow> blocks q1 xs = blocks q xs"
  by (simp add: blocks_def same_outside_def)

text \<open>A step that leaves the queue alone.\<close>

lemma quiet_step:
  assumes "heap_ok K pc xs q" "lock_ok pc ow xs q" "private_of p = private_of (pc t)" "pc_ok p q"
    and "ow \<noteq> Some t" "\<not> in_cs p"
  shows "heap_ok K (pc(t := p)) xs q \<and> lock_ok (pc(t := p)) ow xs q"
proof -
  have "heap_ok K (pc(t := p)) xs q" using heap_ok_same [OF assms(1,3)] by simp
  moreover have "lock_ok (pc(t := p)) ow xs q"
    using assms by (auto simp: lock_ok_def split: option.splits)
  ultimately show ?thesis by simp
qed

text \<open>\<open>LOCK\<close>, and the statement after it.\<close>

lemma lock_step:
  assumes "heap_ok K pc xs q" "lock_ok pc None xs q" "private_of p = private_of (pc t)" "pc_ok p q"
    and "in_cs p" "cs_ok p q xs"
  shows "heap_ok K (pc(t := p)) xs q \<and> lock_ok (pc(t := p)) (Some t) xs q"
proof -
  have "heap_ok K (pc(t := p)) xs q" using heap_ok_same [OF assms(1,3)] by simp
  moreover have "lock_ok (pc(t := p)) (Some t) xs q"
    using assms by (auto simp: lock_ok_def)
  ultimately show ?thesis by simp
qed

lemma unlock_step:
  assumes "heap_ok K pc xs q" "lock_ok pc (Some t) xs q" "private_of p = private_of (pc t)" "pc_ok p q"
    and "\<not> in_cs p" "cs_ok Free q xs"
  shows "heap_ok K (pc(t := p)) xs q \<and> lock_ok (pc(t := p)) None xs q"
proof -
  have "heap_ok K (pc(t := p)) xs q" using heap_ok_same [OF assms(1,3)] by simp
  moreover have "lock_ok (pc(t := p)) None xs q"
    using assms by (auto simp: lock_ok_def)
  ultimately show ?thesis by simp
qed

text \<open>A statement of the thread that holds the mutex; \<open>ys\<close> is the list after it.\<close>

lemma holder_step:
  assumes h: "heap_ok K pc xs q" and l: "lock_ok pc (Some t) xs q" and p: "in_cs p" "pc_ok p q1" "cs_ok p q1 ys"
    and same: "same_outside (works_on (pc t) xs) q q1" and cnt: "sq_count q1 = int (length ys)" and ys: "distinct ys"
    and own: "set xs \<union> pv (pc t) = set ys \<union> pv p" "pv p \<inter> set ys = {}"
  shows "heap_ok K (pc(t := p)) ys q1 \<and> lock_ok (pc(t := p)) (Some t) ys q1"
proof -
  have q: "dom (cells q1) = dom (cells q)" "quota q1 = quota q" "brk q1 = brk q"
    using same by (simp_all add: same_outside_def)
  have sub: "set xs \<union> pv (pc t) \<subseteq> dom (cells q)"
    using heap_okD(3) [OF h] by (auto simp: own_nodes_def)
  have "own_nodes (pc(t := p)) ys (dom (cells q))"
    by (rule own_nodes_upd [OF heap_okD(3) [OF h] own(1) [symmetric] own(2)]) (use sub in blast)+
  then have "heap_ok K (pc(t := p)) ys q1"
    using h ys unfolding heap_ok_def q cnt by simp
  moreover have "pc_ok (pc u) q1" if "u \<noteq> t" for u
  proof (rule pc_ok_same)
    show "pc_ok (pc u) q" using l by (simp add: lock_ok_def)
    fix a assume a: "private_of (pc u) = Some a"
    then have "a \<notin> set xs" "a \<notin> pv (pc t)"
      using heap_okD(4) [OF h a] heap_okD(5) [OF h a, of t] that by (auto simp: pv_def)
    then have "a \<notin> works_on (pc t) xs" using works_on_subset [of "pc t" xs] by blast
    then show "cells q1 a = cells q a" using same by (simp add: same_outside_def)
  qed
  then have "lock_ok (pc(t := p)) (Some t) ys q1" using l p by (auto simp: lock_ok_def)
  ultimately show ?thesis by simp
qed

text \<open>A step of another thread on a node of its own.\<close>

lemma cs_ok_other:
  assumes "lock_ok pc ow xs q" "x \<notin> set xs" "\<And>u. ow = Some u \<Longrightarrow> x \<notin> pv (pc u)"
    and "q1 = q\<lparr>cells := (cells q)(x := v), brk := b, quota := n\<rparr>"
  shows "cs_ok (case ow of None \<Rightarrow> Free | Some u \<Rightarrow> pc u) q1 xs"
proof (rule cs_ok_same [of _ q])
  show "cs_ok (case ow of None \<Rightarrow> Free | Some u \<Rightarrow> pc u) q xs" using assms(1) by (simp add: lock_ok_def)
  fix a assume "a \<in> works_on (case ow of None \<Rightarrow> Free | Some u \<Rightarrow> pc u) xs"
  then have "a \<in> set xs \<union> pv (case ow of None \<Rightarrow> Free | Some u \<Rightarrow> pc u)" using works_on_subset by blast
  then have "a \<noteq> x" using assms(2,3) by (auto simp: pv_def split: option.splits)
  then show "cells q1 a = cells q a" by (simp add: assms(4))
qed (simp_all add: assms(4))

lemma free_step:
  assumes h: "heap_ok K pc xs q" and l: "lock_ok pc ow xs q" and t: "private_of (pc t) = Some x" "ow \<noteq> Some t"
    and q1: "q1 = q\<lparr>cells := (cells q)(x := None), quota := quota q + 1\<rparr>"
  shows "heap_ok K (pc(t := Free)) xs q1 \<and> lock_ok (pc(t := Free)) ow xs q1 \<and> blocks q1 xs = blocks q xs"
proof -
  have x: "x \<in> dom (cells q)" "x \<notin> set xs" and other: "\<And>u. u \<noteq> t \<Longrightarrow> private_of (pc u) \<noteq> Some x"
    using heap_okD(4,5) [OF h t(1)] by blast+
  have dom1: "dom (cells q1) = dom (cells q) - {x}" by (auto simp: q1)
  have p: "pv Free = {}" "pv (pc t) = {x}" using t(1) by (auto simp: pv_def)
  have "own_nodes (pc(t := Free)) xs (dom (cells q1))"
    by (rule own_nodes_upd [where p = Free and t = t, OF heap_okD(3) [OF h] refl])
      (use heap_okD(9) [OF h] x in \<open>auto simp: p dom1\<close>)
  moreover have "card (dom (cells q)) = Suc (card (dom (cells q1)))"
    unfolding dom1 using heap_okD(10) [OF h] x(1) by (metis card_Suc_Diff1)
  ultimately have "heap_ok K (pc(t := Free)) xs q1"
    using h unfolding heap_ok_def dom1 by (simp add: q1)
  moreover have "pc_ok (pc u) q1" if "u \<noteq> t" for u
    by (rule pc_ok_same [of _ q]) (use l other [OF that] in \<open>auto simp: q1 lock_ok_def\<close>)
  moreover have "cs_ok (case ow of None \<Rightarrow> Free | Some u \<Rightarrow> pc u) q1 xs"
    by (rule cs_ok_other [OF l x(2), where v = None and b = "brk q" and n = "quota q + 1"])
      (use other t(2) in \<open>auto simp: pv_def q1\<close>)
  ultimately show ?thesis using l t x(2) by (auto simp: lock_ok_def blocks_def q1 split: option.splits)
qed

lemma alloc_step:
  assumes h: "heap_ok K pc xs q" and l: "lock_ok pc ow xs q" and t: "pc t = Free" and room: "2 \<le> quota q"
    and q1: "q1 = q\<lparr>brk := brk q + 1, quota := quota q - 2, cells := (cells q)(brk q \<mapsto> new_node bs)\<rparr>"
  shows "heap_ok K (pc(t := PutLock (brk q))) xs q1 \<and> lock_ok (pc(t := PutLock (brk q))) ow xs q1 \<and> blocks q1 xs = blocks q xs"
proof -
  have x: "brk q \<notin> dom (cells q)" "brk q \<notin> set xs" using heap_okD(9,12) [OF h] by blast+
  have pr: "private_of (pc u) \<noteq> Some (brk q)" for u using heap_okD(4) [OF h, of u] by blast
  have dom1: "dom (cells q1) = insert (brk q) (dom (cells q))" by (auto simp: q1)
  have p: "pv (PutLock (brk q)) = {brk q}" "pv (pc t) = {}" using t by (auto simp: pv_def)
  have "own_nodes (pc(t := PutLock (brk q))) xs (dom (cells q1))"
    by (rule own_nodes_upd [where p = "PutLock (brk q)" and t = t, OF heap_okD(3) [OF h] refl])
      (use heap_okD(9) [OF h] x in \<open>auto simp: p dom1\<close>)
  moreover have "card (dom (cells q1)) = Suc (card (dom (cells q)))"
    unfolding dom1 using heap_okD(10) [OF h] x(1) by simp
  ultimately have "heap_ok K (pc(t := PutLock (brk q))) xs q1"
    using h room unfolding heap_ok_def dom1 by (auto simp: q1 less_Suc_eq)
  moreover have "pc_ok (pc u) q1" for u
    by (rule pc_ok_same [of _ q]) (use l pr [of u] in \<open>auto simp: q1 lock_ok_def\<close>)
  moreover have "cs_ok (case ow of None \<Rightarrow> Free | Some u \<Rightarrow> pc u) q1 xs"
    by (rule cs_ok_other [OF l x(2), where v = "Some (new_node bs)" and b = "brk q + 1" and n = "quota q - 2"])
      (use pr in \<open>auto simp: pv_def q1\<close>)
  moreover have "ow \<noteq> Some t" using l t unfolding lock_ok_def by (metis in_cs.simps(5))
  ultimately show ?thesis using l t x(2) by (auto simp: lock_ok_def blocks_def q1 split: option.splits)
qed


text \<open>The block a thread is about to put, and the result it has but has not yet returned.\<close>

fun putting :: "sq_pc \<Rightarrow> sqstore \<Rightarrow> byte list list" where
  "putting (PutLock sd) q = [block_of (cells q sd)]"
| "putting (PutHold sd) q = [block_of (cells q sd)]"
| "putting (PutLink k sd _) q = (if k \<le> 5 then [block_of (cells q sd)] else [])"
| "putting _ q = []"

fun getting :: "sq_pc \<Rightarrow> sqstore \<Rightarrow> byte list option list" where
  "getting (GetTake k x _) q = (if x = 0 then [None] else if k \<le> 5 then [] else [Some (block_of (cells q x))])"
| "getting (GetCopy x) q = [Some (block_of (cells q x))]"
| "getting _ q = []"

fun event_put :: "sq_event option \<Rightarrow> byte list list" where
  "event_put (Some (EvPut b)) = [b]"
| "event_put _ = []"

fun event_get :: "sq_event option \<Rightarrow> byte list option list" where
  "event_get (Some (EvGot b)) = [Some b]"
| "event_get (Some EvEmpty) = [None]"
| "event_get (Some EvTimeout) = [None]"
| "event_get _ = []"

fun ret_get :: "sq_ret option \<Rightarrow> byte list option list" where
  "ret_get (Some (RetGet p _)) = [p]"
| "ret_get _ = []"

fun ret_ok :: "sq_ret \<Rightarrow> bool" where
  "ret_ok (RetPut c) = (0 \<le> c)"
| "ret_ok (RetGet (Some b) n) = (n = int (length b))"
| "ret_ok (RetGet None n) = (n = 0 \<or> n = -2)"

definition goes_well :: "nat \<Rightarrow> nat \<Rightarrow> (nat \<Rightarrow> sq_pc) \<Rightarrow> addr list \<Rightarrow> sqstore \<Rightarrow>
    (sq_pc \<times> sq_event option \<times> sq_ret option \<times> nat option \<times> sqstore) outcome \<Rightarrow> bool" where
  "goes_well K t pc xs q res \<longleftrightarrow> (\<exists>p ev r ow1 q1 ys. res = Inr (p, ev, r, ow1, q1) \<and>
     heap_ok K (pc(t := p)) ys q1 \<and> lock_ok (pc(t := p)) ow1 ys q1 \<and> event_ok ev (blocks q xs) (blocks q1 ys) \<and>
     quota q \<le> quota q1 \<and> putting (pc t) q = event_put ev @ putting p q1 \<and>
     getting (pc t) q @ event_get ev = ret_get r @ getting p q1 \<and> (\<forall>v. r = Some v \<longrightarrow> ret_ok v) \<and>
     (\<forall>u a. u \<noteq> t \<longrightarrow> a \<in> pv (pc u) \<longrightarrow> block_of (cells q1 a) = block_of (cells q a)))"

lemma lock_okD:
  assumes "lock_ok pc ow xs q"
  shows "in_cs (pc t) \<longleftrightarrow> ow = Some t" "pc_ok (pc t) q"
  using assms by (simp_all add: lock_ok_def)

lemma goes_well_quiet:
  assumes h: "heap_ok K pc xs q" and l: "lock_ok pc ow xs q" and p: "private_of p = private_of (pc t)" "pc_ok p q" "ow \<noteq> Some t" "\<not> in_cs p"
    and ev: "event_ok ev (blocks q xs) (blocks q xs)" "putting (pc t) q = event_put ev @ putting p q"
      "getting (pc t) q @ event_get ev = ret_get r @ getting p q" "\<And>v. r = Some v \<Longrightarrow> ret_ok v"
  shows "goes_well K t pc xs q (Inr (p, ev, r, ow, q))"
  unfolding goes_well_def using quiet_step [OF h l p] ev by blast

lemma goes_well_lock:
  assumes h: "heap_ok K pc xs q" and l: "lock_ok pc None xs q" and p: "private_of p = private_of (pc t)" "pc_ok p q" "in_cs p" "cs_ok p q xs"
    and ev: "putting (pc t) q = putting p q" "getting (pc t) q = getting p q"
  shows "goes_well K t pc xs q (Inr (p, None, None, Some t, q))"
  unfolding goes_well_def using lock_step [OF h l p] ev by force

lemma goes_well_unlock:
  assumes h: "heap_ok K pc xs q" and l: "lock_ok pc (Some t) xs q" and p: "private_of p = private_of (pc t)" "pc_ok p q" "\<not> in_cs p" "cs_ok Free q xs"
    and ev: "putting (pc t) q = putting p q" "getting (pc t) q = ret_get r @ getting p q" "\<And>v. r = Some v \<Longrightarrow> ret_ok v"
  shows "goes_well K t pc xs q (Inr (p, None, r, None, q))"
  unfolding goes_well_def using unlock_step [OF h l p] ev by force

lemma goes_well_holder:
  assumes "heap_ok K pc xs q" "lock_ok pc (Some t) xs q" "in_cs p" "pc_ok p q1" "cs_ok p q1 ys"
    and same: "same_outside (works_on (pc t) xs) q q1" and "sq_count q1 = int (length ys)" "distinct ys"
    and "set xs \<union> pv (pc t) = set ys \<union> pv p" "pv p \<inter> set ys = {}"
    and ev: "event_ok ev (blocks q xs) (blocks q ys)" "putting (pc t) q = event_put ev @ putting p q1"
      "getting (pc t) q @ event_get ev = getting p q1"
  shows "goes_well K t pc xs q (Inr (p, ev, None, Some t, q1))"
proof -
  have "quota q1 = quota q" "\<And>a. block_of (cells q1 a) = block_of (cells q a)"
    using same by (simp_all add: same_outside_def)
  then show ?thesis
    unfolding goes_well_def using holder_step [OF assms(1-10)] ev blocks_same [OF same, of ys] by force
qed

lemma cs_ok_owner: "lock_ok pc (Some t) xs q \<Longrightarrow> cs_ok (pc t) q xs"
  by (simp add: lock_ok_def)

lemma cs_ok_free: "lock_ok pc None xs q \<Longrightarrow> cs_ok Free q xs"
  by (simp add: lock_ok_def)

text \<open>A step of \<open>_sque_put\<close> in its critical section.\<close>

lemma put_link_step:
  assumes h: "heap_ok K pc xs q" and l: "lock_ok pc (Some t) xs q" and pc: "pc t = PutLink k sd prv" and k: "k < 6"
  shows "\<exists>q1. (put_stmts sd prv ! k) q = Inr q1 \<and> goes_well K t pc xs q
    (Inr (PutLink (Suc k) sd prv, if k = 5 then Some (EvPut (block_of (cells q sd))) else None, None, Some t, q1))"
proof -
  let ?D = "insert sd (set xs)"
  have w: "works_on (pc t) xs = ?D" and pv: "pv (pc t) = {sd}" using pc k by (simp_all add: pv_def)
  obtain b s where run: "run_stmts (drop k (put_stmts sd prv)) (core ?D b q) = Inr s" and rep: "sq_rep s (xs @ [sd])"
    using cs_ok_owner [OF l] pc k by (auto simp: cs_ok_def)
  obtain q1 where q1: "(put_stmts sd prv ! k) q = Inr q1" "run_stmts (drop (Suc k) (put_stmts sd prv)) (core ?D b q1) = Inr s"
    and same: "same_outside ?D q q1"
    using local_rest [OF run] local_put k by (metis put_stmts_length)
  have sd: "sd \<notin> set xs" using heap_okD(4) [OF h, of t sd] pc k by simp
  have cnt: "sq_count q = int (length xs)" and d: "distinct xs" using heap_okD(1,2) [OF h] .
  have lim: "2 * length xs < 2 ^ 31" using heap_okD(6,8) [OF h] by linarith
  have blk: "block_of (cells q1 sd) = block_of (cells q sd)" using same by (simp add: same_outside_def)
  note c = put_stmts_count [OF q1(1) k]
  have "goes_well K t pc xs q (Inr (PutLink (Suc k) sd prv, if k = 5 then Some (EvPut (block_of (cells q sd))) else None, None, Some t, q1))"
  proof (cases "k = 5")
    case True
    have "cs_ok (PutLink (Suc k) sd prv) q1 (xs @ [sd])"
      using q1(2) rep True by (auto simp: cs_ok_def)
    moreover have "sq_count q1 = int (length (xs @ [sd]))" using c cnt lim True by (simp add: i32_id)
    ultimately show ?thesis
      by (intro goes_well_holder [OF h l, where ys = "xs @ [sd]"])
        (use True sd d same w pv pc in \<open>simp_all add: pv_def blocks_def\<close>)
  next
    case False
    then have k': "Suc k \<le> 5" using k by simp
    have "cs_ok (PutLink (Suc k) sd prv) q1 xs" using q1(2) rep k' by (auto simp: cs_ok_def)
    then show ?thesis
      by (intro goes_well_holder [OF h l, where ys = xs])
        (use False k' k sd d same w pv pc c cnt blk in \<open>simp_all add: pv_def\<close>)
  qed
  then show ?thesis using q1(1) by blast
qed


text \<open>A step of \<open>_sque_get\<close> in its critical section.\<close>

lemma get_take_step:
  assumes h: "heap_ok K pc xs q" and l: "lock_ok pc (Some t) xs q" and pc: "pc t = GetTake k x w" and k: "k < 8"
  shows "\<exists>q1. (get_stmts x ! k) q = Inr q1 \<and> goes_well K t pc xs q
    (Inr (GetTake (Suc k) x w, if k = 5 then Some (EvGot (block_of (cells q x))) else None, None, Some t, q1))"
proof -
  let ?D = "works_on (pc t) xs"
  have x: "x \<noteq> 0" using cs_ok_owner [OF l] pc k by (auto simp: cs_ok_def split: if_splits)
  obtain b s where run: "run_stmts (drop k (get_stmts x)) (core ?D b q) = Inr s" and lead: "leads_to (pc t) xs s"
    using cs_ok_owner [OF l] pc x by (auto simp: cs_ok_def)
  obtain q1 where q1: "(get_stmts x ! k) q = Inr q1" "run_stmts (drop (Suc k) (get_stmts x)) (core ?D b q1) = Inr s"
    and same: "same_outside ?D q q1"
    using local_rest [OF run] local_get k by (metis get_stmts_length)
  have cnt: "sq_count q = int (length xs)" and d: "distinct xs" using heap_okD(1,2) [OF h] .
  have lim: "2 * length xs < 2 ^ 31" using heap_okD(6,8) [OF h] by linarith
  have blk: "block_of (cells q1 a) = block_of (cells q a)" for a using same by (simp add: same_outside_def)
  note c = get_stmts_count [OF q1(1) k]
  let ?p = "GetTake (Suc k) x w" and ?ev = "if k = 5 then Some (EvGot (block_of (cells q x))) else None"
  consider (early) "k < 5" | (count) "k = 5" | (late) "5 < k" by linarith
  then have "goes_well K t pc xs q (Inr (?p, ?ev, None, Some t, q1))"
  proof cases
    case early
    have "cs_ok ?p q1 xs" using q1(2) lead early x pc by (auto simp: cs_ok_def)
    then show ?thesis
      by (intro goes_well_holder [OF h l, where ys = xs])
        (use early d same pc c cnt x in \<open>simp_all add: pv_def\<close>)
  next
    case late
    have "cs_ok ?p q1 xs" using q1(2) lead late x pc by (auto simp: cs_ok_def)
    moreover have "x \<notin> set xs" using heap_okD(4) [OF h, of t x] pc late x by simp
    ultimately show ?thesis
      by (intro goes_well_holder [OF h l, where ys = xs])
        (use late k d same pc c cnt x blk in \<open>simp_all add: pv_def\<close>)
  next
    case count
    obtain ys where xs: "xs = x # ys" and tk: "taken x s ys"
      using lead count x pc by (cases xs) auto
    have "cs_ok ?p q1 ys" using q1(2) tk count x pc xs by (auto simp: cs_ok_def)
    moreover have "sq_count q1 = int (length ys)" using c cnt lim count xs by (simp add: i32_id)
    ultimately show ?thesis
      by (intro goes_well_holder [OF h l, where ys = ys])
        (use count d same pc x xs blk in \<open>auto simp: pv_def blocks_def\<close>)
  qed
  then show ?thesis using q1(1) by blast
qed

text \<open>\<open>UNLOCK\<close> and the steps outside.\<close>

lemma put_unlock_step:
  assumes h: "heap_ok K pc xs q" and l: "lock_ok pc (Some t) xs q" and pc: "pc t = PutLink 6 sd prv"
  shows "goes_well K t pc xs q (Inr (PutCount, None, None, None, q))"
proof -
  have "cs_ok Free q xs" using cs_ok_owner [OF l] pc by (simp add: cs_ok_def)
  then show ?thesis by (intro goes_well_unlock [OF h l]) (simp_all add: pc)
qed

lemma get_unlock_step:
  assumes h: "heap_ok K pc xs q" and l: "lock_ok pc (Some t) xs q" and pc: "pc t = GetTake 8 x w"
  shows "goes_well K t pc xs q (Inr (if x = 0 then (Free, None, Some (no_block w), None, q) else (GetCopy x, None, None, None, q)))"
proof (cases "x = 0")
  case True
  then have "cs_ok Free q xs" using cs_ok_owner [OF l] pc by (simp add: cs_ok_def)
  then show ?thesis
    unfolding if_P [OF True] by (intro goes_well_unlock [OF h l]) (auto simp: pc True no_block_def)
next
  case False
  obtain b n where lo: "loose (core (insert x (set xs)) b q) x" and
    rep: "sq_rep ((core (insert x (set xs)) b q)\<lparr>cells := (cells (core (insert x (set xs)) b q))(x := None), quota := n\<rparr>) xs"
    using cs_ok_owner [OF l] pc False by (auto simp: cs_ok_def taken_def)
  have x: "x \<notin> set xs" using heap_okD(4) [OF h, of t x] pc False by simp
  have "(core (insert x (set xs)) b q)\<lparr>cells := (cells (core (insert x (set xs)) b q))(x := None), quota := n\<rparr> =
      (core (set xs) b q)\<lparr>quota := n\<rparr>"
    using x by (auto simp: core_def restrict_map_def fun_eq_iff)
  with rep have "sq_rep ((core (set xs) b q)\<lparr>quota := n\<rparr>) xs" by simp
  then have "sq_rep (core (set xs) b q) xs" by (simp add: sq_rep_def)
  then have "cs_ok Free q xs" by (auto simp: cs_ok_def)
  moreover have "loose q x" using lo by (simp add: loose_def)
  ultimately show ?thesis
    unfolding if_not_P [OF False] by (intro goes_well_unlock [OF h l]) (simp_all add: pc False)
qed

lemma get_copy_step:
  assumes h: "heap_ok K pc xs q" and l: "lock_ok pc ow xs q" and pc: "pc t = GetCopy x"
  shows "goes_well K t pc xs q (sq_stmt t late (GetCopy x) ow q)"
proof -
  have x: "private_of (pc t) = Some x" "x \<noteq> 0" using pc heap_okD(4) [OF h, of t x] by simp_all
  have ow: "ow \<noteq> Some t" using lock_okD(1) [OF l, of t] pc by simp
  obtain d bs where d: "cells q x = Some d" "sd_next d = 0" "sd_prev d = 0" "sd_data d = Some bs" "sd_size d = int (length bs)"
    using lock_okD(2) [OF l, of t] pc by (auto simp: loose_def)
  let ?q1 = "q\<lparr>cells := (cells q)(x := None), quota := quota q + 1\<rparr>"
  have "sq_stmt t late (GetCopy x) ow q = Inr (Free, None, Some (RetGet (Some bs) (int (length bs))), ow, ?q1)"
    using d x(2) by (simp add: node_at_def DeleteSQData_def)
  moreover have "u \<noteq> t \<Longrightarrow> a \<in> pv (pc u) \<Longrightarrow> a \<noteq> x" for u a
    using heap_okD(5) [OF h x(1), of u] by (auto simp: pv_def)
  ultimately show ?thesis
    unfolding goes_well_def using free_step [OF h l x(1) ow refl] d pc
    by (auto simp: block_of_def intro!: exI [of _ xs])
qed


lemma private_bound:
  assumes h: "heap_ok K pc xs q" and t: "private_of (pc t) = Some a"
  shows "2 * (length xs + 1) < 2 ^ 31"
proof -
  have "insert a (set xs) \<subseteq> dom (cells q)" "a \<notin> set xs" using heap_okD(4) [OF h t] heap_okD(9) [OF h] by auto
  moreover have "card (set xs) = length xs" using heap_okD(2) [OF h] by (rule distinct_card)
  ultimately have "length xs + 1 \<le> card (dom (cells q))"
    using card_mono [OF heap_okD(10) [OF h], of "insert a (set xs)"] by simp
  then show ?thesis using heap_okD(7,8) [OF h] by simp
qed

lemma put_hold_step:
  assumes h: "heap_ok K pc xs q" and l: "lock_ok pc (Some t) xs q" and pc: "pc t = PutHold sd"
  shows "goes_well K t pc xs q (Inr (PutLink 0 sd (sq_last q), None, None, Some t, q))"
proof -
  have sd: "private_of (pc t) = Some sd" using pc by simp
  obtain b where rep: "sq_rep (core (set xs) b q) xs"
    using cs_ok_owner [OF l] pc by (auto simp: cs_ok_def)
  obtain bs where bs: "cells q sd = Some (new_node bs)" using lock_okD(2) [OF l, of t] pc by auto
  have sd': "sd \<notin> set xs" "sd \<noteq> 0" using heap_okD(4) [OF h sd] by simp_all
  then have "cs_ok (PutLink 0 sd (sq_last q)) q xs"
    using put_begins [OF rep bs _ _ private_bound [OF h sd]] by (auto simp: cs_ok_def)
  then show ?thesis
    by (intro goes_well_holder [OF h l, where ys = xs])
      (use pc heap_okD(1,2) [OF h] sd' in \<open>simp_all add: pv_def\<close>)
qed

lemma get_hold_step:
  assumes h: "heap_ok K pc xs q" and l: "lock_ok pc (Some t) xs q" and pc: "pc t = GetHold w"
  shows "goes_well K t pc xs q (Inr (if sq_top q = 0 then (GetTake 8 0 w, Some EvEmpty, None, Some t, q)
    else (GetTake 0 (sq_top q) w, None, None, Some t, q)))"
proof -
  obtain b where rep: "sq_rep (core (set xs) b q) xs"
    using cs_ok_owner [OF l] pc by (auto simp: cs_ok_def)
  show ?thesis
  proof (cases "sq_top q = 0")
    case True
    have "xs = []" using rep True by (cases xs) (auto simp: sq_rep_def)
    moreover have "cs_ok (GetTake 8 0 w) q xs" using rep by (auto simp: cs_ok_def)
    ultimately show ?thesis
      unfolding if_P [OF True]
      by (intro goes_well_holder [OF h l, where ys = xs])
        (use pc heap_okD(1,2) [OF h] in \<open>simp_all add: pv_def blocks_def\<close>)
  next
    case False
    have "cs_ok (GetTake 0 (sq_top q) w) q xs" using get_begins [OF rep False] False by (auto simp: cs_ok_def)
    then show ?thesis
      unfolding if_not_P [OF False]
      by (intro goes_well_holder [OF h l, where ys = xs])
        (use pc heap_okD(1,2) [OF h] False in \<open>simp_all add: pv_def\<close>)
  qed
qed

text \<open>All of them together: the steps of \<open>SQPut\<close>, those of \<open>SQGet\<close> before the mutex, and those after it.\<close>

lemma put_steps:
  assumes h: "heap_ok K pc xs q" and l: "lock_ok pc ow xs q"
    and pc: "pc t = PutLock sd \<or> pc t = PutHold sd \<or> pc t = PutLink k sd prv \<or> pc t = PutCount"
  shows "goes_well K t pc xs q (sq_stmt t late (pc t) ow q)"
proof -
  note ow = lock_okD(1) [OF l, of t] and ok = lock_okD(2) [OF l, of t]
  consider (lock) "pc t = PutLock sd" "ow = None" | (wait) "pc t = PutLock sd" "ow \<noteq> None" | (hold) "pc t = PutHold sd"
    | (link) "pc t = PutLink k sd prv" "k < 6" | (unlock) "pc t = PutLink k sd prv" "\<not> k < 6" | (count) "pc t = PutCount"
    using pc by blast
  then show ?thesis
  proof cases
    case lock
    then have "cs_ok (PutHold sd) q xs" using l by (simp add: lock_ok_def cs_ok_def)
    then show ?thesis using l lock ok by (auto intro!: goes_well_lock [OF h])
  next
    case wait
    then show ?thesis using goes_well_quiet [OF h l, of "PutLock sd" t None None] ok ow by auto
  next
    case hold
    then show ?thesis using ow put_hold_step [OF h _ hold] l by simp
  next
    case link
    then show ?thesis using ow l put_link_step [OF h _ link] by auto
  next
    case unlock
    then have "k = 6" using ok by simp
    then show ?thesis using unlock ow l put_unlock_step [OF h] by simp
  next
    case count
    then show ?thesis using ow heap_okD(1) [OF h] by (auto intro!: goes_well_quiet [OF h l])
  qed
qed

lemma get_waits:
  assumes h: "heap_ok K pc xs q" and l: "lock_ok pc ow xs q"
    and pc: "pc t = GetPoll w \<or> pc t = GetTest w \<or> pc t = GetEnter w \<or> pc t = GetLock w"
  shows "goes_well K t pc xs q (sq_stmt t late (pc t) ow q)"
proof -
  note ow = lock_okD(1) [OF l, of t]
  note quiet = goes_well_quiet [OF h l]
  have empty: "blocks q xs = []" if "\<not> 0 < sq_count q" using that heap_okD(1) [OF h] by (simp add: blocks_def)
  consider (poll) "pc t = GetPoll w" | (test) "pc t = GetTest w" | (enter) "pc t = GetEnter w"
    | (lock) "pc t = GetLock w" "ow = None" | (wait) "pc t = GetLock w" "ow \<noteq> None" using pc by blast
  then show ?thesis
  proof cases
    case poll
    then show ?thesis using ow by (auto intro!: quiet)
  next
    case test
    then show ?thesis
      using ow empty quiet [of Free t "Some EvEmpty" "Some (RetGet None 0)"] quiet [of "GetEnter w" t None None] by simp
  next
    case enter
    then show ?thesis
      using ow empty quiet [of Free t "Some EvEmpty" "Some (no_block w)"] quiet [of "GetLock w" t None None]
      by (simp add: no_block_def)
  next
    case lock
    then have "cs_ok (GetHold w) q xs" using l by (simp add: lock_ok_def cs_ok_def)
    then show ?thesis using l lock by (auto intro!: goes_well_lock [OF h])
  next
    case wait
    then show ?thesis
      using ow quiet [of "GetLock w" t None None] quiet [of Free t "Some EvTimeout" "Some (no_block w)"]
      by (auto simp: no_block_def)
  qed
qed

lemma get_steps:
  assumes h: "heap_ok K pc xs q" and l: "lock_ok pc ow xs q"
    and pc: "pc t = GetHold w \<or> pc t = GetTake k x w \<or> pc t = GetCopy x"
  shows "goes_well K t pc xs q (sq_stmt t late (pc t) ow q)"
proof -
  note ow = lock_okD(1) [OF l, of t] and ok = lock_okD(2) [OF l, of t]
  consider (hold) "pc t = GetHold w" | (take_it) "pc t = GetTake k x w" "k < 8" | (unlock) "pc t = GetTake k x w" "\<not> k < 8"
    | (copy) "pc t = GetCopy x" using pc by blast
  then show ?thesis
  proof cases
    case hold
    then show ?thesis using ow get_hold_step [OF h _ hold] l by auto
  next
    case take_it
    then show ?thesis using ow l get_take_step [OF h _ take_it] by auto
  next
    case unlock
    then have "k = 8" using ok by simp
    then show ?thesis using unlock ow l get_unlock_step [OF h] by simp
  next
    case copy
    then show ?thesis using get_copy_step [OF h l copy] by simp
  qed
qed

lemma stmt_step:
  assumes "heap_ok K pc xs q" "lock_ok pc ow xs q"
  shows "goes_well K t pc xs q (sq_stmt t late (pc t) ow q)"
proof (cases "pc t")
  case Free
  then show ?thesis using lock_okD(1) [OF assms(2), of t] by (auto intro!: goes_well_quiet [OF assms])
qed (use put_steps [OF assms] get_waits [OF assms] get_steps [OF assms] in blast)+

end
