(* ===== verification/SQueue_Threads_Props.thy ===== *)
theory SQueue_Threads_Props
  imports SQueue_Threads_Inv
begin

text \<open>
  The shared queue of theory \<open>SQueue_Threads\<close> under every schedule: its calls behave as if they were atomic, the
  mutex is released, and a thread that is not interrupted does what the operations of theory \<open>SQueue\<close> do.
\<close>

section \<open>Every schedule\<close>

definition trace_puts :: "nat \<Rightarrow> (nat \<times> sq_event) list \<Rightarrow> byte list list" where
  "trace_puts t tr = concat (map (\<lambda>(u, e). if u = t then event_put (Some e) else []) tr)"

definition trace_gets :: "nat \<Rightarrow> (nat \<times> sq_event) list \<Rightarrow> byte list option list" where
  "trace_gets t tr = concat (map (\<lambda>(u, e). if u = t then event_get (Some e) else []) tr)"

fun call_put :: "sq_call \<Rightarrow> byte list list" where
  "call_put (CallPut bs) = [bs]"
| "call_put (CallGet _) = []"

definition put_args :: "sq_call list \<Rightarrow> byte list list" where
  "put_args cs = concat (map call_put cs)"

definition get_results :: "sq_ret list \<Rightarrow> byte list option list" where
  "get_results rs = concat (map (\<lambda>r. ret_get (Some r)) rs)"

fun is_put :: "sq_choice \<Rightarrow> bool" where
  "is_put (Begin (CallPut _)) = True"
| "is_put _ = False"

definition puts_in :: "(nat \<times> sq_choice) list \<Rightarrow> nat" where
  "puts_in sched = length (filter (\<lambda>(_, ch). is_put ch) sched)"

definition conc_ok :: "nat \<Rightarrow> byte list list \<Rightarrow> (nat \<times> sq_event) list \<Rightarrow> sq_conc \<Rightarrow> bool" where
  "conc_ok K fs tr s \<longleftrightarrow> (\<exists>xs. heap_ok K (sc_pc s) xs (sc_store s) \<and> lock_ok (sc_pc s) (sc_owner s) xs (sc_store s) \<and>
     replay fs tr = Some (blocks (sc_store s) xs)) \<and>
     (\<forall>t. trace_puts t tr @ putting (sc_pc s t) (sc_store s) = put_args (sc_calls s t) \<and>
       trace_gets t tr = get_results (sc_rets s t) @ getting (sc_pc s t) (sc_store s) \<and>
       (\<forall>v\<in>set (sc_rets s t). ret_ok v))"

lemma replay_event: "event_ok ev fs gs \<Longrightarrow> replay fs (case ev of None \<Rightarrow> [] | Some e \<Rightarrow> [(t, e)]) = Some gs"
  by (cases ev; cases "the ev") auto

lemma trace_event:
  "trace_puts u (tr @ (case ev of None \<Rightarrow> [] | Some e \<Rightarrow> [(t, e)])) = trace_puts u tr @ (if u = t then event_put ev else [])"
  "trace_gets u (tr @ (case ev of None \<Rightarrow> [] | Some e \<Rightarrow> [(t, e)])) = trace_gets u tr @ (if u = t then event_get ev else [])"
  by (auto simp: trace_puts_def trace_gets_def split: option.split)

lemma get_results_add:
  "get_results (sq_ret_add t r rs u) = get_results (rs u) @ (if u = t then ret_get r else [])"
  by (auto simp: sq_ret_add_def get_results_def split: option.split)

lemma put_getting_other:
  "(\<And>a. a \<in> pv p \<Longrightarrow> block_of (cells q1 a) = block_of (cells q a)) \<Longrightarrow> putting p q1 = putting p q \<and> getting p q1 = getting p q"
  by (cases p) (auto simp: pv_def)

lemma go_step:
  assumes ok: "conc_ok K fs tr s" and ch: "ch = Go \<or> ch = Late"
  shows "\<exists>es s1. sq_conc_step t ch s = Inr (es, s1) \<and> conc_ok K fs (tr @ es) s1 \<and> quota (sc_store s) \<le> quota (sc_store s1)"
proof -
  obtain xs where h: "heap_ok K (sc_pc s) xs (sc_store s)" and l: "lock_ok (sc_pc s) (sc_owner s) xs (sc_store s)"
    and r: "replay fs tr = Some (blocks (sc_store s) xs)"
    and bk: "\<And>t. trace_puts t tr @ putting (sc_pc s t) (sc_store s) = put_args (sc_calls s t)"
      "\<And>t. trace_gets t tr = get_results (sc_rets s t) @ getting (sc_pc s t) (sc_store s)"
      "\<And>t v. v \<in> set (sc_rets s t) \<Longrightarrow> ret_ok v"
    using ok by (auto simp: conc_ok_def)
  obtain p ev ro ow q ys where st: "sq_stmt t (ch = Late) (sc_pc s t) (sc_owner s) (sc_store s) = Inr (p, ev, ro, ow, q)"
    and h1: "heap_ok K ((sc_pc s)(t := p)) ys q" and l1: "lock_ok ((sc_pc s)(t := p)) ow ys q"
    and ev: "event_ok ev (blocks (sc_store s) xs) (blocks q ys)" and qt: "quota (sc_store s) \<le> quota q"
    and own: "putting (sc_pc s t) (sc_store s) = event_put ev @ putting p q"
      "getting (sc_pc s t) (sc_store s) @ event_get ev = ret_get ro @ getting p q" "\<And>v. ro = Some v \<Longrightarrow> ret_ok v"
    and other: "\<And>u a. u \<noteq> t \<Longrightarrow> a \<in> pv (sc_pc s u) \<Longrightarrow> block_of (cells q a) = block_of (cells (sc_store s) a)"
    using stmt_step [OF h l, of t "ch = Late"] unfolding goes_well_def by blast
  let ?es = "case ev of None \<Rightarrow> [] | Some e \<Rightarrow> [(t, e)]"
  let ?s1 = "s\<lparr>sc_store := q, sc_owner := ow, sc_pc := (sc_pc s)(t := p), sc_rets := sq_ret_add t ro (sc_rets s)\<rparr>"
  have "sq_conc_step t ch s = Inr (?es, ?s1)" using ch st by (auto simp: sq_conc_step_def)
  moreover have "conc_ok K fs (tr @ ?es) ?s1"
    unfolding conc_ok_def
  proof (intro conjI allI ballI)
    show "\<exists>xs. heap_ok K (sc_pc ?s1) xs (sc_store ?s1) \<and> lock_ok (sc_pc ?s1) (sc_owner ?s1) xs (sc_store ?s1) \<and>
        replay fs (tr @ ?es) = Some (blocks (sc_store ?s1) xs)"
      using h1 l1 r replay_event [OF ev, of t] by (auto simp: replay_append)
    fix u
    have keep: "u \<noteq> t \<Longrightarrow> putting (sc_pc s u) q = putting (sc_pc s u) (sc_store s) \<and>
        getting (sc_pc s u) q = getting (sc_pc s u) (sc_store s)"
      using other by (intro put_getting_other) auto
    show "trace_puts u (tr @ ?es) @ putting (sc_pc ?s1 u) (sc_store ?s1) = put_args (sc_calls ?s1 u)"
      using bk(1) [of u] own(1) keep by (cases "u = t") (simp_all add: trace_event)
    show "trace_gets u (tr @ ?es) = get_results (sc_rets ?s1 u) @ getting (sc_pc ?s1 u) (sc_store ?s1)"
      using bk(2) [of u] own(2) keep by (cases "u = t") (simp_all add: trace_event get_results_add)
    show "ret_ok v" if "v \<in> set (sc_rets ?s1 u)" for v
      using that bk(3) own(3) by (auto simp: sq_ret_add_def split: option.splits if_splits)
  qed
  ultimately show ?thesis using qt by auto
qed


lemma NewSQData_copy:
  assumes "2 \<le> quota q" "brk q \<noteq> 0"
  shows "NewSQData bs (int (length bs)) True q =
    Inr (brk q, q\<lparr>brk := brk q + 1, quota := quota q - 2, cells := (cells q)(brk q \<mapsto> new_node bs)\<rparr>)"
  using assms by (simp add: NewSQData_def sq_malloc_def new_node_def numeral_2_eq_2)

text \<open>A put begins: the block is made.\<close>

lemma begin_put:
  assumes ok: "conc_ok K fs tr s" and room: "2 \<le> quota (sc_store s)" and free: "sc_pc s t = Free"
  shows "\<exists>es s1. sq_conc_step t (Begin (CallPut bs)) s = Inr (es, s1) \<and> conc_ok K fs (tr @ es) s1 \<and>
    quota (sc_store s) \<le> quota (sc_store s1) + 2"
proof -
  obtain xs where h: "heap_ok K (sc_pc s) xs (sc_store s)" and l: "lock_ok (sc_pc s) (sc_owner s) xs (sc_store s)"
    and r: "replay fs tr = Some (blocks (sc_store s) xs)"
    and bk: "\<And>t. trace_puts t tr @ putting (sc_pc s t) (sc_store s) = put_args (sc_calls s t)"
      "\<And>t. trace_gets t tr = get_results (sc_rets s t) @ getting (sc_pc s t) (sc_store s)"
      "\<And>t v. v \<in> set (sc_rets s t) \<Longrightarrow> ret_ok v"
    using ok by (auto simp: conc_ok_def)
  let ?q = "sc_store s"
  let ?q1 = "?q\<lparr>brk := brk ?q + 1, quota := quota ?q - 2, cells := (cells ?q)(brk ?q \<mapsto> new_node bs)\<rparr>"
  have q: "2 \<le> quota ?q" "brk ?q \<noteq> 0" using room h by (auto simp: heap_ok_def)
  have pr: "private_of (sc_pc s u) \<noteq> Some (brk ?q)" for u
    using heap_okD(4) [OF h, of u] by blast
  have keep: "putting (sc_pc s u) ?q1 = putting (sc_pc s u) ?q \<and> getting (sc_pc s u) ?q1 = getting (sc_pc s u) ?q" for u
    using pr [of u] by (intro put_getting_other) (auto simp: pv_def)
  let ?s1 = "s\<lparr>sc_store := ?q1, sc_pc := (sc_pc s)(t := PutLock (brk ?q)), sc_calls := (sc_calls s)(t := sc_calls s t @ [CallPut bs])\<rparr>"
  have "sq_conc_step t (Begin (CallPut bs)) s = Inr ([], ?s1)"
    using free q by (simp add: sq_conc_step_def NewSQData_copy sq_ret_add_def)
  moreover have "conc_ok K fs (tr @ []) ?s1"
    unfolding conc_ok_def
  proof (intro conjI allI ballI)
    show "\<exists>xs. heap_ok K (sc_pc ?s1) xs (sc_store ?s1) \<and> lock_ok (sc_pc ?s1) (sc_owner ?s1) xs (sc_store ?s1) \<and>
        replay fs (tr @ []) = Some (blocks (sc_store ?s1) xs)"
      using alloc_step [OF h l free q(1) refl, of bs] r by auto
    fix u
    show "trace_puts u (tr @ []) @ putting (sc_pc ?s1 u) (sc_store ?s1) = put_args (sc_calls ?s1 u)"
      using bk(1) [of u] keep [of u] free
      by (cases "u = t") (simp_all add: put_args_def block_of_def new_node_def)
    show "trace_gets u (tr @ []) = get_results (sc_rets ?s1 u) @ getting (sc_pc ?s1 u) (sc_store ?s1)"
      using bk(2) [of u] keep [of u] free by (cases "u = t") simp_all
  qed (use bk(3) in auto)
  ultimately show ?thesis using q by auto
qed

lemma begin_step:
  assumes ok: "conc_ok K fs tr s" and room: "is_put (Begin c) \<Longrightarrow> 2 \<le> quota (sc_store s)"
  shows "\<exists>es s1. sq_conc_step t (Begin c) s = Inr (es, s1) \<and> conc_ok K fs (tr @ es) s1 \<and>
    quota (sc_store s) \<le> quota (sc_store s1) + (if is_put (Begin c) then 2 else 0)"
proof (cases "sc_pc s t = Free")
  case False
  then show ?thesis using ok by (auto simp: sq_conc_step_def)
next
  case free: True
  obtain xs where h: "heap_ok K (sc_pc s) xs (sc_store s)" and l: "lock_ok (sc_pc s) (sc_owner s) xs (sc_store s)"
    and r: "replay fs tr = Some (blocks (sc_store s) xs)"
    and bk: "\<And>t. trace_puts t tr @ putting (sc_pc s t) (sc_store s) = put_args (sc_calls s t)"
      "\<And>t. trace_gets t tr = get_results (sc_rets s t) @ getting (sc_pc s t) (sc_store s)"
      "\<And>t v. v \<in> set (sc_rets s t) \<Longrightarrow> ret_ok v"
    using ok by (auto simp: conc_ok_def)
  have ow: "sc_owner s \<noteq> Some t" using lock_okD(1) [OF l, of t] free by simp
  show ?thesis
  proof (cases c)
    case (CallGet w)
    have "heap_ok K ((sc_pc s)(t := GetPoll w)) xs (sc_store s) \<and> lock_ok ((sc_pc s)(t := GetPoll w)) (sc_owner s) xs (sc_store s)"
      using quiet_step [OF h l, of "GetPoll w" t] free ow by simp
    then show ?thesis
      using free r bk bk(1) [of t] bk(2) [of t] CallGet by (auto simp: sq_conc_step_def conc_ok_def sq_ret_add_def put_args_def)
  next
    case (CallPut bs)
    then show ?thesis using begin_put [OF ok _ free, of bs] room by auto
  qed
qed

lemma conc_step:
  assumes "conc_ok K fs tr s" "2 * puts_in [(t, ch)] \<le> quota (sc_store s)"
  shows "\<exists>es s1. sq_conc_step t ch s = Inr (es, s1) \<and> conc_ok K fs (tr @ es) s1 \<and>
    quota (sc_store s) \<le> quota (sc_store s1) + 2 * puts_in [(t, ch)]"
proof (cases ch)
  case (Begin d)
  then have n: "2 * puts_in [(t, ch)] = (if is_put (Begin d) then 2 else 0)" by (simp add: puts_in_def)
  show ?thesis
    unfolding n unfolding Begin by (rule begin_step [OF assms(1)]) (use assms(2) n in simp)
qed (use go_step [OF assms(1), of ch t] in \<open>auto simp: puts_in_def\<close>)

lemma puts_in_Cons: "puts_in (c # sched) = puts_in [c] + puts_in sched"
  by (simp add: puts_in_def)

lemma conc_run:
  "conc_ok K fs tr s \<Longrightarrow> 2 * puts_in sched \<le> quota (sc_store s) \<Longrightarrow>
   \<exists>es s1. sq_conc_run sched s = Inr (es, s1) \<and> conc_ok K fs (tr @ es) s1 \<and>
     quota (sc_store s) \<le> quota (sc_store s1) + 2 * puts_in sched"
proof (induction sched arbitrary: tr s)
  case Nil
  then show ?case by simp
next
  case (Cons c sched)
  obtain t ch where c: "c = (t, ch)" by force
  note n = puts_in_Cons [of c sched]
  have "2 * puts_in [(t, ch)] \<le> quota (sc_store s)" using Cons.prems(2) n c by simp
  from conc_step [OF Cons.prems(1) this]
  obtain es s1 where st: "sq_conc_step t ch s = Inr (es, s1)" "conc_ok K fs (tr @ es) s1"
    "quota (sc_store s) \<le> quota (sc_store s1) + 2 * puts_in [(t, ch)]" by blast
  have "2 * puts_in sched \<le> quota (sc_store s1)" using st(3) Cons.prems(2) n c by simp
  from Cons.IH [OF st(2) this] obtain es1 s2 where "sq_conc_run sched s1 = Inr (es1, s2)" "conc_ok K fs (tr @ es @ es1) s2"
    "quota (sc_store s1) \<le> quota (sc_store s2) + 2 * puts_in sched" by auto
  then show ?case using st n c by auto
qed

lemma restrict_dom: "dom m = D \<Longrightarrow> m |` D = m"
  by (auto simp: restrict_map_def fun_eq_iff domIff)

lemma conc_start:
  assumes "sq_inv q"
  shows "conc_ok (quota q + 2 * length (sq_frames q)) (sq_frames q) [] (sq_conc_start q)"
proof -
  define xs where "xs = sq_addrs q"
  have rep: "sq_rep q xs" using assms by (simp add: sq_inv_def xs_def)
  then have dom: "dom (cells q) = set xs" and d: "distinct xs" by (simp_all add: sq_rep_def)
  have fr: "sq_frames q = blocks q xs" using rep by (simp add: sq_rep_frames blocks_def)
  have "0 \<notin> set xs" using rep seg_nonzero by (auto simp: sq_rep_def)
  moreover have "own_nodes (\<lambda>_. Free) xs (dom (cells q))" by (simp add: own_nodes_def pv_def dom)
  moreover have "card (dom (cells q)) = length xs" using dom d by (simp add: distinct_card)
  ultimately have "heap_ok (quota q + 2 * length xs) (\<lambda>_. Free) xs q"
    using rep unfolding heap_ok_def dom by (auto simp: sq_rep_def)
  moreover have "sq_rep (core (set xs) (brk q) q) xs"
  proof -
    have "cells q |` set xs = cells q" using dom by (rule restrict_dom)
    then show ?thesis using rep by (simp add: sq_rep_def)
  qed
  then have "lock_ok (\<lambda>_. Free) None xs q" by (auto simp: lock_ok_def cs_ok_def)
  ultimately show ?thesis
    unfolding conc_ok_def sq_conc_start_def
    by (auto simp: fr blocks_def trace_puts_def trace_gets_def put_args_def get_results_def intro!: exI [of _ xs])
qed

lemma quiet_inv:
  assumes "heap_ok K pc xs q" "lock_ok pc ow xs q" "\<And>t. pc t = Free"
  shows "sq_inv q \<and> sq_frames q = blocks q xs"
proof -
  have "ow = None" using lock_okD(1) [OF assms(2)] assms(3) by (cases ow) auto
  then obtain b where rep: "sq_rep (core (set xs) b q) xs"
    using assms(2) by (auto simp: lock_ok_def cs_ok_def)
  have dom: "dom (cells q) = set xs" using heap_okD(3) [OF assms(1)] assms(3) by (simp add: own_nodes_def pv_def)
  have "cells q |` set xs = cells q" using dom by (rule restrict_dom)
  moreover have "card (set xs) = length xs" using heap_okD(2) [OF assms(1)] by (rule distinct_card)
  then have "quota q + 2 * length xs < 2 ^ 31"
    using assms(1) dom unfolding heap_ok_def by simp
  ultimately have "sq_rep q xs" using rep heap_okD(11) [OF assms(1)] assms(1) by (auto simp: sq_rep_def heap_ok_def)
  then show ?thesis by (simp add: sq_rep_inv sq_rep_frames blocks_def)
qed

text \<open>C5. Every schedule of any number of threads that put into and get from one queue runs without a
  fault, and its calls behave as if each of them were atomic: the order in which they take effect is a run of
  a plain list (\<open>replay\<close>); what a thread between two calls has put and got is what it passed and what was
  returned to it; the count is at every moment the length of that list; only the thread that holds the mutex is in a critical
  section; and when no call is in progress the linked list is well formed and holds exactly that list.\<close>

theorem queue_linearizable:
  assumes "sq_inv q" "2 * puts_in sched \<le> quota q"
  shows "\<exists>tr s fs. sq_conc_run sched (sq_conc_start q) = Inr (tr, s) \<and>
    replay (sq_frames q) tr = Some fs \<and> sq_count (sc_store s) = int (length fs) \<and>
    (\<forall>t. sc_pc s t = Free \<longrightarrow> trace_puts t tr = put_args (sc_calls s t) \<and> trace_gets t tr = get_results (sc_rets s t)) \<and>
    (\<forall>t. in_cs (sc_pc s t) \<longleftrightarrow> sc_owner s = Some t) \<and>
    ((\<forall>t. sc_pc s t = Free) \<longrightarrow> sq_inv (sc_store s) \<and> sq_frames (sc_store s) = fs)"
proof -
  obtain tr s where run: "sq_conc_run sched (sq_conc_start q) = Inr (tr, s)"
    and ok: "conc_ok (quota q + 2 * length (sq_frames q)) (sq_frames q) tr s"
    using conc_run [OF conc_start [OF assms(1)], of sched] assms(2) by (auto simp: sq_conc_start_def)
  then obtain xs where h: "heap_ok (quota q + 2 * length (sq_frames q)) (sc_pc s) xs (sc_store s)"
    and l: "lock_ok (sc_pc s) (sc_owner s) xs (sc_store s)" and r: "replay (sq_frames q) tr = Some (blocks (sc_store s) xs)"
    by (auto simp: conc_ok_def)
  have bk: "trace_puts t tr @ putting (sc_pc s t) (sc_store s) = put_args (sc_calls s t)"
    "trace_gets t tr = get_results (sc_rets s t) @ getting (sc_pc s t) (sc_store s)" for t
    using ok by (auto simp: conc_ok_def)
  show ?thesis
  proof (intro exI conjI allI impI)
    show "sq_count (sc_store s) = int (length (blocks (sc_store s) xs))" using heap_okD(1) [OF h] by (simp add: blocks_def)
    show "trace_puts t tr = put_args (sc_calls s t)" "trace_gets t tr = get_results (sc_rets s t)" if "sc_pc s t = Free" for t
      using bk [of t] that by simp_all
    show "in_cs (sc_pc s t) = (sc_owner s = Some t)" for t using lock_okD(1) [OF l] .
    show "sq_inv (sc_store s)" "sq_frames (sc_store s) = blocks (sc_store s) xs" if "\<forall>t. sc_pc s t = Free"
      using quiet_inv [OF h l] that by simp_all
  qed (use run r in simp_all)
qed


text \<open>Two threads at one queue: thread 1 puts a block and is interrupted after \<open>UNLOCK\<close>, thread 2 takes the block.\<close>

definition demo_queue :: sqstore where
  "demo_queue = \<lparr>sq_top = 0, sq_last = 0, sq_lock = True, sq_count = 0, que_ptr = 1, cells = Map.empty, brk = 2, quota = 8\<rparr>"

definition demo_race :: "(nat \<times> sq_choice) list" where
  "demo_race = (1, Begin (CallPut [7])) # replicate 9 (1, Go) @ (2, Begin (CallGet (-1))) # replicate 15 (2, Go) @ [(1, Go)]"

lemma demo_queue_new: "NewSQueue True 9 = Inr demo_queue"
  by (simp add: NewSQueue_def demo_queue_def)

lemma demo_queue_ok: "sq_inv demo_queue" "sq_frames demo_queue = []" "quota demo_queue = 8"
  using NewSQueue_inv [of 9] demo_queue_new by (auto simp: demo_queue_def)

theorem queue_linearizable_witness:
  "\<exists>tr s fs. sq_conc_run demo_race (sq_conc_start demo_queue) = Inr (tr, s) \<and> replay [] tr = Some fs \<and>
     sq_count (sc_store s) = int (length fs)"
proof -
  have "2 * puts_in demo_race \<le> quota demo_queue"
    by (simp add: demo_race_def puts_in_def demo_queue_ok)
  from queue_linearizable [OF demo_queue_ok(1) this] show ?thesis by (auto simp: demo_queue_ok(2))
qed

text \<open>\<open>SQPut\<close> reads the count for its result after it has released the mutex: a put that has succeeded
  returns 0 when another thread has taken the block by then, and the block is received.\<close>

theorem put_count_race:
  "\<exists>tr s. sq_conc_run demo_race (sq_conc_start demo_queue) = Inr (tr, s) \<and> tr = [(1, EvPut [7]), (2, EvGot [7])] \<and>
     sc_rets s 1 = [RetPut 0] \<and> sc_rets s 2 = [RetGet (Some [7]) 1]"
  by (simp add: demo_race_def sq_conc_start_def demo_queue_def sq_conc_step_def NewSQData_def sq_malloc_def
      numeral_eq_Suc put_stmts_def get_stmts_def node_upd_def node_at_def DeleteSQData_def block_of_def sq_ret_add_def i32_def)


section \<open>Progress\<close>

text \<open>How many steps a thread in a critical section needs to leave it.\<close>

fun cs_left :: "sq_pc \<Rightarrow> nat" where
  "cs_left (PutHold _) = 8" | "cs_left (PutLink k _ _) = 7 - k"
| "cs_left (GetHold _) = 10" | "cs_left (GetTake k _ _) = 9 - k"
| "cs_left _ = 0"

definition steps_of :: "nat \<Rightarrow> (nat \<times> sq_choice) list \<Rightarrow> nat" where
  "steps_of t sched = length (filter (\<lambda>(u, ch). u = t \<and> (ch = Go \<or> ch = Late)) sched)"

lemma cs_left_bound: "cs_left p \<le> 10"
  by (cases p) auto

lemma cs_left_less:
  assumes "sq_stmt t late p ow q = Inr (p1, ev, r, ow1, q1)" "in_cs p" "pc_ok p q"
  shows "\<not> in_cs p1 \<or> cs_left p1 < cs_left p"
  using assms by (cases p) (auto split: if_splits)

lemma step_left:
  assumes st: "sq_conc_step u ch s = Inr (es, s1)" and cs: "in_cs (sc_pc s t)" and ok: "pc_ok (sc_pc s t) (sc_store s)"
  shows "\<not> in_cs (sc_pc s1 t) \<or> cs_left (sc_pc s1 t) + steps_of t [(u, ch)] \<le> cs_left (sc_pc s t)"
proof (cases ch)
  case (Begin c)
  have "sc_pc s1 t = sc_pc s t"
  proof (cases "u = t")
    case True
    then have "sc_pc s u \<noteq> Free" using cs by auto
    then show ?thesis using st Begin by (simp add: sq_conc_step_def)
  qed (use st Begin in \<open>auto simp: sq_conc_step_def split: if_splits\<close>)
  then show ?thesis using Begin by (simp add: steps_of_def)
next
  case Go
  then show ?thesis
    using st cs cs_left_less [OF _ cs ok] by (cases "u = t") (auto simp: sq_conc_step_def steps_of_def Suc_le_eq)
next
  case Late
  then show ?thesis
    using st cs cs_left_less [OF _ cs ok] by (cases "u = t") (auto simp: sq_conc_step_def steps_of_def Suc_le_eq)
qed

lemma conc_ok_pc: "conc_ok K fs tr s \<Longrightarrow> pc_ok (sc_pc s t) (sc_store s)"
  by (auto simp: conc_ok_def dest: lock_okD(2))

lemma lock_released:
  assumes "conc_ok K fs tr s" "in_cs (sc_pc s t)" "2 * puts_in sched \<le> quota (sc_store s)" "cs_left (sc_pc s t) \<le> steps_of t sched"
  shows "\<exists>n es s1. sq_conc_run (take n sched) s = Inr (es, s1) \<and> \<not> in_cs (sc_pc s1 t)"
  using assms
proof (induction sched arbitrary: tr s)
  case Nil
  have "0 < cs_left (sc_pc s t)"
    using Nil.prems(2) conc_ok_pc [OF Nil.prems(1), of t] by (cases "sc_pc s t") auto
  then show ?case using Nil.prems(4) by (simp add: steps_of_def)
next
  case (Cons c sched)
  obtain u ch where c: "c = (u, ch)" by force
  note n = puts_in_Cons [of c sched]
  have "2 * puts_in [(u, ch)] \<le> quota (sc_store s)" using Cons.prems(3) n c by simp
  from conc_step [OF Cons.prems(1) this] obtain es s1 where st: "sq_conc_step u ch s = Inr (es, s1)"
    and ok: "conc_ok K fs (tr @ es) s1" and q1: "quota (sc_store s) \<le> quota (sc_store s1) + 2 * puts_in [(u, ch)]" by blast
  have q: "2 * puts_in sched \<le> quota (sc_store s1)" using q1 Cons.prems(3) n c by simp
  note left = step_left [OF st Cons.prems(2) conc_ok_pc [OF Cons.prems(1)]]
  show ?case
  proof (cases "in_cs (sc_pc s1 t)")
    case False
    then show ?thesis using st c by (intro exI [of _ 1]) auto
  next
    case True
    then have "cs_left (sc_pc s1 t) \<le> steps_of t sched"
      using left Cons.prems(4) c by (auto simp: steps_of_def split: if_splits)
    from Cons.IH [OF ok True q this] obtain n es1 s2 where
      "sq_conc_run (take n sched) s1 = Inr (es1, s2)" "\<not> in_cs (sc_pc s2 t)" by blast
    then show ?thesis using st c by (intro exI [of _ "Suc n"]) auto
  qed
qed

text \<open>C20. Whoever holds the mutex releases it: after any schedule, a thread in a critical section
  has left it once it has been given ten steps, whatever the other threads do between them.\<close>

theorem queue_lock_released:
  assumes "sq_inv q" "2 * (puts_in sched + puts_in after) \<le> quota q" "10 \<le> steps_of t after"
  shows "\<exists>tr s n tr1 s1. sq_conc_run sched (sq_conc_start q) = Inr (tr, s) \<and>
    sq_conc_run (take n after) s = Inr (tr1, s1) \<and> sc_owner s1 \<noteq> Some t"
proof -
  let ?K = "quota q + 2 * length (sq_frames q)"
  obtain tr s where run: "sq_conc_run sched (sq_conc_start q) = Inr (tr, s)" and ok: "conc_ok ?K (sq_frames q) tr s"
    and room: "2 * puts_in after \<le> quota (sc_store s)"
    using conc_run [OF conc_start [OF assms(1)], of sched] assms(2) by (auto simp: sq_conc_start_def)
  obtain n tr1 s1 where ran: "sq_conc_run (take n after) s = Inr (tr1, s1)" "\<not> in_cs (sc_pc s1 t)"
  proof (cases "in_cs (sc_pc s t)")
    case True
    have "cs_left (sc_pc s t) \<le> steps_of t after" using cs_left_bound assms(3) by (rule order_trans)
    from lock_released [OF ok True room this] that show ?thesis by blast
  qed (use that [of 0] in simp)
  have "2 * puts_in (take n after) \<le> quota (sc_store s)"
  proof -
    have "puts_in after = puts_in (take n after) + puts_in (drop n after)"
      unfolding puts_in_def by (metis append_take_drop_id filter_append length_append)
    then show ?thesis using room by simp
  qed
  from conc_run [OF ok this] ran(1) have "conc_ok ?K (sq_frames q) (tr @ tr1) s1" by auto
  then have "sc_owner s1 \<noteq> Some t" using ran(2) by (auto simp: conc_ok_def lock_ok_def)
  then show ?thesis using run ran(1) by blast
qed

theorem queue_lock_released_witness:
  "\<exists>tr s n tr1 s1. sq_conc_run [(1, Begin (CallPut [7])), (1, Go)] (sq_conc_start demo_queue) = Inr (tr, s) \<and>
     sq_conc_run (take n (concat (replicate 10 [(1, Go), (2, Begin (CallGet 3)), (2, Go)]))) s = Inr (tr1, s1) \<and> sc_owner s1 \<noteq> Some 1"
proof -
  have "2 * (puts_in [(1, Begin (CallPut [7])), (1, Go)] +
      puts_in (concat (replicate 10 [(1, Go), (2, Begin (CallGet 3)), (2, Go)]))) \<le> quota demo_queue"
    "10 \<le> steps_of 1 (concat (replicate 10 [(1, Go), (2, Begin (CallGet 3)), (2, Go)]))"
    by (simp_all add: puts_in_def steps_of_def demo_queue_ok numeral_eq_Suc)
  from queue_lock_released [OF demo_queue_ok(1) this] show ?thesis .
qed


section \<open>One thread alone\<close>

text \<open>A thread that is not interrupted does what the atomic operation does.\<close>

lemma run_append:
  "sq_conc_run (a @ b) s = obind (sq_conc_run a s) (\<lambda>(e1, s1). obind (sq_conc_run b s1) (\<lambda>(e2, s2). Inr (e1 @ e2, s2)))"
proof (induction a s rule: sq_conc_run.induct)
  case (1 s)
  then show ?case by (cases "sq_conc_run b s") auto
next
  case (2 t ch sched s)
  show ?case
  proof (cases "sq_conc_step t ch s")
    case (Inr r)
    obtain es s1 where r: "r = (es, s1)" by force
    show ?thesis
      using "2.IH" [of s1] Inr r
      by (cases "sq_conc_run sched s1"; cases "obind (sq_conc_run sched s1) (\<lambda>(e1, s1). sq_conc_run b s1)")
        (auto simp: obind_def split: sum.splits)
  qed simp
qed

lemma free_idle: "sc_pc s t = Free \<Longrightarrow> sq_conc_run (replicate n (t, Go)) s = Inr ([], s)"
proof (induction n)
  case (Suc n)
  have "s\<lparr>sc_store := sc_store s, sc_owner := sc_owner s, sc_pc := (sc_pc s)(t := Free), sc_rets := sc_rets s\<rparr> = s"
    using Suc.prems by (simp add: fun_upd_idem)
  then show ?case using Suc by (simp add: sq_conc_step_def sq_ret_add_def)
qed simp

lemma solo_stmts:
  assumes stmt: "\<And>k ow q. k < length fs \<Longrightarrow>
      sq_stmt t False (at k) ow q = obind ((fs ! k) q) (\<lambda>q1. Inr (at (Suc k), ev k q, None, ow, q1))"
    and "run_stmts (drop k fs) (sc_store s) = Inr q1" "sc_pc s t = at k" "k \<le> length fs"
  shows "\<exists>tr. sq_conc_run (replicate (length fs - k) (t, Go)) s = Inr (tr, s\<lparr>sc_store := q1, sc_pc := (sc_pc s)(t := at (length fs))\<rparr>)"
  using assms(2-)
proof (induction "length fs - k" arbitrary: k s)
  case 0
  then show ?case by (simp add: fun_upd_idem)
next
  case (Suc n)
  then have k: "k < length fs" by simp
  have "drop k fs = fs ! k # drop (Suc k) fs" using k by (simp add: Cons_nth_drop_Suc)
  then obtain q where q: "(fs ! k) (sc_store s) = Inr q" "run_stmts (drop (Suc k) fs) q = Inr q1"
    using Suc.prems(1) by auto
  let ?s = "s\<lparr>sc_store := q, sc_pc := (sc_pc s)(t := at (Suc k))\<rparr>"
  have "\<exists>es. sq_conc_step t Go s = Inr (es, ?s)"
    using q(1) Suc.prems(2) stmt [OF k] by (simp add: sq_conc_step_def sq_ret_add_def)
  moreover have "\<exists>tr. sq_conc_run (replicate (length fs - Suc k) (t, Go)) ?s = Inr (tr, ?s\<lparr>sc_store := q1, sc_pc := (sc_pc ?s)(t := at (length fs))\<rparr>)"
    by (rule Suc.hyps) (use q(2) Suc.hyps(2) k in simp_all)
  moreover have "length fs - k = Suc (length fs - Suc k)" using k by simp
  ultimately show ?case by auto
qed

lemma solo_put_stmts:
  assumes "run_stmts (put_stmts sd prv) (sc_store s) = Inr q1" "sc_pc s t = PutLink 0 sd prv"
  shows "\<exists>tr. sq_conc_run (replicate 6 (t, Go)) s = Inr (tr, s\<lparr>sc_store := q1, sc_pc := (sc_pc s)(t := PutLink 6 sd prv)\<rparr>)"
  using solo_stmts [where fs = "put_stmts sd prv" and at = "\<lambda>k. PutLink k sd prv" and k = 0 and s = s and t = t and
      ev = "\<lambda>k q. if k = 5 then Some (EvPut (block_of (cells q sd))) else None"] assms by simp

lemma solo_get_stmts:
  assumes "run_stmts (get_stmts x) (sc_store s) = Inr q1" "sc_pc s t = GetTake 0 x w"
  shows "\<exists>tr. sq_conc_run (replicate 8 (t, Go)) s = Inr (tr, s\<lparr>sc_store := q1, sc_pc := (sc_pc s)(t := GetTake 8 x w)\<rparr>)"
  using solo_stmts [where fs = "get_stmts x" and at = "\<lambda>k. GetTake k x w" and k = 0 and s = s and t = t and
      ev = "\<lambda>k q. if k = 5 then Some (EvGot (block_of (cells q x))) else None"] assms by simp

lemma solo_put:
  assumes "SQPut bs (int (length bs)) (sc_store s) = Inr (c, q1)" "sc_pc s t = Free" "sc_owner s = None"
  shows "\<exists>tr. sq_conc_run ((t, Begin (CallPut bs)) # replicate 10 (t, Go)) s = Inr (tr, s\<lparr>sc_store := q1,
    sc_calls := (sc_calls s)(t := sc_calls s t @ [CallPut bs]), sc_rets := (sc_rets s)(t := sc_rets s t @ [RetPut c])\<rparr>)"
proof -
  obtain sd q where new: "NewSQData bs (int (length bs)) True (sc_store s) = Inr (sd, q)"
    using assms(1) by (auto simp: SQPut_def)
  have sd: "sd \<noteq> 0" using new by (auto simp: NewSQData_def Let_def split: if_splits prod.splits)
  obtain c1 where "sque_put sd q = Inr (c1, q1)" and c: "c = sq_count q1"
    using assms(1) new sd by (auto simp: SQPut_def)
  then have run: "run_stmts (put_stmts sd (sq_last q)) q = Inr q1" by (simp add: put_stmts_atomic)
  let ?calls = "(sc_calls s)(t := sc_calls s t @ [CallPut bs])"
  let ?s1 = "s\<lparr>sc_store := q, sc_owner := Some t, sc_pc := (sc_pc s)(t := PutLink 0 sd (sq_last q)), sc_calls := ?calls\<rparr>"
  have a: "\<exists>tr. sq_conc_run [(t, Begin (CallPut bs)), (t, Go), (t, Go)] s = Inr (tr, ?s1)"
    using new sd assms(2,3) by (simp add: sq_conc_step_def sq_ret_add_def)
  let ?s2 = "?s1\<lparr>sc_store := q1, sc_pc := (sc_pc ?s1)(t := PutLink 6 sd (sq_last q))\<rparr>"
  have b: "\<exists>tr. sq_conc_run (replicate 6 (t, Go)) ?s1 = Inr (tr, ?s2)"
    by (rule solo_put_stmts) (use run in simp_all)
  have c: "\<exists>tr. sq_conc_run [(t, Go), (t, Go)] ?s2 = Inr (tr, s\<lparr>sc_store := q1, sc_calls := ?calls, sc_rets := (sc_rets s)(t := sc_rets s t @ [RetPut c])\<rparr>)"
    using assms(2,3) c by (simp add: sq_conc_step_def sq_ret_add_def fun_upd_idem)
  have "(t, Begin (CallPut bs)) # replicate 10 (t, Go) =
      [(t, Begin (CallPut bs)), (t, Go), (t, Go)] @ replicate 6 (t, Go) @ [(t, Go), (t, Go)]"
    by (simp add: numeral_eq_Suc)
  then show ?thesis using a b c by (auto simp only: run_append obind_Inr split_beta fst_conv snd_conv)
qed


lemma solo_get:
  assumes get: "SQGet (\<lambda>_. id) False w (sc_store s) = Inr (p, n, q1)" and w: "w \<le> 1 \<or> 0 < sq_count (sc_store s)"
    and s: "sc_pc s t = Free" "sc_owner s = None"
  shows "\<exists>tr. sq_conc_run ((t, Begin (CallGet w)) # replicate 15 (t, Go)) s = Inr (tr, s\<lparr>sc_store := q1,
    sc_calls := (sc_calls s)(t := sc_calls s t @ [CallGet w]), sc_rets := (sc_rets s)(t := sc_rets s t @ [RetGet p n])\<rparr>)"
    (is "\<exists>tr. sq_conc_run ?sched s = Inr (tr, ?end)")
proof -
  have wait: "sq_wait (\<lambda>_. id) w (sc_store s) = (w, sc_store s)" using w sq_wait_nonempty sq_wait_short by blast
  let ?calls = "(sc_calls s)(t := sc_calls s t @ [CallGet w])"
  have idle: "sq_conc_run (replicate m (t, Go)) ?end = Inr ([], ?end)" for m
    by (rule free_idle) (simp add: s)
  consider (empty) "\<not> 0 < sq_count (sc_store s)" | (none) "0 < sq_count (sc_store s)" "sq_top (sc_store s) = 0"
    | (some) "0 < sq_count (sc_store s)" "sq_top (sc_store s) \<noteq> 0" by blast
  then show ?thesis
  proof cases
    case empty
    then have r: "p = None" "n = 0" "q1 = sc_store s" using get wait by (auto simp: SQGet_def)
    have "\<exists>tr. sq_conc_run [(t, Begin (CallGet w)), (t, Go), (t, Go)] s = Inr (tr, ?end)"
      using empty s w r by (auto simp: sq_conc_step_def sq_ret_add_def fun_upd_idem)
    moreover have "?sched = [(t, Begin (CallGet w)), (t, Go), (t, Go)] @ replicate 13 (t, Go)" by (simp add: numeral_eq_Suc)
    ultimately show ?thesis using idle [of 13] by (auto simp only: run_append obind_Inr split_beta fst_conv snd_conv)
  next
    case none
    then have r: "p = None" "n = (if w < 0 then -2 else 0)" "q1 = sc_store s"
      using get wait by (auto simp: SQGet_def sque_get_def split: if_splits)
    have "\<exists>tr. sq_conc_run ((t, Begin (CallGet w)) # replicate 6 (t, Go)) s = Inr (tr, ?end)"
      using none s r by (auto simp: sq_conc_step_def sq_ret_add_def fun_upd_idem no_block_def numeral_eq_Suc)
    moreover have "?sched = ((t, Begin (CallGet w)) # replicate 6 (t, Go)) @ replicate 9 (t, Go)" by (simp add: numeral_eq_Suc)
    ultimately show ?thesis using idle [of 9] by (auto simp only: run_append obind_Inr split_beta fst_conv snd_conv)
  next
    case some
    let ?x = "sq_top (sc_store s)"
    have "\<not> (0 \<le> w \<and> False)" by simp
    note at = get_stmts_atomic [OF some(2,1) this]
    obtain q2 d where run: "run_stmts (get_stmts ?x) (sc_store s) = Inr q2"
      and d: "node_at ?x q2 = Inr d" "DeleteSQData ?x q2 = Inr q1" "p = sd_data d" "n = sd_size d"
      using get wait some by (auto simp: SQGet_def at [symmetric])
    let ?s1 = "s\<lparr>sc_owner := Some t, sc_pc := (sc_pc s)(t := GetTake 0 ?x w), sc_calls := ?calls\<rparr>"
    have a: "\<exists>tr. sq_conc_run ((t, Begin (CallGet w)) # replicate 5 (t, Go)) s = Inr (tr, ?s1)"
      using some s by (simp add: sq_conc_step_def sq_ret_add_def numeral_eq_Suc)
    let ?s2 = "?s1\<lparr>sc_store := q2, sc_pc := (sc_pc ?s1)(t := GetTake 8 ?x w)\<rparr>"
    have b: "\<exists>tr. sq_conc_run (replicate 8 (t, Go)) ?s1 = Inr (tr, ?s2)"
      by (rule solo_get_stmts) (use run in simp_all)
    have c: "\<exists>tr. sq_conc_run [(t, Go), (t, Go)] ?s2 = Inr (tr, ?end)"
      using s d some by (simp add: sq_conc_step_def sq_ret_add_def fun_upd_idem)
    have "?sched = ((t, Begin (CallGet w)) # replicate 5 (t, Go)) @ replicate 8 (t, Go) @ [(t, Go), (t, Go)]"
      by (simp add: numeral_eq_Suc)
    then show ?thesis using a b c by (auto simp only: run_append obind_Inr split_beta fst_conv snd_conv)
  qed
qed

text \<open>C19. A thread that is not interrupted does what the atomic operations of theory \<open>SQueue\<close> do: ten
  steps after the start of \<open>SQPut\<close> the queue and the result are those of \<open>SQPut\<close>, and fifteen steps after
  the start of \<open>SQGet\<close>, when it need not poll, those of \<open>SQGet\<close>.\<close>

theorem uninterrupted_is_atomic:
  assumes "sc_pc s t = Free" "sc_owner s = None"
  shows "(\<forall>bs c q1. SQPut bs (int (length bs)) (sc_store s) = Inr (c, q1) \<longrightarrow>
      (\<exists>tr. sq_conc_run ((t, Begin (CallPut bs)) # replicate 10 (t, Go)) s = Inr (tr, s\<lparr>sc_store := q1,
        sc_calls := (sc_calls s)(t := sc_calls s t @ [CallPut bs]), sc_rets := (sc_rets s)(t := sc_rets s t @ [RetPut c])\<rparr>))) \<and>
    (\<forall>w p n q1. SQGet (\<lambda>_. id) False w (sc_store s) = Inr (p, n, q1) \<and> (w \<le> 1 \<or> 0 < sq_count (sc_store s)) \<longrightarrow>
      (\<exists>tr. sq_conc_run ((t, Begin (CallGet w)) # replicate 15 (t, Go)) s = Inr (tr, s\<lparr>sc_store := q1,
        sc_calls := (sc_calls s)(t := sc_calls s t @ [CallGet w]), sc_rets := (sc_rets s)(t := sc_rets s t @ [RetGet p n])\<rparr>)))"
  using solo_put solo_get assms by blast

theorem uninterrupted_is_atomic_witness:
  "\<exists>q1 tr s tr1 s1. SQPut [7] 1 demo_queue = Inr (1, q1) \<and>
     sq_conc_run ((3, Begin (CallPut [7])) # replicate 10 (3, Go)) (sq_conc_start demo_queue) = Inr (tr, s) \<and>
     sc_store s = q1 \<and> sc_rets s 3 = [RetPut 1] \<and>
     sq_conc_run ((4, Begin (CallGet 0)) # replicate 15 (4, Go)) (sq_conc_start demo_queue) = Inr (tr1, s1) \<and>
     sc_rets s1 4 = [RetGet None 0]"
proof -
  have free: "sc_pc (sq_conc_start demo_queue) t = Free" "sc_owner (sq_conc_start demo_queue) = None"
    "sc_store (sq_conc_start demo_queue) = demo_queue" "sc_rets (sq_conc_start demo_queue) t = []" for t
    by (simp_all add: sq_conc_start_def)
  note atomic = uninterrupted_is_atomic [OF free(1,2), unfolded free(3)]
  have "0 < sq_room demo_queue" by (simp add: sq_room_def demo_queue_ok(3))
  then obtain q1 where q1: "SQPut [7] (int (length [7 :: byte])) demo_queue = Inr (1, q1)"
    using SQPut_inv [OF demo_queue_ok(1), of 1 "[7]"] demo_queue_ok(2) by auto
  from conjunct1 [OF atomic [of 3], rule_format, OF this] have put: "\<exists>tr s. sq_conc_run
      ((3, Begin (CallPut [7])) # replicate 10 (3, Go)) (sq_conc_start demo_queue) = Inr (tr, s) \<and> sc_store s = q1 \<and> sc_rets s 3 = [RetPut 1]"
    by (elim exE, intro exI conjI) (assumption, simp_all add: free)
  have "SQGet (\<lambda>_. id) False 0 demo_queue = Inr (None, 0, demo_queue)"
    by (rule SQGet_empty [of _ _ _ 0]) (simp_all add: sq_wait_short demo_queue_def)
  moreover have "(0::int) \<le> 1 \<or> 0 < sq_count demo_queue" by simp
  ultimately have "\<exists>tr. sq_conc_run ((4, Begin (CallGet 0)) # replicate 15 (4, Go)) (sq_conc_start demo_queue) = Inr (tr, (sq_conc_start demo_queue)
      \<lparr>sc_store := demo_queue, sc_calls := (sc_calls (sq_conc_start demo_queue))(4 := sc_calls (sq_conc_start demo_queue) 4 @ [CallGet 0]),
       sc_rets := (sc_rets (sq_conc_start demo_queue))(4 := sc_rets (sq_conc_start demo_queue) 4 @ [RetGet None 0])\<rparr>)"
    by (intro conjunct2 [OF atomic [of 4], rule_format] conjI)
  then have "\<exists>tr s. sq_conc_run ((4, Begin (CallGet 0)) # replicate 15 (4, Go)) (sq_conc_start demo_queue) = Inr (tr, s) \<and>
      sc_rets s 4 = [RetGet None 0]"
    by (elim exE, intro exI conjI) (assumption, simp add: free)
  with put q1 show ?thesis by simp
qed

end
