(* ===== verification/Framer_Shared.thy ===== *)
theory Framer_Shared
  imports SiDaq_System
begin

text \<open>
  \<open>RecvSiDaqData\<close> while the application takes frames: between any two accesses of the framer to the
  event queue, and between a put and the reading of its count, any number of blocks is taken.  The framer's
  lemmas are proved from the laws of \<open>byte_sink\<close>; here the shared queue provides them.
\<close>

section \<open>The application's side\<close>

text \<open>\<open>SiDaqGetData\<close> and \<open>SiDaqDeleteData\<close> \<open>n\<close> times, with the blocks that were there.\<close>

fun take_blocks :: "nat \<Rightarrow> sqstore \<Rightarrow> (byte list list \<times> sqstore) outcome" where
  "take_blocks 0 e = Inr ([], e)"
| "take_blocks (Suc n) e = obind (SQGet (\<lambda>_. id) False 0 e) (\<lambda>(p, _, e1).
     obind (take_blocks n (SiDaqDeleteData p e1)) (\<lambda>(bss, e2).
       Inr (case p of None \<Rightarrow> bss | Some bs \<Rightarrow> bs # bss, e2)))"

lemma room_free: "sq_room e \<le> sq_room (e\<lparr>quota := quota e + n\<rparr>)"
  by (simp add: sq_room_def div_le_mono)

lemma get_block:
  assumes "sq_inv e"
  shows "\<exists>p n e1. SQGet (\<lambda>_. id) False w e = Inr (p, n, e1) \<and> sq_inv (SiDaqDeleteData p e1) \<and>
    sq_frames e = (case p of None \<Rightarrow> [] | Some bs \<Rightarrow> [bs]) @ sq_frames (SiDaqDeleteData p e1) \<and>
    sq_room e \<le> sq_room (SiDaqDeleteData p e1) \<and> (p = None \<longleftrightarrow> sq_frames e = []) \<and>
    quota (SiDaqDeleteData p e1) + 2 * length (sq_frames (SiDaqDeleteData p e1)) = quota e + 2 * length (sq_frames e)"
proof (cases "sq_frames e")
  case Nil
  then show ?thesis using sqf.get_none [OF assms Nil] assms by (simp add: SiDaqDeleteData_def)
next
  case (Cons f fs)
  then have "0 < sq_count e" using sq_inv_count [OF assms] by simp
  from SQGet_first [OF sq_wait_nonempty [OF this, of "\<lambda>_. id" w] assms Cons, of False] obtain e1 where e1:
    "SQGet (\<lambda>_. id) False w e = Inr (Some f, int (length f), e1)" "sq_inv e1" "sq_frames e1 = fs" "quota e1 = quota e + 1"
    by auto
  have "quota e1 + 1 + 2 * length (sq_frames e1) < 2 ^ 31"
    using sq_inv_quota_free [OF assms] e1(3,4) Cons by simp
  from sq_inv_free_block [OF e1(2) this] e1(1,3,4) Cons show ?thesis
    by (simp add: SiDaqDeleteData_def sq_room_def div_le_mono)
qed

lemma take_blocks_inv:
  "sq_inv e \<Longrightarrow> \<exists>bss e1. take_blocks n e = Inr (bss, e1) \<and> sq_inv e1 \<and> sq_frames e = bss @ sq_frames e1 \<and>
     sq_room e \<le> sq_room e1"
proof (induction n arbitrary: e)
  case 0
  then show ?case by simp
next
  case (Suc n)
  from get_block [OF Suc.prems, of 0] obtain p k e1 where g: "SQGet (\<lambda>_. id) False 0 e = Inr (p, k, e1)"
    "sq_inv (SiDaqDeleteData p e1)" "sq_frames e = (case p of None \<Rightarrow> [] | Some bs \<Rightarrow> [bs]) @ sq_frames (SiDaqDeleteData p e1)"
    "sq_room e \<le> sq_room (SiDaqDeleteData p e1)" by blast
  from Suc.IH [OF g(2)] obtain bss e2 where "take_blocks n (SiDaqDeleteData p e1) = Inr (bss, e2)" "sq_inv e2"
    "sq_frames (SiDaqDeleteData p e1) = bss @ sq_frames e2" "sq_room (SiDaqDeleteData p e1) \<le> sq_room e2" by blast
  then show ?case using g by (cases p) auto
qed

section \<open>The shared event queue\<close>

text \<open>\<open>tq_gets\<close>: how many blocks the application takes before each put, and before its count is read;
  \<open>tq_out\<close>: what it has taken.\<close>

record shared_queue =
  tq_store :: sqstore
  tq_gets :: "(nat \<times> nat) list"
  tq_out :: "byte list list"

definition shared_put :: "byte list \<Rightarrow> int \<Rightarrow> shared_queue \<Rightarrow> (int \<times> shared_queue) outcome" where
  "shared_put data n s = (let ((before, after), rest) = (case tq_gets s of [] \<Rightarrow> ((0, 0), []) | g # gs \<Rightarrow> (g, gs)) in
     obind (take_blocks before (tq_store s)) (\<lambda>(taken1, e1).
     obind (SQPut data n e1) (\<lambda>(cnt, e2).
     obind (take_blocks after e2) (\<lambda>(taken2, e3).
       Inr (if cnt < 0 then cnt else sq_count e3,
         \<lparr>tq_store = e3, tq_gets = rest, tq_out = tq_out s @ taken1 @ taken2\<rparr>)))))"

definition shared_frames :: "shared_queue \<Rightarrow> byte list list" where
  "shared_frames s = tq_out s @ sq_frames (tq_store s)"

interpretation shq: byte_sink shared_put shared_frames "\<lambda>s. sq_inv (tq_store s)" "\<lambda>s. sq_room (tq_store s)"
proof unfold_locales
  fix s :: shared_queue and n and d :: "byte list"
  assume a: "sq_inv (tq_store s)" "0 < sq_room (tq_store s)" "0 \<le> n" "n \<le> int (length d)"
  obtain before after rest where g: "(case tq_gets s of [] \<Rightarrow> ((0, 0), []) | g # gs \<Rightarrow> (g, gs)) = ((before, after), rest)"
    by (metis surj_pair)
  from take_blocks_inv [OF a(1), of before] obtain t1 e1 where e1: "take_blocks before (tq_store s) = Inr (t1, e1)" "sq_inv e1"
    "sq_frames (tq_store s) = t1 @ sq_frames e1" "sq_room (tq_store s) \<le> sq_room e1" by blast
  have "0 < sq_room e1" using a(2) e1(4) by linarith
  from SQPut_inv [OF e1(2) this a(3,4)] obtain e2 where e2: "SQPut d n e1 = Inr (int (length (sq_frames e1)) + 1, e2)" "sq_inv e2"
    "sq_frames e2 = sq_frames e1 @ [take (nat n) d]" "sq_room e2 = sq_room e1 - 1" by blast
  from take_blocks_inv [OF e2(2), of after] obtain t2 e3 where e3: "take_blocks after e2 = Inr (t2, e3)" "sq_inv e3"
    "sq_frames e2 = t2 @ sq_frames e3" "sq_room e2 \<le> sq_room e3" by blast
  let ?s = "\<lparr>tq_store = e3, tq_gets = rest, tq_out = tq_out s @ t1 @ t2\<rparr>"
  have "shared_put d n s = Inr (sq_count e3, ?s)" using g e1(1) e2(1) e3(1) by (simp add: shared_put_def Let_def)
  moreover have "sq_count e3 = int (length (sq_frames e3))" "length (sq_frames e3) < 2 ^ 30"
    using sq_inv_count [OF e3(2)] sq_frames_bound [OF e3(2)] by simp_all
  moreover have "shared_frames ?s = shared_frames s @ [take (nat n) d]"
    using e1(3) e2(3) e3(3) by (simp add: shared_frames_def)
  moreover from this have "length (sq_frames e3) \<le> length (shared_frames s) + 1"
    by (metis (no_types, lifting) shared_frames_def length_append length_append_singleton le_add2 Suc_eq_plus1 shared_queue.select_convs(1))
  ultimately show "\<exists>cnt q'. shared_put d n s = Inr (cnt, q') \<and> 0 \<le> cnt \<and> cnt \<le> int (length (shared_frames s)) + 1 \<and>
      cnt < 2 ^ 31 \<and> sq_inv (tq_store q') \<and> shared_frames q' = shared_frames s @ [take (nat n) d] \<and>
      sq_room (tq_store s) - 1 \<le> sq_room (tq_store q')"
    using e1(4) e2(4) e3(2,4) by (intro exI [of _ "sq_count e3"] exI [of _ ?s]) auto
qed

text \<open>When nothing is taken, the shared queue is the queue.\<close>

definition queue_map :: "('q \<Rightarrow> 'p) \<Rightarrow> ('a \<times> 'q) outcome \<Rightarrow> ('a \<times> 'p) outcome" where
  "queue_map f r = obind r (\<lambda>(a, q). Inr (a, f q))"

definition alone :: "sqstore \<Rightarrow> shared_queue" where
  "alone e = \<lparr>tq_store = e, tq_gets = [], tq_out = []\<rparr>"

text \<open>\<open>RecvSiDaqData\<close> uses the queue only through its put.\<close>

lemma recv_loop_map:
  assumes put: "\<And>d n q. put1 d n (f q) = queue_map f (put2 d n q)"
  shows "recv_loop fuel put1 past rd len k fr (f q) =
    obind (recv_loop fuel put2 past rd len k fr q) (\<lambda>(r, fr1, q1). Inr (r, fr1, f q1))"
proof (induction fuel arbitrary: rd len k fr q)
  case 0
  then show ?case by (cases rd) simp_all
next
  case (Suc fuel)
  show ?case
  proof (cases rd)
    case (Some bs)
    obtain fr2 ev where c: "check_length fr (event_length fr (take (nat len) bs) len) len = (fr2, ev)" by force
    consider (Fault) x where "put2 bs (i32 (ev + fr_header_len fr2)) q = Inl x"
      | (put) cnt q1 where "put2 bs (i32 (ev + fr_header_len fr2)) q = Inr (cnt, q1)"
      by (metis sumE surj_pair)
    then show ?thesis
      by cases (simp_all add: Some recv_loop_Suc c put queue_map_def Suc.IH obind_assoc Let_def)
  qed simp
qed

lemma recv_rest_map:
  assumes put: "\<And>d n q. put1 d n (f q) = queue_map f (put2 d n q)"
  shows "recv_rest put1 fr data len (f q) = obind (recv_rest put2 fr data len q) (\<lambda>r. Inr (case r of
      Inl (k, fr1, q1) \<Rightarrow> Inl (k, fr1, f q1) | Inr (k, rd, n, fr1, q1) \<Rightarrow> Inr (k, rd, n, fr1, f q1)))"
proof -
  define ncopy where "ncopy = (if len < fr_buff_size fr - fr_rest fr then len else fr_buff_size fr - fr_rest fr)"
  show ?thesis
  proof (cases "fr_buff_size fr - fr_rest fr < 0 \<or> int (length data) < ncopy")
    case False
    show ?thesis
    proof (cases "buff_write (nat (fr_rest fr)) (take (nat ncopy) data) fr")
      case (Inr fr1)
      obtain fr2 ev where c: "check_length fr1 (event_length fr1 (take (nat (fr_rest fr1 + ncopy)) (buff_bytes fr1)) (fr_rest fr1 + ncopy))
          (fr_rest fr1 + ncopy) = (fr2, ev)" by force
      consider (Fault) x where "put2 (buff_bytes fr2) (i32 (ev + fr_header_len fr2)) q = Inl x"
        | (put) cnt q1 where "put2 (buff_bytes fr2) (i32 (ev + fr_header_len fr2)) q = Inr (cnt, q1)"
        by (metis sumE surj_pair)
      then show ?thesis
        by cases (use False Inr c in \<open>simp_all add: recv_rest_def Let_def ncopy_def [symmetric] put queue_map_def\<close>)
    qed (use False in \<open>simp add: recv_rest_def Let_def ncopy_def\<close>)
  qed (auto simp: recv_rest_def Let_def ncopy_def)
qed

lemma recv_map:
  assumes put: "\<And>d n q. put1 d n (f q) = queue_map f (put2 d n q)"
  shows "RecvSiDaqData put1 past fr data len (f q) =
    obind (RecvSiDaqData put2 past fr data len q) (\<lambda>(r, fr1, q1). Inr (r, fr1, f q1))"
proof (cases "recv_rest put2 fr data len q")
  case (Inr r)
  then show ?thesis
    by (cases r) (auto simp: RecvSiDaqData_def recv_rest_map [of put1 f put2, OF put] recv_loop_map [of put1 f put2, OF put])
qed (simp add: RecvSiDaqData_def recv_rest_map [of put1 f put2, OF put] recv_loop_map [of put1 f put2, OF put])

lemma SQPut_count: "SQPut d n e = Inr (cnt, e1) \<Longrightarrow> cnt < 0 \<or> cnt = sq_count e1"
  by (auto simp: SQPut_def sque_put_def Let_def split: if_splits)

lemma shared_put_alone: "shared_put d n (alone e) = queue_map alone (SQPut d n e)"
proof (cases "SQPut d n e")
  case (Inr r)
  then show ?thesis using SQPut_count [of d n e "fst r" "snd r"]
    by (cases r) (auto simp: shared_put_def queue_map_def alone_def)
qed (simp add: shared_put_def queue_map_def alone_def)

lemma recv_alone:
  "RecvSiDaqData shared_put past fr data len (alone e) =
    obind (RecvSiDaqData SQPut past fr data len e) (\<lambda>(r, fr1, e1). Inr (r, fr1, alone e1))"
  using recv_map [of shared_put alone SQPut, OF shared_put_alone] .

section \<open>A call of the framer thread\<close>

text \<open>\<open>framer_receive\<close> with the application taking blocks meanwhile; the second component is what it took.\<close>

definition shared_receive :: "(nat \<times> nat) list \<Rightarrow> byte option \<Rightarrow> byte list \<Rightarrow> int \<Rightarrow> SiDaqMngr \<Rightarrow> (SiDaqMngr \<times> byte list list) outcome" where
  "shared_receive gets past byte_data data_size m =
     (if 0 < data_size then
        obind (framer_of m) (\<lambda>fr. obind (event_queue m) (\<lambda>e.
        obind (RecvSiDaqData shared_put past fr byte_data data_size \<lparr>tq_store = e, tq_gets = gets, tq_out = []\<rparr>)
          (\<lambda>(frame_count, fr1, s1). Inr (m\<lparr>m_framer := Some fr1, m_eventFrame := Some (tq_store s1)\<rparr>, tq_out s1))))
      else Inr (m, []))"

lemma shared_receive_alone:
  "shared_receive [] (fe_past env) bs n m = obind (framer_receive env bs n m) (\<lambda>m1. Inr (m1, []))"
proof (cases "m_framer m")
  case (Some fr)
  then show ?thesis
  proof (cases "m_eventFrame m")
    case (Some e)
    then show ?thesis using \<open>m_framer m = Some fr\<close> recv_alone [of "fe_past env" fr bs n e]
      by (cases "RecvSiDaqData SQPut (fe_past env) fr bs n e")
        (auto simp: shared_receive_def framer_receive_def framer_of_def event_queue_def alone_def)
  qed (simp add: shared_receive_def framer_receive_def framer_of_def event_queue_def)
qed (simp add: shared_receive_def framer_receive_def framer_of_def)

text \<open>The bytes of the block are then on the event queue, taken, or in the framer.\<close>

lemma shared_receive_unread:
  "shared_receive gets None bs n m = shared_receive gets (Some p) bs n m \<or>
   shared_receive gets None bs n m = Inl Out_of_bounds"
proof (cases "framer_of m")
  case (Inr fr)
  then show ?thesis
  proof (cases "event_queue m")
    case (Inr e)
    with \<open>framer_of m = Inr fr\<close> show ?thesis
      using recv_unread [of shared_put fr bs n "\<lparr>tq_store = e, tq_gets = gets, tq_out = []\<rparr>" p]
      by (auto simp: shared_receive_def)
  qed (simp add: shared_receive_def)
qed (simp add: shared_receive_def)

lemma shared_receive_readable:
  assumes "shared_receive gets past bs n m = Inr r"
  obtains p where "shared_receive gets (Some p) bs n m = Inr r"
  using assms shared_receive_unread [of gets bs n m 0] that by (cases past) auto

lemma shared_receive_ready:
  assumes r: "ready m q e fr" and room: "length (pending fr) + length bs \<le> sq_room e" and len: "length bs < 2 ^ 31"
  shows "\<exists>m1 e1 fr1 out dropped. shared_receive gets (Some past) bs (int (length bs)) m = Inr (m1, out) \<and> ready m1 q e1 fr1 \<and>
    fr_queue_limit fr1 = fr_queue_limit fr \<and> status m1 = status m \<and> sock_param m1 = sock_param m \<and>
    concat out @ concat (sq_frames e1) @ pending fr1 @ dropped = concat (sq_frames e) @ pending fr @ bs \<and>
    (fr_queue_limit fr = 0 \<longrightarrow> dropped = [])"
proof (cases "bs = []")
  case True
  then have "shared_receive gets (Some past) bs (int (length bs)) m = Inr (m, [])" by (simp add: shared_receive_def)
  then show ?thesis using r True by (intro exI [of _ m] exI [of _ e] exI [of _ fr] exI [of _ "[]"]) simp
next
  case False
  have h: "holds m q e fr" "sq_inv e" "framer_ok fr" "rest_ok fr" "0 \<le> fr_queue_limit fr" using r by (simp_all add: ready_def)
  let ?s = "\<lparr>tq_store = e, tq_gets = gets, tq_out = []\<rparr>"
  have "shq.outcome_of (fr_queue_limit fr) ?s 0 (pending fr @ bs) (RecvSiDaqData shared_put (Some past) fr bs (int (length bs)) ?s)"
    by (rule shq.recv_runs) (use h(2-5) room len in simp_all)
  then obtain k fr1 s1 fs dropped where rr:
    "RecvSiDaqData shared_put (Some past) fr bs (int (length bs)) ?s = Inr (k, fr1, s1)" "sq_inv (tq_store s1)"
    "shared_frames s1 = shared_frames ?s @ fs" "concat fs @ pending fr1 @ dropped = pending fr @ bs" "framer_ok fr1" "rest_ok fr1"
    "fr_queue_limit fr1 = fr_queue_limit fr" "dropped = [] \<or> shq.limit_return k fr1 s1"
    unfolding shq.outcome_of_def by blast
  let ?m1 = "m\<lparr>m_framer := Some fr1, m_eventFrame := Some (tq_store s1)\<rparr>"
  have "shared_receive gets (Some past) bs (int (length bs)) m = Inr (?m1, tq_out s1)"
    using h(1) rr(1) False by (simp add: shared_receive_def)
  moreover have "ready ?m1 q (tq_store s1) fr1" using r rr(2,5-7) by (simp add: ready_def holds_def)
  moreover have "concat (tq_out s1) @ concat (sq_frames (tq_store s1)) = concat (sq_frames e) @ concat fs"
    using rr(3) unfolding shared_frames_def by (metis append_Nil concat_append shared_queue.select_convs(1,3))
  moreover have "fr_queue_limit fr = 0 \<longrightarrow> dropped = []" using rr(7,8) by (auto simp: shq.limit_return_def)
  ultimately show ?thesis using rr(4,7)
    by (intro exI [of _ ?m1] exI [of _ "tq_store s1"] exI [of _ fr1] exI [of _ "tq_out s1"] exI [of _ dropped])
      (simp, metis append.assoc)
qed

end
