(* ===== verification/SiDaq_Phases.thy ===== *)
theory SiDaq_Phases
  imports Framer_Shared
begin

text \<open>
  The parts of a round of the framer thread and of the socket thread, between which another thread can run:
  the framer thread takes a block, frames it, frees it, checks for errors, and at the end sets the status, and each
  of these is a phase of its own; the socket thread holds a chunk in its buffer before it puts it on the receive
  queue, and closes the socket only afterwards.  A wait for the socket thread is a phase too.

  The first lemmas say that the error check, the handling of an empty queue and the end are their phases, run
  without interruption.
\<close>

section \<open>Phases of the framer thread\<close>

datatype fr_phase = Ph_start | Ph_test | Ph_get | Ph_got "byte list" int | Ph_free | Ph_check | Ph_wait
  | Ph_empty | Ph_rest | Ph_exit | Ph_exit_wait | Ph_done

text \<open>\<open>SQGet\<close> on the receive queue; \<open>late\<close> says that the mutex was not obtained in time.\<close>

definition framer_get :: "(nat \<Rightarrow> sqstore \<Rightarrow> sqstore) \<Rightarrow> bool \<Rightarrow> SiDaqMngr \<Rightarrow> (fr_phase \<times> SiDaqMngr) outcome" where
  "framer_get sleep late m =
     (if squeue_index (sock_param m) = 0 then
        obind (recv_queue m) (\<lambda>q. obind (SQGet sleep late 50 q) (\<lambda>(byte_data, data_size, q1).
          Inr (case byte_data of Some bs \<Rightarrow> Ph_got bs data_size | None \<Rightarrow> Ph_empty, set_recv_queue q1 m)))
      else Inr (Ph_test, m))"

text \<open>\<open>free(byte_data)\<close>.\<close>

definition framer_free :: "SiDaqMngr \<Rightarrow> SiDaqMngr outcome" where
  "framer_free m = obind (recv_queue m) (\<lambda>q. Inr (set_recv_queue (q\<lparr>quota := quota q + 1\<rparr>) m))"

text \<open>The error check up to the wait for the socket thread.\<close>

definition error_check_begin :: "SiDaqMngr \<Rightarrow> (fr_phase \<times> SiDaqMngr) outcome" where
  "error_check_begin m = obind (framer_of m) (\<lambda>fr.
     if fr_error_flg fr = 0 then
       (if fr_error_code fr \<noteq> framer_code FRAMER_NO_ERROR then
          obind (framer_failed m) (\<lambda>m1.
          obind (set_sidaq_error m1 (decode_framer_error (fr_error_code fr))
              (decode_framer_error_string (fr_error_code fr)) 0) (\<lambda>m2.
            Inr (Ph_wait, m2\<lparr>sock_param := (sock_param m2)\<lparr>sp_run := False\<rparr>\<rparr>)))
        else if queue_error_code (sock_param m) \<noteq> sockqueue_code SOCKQUEUE_NO_ERROR then
          obind (framer_failed m) (\<lambda>m1.
          obind (set_sidaq_error m1 (decode_sock_queue_error (queue_error_code (sock_param m))) ''Socket Receive Queue Error'' 0)
            (\<lambda>m2. Inr (Ph_test, m2)))
        else Inr (Ph_test, m))
     else Inr (Ph_test, m))"

text \<open>What follows when \<open>SQGet\<close> has returned nothing.\<close>

definition no_data_test :: "SiDaqMngr \<Rightarrow> (fr_phase \<times> SiDaqMngr) outcome" where
  "no_data_test m =
     (if status m = SIDAQ_STOPPING then Inr (Ph_rest, m)
      else if \<not> is_socket_open m then
        obind (framer_of m) (\<lambda>fr.
        obind (if fr_error_flg fr = 0 \<and> queue_error_code (sock_param m) \<noteq> sockqueue_code SOCKQUEUE_NO_ERROR
               then obind (framer_failed m) (\<lambda>m1. set_sidaq_error m1
                 (decode_sock_queue_error (queue_error_code (sock_param m))) ''Socket Receive Queue Error'' 0)
               else Inr m) (\<lambda>m1. Inr (Ph_rest, m1)))
      else Inr (Ph_test, m))"

text \<open>After the loop.\<close>

definition exit_begin :: "SiDaqMngr \<Rightarrow> (fr_phase \<times> SiDaqMngr) outcome" where
  "exit_begin m = obind (framer_of m) (\<lambda>fr.
     if fr_error_flg fr < 0 then
       Inr (if status m = SIDAQ_RUN \<or> status m = SIDAQ_SYS_ERROR then (Ph_exit_wait, stop_begin m) else (Ph_done, m))
     else if status m = SIDAQ_RESET then Inr (Ph_done, m)
     else Inr (Ph_done, m\<lparr>status := SIDAQ_IDLE\<rparr>))"

text \<open>The end of a wait: the socket is closed.\<close>

definition after_wait :: "framer_env \<Rightarrow> fr_phase \<times> SiDaqMngr \<Rightarrow> SiDaqMngr" where
  "after_wait env = (\<lambda>(ph, m). if ph = Ph_wait \<or> ph = Ph_exit_wait
     then stop_end (m\<lparr>sock_param := fe_wait env (sock_param m)\<rparr>) else m)"

lemma obind_right [simp]: "obind r Inr = r"
  by (cases r) simp_all

lemma error_check_phases: "framer_error_check env m = obind (error_check_begin m) (\<lambda>r. Inr (after_wait env r))"
proof (cases "framer_of m")
  case (Inr fr)
  have stop: "stop_socket w m2 = stop_end (m2\<lparr>sock_param := w ((sock_param m2)\<lparr>sp_run := False\<rparr>)\<rparr>)" for w m2
    by (simp add: stop_socket_def stop_end_def)
  show ?thesis by (simp add: Inr framer_error_check_def error_check_begin_def after_wait_def obind_assoc stop)
qed (simp add: framer_error_check_def error_check_begin_def)

lemma no_data_phases:
  "framer_no_data m = obind (no_data_test m) (\<lambda>(ph, m1).
     if ph = Ph_rest then obind (put_rest_frame m1) (\<lambda>m2. Inr (m2, True)) else Inr (m1, False))"
  by (simp add: framer_no_data_def no_data_test_def obind_assoc)

lemma exit_phases: "framer_exit env m = obind (exit_begin m) (\<lambda>r. Inr (after_wait env r))"
proof (cases "framer_of m")
  case (Inr fr)
  then show ?thesis using stop_halves [of m "fe_wait env"]
    by (auto simp: framer_exit_def exit_begin_def after_wait_def SiDaqStop_def)
qed (simp add: framer_exit_def exit_begin_def)

lemma recv_queue_set: "recv_queue m = Inr q \<Longrightarrow> recv_queue (set_recv_queue q1 m) = Inr q1"
  by (auto simp: recv_queue_def set_recv_queue_def select_queue_def split: option.splits if_splits)

lemma set_recv_queue_twice: "set_recv_queue q2 (set_recv_queue q1 m) = set_recv_queue q2 m"
  by (cases "squeue_list_ptr (sock_param m)") (simp_all add: set_recv_queue_def)

section \<open>Phases of the socket thread\<close>

datatype sock_hand = Nothing | Received os_result | Queued os_result int

text \<open>\<open>SQPut\<close> of the received chunk, and what the thread does with the count.\<close>

definition put_begin :: "(byte list \<Rightarrow> int \<Rightarrow> 'q \<Rightarrow> (int \<times> 'q) outcome) \<Rightarrow> os_result \<Rightarrow> 'q SockThreadLparam \<Rightarrow> sock_thread \<Rightarrow>
    (int \<times> 'q SockThreadLparam) outcome" where
  "put_begin sqput os lp th =
     (case squeue_list_ptr lp of None \<Rightarrow> Inl Null_deref
      | Some qs \<Rightarrow> if length qs \<le> t_queue th then Inl Out_of_bounds else
        obind (sqput (write_at 0 (os_data os) (replicate (nat (t_buf_size th)) 0)) (os_recv os) (qs ! t_queue th))
          (\<lambda>(queue_count, q1). Inr (queue_count, lp\<lparr>squeue_list_ptr := Some (qs[t_queue th := q1])\<rparr>)))"

definition put_end :: "os_result \<Rightarrow> int \<Rightarrow> 'q SockThreadLparam \<Rightarrow> sock_thread \<Rightarrow> 'q SockThreadLparam \<times> sock_thread" where
  "put_end os queue_count lp th =
     (if queue_count < 0 then
        close_and_break (lp\<lparr>queue_error_code := sockqueue_code SOCKQUEUE_MEMORY_ALLOCATED_FAILED\<rparr>) th
      else if queue_limit lp \<noteq> 0 \<and> queue_limit lp < u32 queue_count then
        close_and_break (lp\<lparr>queue_error_code := sockqueue_code SOCKQUEUE_EXCEED_RECV_QUEUE_COUNT\<rparr>) th
      else (lp\<lparr>sock_stat := (sock_stat lp)\<lparr>rx_bytes := (rx_bytes (sock_stat lp) + os_recv os) mod 2 ^ 64\<rparr>\<rparr>, th))"

lemma put_phases: "put_chunk sqput os lp th = obind (put_begin sqput os lp th) (\<lambda>(cnt, lp1). Inr (put_end os cnt lp1 th))"
proof (cases "squeue_list_ptr lp")
  case (Some qs)
  show ?thesis
  proof (cases "sqput (write_at 0 (os_data os) (replicate (nat (t_buf_size th)) 0)) (os_recv os) (qs ! t_queue th)")
    case (Inr r)
    then show ?thesis by (cases r) (simp add: Some put_chunk_def put_begin_def put_end_def Let_def)
  qed (simp add: Some put_chunk_def put_begin_def)
qed (simp add: put_chunk_def put_begin_def)

lemma recv_phases:
  assumes "t_pc th = Inner_loop" "\<not> pause_flg lp" "0 < os_recv os"
  shows "sock_step sqput os (lp, th) = obind (put_begin sqput os lp (th\<lparr>t_recv_len := os_recv os\<rparr>)) (\<lambda>(cnt, lp1).
    Inr (put_end os cnt lp1 (th\<lparr>t_recv_len := os_recv os\<rparr>)))"
  using assms by (simp add: sock_step_def inner_step_def put_phases Let_def)

section \<open>Phases of a reset\<close>

text \<open>One \<open>SQGet\<close> of either loop, with the \<open>free\<close> of its block.\<close>

datatype reset_pc = Rs_recv SiDaqStatus | Rs_event SiDaqStatus

definition drain_recv :: "SiDaqMngr \<Rightarrow> (bool \<times> SiDaqMngr) outcome" where
  "drain_recv m = obind (recv_queue m) (\<lambda>q. obind (SQGet (\<lambda>_. id) False (-1) q) (\<lambda>(p, _, q1).
     Inr (p \<noteq> None, set_recv_queue (SiDaqDeleteData p q1) m)))"

definition drain_event :: "SiDaqMngr \<Rightarrow> (bool \<times> SiDaqMngr) outcome" where
  "drain_event m = obind (event_queue m) (\<lambda>e. obind (SQGet (\<lambda>_. id) False (-1) e) (\<lambda>(p, _, e1).
     Inr (p \<noteq> None, m\<lparr>m_eventFrame := Some (SiDaqDeleteData p e1)\<rparr>)))"

definition reset_status :: "SiDaqStatus \<Rightarrow> SiDaqMngr \<Rightarrow> SiDaqMngr" where
  "reset_status found m = m\<lparr>status := (if found = SIDAQ_SYS_ERROR then SIDAQ_SYS_ERROR else SIDAQ_IDLE)\<rparr>"

section \<open>States and steps\<close>

record fine =
  fi_m :: SiDaqMngr
  fi_sock :: "sock_thread option"
  fi_hand :: sock_hand   \<comment> \<open>what the socket thread is doing with a chunk\<close>
  fi_fr :: fr_phase
  fi_in_run :: bool
  fi_stop :: bool
  fi_reset :: "reset_pc option"
  fi_in :: "byte list"
  fi_out :: "byte list list"
  fi_was_reset :: bool

definition fine_session :: "SiDaqMngr \<Rightarrow> fine" where
  "fine_session m = \<lparr>fi_m = m, fi_sock = None, fi_hand = Nothing, fi_fr = Ph_start, fi_in_run = True, fi_stop = False,
     fi_reset = None, fi_in = [], fi_out = [], fi_was_reset = False\<rparr>"

definition fine_free :: "fine \<Rightarrow> bool" where
  "fine_free s \<longleftrightarrow> \<not> fi_in_run s \<and> \<not> fi_stop s \<and> fi_reset s = None"

definition receive_memory :: "byte list \<Rightarrow> SiDaqMngr \<Rightarrow> bool" where
  "receive_memory bs m \<longleftrightarrow> (\<forall>e fr. event_queue m = Inr e \<and> framer_of m = Inr fr \<longrightarrow>
     length (pending fr) + length bs \<le> sq_room e)"

inductive phase_step :: "fine \<Rightarrow> fine \<Rightarrow> bool" where
  run_returns: "fi_in_run s \<Longrightarrow> phase_step s (s\<lparr>fi_m := run_finish (fi_m s), fi_in_run := False\<rparr>)"
| stop_1: "fine_free s \<Longrightarrow> status (fi_m s) = SIDAQ_RUN \<or> status (fi_m s) = SIDAQ_SYS_ERROR \<Longrightarrow>
    phase_step s (s\<lparr>fi_m := stop_begin (fi_m s), fi_stop := True\<rparr>)"
| stop_2: "fi_stop s \<Longrightarrow> phase_step s (s\<lparr>fi_m := stop_end (fi_m s), fi_stop := False\<rparr>)"
| pause: "\<not> fi_in_run s \<Longrightarrow> SiDaqPauseRecvData (Some (fi_m s)) = Some m1 \<Longrightarrow> phase_step s (s\<lparr>fi_m := m1\<rparr>)"
| resume: "\<not> fi_in_run s \<Longrightarrow> SiDaqResumeRecvData (Some (fi_m s)) = Some m1 \<Longrightarrow> phase_step s (s\<lparr>fi_m := m1\<rparr>)"
| reset_1: "fine_free s \<Longrightarrow> status (fi_m s) = SIDAQ_STOPPING \<or> status (fi_m s) = SIDAQ_SYS_ERROR \<Longrightarrow>
    phase_step s (s\<lparr>fi_m := reset_begin (fi_m s), fi_reset := Some (Rs_recv (status (fi_m s))), fi_was_reset := True\<rparr>)"
| reset_recv: "fi_reset s = Some (Rs_recv found) \<Longrightarrow> drain_recv (fi_m s) = Inr (again, m1) \<Longrightarrow>
    phase_step s (s\<lparr>fi_m := m1, fi_reset := Some (if again then Rs_recv found else Rs_event found)\<rparr>)"
| reset_event: "fi_reset s = Some (Rs_event found) \<Longrightarrow> drain_event (fi_m s) = Inr (True, m1) \<Longrightarrow>
    phase_step s (s\<lparr>fi_m := m1\<rparr>)"
| reset_done: "fi_reset s = Some (Rs_event found) \<Longrightarrow> drain_event (fi_m s) = Inr (False, m1) \<Longrightarrow>
    phase_step s (s\<lparr>fi_m := reset_status found m1, fi_reset := None\<rparr>)"
| get: "\<not> fi_in_run s \<Longrightarrow> get_and_delete w (fi_m s) = Inr (bs, m1) \<Longrightarrow>
    phase_step s (s\<lparr>fi_m := m1, fi_out := fi_out s @ nonempty bs\<rparr>)"
| sock_start: "fi_sock s = None \<Longrightarrow> sock_thread_start True (sock_param (fi_m s)) = Inr (lp, th) \<Longrightarrow>
    phase_step s (s\<lparr>fi_m := (fi_m s)\<lparr>sock_param := lp\<rparr>, fi_sock := Some th\<rparr>)"
| sock_idle: "fi_sock s = Some th \<Longrightarrow> fi_hand s = Nothing \<Longrightarrow> taken os (sock_param (fi_m s), th) = [] \<Longrightarrow>
    sock_step SQPut os (sock_param (fi_m s), th) = Inr (lp, th1) \<Longrightarrow>
    phase_step s (s\<lparr>fi_m := (fi_m s)\<lparr>sock_param := lp\<rparr>, fi_sock := Some th1\<rparr>)"
| sock_recv: "fi_sock s = Some th \<Longrightarrow> fi_hand s = Nothing \<Longrightarrow> t_pc th = Inner_loop \<Longrightarrow> \<not> pause_flg (sock_param (fi_m s)) \<Longrightarrow>
    0 < os_recv os \<Longrightarrow> os_ok (t_buf_size th) (Round os) \<Longrightarrow>
    phase_step s (s\<lparr>fi_sock := Some (th\<lparr>t_recv_len := os_recv os\<rparr>), fi_hand := Received os, fi_in := fi_in s @ os_data os\<rparr>)"
| sock_put: "fi_sock s = Some th \<Longrightarrow> fi_hand s = Received os \<Longrightarrow> sock_memory (fi_m s) \<Longrightarrow>
    put_begin SQPut os (sock_param (fi_m s)) th = Inr (cnt, lp) \<Longrightarrow>
    phase_step s (s\<lparr>fi_m := (fi_m s)\<lparr>sock_param := lp\<rparr>, fi_hand := Queued os cnt\<rparr>)"
| sock_put_end: "fi_sock s = Some th \<Longrightarrow> fi_hand s = Queued os cnt \<Longrightarrow> put_end os cnt (sock_param (fi_m s)) th = (lp, th1) \<Longrightarrow>
    phase_step s (s\<lparr>fi_m := (fi_m s)\<lparr>sock_param := lp\<rparr>, fi_sock := Some th1, fi_hand := Nothing\<rparr>)"
| fr_start: "fi_fr s = Ph_start \<Longrightarrow> framer_thread_start (fi_m s) = Inr m1 \<Longrightarrow> phase_step s (s\<lparr>fi_m := m1, fi_fr := Ph_test\<rparr>)"
| fr_test: "fi_fr s = Ph_test \<Longrightarrow> phase_step s (s\<lparr>fi_fr := (if framer_runs (fi_m s) then Ph_get else Ph_exit)\<rparr>)"
| fr_get: "fi_fr s = Ph_get \<Longrightarrow> framer_get (\<lambda>_. id) late (fi_m s) = Inr (ph, m1) \<Longrightarrow> phase_step s (s\<lparr>fi_m := m1, fi_fr := ph\<rparr>)"
| fr_receive: "fi_fr s = Ph_got bs n \<Longrightarrow> receive_memory bs (fi_m s) \<Longrightarrow>
    shared_receive gets past bs n (fi_m s) = Inr (m1, out) \<Longrightarrow>
    phase_step s (s\<lparr>fi_m := m1, fi_fr := Ph_free, fi_out := fi_out s @ out\<rparr>)"
| fr_free: "fi_fr s = Ph_free \<Longrightarrow> framer_free (fi_m s) = Inr m1 \<Longrightarrow> phase_step s (s\<lparr>fi_m := m1, fi_fr := Ph_check\<rparr>)"
| fr_check: "fi_fr s = Ph_check \<Longrightarrow> error_check_begin (fi_m s) = Inr (ph, m1) \<Longrightarrow> phase_step s (s\<lparr>fi_m := m1, fi_fr := ph\<rparr>)"
| fr_wait: "fi_fr s = Ph_wait \<Longrightarrow> phase_step s (s\<lparr>fi_m := stop_end (fi_m s), fi_fr := Ph_test\<rparr>)"
| fr_empty: "fi_fr s = Ph_empty \<Longrightarrow> no_data_test (fi_m s) = Inr (ph, m1) \<Longrightarrow> phase_step s (s\<lparr>fi_m := m1, fi_fr := ph\<rparr>)"
| fr_rest: "fi_fr s = Ph_rest \<Longrightarrow> receive_memory [] (fi_m s) \<Longrightarrow> put_rest_frame (fi_m s) = Inr m1 \<Longrightarrow>
    phase_step s (s\<lparr>fi_m := m1, fi_fr := Ph_exit\<rparr>)"
| fr_exit: "fi_fr s = Ph_exit \<Longrightarrow> exit_begin (fi_m s) = Inr (ph, m1) \<Longrightarrow> phase_step s (s\<lparr>fi_m := m1, fi_fr := ph\<rparr>)"
| fr_exit_wait: "fi_fr s = Ph_exit_wait \<Longrightarrow> phase_step s (s\<lparr>fi_m := stop_end (fi_m s), fi_fr := Ph_done\<rparr>)"

inductive_cases phase_stepE: "phase_step s s1"

lemmas phase_step_cases = phase_stepE [consumes 1, case_names run_returns stop_1 stop_2 pause resume reset_1 reset_recv
  reset_event reset_done get sock_start sock_idle sock_recv sock_put sock_put_end fr_start fr_test fr_get fr_receive fr_free
  fr_check fr_wait fr_empty fr_rest fr_exit fr_exit_wait]

section \<open>The invariant\<close>

text \<open>What the framer thread and the socket thread hold.\<close>

fun in_hand :: "fr_phase \<Rightarrow> byte list" where
  "in_hand (Ph_got bs n) = bs"
| "in_hand _ = []"

fun received :: "sock_hand \<Rightarrow> byte list" where
  "received (Received os) = os_data os"
| "received _ = []"

definition fine_accounted :: "fine \<Rightarrow> sqstore \<Rightarrow> sqstore \<Rightarrow> SiDaqFramer \<Rightarrow> bool" where
  "fine_accounted s q e fr \<longleftrightarrow> fi_was_reset s \<or> fr_queue_limit fr \<noteq> 0 \<or>
     fi_in s = concat (fi_out s) @ concat (sq_frames e) @ pending fr @ in_hand (fi_fr s) @ concat (sq_frames q) @ received (fi_hand s)"

definition hand_ok :: "fine \<Rightarrow> bool" where
  "hand_ok s \<longleftrightarrow> (\<forall>th. fi_sock s = Some th \<longrightarrow> t_queue th = 0 \<and> t_buf_size th < 2 ^ 31) \<and>
     (\<forall>os. fi_hand s = Received os \<longrightarrow> (\<exists>th. fi_sock s = Some th \<and> 0 < os_recv os \<and> os_ok (t_buf_size th) (Round os))) \<and>
     (fi_reset s \<noteq> None \<longrightarrow> fi_was_reset s) \<and>
     (\<forall>bs n. fi_fr s = Ph_got bs n \<longrightarrow> n = int (length bs) \<and> length bs < 2 ^ 31)"

text \<open>The memory of the receive queue, the block the framer thread still has to free apart.\<close>

definition owes_block :: "fr_phase \<Rightarrow> bool" where
  "owes_block ph \<longleftrightarrow> ph = Ph_free \<or> (\<exists>bs n. ph = Ph_got bs n)"

definition total :: "sqstore \<Rightarrow> nat" where
  "total q = quota q + 2 * length (sq_frames q)"

definition fine_ok :: "int \<Rightarrow> fine \<Rightarrow> sqstore \<Rightarrow> sqstore \<Rightarrow> SiDaqFramer \<Rightarrow> bool" where
  "fine_ok lim s q e fr \<longleftrightarrow> ready (fi_m s) q e fr \<and> fr_queue_limit fr = lim \<and> fine_accounted s q e fr \<and> hand_ok s \<and>
     (owes_block (fi_fr s) \<longrightarrow> total q + 1 < 2 ^ 31)"

lemmas fine_defs = fine_accounted_def hand_ok_def owes_block_def

lemma fine_okI:
  "ready (fi_m s) q e fr \<Longrightarrow> fr_queue_limit fr = lim \<Longrightarrow> fine_accounted s q e fr \<Longrightarrow> hand_ok s \<Longrightarrow>
     (owes_block (fi_fr s) \<Longrightarrow> total q + 1 < 2 ^ 31) \<Longrightarrow> fine_ok lim s q e fr"
  by (simp add: fine_ok_def)

lemma fine_okD:
  assumes "fine_ok lim s q e fr"
  shows "ready (fi_m s) q e fr" "fr_queue_limit fr = lim" "fine_accounted s q e fr" "hand_ok s"
    "owes_block (fi_fr s) \<Longrightarrow> total q + 1 < 2 ^ 31"
  using assms by (simp_all add: fine_ok_def)

subsection \<open>Each phase\<close>

lemma put_total: "0 < sq_room q \<Longrightarrow> SQPut d n q = Inr (c, q1) \<Longrightarrow> sq_frames q1 = sq_frames q @ [f] \<Longrightarrow> total q1 = total q"
  using SQPut_quota [of q d n c q1] by (simp add: total_def)

lemma get_phase:
  assumes r: "ready m q e fr"
  shows "\<exists>ph m1 q1. framer_get (\<lambda>_. id) late m = Inr (ph, m1) \<and> ready m1 q1 e fr \<and>
    sq_frames q = (case ph of Ph_got bs n \<Rightarrow> [bs] | _ \<Rightarrow> []) @ sq_frames q1 \<and>
    (case ph of Ph_got bs n \<Rightarrow> n = int (length bs) \<and> length bs < 2 ^ 31 \<and> total q1 + 1 = total q | _ \<Rightarrow> ph = Ph_empty) \<and>
    status m1 = status m"
proof -
  have h: "holds m q e fr" "sq_inv q" "\<forall>f\<in>set (sq_frames q). length f < 2 ^ 31" using r by (simp_all add: ready_def)
  have idx: "squeue_index (sock_param m) = 0" using h(1) by (simp add: holds_def)
  have same: "ready (set_recv_queue q m) q e fr" "status (set_recv_queue q m) = status m"
    using set_recv_queue_same [OF h(1)] r by simp_all
  show ?thesis
  proof (cases "sq_frames q = [] \<or> (late \<and> sq_frames q \<noteq> [])")
    case True
    have "SQGet (\<lambda>_. id) late 50 q = Inr (None, 0, q)"
    proof (cases "sq_frames q = []")
      case True
      then have "sq_wait (\<lambda>_. id) 50 q = (1, q)" using sq_inv_count [OF h(2)] by (simp add: sq_wait_quiet)
      then show ?thesis using True sq_inv_count [OF h(2)] by (simp add: SQGet_empty)
    next
      case False
      then have "0 < sq_count q" using sq_inv_count [OF h(2)] by simp
      from SQGet_timeout [OF sq_wait_nonempty [OF this, of "\<lambda>_. id" 50]] True False show ?thesis by simp
    qed
    then show ?thesis using h(1) idx same by (intro exI [of _ Ph_empty] exI [of _ "set_recv_queue q m"] exI [of _ q])
        (simp add: framer_get_def)
  next
    case False
    then obtain f fs where f: "sq_frames q = f # fs" "\<not> late" by (cases "sq_frames q") auto
    then have "0 < sq_count q" using sq_inv_count [OF h(2)] by simp
    from SQGet_first [OF sq_wait_nonempty [OF this, of "\<lambda>_. id" 50] h(2) f(1), of late] f(2) obtain q1 where q1:
      "SQGet (\<lambda>_. id) late 50 q = Inr (Some f, int (length f), q1)" "sq_inv q1" "sq_frames q1 = fs" "quota q1 = quota q + 1"
      by auto
    have "ready (set_recv_queue q1 m) q1 e fr" using r holds_set_recv [OF h(1), of q1] q1(2,3) h(3) f(1) by (simp add: ready_def)
    then show ?thesis using h(1,3) idx q1 f(1)
      by (intro exI [of _ "Ph_got f (int (length f))"] exI [of _ "set_recv_queue q1 m"] exI [of _ q1])
        (simp add: framer_get_def total_def)
  qed
qed

lemma free_phase:
  assumes r: "ready m q e fr" and room: "total q + 1 < 2 ^ 31"
  shows "\<exists>m1 q1. framer_free m = Inr m1 \<and> ready m1 q1 e fr \<and> sq_frames q1 = sq_frames q \<and> status m1 = status m"
proof -
  have h: "holds m q e fr" "sq_inv q" using r by (simp_all add: ready_def)
  have "quota q + 1 + 2 * length (sq_frames q) < 2 ^ 31" using room by (simp add: total_def)
  note q1 = sq_inv_free_block [OF h(2) this]
  let ?q1 = "q\<lparr>quota := quota q + 1\<rparr>"
  have "framer_free m = Inr (set_recv_queue ?q1 m)" using h(1) by (simp add: framer_free_def)
  moreover have "ready (set_recv_queue ?q1 m) ?q1 e fr" using q1 holds_set_recv [OF h(1), of ?q1] r by (simp add: ready_def)
  ultimately show ?thesis using q1(2) by (intro exI [of _ "set_recv_queue ?q1 m"] exI [of _ ?q1]) simp
qed

lemma check_phase:
  assumes r: "ready m q e fr"
  shows "\<exists>ph m1 fr1. error_check_begin m = Inr (ph, m1) \<and> ready m1 q e fr1 \<and> pending fr1 = pending fr \<and>
    fr_queue_limit fr1 = fr_queue_limit fr \<and> ph \<in> {Ph_wait, Ph_test} \<and> (fr_error_flg fr \<noteq> 0 \<or> fr_error_code fr = 0 \<and> queue_error_code (sock_param m) = 0 \<longrightarrow> m1 = m \<and> ph = Ph_test)"
proof -
  have f: "framer_of m = Inr fr" using framer_of_holds r by (auto simp: ready_def)
  have stop: "ready (m1\<lparr>sock_param := (sock_param m1)\<lparr>sp_run := False\<rparr>\<rparr>) q e fr1" if "ready m1 q e fr1" for m1 fr1
    using that by (simp add: ready_def holds_def)
  consider (Framer) "fr_error_flg fr = 0" "fr_error_code fr \<noteq> 0"
    | (Queue) "fr_error_flg fr = 0" "fr_error_code fr = 0" "queue_error_code (sock_param m) \<noteq> 0"
    | (Fine) "fr_error_flg fr \<noteq> 0 \<or> fr_error_code fr = 0 \<and> queue_error_code (sock_param m) = 0" by blast
  then show ?thesis
  proof cases
    case Framer
    from fail_ready [OF r decode_framer_error_short, of "decode_framer_error (fr_error_code fr)" "fr_error_code fr"]
    obtain ma m2 fr1 where "framer_failed m = Inr ma"
      "set_sidaq_error ma (decode_framer_error (fr_error_code fr)) (decode_framer_error_string (fr_error_code fr)) 0 = Inr m2"
      "ready m2 q e fr1" "pending fr1 = pending fr" "same_config fr fr1" by auto
    then show ?thesis using Framer f stop [of m2 fr1]
      by (intro exI [of _ Ph_wait] exI [of _ "m2\<lparr>sock_param := (sock_param m2)\<lparr>sp_run := False\<rparr>\<rparr>"] exI [of _ fr1])
        (simp add: error_check_begin_def same_config_def)
  next
    case Queue
    have "length ''Socket Receive Queue Error'' < 1024" by simp
    from fail_ready [OF r this, of "decode_sock_queue_error (queue_error_code (sock_param m))"]
    obtain ma m2 fr1 where "framer_failed m = Inr ma"
      "set_sidaq_error ma (decode_sock_queue_error (queue_error_code (sock_param m))) ''Socket Receive Queue Error'' 0 = Inr m2"
      "ready m2 q e fr1" "pending fr1 = pending fr" "same_config fr fr1" by auto
    then show ?thesis using Queue f
      by (intro exI [of _ Ph_test] exI [of _ m2] exI [of _ fr1]) (simp add: error_check_begin_def same_config_def)
  next
    case Fine
    then show ?thesis using f r
      by (intro exI [of _ Ph_test] exI [of _ m] exI [of _ fr]) (auto simp: error_check_begin_def)
  qed
qed

lemma no_data_phase:
  assumes r: "ready m q e fr"
  shows "\<exists>ph m1 fr1. no_data_test m = Inr (ph, m1) \<and> ready m1 q e fr1 \<and> pending fr1 = pending fr \<and>
    fr_queue_limit fr1 = fr_queue_limit fr \<and> ph \<in> {Ph_rest, Ph_test}"
proof -
  have f: "framer_of m = Inr fr" using framer_of_holds r by (auto simp: ready_def)
  have "length ''Socket Receive Queue Error'' < 1024" by simp
  from fail_ready [OF r this, of "decode_sock_queue_error (queue_error_code (sock_param m))"] obtain ma m2 fr1 where
    "framer_failed m = Inr ma"
    "set_sidaq_error ma (decode_sock_queue_error (queue_error_code (sock_param m))) ''Socket Receive Queue Error'' 0 = Inr m2"
    "ready m2 q e fr1" "pending fr1 = pending fr" "same_config fr fr1" by auto
  then show ?thesis using r f unfolding no_data_test_def same_config_def by auto
qed

lemma exit_phase:
  assumes r: "ready m q e fr"
  shows "\<exists>ph m1. exit_begin m = Inr (ph, m1) \<and> ready m1 q e fr \<and> ph \<in> {Ph_exit_wait, Ph_done}"
proof -
  have f: "framer_of m = Inr fr" using framer_of_holds r by (auto simp: ready_def)
  then show ?thesis using r ready_status [OF r, of SIDAQ_IDLE] ready_stop(1) [OF r] by (auto simp: exit_begin_def)
qed

lemma rest_phase:
  assumes r: "ready m q e fr" and mem: "receive_memory [] m"
  shows "\<exists>m1 e1 fr1. put_rest_frame m = Inr m1 \<and> ready m1 q e1 fr1 \<and> pending fr1 = [] \<and>
    concat (sq_frames e1) = concat (sq_frames e) @ pending fr \<and> fr_queue_limit fr1 = fr_queue_limit fr \<and>
    sock_param m1 = sock_param m \<and> status m1 = status m \<and> fr_error_flg fr1 = fr_error_flg fr"
proof -
  have h: "holds m q e fr" "framer_ok fr" using r by (simp_all add: ready_def)
  have "length (pending fr) \<le> sq_room e" using mem h(1) by (auto simp: receive_memory_def)
  then have "fr_rest fr = 0 \<or> 0 < sq_room e" using length_pending [OF h(2)] by linarith
  from put_rest_ready [OF r this] show ?thesis by (auto simp: same_config_def)
qed

lemma receive_phase:
  assumes r: "ready m q e fr" and mem: "receive_memory bs m" and n: "n = int (length bs)" "length bs < 2 ^ 31"
  shows "\<exists>m1 e1 fr1 out dropped. shared_receive gets (Some past) bs n m = Inr (m1, out) \<and> ready m1 q e1 fr1 \<and>
    fr_queue_limit fr1 = fr_queue_limit fr \<and> status m1 = status m \<and> sock_param m1 = sock_param m \<and>
    concat out @ concat (sq_frames e1) @ pending fr1 @ dropped = concat (sq_frames e) @ pending fr @ bs \<and>
    (fr_queue_limit fr = 0 \<longrightarrow> dropped = [])"
proof -
  have h: "holds m q e fr" using r by (simp add: ready_def)
  have "length (pending fr) + length bs \<le> sq_room e" using mem h by (auto simp: receive_memory_def)
  from shared_receive_ready [OF r this n(2), of gets past] n(1) show ?thesis by simp
qed

lemma put_phase:
  assumes r: "ready m q e fr" and th: "t_queue th = 0" "t_buf_size th < 2 ^ 31" and os: "0 < os_recv os" "os_ok (t_buf_size th) (Round os)"
    and mem: "sock_memory m"
  shows "\<exists>cnt lp q1. put_begin SQPut os (sock_param m) th = Inr (cnt, lp) \<and> ready (m\<lparr>sock_param := lp\<rparr>) q1 e fr \<and>
    sq_frames q1 = sq_frames q @ [os_data os] \<and> total q1 = total q \<and> lp = (sock_param m)\<lparr>squeue_list_ptr := Some [q1]\<rparr>"
proof -
  have h: "holds m q e fr" "sq_inv q" "\<forall>f\<in>set (sq_frames q). length f < 2 ^ 31" using r by (simp_all add: ready_def)
  have room: "0 < sq_room q" using mem h(1) by (simp add: sock_memory_def)
  let ?buf = "write_at 0 (os_data os) (replicate (nat (t_buf_size th)) 0)"
  have len: "os_recv os = int (length (os_data os))" "length (os_data os) \<le> nat (t_buf_size th)"
    using os by (auto simp: os_ok_def)
  have "os_recv os \<le> int (length ?buf)" using len os by (auto simp: os_ok_def)
  from SQPut_inv [OF h(2) room _ this] os(1) obtain q1 where q1: "SQPut ?buf (os_recv os) q = Inr (int (length (sq_frames q)) + 1, q1)"
    "sq_inv q1" "sq_frames q1 = sq_frames q @ [take (nat (os_recv os)) ?buf]" by auto
  have f: "sq_frames q1 = sq_frames q @ [os_data os]" using q1(3) len by simp
  have small: "\<forall>f\<in>set (sq_frames q1). length f < 2 ^ 31" using f h(3) len th(2) by auto
  let ?lp = "(sock_param m)\<lparr>squeue_list_ptr := Some [q1]\<rparr>"
  have "put_begin SQPut os (sock_param m) th = Inr (int (length (sq_frames q)) + 1, ?lp)"
    using h(1) th(1) q1(1) by (simp add: put_begin_def holds_def)
  moreover have "ready (m\<lparr>sock_param := ?lp\<rparr>) q1 e fr"
    by (rule ready_sock_param [OF r q1(2)]) (use h(1) small in \<open>simp_all add: holds_def\<close>)
  ultimately show ?thesis using f put_total [OF room q1(1) f] by blast
qed

lemma put_end_phase:
  assumes r: "ready m q e fr" and "put_end os cnt (sock_param m) th = (lp, th1)"
  shows "ready (m\<lparr>sock_param := lp\<rparr>) q e fr" "t_queue th1 = t_queue th" "t_buf_size th1 = t_buf_size th"
  using assms by (auto simp: put_end_def close_and_break_def ready_def holds_def split: if_splits)

lemma idle_phase:
  assumes r: "ready m q e fr" and th: "t_queue th = 0" and idle: "taken os (sock_param m, th) = []"
  shows "\<exists>lp th1. sock_step SQPut os (sock_param m, th) = Inr (lp, th1) \<and> ready (m\<lparr>sock_param := lp\<rparr>) q e fr \<and>
    t_queue th1 = 0 \<and> t_buf_size th1 = t_buf_size th"
proof -
  have h: "holds m q e fr" using r by (simp add: ready_def)
  have "serves (sock_param m) th q" using h th by (simp add: serves_def holds_def)
  from idle_step [OF this idle, of SQPut] obtain lp th1 where s: "sock_step SQPut os (sock_param m, th) = Inr (lp, th1)"
    "serves lp th1 q" "t_buf_size th1 = t_buf_size th" by blast
  have "ready (m\<lparr>sock_param := lp\<rparr>) q e fr"
    by (rule ready_sock_param [OF r]) (use r s(2) sock_step_keeps(1) [OF s(1)] in \<open>simp_all add: ready_def serves_def\<close>)
  then show ?thesis using s by (auto simp: serves_def)
qed

lemma drain_recv_phase:
  assumes r: "ready m q e fr"
  shows "\<exists>m1 q1. drain_recv m = Inr (sq_frames q \<noteq> [], m1) \<and> ready m1 q1 e fr \<and> total q1 = total q \<and>
    sq_frames q1 = tl (sq_frames q) \<and> status m1 = status m \<and> m1 = set_recv_queue q1 m \<and>
    (\<forall>k. sq_drain (Suc k) q = (if sq_frames q = [] then Inr q1 else sq_drain k q1))"
proof -
  have h: "holds m q e fr" "sq_inv q" "\<forall>f\<in>set (sq_frames q). length f < 2 ^ 31" using r by (simp_all add: ready_def)
  from get_block [OF h(2), of "-1"] obtain p n q1 where q1: "SQGet (\<lambda>_. id) False (-1) q = Inr (p, n, q1)"
    "sq_inv (SiDaqDeleteData p q1)" "sq_frames q = (case p of None \<Rightarrow> [] | Some bs \<Rightarrow> [bs]) @ sq_frames (SiDaqDeleteData p q1)"
    "total (SiDaqDeleteData p q1) = total q" "p = None \<longleftrightarrow> sq_frames q = []" by (auto simp: total_def)
  let ?m1 = "set_recv_queue (SiDaqDeleteData p q1) m"
  have "drain_recv m = Inr (sq_frames q \<noteq> [], ?m1)" using h(1) q1(1,5) by (auto simp: drain_recv_def)
  moreover have "ready ?m1 (SiDaqDeleteData p q1) e fr"
    using r holds_set_recv [OF h(1), of "SiDaqDeleteData p q1"] q1(2,3) h(3) by (auto simp: ready_def split: option.splits)
  moreover have "sq_frames (SiDaqDeleteData p q1) = tl (sq_frames q)" using q1(3,5) by (cases p) auto
  moreover have "sq_drain (Suc k) q = (if sq_frames q = [] then Inr (SiDaqDeleteData p q1) else sq_drain k (SiDaqDeleteData p q1))" for k
    using q1(1,5) by (cases p) (auto simp: SiDaqDeleteData_def)
  ultimately show ?thesis using q1(4) by auto
qed

lemma drain_event_phase:
  assumes r: "ready m q e fr"
  shows "\<exists>m1 e1. drain_event m = Inr (sq_frames e \<noteq> [], m1) \<and> ready m1 q e1 fr \<and> sq_frames e1 = tl (sq_frames e) \<and>
    sq_room e \<le> sq_room e1 \<and> status m1 = status m \<and> m1 = m\<lparr>m_eventFrame := Some e1\<rparr> \<and>
    (\<forall>k. sq_drain (Suc k) e = (if sq_frames e = [] then Inr e1 else sq_drain k e1))"
proof -
  have h: "holds m q e fr" "sq_inv e" using r by (simp_all add: ready_def)
  from get_block [OF h(2), of "-1"] obtain p n e1 where e1: "SQGet (\<lambda>_. id) False (-1) e = Inr (p, n, e1)"
    "sq_inv (SiDaqDeleteData p e1)" "sq_frames e = (case p of None \<Rightarrow> [] | Some bs \<Rightarrow> [bs]) @ sq_frames (SiDaqDeleteData p e1)"
    "p = None \<longleftrightarrow> sq_frames e = []" "sq_room e \<le> sq_room (SiDaqDeleteData p e1)" by auto
  let ?m1 = "m\<lparr>m_eventFrame := Some (SiDaqDeleteData p e1)\<rparr>"
  have "drain_event m = Inr (sq_frames e \<noteq> [], ?m1)" using h(1) e1(1,4) by (auto simp: drain_event_def)
  moreover have "ready ?m1 q (SiDaqDeleteData p e1) fr" using r e1(2) by (simp add: ready_def holds_def)
  moreover have "sq_frames (SiDaqDeleteData p e1) = tl (sq_frames e)" using e1(3,4) by (cases p) auto
  moreover have "sq_drain (Suc k) e = (if sq_frames e = [] then Inr (SiDaqDeleteData p e1) else sq_drain k (SiDaqDeleteData p e1))" for k
    using e1(1,4) by (cases p) (auto simp: SiDaqDeleteData_def)
  ultimately show ?thesis using e1(5) by auto
qed

subsection \<open>Preservation\<close>

lemma owes_simps [simp]: "owes_block Ph_free" "owes_block (Ph_got bs n)" "\<not> owes_block Ph_start" "\<not> owes_block Ph_test"
  "\<not> owes_block Ph_get" "\<not> owes_block Ph_check" "\<not> owes_block Ph_wait" "\<not> owes_block Ph_empty" "\<not> owes_block Ph_rest"
  "\<not> owes_block Ph_exit" "\<not> owes_block Ph_exit_wait" "\<not> owes_block Ph_done"
  by (simp_all add: owes_block_def)

text \<open>A step that moves no data.\<close>

lemma quiet_ok:
  assumes ok: "fine_ok lim s q e fr" and r: "ready (fi_m s1) q e fr1" "fr_queue_limit fr1 = fr_queue_limit fr" "pending fr1 = pending fr"
    and same: "fi_in s1 = fi_in s" "concat (fi_out s1) = concat (fi_out s)" "fi_was_reset s1 = fi_was_reset s \<or> fi_was_reset s1"
      "in_hand (fi_fr s1) = in_hand (fi_fr s)" "received (fi_hand s1) = received (fi_hand s)"
    and h: "hand_ok s1" "owes_block (fi_fr s1) \<longrightarrow> owes_block (fi_fr s)"
  shows "fine_ok lim s1 q e fr1"
proof (rule fine_okI)
  show "fine_accounted s1 q e fr1" using fine_okD(3) [OF ok] r(2,3) same by (auto simp: fine_accounted_def)
qed (use fine_okD [OF ok] r h in auto)

text \<open>The manager changes but the queues and the framer keep their bytes; the framer thread goes to another phase
  with nothing in its hand; a flag of the application changes.\<close>

lemma ready_m:
  assumes ok: "fine_ok lim s q e fr" and "ready m1 q e fr1" "fr_queue_limit fr1 = fr_queue_limit fr" "pending fr1 = pending fr"
  shows "fine_ok lim (s\<lparr>fi_m := m1\<rparr>) q e fr1"
  using fine_okD(4) [OF ok] by (intro quiet_ok [OF ok]) (simp_all add: assms hand_ok_def)

lemma phase_ok:
  assumes ok: "fine_ok lim s q e fr" and "in_hand (fi_fr s) = []" "in_hand ph = []" "\<not> owes_block ph"
  shows "fine_ok lim (s\<lparr>fi_fr := ph\<rparr>) q e fr"
  using fine_okD(1,4) [OF ok] assms(2-4) by (intro quiet_ok [OF ok]) (auto simp: hand_ok_def owes_block_def)

lemma flag_ok [simp]:
  "fine_ok lim (s\<lparr>fi_in_run := b\<rparr>) q e fr = fine_ok lim s q e fr"
  "fine_ok lim (s\<lparr>fi_stop := b\<rparr>) q e fr = fine_ok lim s q e fr"
  by (simp_all add: fine_ok_def fine_accounted_def hand_ok_def)

abbreviation fine_kept :: "int \<Rightarrow> fine \<Rightarrow> bool" where
  "fine_kept lim s \<equiv> \<exists>q e fr. fine_ok lim s q e fr"

lemma keptI: "fine_ok lim s q e fr \<Longrightarrow> fine_kept lim s"
  by blast

text \<open>The steps, one by one.\<close>

lemma kept_run_returns:
  assumes ok: "fine_ok lim s q e fr"
    and run_returns: "s1 = s\<lparr>fi_m := run_finish (fi_m s), fi_in_run := False\<rparr>"
    "fi_in_run s"
  shows "fine_kept lim s1"
  using ready_m [OF ok ready_status [OF fine_okD(1) [OF ok]]] run_returns by (auto simp: run_finish_def)

lemma kept_stop_1:
  assumes ok: "fine_ok lim s q e fr" and stop_1: "s1 = s\<lparr>fi_m := stop_begin (fi_m s), fi_stop := True\<rparr>"
    "fine_free s" "status (fi_m s) = SIDAQ_RUN \<or> status (fi_m s) = SIDAQ_SYS_ERROR"
  shows "fine_kept lim s1"
  using ready_m [OF ok ready_stop(1) [OF fine_okD(1) [OF ok]]] stop_1 by auto

lemma kept_stop_2:
  assumes ok: "fine_ok lim s q e fr" and stop_2: "s1 = s\<lparr>fi_m := stop_end (fi_m s), fi_stop := False\<rparr>"
    "fi_stop s"
  shows "fine_kept lim s1"
  using ready_m [OF ok ready_stop(2) [OF fine_okD(1) [OF ok]]] stop_2 by auto

lemma kept_pause:
  assumes ok: "fine_ok lim s q e fr" and pause: "s1 = s\<lparr>fi_m := m1\<rparr>"
    "\<not> fi_in_run s" "SiDaqPauseRecvData (Some (fi_m s)) = Some m1"
  shows "fine_kept lim s1"
  using ready_m [OF ok ready_pause(1) [OF fine_okD(1) [OF ok] pause(3)]] pause by auto

lemma kept_resume:
  assumes ok: "fine_ok lim s q e fr" and resume: "s1 = s\<lparr>fi_m := m1\<rparr>"
    "\<not> fi_in_run s" "SiDaqResumeRecvData (Some (fi_m s)) = Some m1"
  shows "fine_kept lim s1"
  using ready_m [OF ok ready_pause(2) [OF fine_okD(1) [OF ok] resume(3)]] resume by auto

lemma kept_reset_1:
  assumes ok: "fine_ok lim s q e fr"
    and reset_1: "s1 = s\<lparr>fi_m := reset_begin (fi_m s), fi_reset := Some (Rs_recv (status (fi_m s))), fi_was_reset := True\<rparr>"
    "fine_free s" "status (fi_m s) = SIDAQ_STOPPING \<or> status (fi_m s) = SIDAQ_SYS_ERROR"
  shows "fine_kept lim s1"
proof -
  note r = fine_okD(1) [OF ok] and ho = fine_okD(4) [OF ok] and quiet = quiet_ok [OF ok]
  have "fine_ok lim s1 q e fr"
    by (rule quiet) (use reset_1 ready_status [OF r] ho in \<open>simp_all add: hand_ok_def reset_begin_def\<close>)
  then show ?thesis by blast
qed

lemma kept_reset_recv:
  assumes ok: "fine_ok lim s q e fr"
    and reset_recv: "s1 = s\<lparr>fi_m := m1, fi_reset := Some (if again then Rs_recv found else Rs_event found)\<rparr>"
    "fi_reset s = Some (Rs_recv found)" "drain_recv (fi_m s) = Inr (again, m1)"
  shows "fine_kept lim s1"
proof -
  note r = fine_okD(1) [OF ok] and ho = fine_okD(4) [OF ok] and spare = fine_okD(5) [OF ok]
  from drain_recv_phase [OF r] reset_recv(3) obtain q1 where "ready m1 q1 e fr" "total q1 = total q" by auto
  moreover have "fi_was_reset s" using ho reset_recv(2) by (simp add: hand_ok_def)
  ultimately have "fine_ok lim s1 q1 e fr"
    by (intro fine_okI) (use fine_okD(2) [OF ok] reset_recv ho spare in \<open>simp_all add: fine_accounted_def hand_ok_def\<close>)
  then show ?thesis by blast
qed

lemma kept_reset_event:
  assumes ok: "fine_ok lim s q e fr" and reset_event: "s1 = s\<lparr>fi_m := m1\<rparr>"
    "fi_reset s = Some (Rs_event found)" "drain_event (fi_m s) = Inr (True, m1)"
  shows "fine_kept lim s1"
proof -
  note r = fine_okD(1) [OF ok] and ho = fine_okD(4) [OF ok] and spare = fine_okD(5) [OF ok]
  from drain_event_phase [OF r] reset_event(3) obtain e1 where "ready m1 q e1 fr" by auto
  moreover have "fi_was_reset s" using ho reset_event(2) by (simp add: hand_ok_def)
  ultimately have "fine_ok lim s1 q e1 fr"
    by (intro fine_okI) (use fine_okD(2) [OF ok] reset_event ho spare in \<open>simp_all add: fine_accounted_def hand_ok_def\<close>)
  then show ?thesis by blast
qed

lemma kept_reset_done:
  assumes ok: "fine_ok lim s q e fr"
    and reset_done: "s1 = s\<lparr>fi_m := reset_status found m1, fi_reset := None\<rparr>"
    "fi_reset s = Some (Rs_event found)" "drain_event (fi_m s) = Inr (False, m1)"
  shows "fine_kept lim s1"
proof -
  note r = fine_okD(1) [OF ok] and ho = fine_okD(4) [OF ok] and spare = fine_okD(5) [OF ok]
  from drain_event_phase [OF r] reset_done(3) obtain e1 where "ready m1 q e1 fr" by auto
  moreover from ready_status [OF this] have "ready (reset_status found m1) q e1 fr" by (simp add: reset_status_def)
  moreover have "fi_was_reset s" using ho reset_done(2) by (simp add: hand_ok_def)
  ultimately have "fine_ok lim s1 q e1 fr"
    by (intro fine_okI) (use fine_okD(2) [OF ok] reset_done ho spare in \<open>simp_all add: fine_accounted_def hand_ok_def\<close>)
  then show ?thesis by blast
qed

lemma kept_get:
  assumes ok: "fine_ok lim s q e fr" and get: "s1 = s\<lparr>fi_m := m1, fi_out := fi_out s @ nonempty bs\<rparr>"
    "\<not> fi_in_run s" "get_and_delete w (fi_m s) = Inr (bs, m1)"
  shows "fine_kept lim s1"
proof -
  note r = fine_okD(1) [OF ok] and acc = fine_okD(3) [OF ok] and ho = fine_okD(4) [OF ok] and spare = fine_okD(5) [OF ok]
  from get_ready [OF r, of w] get(3) obtain e1 where g: "ready m1 q e1 fr" "concat (sq_frames e) = bs @ concat (sq_frames e1)" by auto
  have "fine_ok lim s1 q e1 fr"
    by (rule fine_okI) (use fine_okD(2) [OF ok] get g acc ho spare in \<open>auto simp: fine_accounted_def hand_ok_def\<close>)
  then show ?thesis by blast
qed

lemma kept_sock_start:
  assumes ok: "fine_ok lim s q e fr"
    and sock_start: "s1 = s\<lparr>fi_m := (fi_m s)\<lparr>sock_param := lp\<rparr>, fi_sock := Some th\<rparr>"
    "fi_sock s = None" "sock_thread_start True (sock_param (fi_m s)) = Inr (lp, th)"
  shows "fine_kept lim s1"
proof -
  note r = fine_okD(1) [OF ok] and ho = fine_okD(4) [OF ok] and quiet = quiet_ok [OF ok]
  note st = sock_start_ready [OF r sock_start(3)]
  have "fi_hand s \<noteq> Received os" for os using ho sock_start(2) by (auto simp: hand_ok_def)
  then have "hand_ok s1" using ho sock_start(1) st(2,3) by (simp add: hand_ok_def)
  then have "fine_ok lim s1 q e fr" by (intro quiet) (use sock_start st(1) in simp_all)
  then show ?thesis by blast
qed

lemma kept_sock_idle:
  assumes ok: "fine_ok lim s q e fr"
    and sock_idle: "s1 = s\<lparr>fi_m := (fi_m s)\<lparr>sock_param := lp\<rparr>, fi_sock := Some th1\<rparr>"
    "fi_sock s = Some th" "fi_hand s = Nothing" "taken os (sock_param (fi_m s), th) = []"
    "sock_step SQPut os (sock_param (fi_m s), th) = Inr (lp, th1)"
  shows "fine_kept lim s1"
proof -
  note r = fine_okD(1) [OF ok] and ho = fine_okD(4) [OF ok] and quiet = quiet_ok [OF ok]
  have th: "t_queue th = 0" "t_buf_size th < 2 ^ 31" using ho sock_idle(2) by (simp_all add: hand_ok_def)
  from idle_phase [OF r th(1) sock_idle(4)] sock_idle(5) have i: "ready ((fi_m s)\<lparr>sock_param := lp\<rparr>) q e fr" "t_queue th1 = 0"
    "t_buf_size th1 = t_buf_size th" by auto
  have "hand_ok s1" using ho sock_idle(1-3) i th by (simp add: hand_ok_def)
  then have "fine_ok lim s1 q e fr" by (intro quiet) (use sock_idle i in simp_all)
  then show ?thesis by blast
qed

lemma kept_sock_recv:
  assumes ok: "fine_ok lim s q e fr"
    and sock_recv: "s1 = s\<lparr>fi_sock := Some (th\<lparr>t_recv_len := os_recv os\<rparr>), fi_hand := Received os, fi_in := fi_in s @ os_data os\<rparr>"
    "fi_sock s = Some th" "fi_hand s = Nothing" "t_pc th = Inner_loop" "\<not> pause_flg (sock_param (fi_m s))"
    "0 < os_recv os" "os_ok (t_buf_size th) (Round os)"
  shows "fine_kept lim s1"
proof -
  note r = fine_okD(1) [OF ok] and acc = fine_okD(3) [OF ok] and ho = fine_okD(4) [OF ok] and spare = fine_okD(5) [OF ok]
  have "hand_ok s1" using ho sock_recv by (simp add: hand_ok_def)
  moreover have "fine_accounted s1 q e fr" using acc sock_recv by (auto simp: fine_accounted_def)
  ultimately have "fine_ok lim s1 q e fr" by (intro fine_okI) (use fine_okD(2) [OF ok] sock_recv r spare in simp_all)
  then show ?thesis by blast
qed

lemma kept_sock_put:
  assumes ok: "fine_ok lim s q e fr"
    and sock_put: "s1 = s\<lparr>fi_m := (fi_m s)\<lparr>sock_param := lp\<rparr>, fi_hand := Queued os cnt\<rparr>"
    "fi_sock s = Some th" "fi_hand s = Received os" "sock_memory (fi_m s)"
    "put_begin SQPut os (sock_param (fi_m s)) th = Inr (cnt, lp)"
  shows "fine_kept lim s1"
proof -
  note r = fine_okD(1) [OF ok] and acc = fine_okD(3) [OF ok] and ho = fine_okD(4) [OF ok] and spare = fine_okD(5) [OF ok]
  have th: "t_queue th = 0" "t_buf_size th < 2 ^ 31" "0 < os_recv os" "os_ok (t_buf_size th) (Round os)"
    using ho sock_put(2,3) by (auto simp: hand_ok_def)
  from put_phase [OF r th sock_put(4)] sock_put(5) obtain q1 where p: "ready ((fi_m s)\<lparr>sock_param := lp\<rparr>) q1 e fr"
    "sq_frames q1 = sq_frames q @ [os_data os]" "total q1 = total q" by auto
  have "hand_ok s1" using ho sock_put(1,2) by (simp add: hand_ok_def)
  moreover have "fine_accounted s1 q1 e fr" using acc sock_put(1,3) p(2) by (auto simp: fine_accounted_def)
  ultimately have "fine_ok lim s1 q1 e fr" by (intro fine_okI) (use fine_okD(2) [OF ok] sock_put(1) p spare in simp_all)
  then show ?thesis by blast
qed

lemma kept_sock_put_end:
  assumes ok: "fine_ok lim s q e fr"
    and sock_put_end: "s1 = s\<lparr>fi_m := (fi_m s)\<lparr>sock_param := lp\<rparr>, fi_sock := Some th1, fi_hand := Nothing\<rparr>"
    "fi_sock s = Some th" "fi_hand s = Queued os cnt" "put_end os cnt (sock_param (fi_m s)) th = (lp, th1)"
  shows "fine_kept lim s1"
proof -
  note r = fine_okD(1) [OF ok] and ho = fine_okD(4) [OF ok] and quiet = quiet_ok [OF ok]
  note p = put_end_phase [OF r sock_put_end(4)]
  have "hand_ok s1" using ho sock_put_end(1-3) p(2,3) by (simp add: hand_ok_def)
  then have "fine_ok lim s1 q e fr" by (intro quiet) (use sock_put_end p in simp_all)
  then show ?thesis by blast
qed

lemma kept_fr_start:
  assumes ok: "fine_ok lim s q e fr" and fr_start: "s1 = s\<lparr>fi_m := m1, fi_fr := Ph_test\<rparr>"
    "fi_fr s = Ph_start" "framer_thread_start (fi_m s) = Inr m1"
  shows "fine_kept lim s1"
proof -
  note r = fine_okD(1) [OF ok] and ho = fine_okD(4) [OF ok] and quiet = quiet_ok [OF ok]
  from start_ready [OF r] fr_start(3) obtain fr1 where "ready m1 q e fr1" "pending fr1 = pending fr"
    "fr_queue_limit fr1 = fr_queue_limit fr" by auto
  then have "fine_ok lim s1 q e fr1" by (intro quiet) (use fr_start ho in \<open>simp_all add: hand_ok_def\<close>)
  then show ?thesis by blast
qed

lemma kept_fr_test:
  assumes ok: "fine_ok lim s q e fr"
    and fr_test: "s1 = s\<lparr>fi_fr := (if framer_runs (fi_m s) then Ph_get else Ph_exit)\<rparr>"
    "fi_fr s = Ph_test"
  shows "fine_kept lim s1"
  by (rule keptI [of _ _ q e fr]) (use phase_ok [OF ok] fr_test in simp)

lemma kept_fr_get:
  assumes ok: "fine_ok lim s q e fr" and fr_get: "s1 = s\<lparr>fi_m := m1, fi_fr := ph\<rparr>"
    "fi_fr s = Ph_get" "framer_get (\<lambda>_. id) late (fi_m s) = Inr (ph, m1)"
  shows "fine_kept lim s1"
proof -
  note r = fine_okD(1) [OF ok] and acc = fine_okD(3) [OF ok] and ho = fine_okD(4) [OF ok]
  from get_phase [OF r, of late] fr_get(3) obtain q1 where g: "ready m1 q1 e fr"
    "sq_frames q = (case ph of Ph_got bs n \<Rightarrow> [bs] | _ \<Rightarrow> []) @ sq_frames q1"
    "case ph of Ph_got bs n \<Rightarrow> n = int (length bs) \<and> length bs < 2 ^ 31 \<and> total q1 + 1 = total q | _ \<Rightarrow> ph = Ph_empty" by auto
  have "total q < 2 ^ 31" using r sq_inv_quota_free by (simp add: ready_def total_def)
  then have "owes_block ph \<longrightarrow> total q1 + 1 < 2 ^ 31" using g(3) by (cases ph) auto
  moreover have "hand_ok s1" using ho fr_get(1) g(3) by (auto simp: hand_ok_def)
  moreover have "concat (sq_frames q) = in_hand ph @ concat (sq_frames q1)" using g(2,3) by (cases ph) auto
  then have "fine_accounted s1 q1 e fr" using acc fr_get(1,2) by (auto simp: fine_accounted_def)
  ultimately have "fine_ok lim s1 q1 e fr" by (intro fine_okI) (use fine_okD(2) [OF ok] fr_get(1) g(1) in simp_all)
  then show ?thesis by blast
qed

lemma kept_fr_receive:
  assumes ok: "fine_ok lim s q e fr"
    and fr_receive: "s1 = s\<lparr>fi_m := m1, fi_fr := Ph_free, fi_out := fi_out s @ out\<rparr>"
    "fi_fr s = Ph_got bs n" "receive_memory bs (fi_m s)" "shared_receive gets past bs n (fi_m s) = Inr (m1, out)"
  shows "fine_kept lim s1"
proof -
  note r = fine_okD(1) [OF ok] and acc = fine_okD(3) [OF ok] and ho = fine_okD(4) [OF ok] and spare = fine_okD(5) [OF ok]
  have n: "n = int (length bs)" "length bs < 2 ^ 31" using ho fr_receive(2) by (simp_all add: hand_ok_def)
  obtain p where "shared_receive gets (Some p) bs n (fi_m s) = Inr (m1, out)"
    using fr_receive(4) by (rule shared_receive_readable)
  with receive_phase [OF r fr_receive(3) n, of gets p] obtain e1 fr1 dropped where p: "ready m1 q e1 fr1"
    "fr_queue_limit fr1 = fr_queue_limit fr" "fr_queue_limit fr = 0 \<longrightarrow> dropped = []"
    "concat out @ concat (sq_frames e1) @ pending fr1 @ dropped = concat (sq_frames e) @ pending fr @ bs" by auto
  have "fine_accounted s1 q e1 fr1"
  proof (cases "fi_was_reset s \<or> fr_queue_limit fr \<noteq> 0")
    case False
    then have "concat out @ concat (sq_frames e1) @ pending fr1 = concat (sq_frames e) @ pending fr @ bs" using p(3,4) by simp
    from arg_cong [OF this, of "\<lambda>z. concat (fi_out s) @ z @ concat (sq_frames q) @ received (fi_hand s)"]
    show ?thesis using False acc fr_receive(1,2) by (simp add: fine_accounted_def)
  qed (use fr_receive(1) p(2) in \<open>auto simp: fine_accounted_def\<close>)
  moreover have "hand_ok s1" using ho fr_receive(1) by (simp add: hand_ok_def)
  ultimately have "fine_ok lim s1 q e1 fr1" by (intro fine_okI) (use fine_okD(2) [OF ok] fr_receive(1,2) p(1,2) spare in simp_all)
  then show ?thesis by blast
qed

lemma kept_fr_free:
  assumes ok: "fine_ok lim s q e fr" and fr_free: "s1 = s\<lparr>fi_m := m1, fi_fr := Ph_check\<rparr>"
    "fi_fr s = Ph_free" "framer_free (fi_m s) = Inr m1"
  shows "fine_kept lim s1"
proof -
  note r = fine_okD(1) [OF ok] and acc = fine_okD(3) [OF ok] and ho = fine_okD(4) [OF ok] and spare = fine_okD(5) [OF ok]
  from free_phase [OF r] spare fr_free(2,3) obtain q1 where p: "ready m1 q1 e fr" "sq_frames q1 = sq_frames q" by auto
  have "fine_ok lim s1 q1 e fr"
    by (rule fine_okI) (use fine_okD(2) [OF ok] fr_free(1,2) p acc ho in \<open>auto simp: fine_accounted_def hand_ok_def\<close>)
  then show ?thesis by blast
qed

lemma kept_fr_check:
  assumes ok: "fine_ok lim s q e fr" and fr_check: "s1 = s\<lparr>fi_m := m1, fi_fr := ph\<rparr>"
    "fi_fr s = Ph_check" "error_check_begin (fi_m s) = Inr (ph, m1)"
  shows "fine_kept lim s1"
proof -
  note r = fine_okD(1) [OF ok] and ho = fine_okD(4) [OF ok] and quiet = quiet_ok [OF ok]
  from check_phase [OF r] fr_check(3) obtain fr1 where p: "ready m1 q e fr1" "pending fr1 = pending fr"
    "fr_queue_limit fr1 = fr_queue_limit fr" "ph \<in> {Ph_wait, Ph_test}" by auto
  then have "fine_ok lim s1 q e fr1" by (intro quiet) (use fr_check ho in \<open>auto simp: hand_ok_def\<close>)
  then show ?thesis by blast
qed

lemma kept_fr_wait:
  assumes ok: "fine_ok lim s q e fr" and fr_wait: "s1 = s\<lparr>fi_m := stop_end (fi_m s), fi_fr := Ph_test\<rparr>"
    "fi_fr s = Ph_wait"
  shows "fine_kept lim s1"
  by (rule keptI [of _ _ q e fr]) (use phase_ok [OF ready_m [OF ok ready_stop(2) [OF fine_okD(1) [OF ok]]]] fr_wait in simp)

lemma kept_fr_empty:
  assumes ok: "fine_ok lim s q e fr" and fr_empty: "s1 = s\<lparr>fi_m := m1, fi_fr := ph\<rparr>"
    "fi_fr s = Ph_empty" "no_data_test (fi_m s) = Inr (ph, m1)"
  shows "fine_kept lim s1"
proof -
  note r = fine_okD(1) [OF ok] and ho = fine_okD(4) [OF ok] and quiet = quiet_ok [OF ok]
  from no_data_phase [OF r] fr_empty(3) obtain fr1 where p: "ready m1 q e fr1" "pending fr1 = pending fr"
    "fr_queue_limit fr1 = fr_queue_limit fr" "ph \<in> {Ph_rest, Ph_test}" by auto
  then have "fine_ok lim s1 q e fr1" by (intro quiet) (use fr_empty ho in \<open>auto simp: hand_ok_def\<close>)
  then show ?thesis by blast
qed

lemma kept_fr_rest:
  assumes ok: "fine_ok lim s q e fr" and fr_rest: "s1 = s\<lparr>fi_m := m1, fi_fr := Ph_exit\<rparr>"
    "fi_fr s = Ph_rest" "receive_memory [] (fi_m s)" "put_rest_frame (fi_m s) = Inr m1"
  shows "fine_kept lim s1"
proof -
  note r = fine_okD(1) [OF ok] and acc = fine_okD(3) [OF ok] and ho = fine_okD(4) [OF ok]
  from rest_phase [OF r fr_rest(3)] fr_rest(4) obtain e1 fr1 where p: "ready m1 q e1 fr1" "pending fr1 = []"
    "concat (sq_frames e1) = concat (sq_frames e) @ pending fr" "fr_queue_limit fr1 = fr_queue_limit fr" by auto
  have "fine_ok lim s1 q e1 fr1"
    by (rule fine_okI) (use fine_okD(2) [OF ok] fr_rest(1,2) p acc ho in \<open>auto simp: fine_accounted_def hand_ok_def\<close>)
  then show ?thesis by blast
qed

lemma kept_fr_exit:
  assumes ok: "fine_ok lim s q e fr" and fr_exit: "s1 = s\<lparr>fi_m := m1, fi_fr := ph\<rparr>"
    "fi_fr s = Ph_exit" "exit_begin (fi_m s) = Inr (ph, m1)"
  shows "fine_kept lim s1"
proof -
  note r = fine_okD(1) [OF ok] and ho = fine_okD(4) [OF ok] and quiet = quiet_ok [OF ok]
  from exit_phase [OF r] fr_exit(3) have p: "ready m1 q e fr" "ph \<in> {Ph_exit_wait, Ph_done}" by auto
  have "fine_ok lim s1 q e fr" by (rule quiet) (use fr_exit p ho in \<open>auto simp: hand_ok_def\<close>)
  then show ?thesis by blast
qed

lemma kept_fr_exit_wait:
  assumes ok: "fine_ok lim s q e fr"
    and fr_exit_wait: "s1 = s\<lparr>fi_m := stop_end (fi_m s), fi_fr := Ph_done\<rparr>"
    "fi_fr s = Ph_exit_wait"
  shows "fine_kept lim s1"
  by (rule keptI [of _ _ q e fr]) (use phase_ok [OF ready_m [OF ok ready_stop(2) [OF fine_okD(1) [OF ok]]]] fr_exit_wait in simp)

lemmas kept_steps = kept_run_returns kept_stop_1 kept_stop_2 kept_pause kept_resume kept_reset_1 kept_reset_recv kept_reset_event
  kept_reset_done kept_get kept_sock_start kept_sock_idle kept_sock_recv kept_sock_put kept_sock_put_end
  kept_fr_start kept_fr_test kept_fr_get kept_fr_receive kept_fr_free kept_fr_check kept_fr_wait kept_fr_empty
  kept_fr_rest kept_fr_exit kept_fr_exit_wait

lemma phase_step_ok:
  assumes "phase_step s s1" "fine_ok lim s q e fr"
  shows "fine_kept lim s1"
  using assms(1) by (cases rule: phase_step_cases) (rule kept_steps [OF assms(2)]; assumption)+

interpretation phases: preserved phase_step "fine_kept lim" for lim
  by unfold_locales (blast dest: phase_step_ok)

end
