(* ===== verification/SiDaq_Phases_Props.thy ===== *)
theory SiDaq_Phases_Props
  imports SiDaq_Phases
begin

text \<open>
  What the finer interleaving of \<open>SiDaq_Phases\<close> changes and what it does not: no byte is lost and nothing faults,
  but a stop can leave behind what had been received before it, and a reset what the framer thread had in its hand.
\<close>

section \<open>Reachable states\<close>

abbreviation phase_run :: "fine \<Rightarrow> fine \<Rightarrow> bool" where
  "phase_run \<equiv> phase_step\<^sup>*\<^sup>*"

lemma step_run: "phase_step s s1 \<Longrightarrow> phase_run s1 s2 \<Longrightarrow> phase_run s s2"
  by (rule converse_rtranclp_into_rtranclp)




section \<open>A block that arrived before a stop\<close>

text \<open>C21. The framer thread has found the receive queue empty and has not yet looked at the status; a block
  arrives, and then the application calls \<open>SiDaqStop\<close>.  The framer thread can then end without looking at the
  queue again: the stop returns, the manager is Idle, the block that had been received before the stop is on the receive
  queue, and a reset does not remove it.\<close>

theorem stop_drops_received:
  assumes "ready (fi_m s) q e fr" "fi_fr s = Ph_empty" "fine_free s" "status (fi_m s) = SIDAQ_RUN" "fr_error_flg fr = 0"
    and "receive_memory [] (fi_m s)"
  shows "\<exists>s1 q1. phase_run s s1 \<and> fi_fr s1 = Ph_done \<and> status (fi_m s1) = SIDAQ_IDLE \<and> fine_free s1 \<and> fi_in s1 = fi_in s \<and>
    recv_queue (fi_m s1) = Inr q1 \<and> sq_frames q1 = sq_frames q \<and> SiDaqResetQueue (Some (fi_m s1)) = Inr (Some (fi_m s1))"
proof -
  let ?m1 = "stop_begin (fi_m s)"
  let ?s1 = "s\<lparr>fi_m := ?m1, fi_stop := True\<rparr>"
  have p1: "phase_step s ?s1" by (rule phase_step.stop_1) (use assms(3,4) in simp_all)
  have r1: "ready ?m1 q e fr" using ready_stop(1) [OF assms(1)] .
  have st1: "status ?m1 = SIDAQ_STOPPING" using assms(4) by (simp add: stop_begin_def Let_def)
  let ?s2 = "?s1\<lparr>fi_m := ?m1, fi_fr := Ph_rest\<rparr>"
  have p2: "phase_step ?s1 ?s2" by (rule phase_step.fr_empty) (use assms(2) st1 in \<open>simp_all add: no_data_test_def\<close>)
  have h: "holds (fi_m s) q e fr" "holds ?m1 q e fr" using assms(1) r1 by (simp_all add: ready_def)
  have mem: "receive_memory [] ?m1" using assms(6) h by (simp add: receive_memory_def)
  from rest_phase [OF r1 mem] obtain m2 e2 fr2 where m2: "put_rest_frame ?m1 = Inr m2" "ready m2 q e2 fr2"
    "status m2 = status ?m1" "fr_error_flg fr2 = fr_error_flg fr" by blast
  let ?s3 = "?s2\<lparr>fi_m := m2, fi_fr := Ph_exit\<rparr>"
  have p3: "phase_step ?s2 ?s3" by (rule phase_step.fr_rest) (use mem m2(1) in simp_all)
  have "framer_of m2 = Inr fr2" using m2(2) framer_of_holds by (auto simp: ready_def)
  then have "exit_begin m2 = Inr (Ph_done, m2\<lparr>status := SIDAQ_IDLE\<rparr>)" using m2(3,4) st1 assms(5) by (simp add: exit_begin_def)
  moreover define s4 where "s4 = ?s3\<lparr>fi_m := m2\<lparr>status := SIDAQ_IDLE\<rparr>, fi_fr := Ph_done\<rparr>"
  ultimately have p4: "phase_step ?s3 s4" unfolding s4_def by (intro phase_step.fr_exit) simp_all
  define s5 where "s5 = s4\<lparr>fi_m := stop_end (fi_m s4), fi_stop := False\<rparr>"
  have p5: "phase_step s4 s5" unfolding s5_def by (rule phase_step.stop_2) (simp add: s4_def)
  have r5: "ready (fi_m s5) q e2 fr2" using ready_stop(2) [OF ready_status [OF m2(2)]] by (simp add: s4_def s5_def)
  have "phase_run s s5" using p1 p2 p3 p4 p5 by (meson converse_rtranclp_into_rtranclp rtranclp.rtrancl_refl)
  moreover have "status (fi_m s5) = SIDAQ_IDLE" by (simp add: s5_def s4_def stop_end_def)
  moreover have "recv_queue (fi_m s5) = Inr q" using r5 recv_queue_holds by (auto simp: ready_def)
  ultimately show ?thesis using assms(3)
    by (intro exI [of _ s5] exI [of _ q]) (simp add: s5_def s4_def fine_free_def SiDaqResetQueue_def)
qed

section \<open>A block that is in hand during a reset\<close>

text \<open>A reset that no other thread interrupts.\<close>

lemma drain_recv_run:
  assumes "ready (fi_m s) q e fr" "fi_reset s = Some (Rs_recv found)"
  shows "\<exists>q1. phase_run s (s\<lparr>fi_m := set_recv_queue q1 (fi_m s), fi_reset := Some (Rs_event found)\<rparr>) \<and>
    ready (set_recv_queue q1 (fi_m s)) q1 e fr \<and> sq_frames q1 = [] \<and> sq_drain (Suc (length (sq_frames q))) q = Inr q1"
  using assms
proof (induction "length (sq_frames q)" arbitrary: s q)
  case 0
  from drain_recv_phase [OF "0.prems"(1)] obtain q1 where d: "drain_recv (fi_m s) = Inr (sq_frames q \<noteq> [], set_recv_queue q1 (fi_m s))"
    "ready (set_recv_queue q1 (fi_m s)) q1 e fr" "sq_frames q1 = tl (sq_frames q)"
    "\<forall>k. sq_drain (Suc k) q = (if sq_frames q = [] then Inr q1 else sq_drain k q1)" by blast
  then have "phase_step s (s\<lparr>fi_m := set_recv_queue q1 (fi_m s), fi_reset := Some (Rs_event found)\<rparr>)"
    using phase_step.reset_recv [OF "0.prems"(2) d(1)] 0 by simp
  then show ?case using d(2-4) 0 by (intro exI [of _ q1]) auto
next
  case (Suc k)
  from drain_recv_phase [OF Suc.prems(1)] obtain q1 where d: "drain_recv (fi_m s) = Inr (sq_frames q \<noteq> [], set_recv_queue q1 (fi_m s))"
    "ready (set_recv_queue q1 (fi_m s)) q1 e fr" "sq_frames q1 = tl (sq_frames q)"
    "\<forall>k. sq_drain (Suc k) q = (if sq_frames q = [] then Inr q1 else sq_drain k q1)" by blast
  let ?s1 = "s\<lparr>fi_m := set_recv_queue q1 (fi_m s), fi_reset := Some (Rs_recv found)\<rparr>"
  have ne: "sq_frames q \<noteq> []" using Suc.hyps(2) by auto
  then have st: "phase_step s ?s1" using phase_step.reset_recv [OF Suc.prems(2) d(1)] by simp
  have k: "k = length (sq_frames q1)" using d(3) Suc.hyps(2) by (metis diff_Suc_1 length_tl)
  from Suc.hyps(1) [OF k, of ?s1] d(2) obtain q2 where
    "phase_run ?s1 (s\<lparr>fi_m := set_recv_queue q2 (fi_m s), fi_reset := Some (Rs_event found)\<rparr>)"
    "ready (set_recv_queue q2 (fi_m s)) q2 e fr" "sq_frames q2 = []" "sq_drain (Suc k) q1 = Inr q2"
    by (auto simp: set_recv_queue_twice k)
  then show ?case using step_run [OF st] d(4) ne Suc.hyps(2) by metis
qed

lemma drain_event_run:
  assumes "ready (fi_m s) q e fr" "fi_reset s = Some (Rs_event found)"
  shows "\<exists>e1. phase_run s (s\<lparr>fi_m := reset_status found ((fi_m s)\<lparr>m_eventFrame := Some e1\<rparr>), fi_reset := None\<rparr>) \<and>
    ready ((fi_m s)\<lparr>m_eventFrame := Some e1\<rparr>) q e1 fr \<and> sq_frames e1 = [] \<and>
    sq_room e \<le> sq_room e1 \<and> sq_drain (Suc (length (sq_frames e))) e = Inr e1"
  using assms
proof (induction "length (sq_frames e)" arbitrary: s e)
  case 0
  from drain_event_phase [OF "0.prems"(1)] obtain e1 where d: "drain_event (fi_m s) = Inr (sq_frames e \<noteq> [], (fi_m s)\<lparr>m_eventFrame := Some e1\<rparr>)"
    "ready ((fi_m s)\<lparr>m_eventFrame := Some e1\<rparr>) q e1 fr" "sq_frames e1 = tl (sq_frames e)" "sq_room e \<le> sq_room e1"
    "\<forall>k. sq_drain (Suc k) e = (if sq_frames e = [] then Inr e1 else sq_drain k e1)" by blast
  then have "phase_step s (s\<lparr>fi_m := reset_status found ((fi_m s)\<lparr>m_eventFrame := Some e1\<rparr>), fi_reset := None\<rparr>)"
    using phase_step.reset_done [OF "0.prems"(2)] 0 by simp
  then show ?case using d(2-5) 0 by (intro exI [of _ e1]) auto
next
  case (Suc k)
  from drain_event_phase [OF Suc.prems(1)] obtain e1 where d: "drain_event (fi_m s) = Inr (sq_frames e \<noteq> [], (fi_m s)\<lparr>m_eventFrame := Some e1\<rparr>)"
    "ready ((fi_m s)\<lparr>m_eventFrame := Some e1\<rparr>) q e1 fr" "sq_frames e1 = tl (sq_frames e)" "sq_room e \<le> sq_room e1"
    "\<forall>k. sq_drain (Suc k) e = (if sq_frames e = [] then Inr e1 else sq_drain k e1)" by blast
  let ?s1 = "s\<lparr>fi_m := (fi_m s)\<lparr>m_eventFrame := Some e1\<rparr>\<rparr>"
  have ne: "sq_frames e \<noteq> []" using Suc.hyps(2) by auto
  then have st: "phase_step s ?s1" using phase_step.reset_event [OF Suc.prems(2)] d(1) by simp
  have k: "k = length (sq_frames e1)" using d(3) Suc.hyps(2) by (metis diff_Suc_1 length_tl)
  from Suc.hyps(1) [OF k, of ?s1] d(2) Suc.prems(2) obtain e2 where
    "phase_run ?s1 (s\<lparr>fi_m := reset_status found ((fi_m s)\<lparr>m_eventFrame := Some e2\<rparr>), fi_reset := None\<rparr>)"
    "ready ((fi_m s)\<lparr>m_eventFrame := Some e2\<rparr>) q e2 fr" "sq_frames e2 = []" "sq_room e1 \<le> sq_room e2" "sq_drain (Suc k) e1 = Inr e2"
    by (auto simp: k)
  then show ?case using step_run [OF st] d(4,5) ne Suc.hyps(2) le_trans by metis
qed

lemma reset_run:
  assumes "ready (fi_m s) q e fr" "fine_free s" "status (fi_m s) = SIDAQ_STOPPING"
  shows "\<exists>m1 q1 e1. phase_run s (s\<lparr>fi_m := m1, fi_was_reset := True\<rparr>) \<and> SiDaqResetQueue (Some (fi_m s)) = Inr (Some m1) \<and>
    ready m1 q1 e1 fr \<and> sq_frames q1 = [] \<and> sq_frames e1 = [] \<and> sq_room e \<le> sq_room e1 \<and> status m1 = SIDAQ_IDLE"
proof -
  let ?m = "reset_begin (fi_m s)"
  let ?s1 = "s\<lparr>fi_m := ?m, fi_reset := Some (Rs_recv SIDAQ_STOPPING), fi_was_reset := True\<rparr>"
  have p1: "phase_step s ?s1" using phase_step.reset_1 [OF assms(2)] assms(3) by simp
  have r1: "ready ?m q e fr" using ready_status [OF assms(1)] by (simp add: reset_begin_def)
  from drain_recv_run [of ?s1 q e fr SIDAQ_STOPPING] r1 obtain q1 where q1:
    "phase_run ?s1 (?s1\<lparr>fi_m := set_recv_queue q1 ?m, fi_reset := Some (Rs_event SIDAQ_STOPPING)\<rparr>)"
    "ready (set_recv_queue q1 ?m) q1 e fr" "sq_frames q1 = []" "sq_drain (Suc (length (sq_frames q))) q = Inr q1" by auto
  let ?s2 = "?s1\<lparr>fi_m := set_recv_queue q1 ?m, fi_reset := Some (Rs_event SIDAQ_STOPPING)\<rparr>"
  define m1 where "\<And>e1. m1 e1 = reset_status SIDAQ_STOPPING ((set_recv_queue q1 ?m)\<lparr>m_eventFrame := Some e1\<rparr>)"
  from drain_event_run [of ?s2 q1 e fr SIDAQ_STOPPING] q1(2) obtain e1 where e1:
    "phase_run ?s2 (?s2\<lparr>fi_m := m1 e1, fi_reset := None\<rparr>)" "ready ((set_recv_queue q1 ?m)\<lparr>m_eventFrame := Some e1\<rparr>) q1 e1 fr"
    "sq_frames e1 = []" "sq_room e \<le> sq_room e1" "sq_drain (Suc (length (sq_frames e))) e = Inr e1" by (auto simp: m1_def)
  have fr: "fi_reset s = None" using assms(2) by (simp add: fine_free_def)
  have "?s2\<lparr>fi_m := m1 e1, fi_reset := None\<rparr> = s\<lparr>fi_m := m1 e1, fi_was_reset := True\<rparr>" using fr by (cases s) simp
  then have run: "phase_run s (s\<lparr>fi_m := m1 e1, fi_was_reset := True\<rparr>)"
    using step_run [OF p1 rtranclp_trans [OF q1(1) e1(1)]] by simp
  have h: "holds ?m q e fr" "holds (set_recv_queue q1 ?m) q1 e fr" "sq_inv q" "sq_inv e" using r1 q1(2) by (simp_all add: ready_def)
  have "reset_end SIDAQ_STOPPING ?m = Inr (m1 e1)"
    using recv_queue_holds [OF h(1)] event_queue_holds [OF h(2)] q1(4) e1(5) sq_inv_count [OF h(3)] sq_inv_count [OF h(4)]
    by (simp add: reset_end_def m1_def reset_status_def Let_def del: sq_drain.simps)
  then have "SiDaqResetQueue (Some (fi_m s)) = Inr (Some (m1 e1))" using assms(3) by (simp add: reset_halves)
  moreover have "ready (m1 e1) q1 e1 fr" "status (m1 e1) = SIDAQ_IDLE"
    using ready_status [OF e1(2)] by (simp_all add: m1_def reset_status_def)
  ultimately show ?thesis using run q1(3) e1(3,4) by blast
qed

text \<open>C22. The framer thread holds a non-empty block, nothing else runs in the application, the manager is
  Stopping, the event queue has no limit and memory for the block, and the application calls
  \<open>SiDaqResetQueue\<close>. There is an interleaving in which the reset runs as a whole: the manager is then
  what \<open>SiDaqResetQueue\<close> returns, Idle, with both queues empty, while the framer thread still holds its
  block. It then frames the block, so bytes of the old measurement are on the event queue or in the framer after the
  reset.\<close>

theorem reset_leaves_block_in_hand:
  assumes "ready (fi_m s) q e fr" "fi_fr s = Ph_got bs n" "n = int (length bs)" "length bs < 2 ^ 31" "bs \<noteq> []"
    and "fine_free s" "status (fi_m s) = SIDAQ_STOPPING" "fr_queue_limit fr = 0"
    and "receive_memory bs (fi_m s)"
  shows "\<exists>m1 s1 s2 q1 e1 e2 fr2. s1 = s\<lparr>fi_m := m1, fi_was_reset := True\<rparr> \<and> phase_run s s1 \<and>
    SiDaqResetQueue (Some (fi_m s)) = Inr (Some m1) \<and> fine_free s1 \<and> status m1 = SIDAQ_IDLE \<and>
    recv_queue m1 = Inr q1 \<and> sq_frames q1 = [] \<and> event_queue m1 = Inr e1 \<and> sq_frames e1 = [] \<and>
    phase_step s1 s2 \<and> status (fi_m s2) = SIDAQ_IDLE \<and> event_queue (fi_m s2) = Inr e2 \<and> framer_of (fi_m s2) = Inr fr2 \<and>
    concat (sq_frames e2) @ pending fr2 = pending fr @ bs"
proof -
  from reset_run [OF assms(1,6,7)] obtain m1 q1 e1 where r: "phase_run s (s\<lparr>fi_m := m1, fi_was_reset := True\<rparr>)"
    "SiDaqResetQueue (Some (fi_m s)) = Inr (Some m1)" "ready m1 q1 e1 fr" "sq_frames q1 = []" "sq_frames e1 = []"
    "sq_room e \<le> sq_room e1" "status m1 = SIDAQ_IDLE" by blast
  define s1 where "s1 = s\<lparr>fi_m := m1, fi_was_reset := True\<rparr>"
  have h: "holds (fi_m s) q e fr" "holds m1 q1 e1 fr" using assms(1) r(3) by (simp_all add: ready_def)
  have mem: "receive_memory bs m1"
    using assms(9) r(6) event_queue_holds [OF h(1)] event_queue_holds [OF h(2)] framer_of_holds [OF h(1)] framer_of_holds [OF h(2)]
    by (auto simp: receive_memory_def)
  from receive_phase [OF r(3) mem assms(3,4), of "[]" 0] assms(8) obtain m2 e2 fr2 out where m2:
    "shared_receive [] (Some 0) bs n m1 = Inr (m2, out)" "ready m2 q1 e2 fr2" "status m2 = status m1"
    "concat out @ concat (sq_frames e2) @ pending fr2 = concat (sq_frames e1) @ pending fr @ bs" by auto
  have "obind (framer_receive quiet_env bs n m1) (\<lambda>m1. Inr (m1, [])) = Inr (m2, out)"
    using m2(1) shared_receive_alone [of quiet_env bs n m1] by (simp add: quiet_env_def)
  then have "out = []" by auto
  then have data: "concat (sq_frames e2) @ pending fr2 = pending fr @ bs" using m2(4) r(5) by simp
  define s2 where "s2 = s1\<lparr>fi_m := m2, fi_fr := Ph_free, fi_out := fi_out s1 @ out\<rparr>"
  have "phase_step s1 s2" unfolding s2_def
    by (rule phase_step.fr_receive) (use assms(2) mem m2(1) in \<open>simp_all add: s1_def\<close>)
  moreover have h2: "holds m2 q1 e2 fr2" using m2(2) by (simp add: ready_def)
  moreover have "fine_free s1" using assms(6) by (simp add: s1_def fine_free_def)
  moreover have "fi_m s2 = m2" by (simp add: s2_def)
  ultimately show ?thesis
    using r recv_queue_holds [OF h(2)] event_queue_holds [OF h(2)] event_queue_holds [OF h2] framer_of_holds [OF h2] data m2(3) s1_def
    by metis
qed

section \<open>Examples\<close>

text \<open>A chunk comes in: the socket thread receives it, puts it, and goes on.\<close>

lemma chunk_arrives:
  assumes r: "ready (fi_m s) q e fr" and th: "fi_sock s = Some th" "t_pc th = Inner_loop" "t_queue th = 0" "t_buf_size th < 2 ^ 31"
    and idle: "fi_hand s = Nothing" "\<not> pause_flg (sock_param (fi_m s))"
    and bs: "bs \<noteq> []" "int (length bs) \<le> t_buf_size th" and room: "0 < sq_room q"
  shows "\<exists>m1 th1 q1. phase_run s (s\<lparr>fi_m := m1, fi_sock := Some th1, fi_hand := Nothing, fi_in := fi_in s @ bs\<rparr>) \<and>
    ready m1 q1 e fr \<and> sq_frames q1 = sq_frames q @ [bs] \<and> status m1 = status (fi_m s)"
proof -
  let ?os = "demo_round bs" and ?th = "th\<lparr>t_recv_len := int (length bs)\<rparr>"
  let ?s1 = "s\<lparr>fi_sock := Some ?th, fi_hand := Received ?os, fi_in := fi_in s @ bs\<rparr>"
  have os: "os_recv ?os = int (length bs)" "os_data ?os = bs" "0 < os_recv ?os" "os_ok (t_buf_size th) (Round ?os)"
    "os_ok (t_buf_size ?th) (Round ?os)"
    using bs by (simp_all add: demo_round_def os_ok_def)
  have p1: "phase_step s ?s1" using phase_step.sock_recv [OF th(1) idle(1) th(2) idle(2) os(3,4)] os(1,2) by simp
  have "holds (fi_m s) q e fr" using r by (simp add: ready_def)
  then have mem: "sock_memory (fi_m s)" using room by (simp add: sock_memory_def)
  have t: "t_queue ?th = 0" "t_buf_size ?th < 2 ^ 31" using th(3,4) by simp_all
  from put_phase [OF r t os(3,5) mem] obtain cnt lp q1 where p: "put_begin SQPut ?os (sock_param (fi_m s)) ?th = Inr (cnt, lp)"
    "ready ((fi_m s)\<lparr>sock_param := lp\<rparr>) q1 e fr" "sq_frames q1 = sq_frames q @ [os_data ?os]" by blast
  let ?s2 = "?s1\<lparr>fi_m := (fi_m s)\<lparr>sock_param := lp\<rparr>, fi_hand := Queued ?os cnt\<rparr>"
  have p2: "phase_step ?s1 ?s2" using phase_step.sock_put [of ?s1 ?th ?os cnt lp] mem p(1) by simp
  obtain lp2 th2 where e: "put_end ?os cnt lp ?th = (lp2, th2)" by force
  let ?m2 = "(fi_m s)\<lparr>sock_param := lp2\<rparr>"
  have "phase_step ?s2 (?s2\<lparr>fi_m := (fi_m ?s2)\<lparr>sock_param := lp2\<rparr>, fi_sock := Some th2, fi_hand := Nothing\<rparr>)"
    by (rule phase_step.sock_put_end) (use e in simp_all)
  moreover have "?s2\<lparr>fi_m := (fi_m ?s2)\<lparr>sock_param := lp2\<rparr>, fi_sock := Some th2, fi_hand := Nothing\<rparr> =
      s\<lparr>fi_m := ?m2, fi_sock := Some th2, fi_hand := Nothing, fi_in := fi_in s @ bs\<rparr>" by (cases s) simp
  ultimately have p3: "phase_step ?s2 (s\<lparr>fi_m := ?m2, fi_sock := Some th2, fi_hand := Nothing, fi_in := fi_in s @ bs\<rparr>)" by metis
  have "ready ?m2 q1 e fr" using put_end_phase(1) [OF p(2), of ?os cnt ?th lp2 th2] e by simp
  then show ?thesis using step_run [OF p1 step_run [OF p2 r_into_rtranclp [of phase_step, OF p3]]] p(3) os(2)
    by (intro exI [of _ ?m2] exI [of _ th2] exI [of _ q1]) simp
qed

text \<open>A measurement has started; both threads have reached their loops.\<close>

lemma demo_started:
  obtains m q where "ready m q q (demo_framer 2 0)" "sq_frames q = []" "sq_room q = 49" "status m = SIDAQ_IDLE"
    "\<not> pause_flg (sock_param m)"
    "phase_run (fine_session m) ((fine_session m)\<lparr>fi_m := run_finish m, fi_in_run := False,
       fi_sock := Some (demo_th Inner_loop), fi_fr := Ph_get\<rparr>)"
proof -
  obtain q where q: "sq_inv q" "sq_frames q = []" "sq_room q = 49" using demo_store by metis
  have p: "(0::int) < 2" "(2::int) < 1000" by simp_all
  note f = demo_framer_ok [OF p, of 0]
  let ?fr = "demo_framer 2 0"
  define m where "m = demo_mngr SIDAQ_IDLE q q ?fr"
  have f0: "0 \<le> fr_queue_limit ?fr" using f(4) by simp
  note d = demo_receiving(1) [OF q f(1,2) f0 f(3), folded m_def]
  let ?s1 = "(fine_session m)\<lparr>fi_m := run_finish m, fi_in_run := False\<rparr>"
  have p1: "phase_step (fine_session m) ?s1" using phase_step.run_returns [of "fine_session m"] by (simp add: fine_session_def)
  let ?m1 = "run_finish m"
  have sp: "sock_param ?m1 = sock_param m" "?m1\<lparr>sock_param := sock_param m\<rparr> = ?m1" by (simp_all add: run_finish_def)
  have "sock_thread_start True (sock_param m) = Inr (sock_param m, demo_th Outer_loop)"
    by (simp add: m_def demo_th_def fresh_block_def sock_thread_start_def select_queue_def Let_def i32_def)
  then have p2: "phase_step ?s1 (?s1\<lparr>fi_sock := Some (demo_th Outer_loop)\<rparr>)"
    using phase_step.sock_start [of ?s1 "sock_param m" "demo_th Outer_loop"] sp by (simp add: fine_session_def)
  let ?s2 = "?s1\<lparr>fi_sock := Some (demo_th Outer_loop)\<rparr>"
  have "sock_step SQPut (demo_round []) (sock_param m, demo_th Outer_loop) = Inr (sock_param m, demo_th Inner_loop)"
    by (simp add: m_def demo_th_def fresh_block_def demo_round_def sock_step_def outer_step_def select_queue_def
        INVALID_SOCKET_def)
  moreover have "taken (demo_round []) (sock_param m, demo_th Outer_loop) = []" by (simp add: taken_def demo_th_def)
  ultimately have p3: "phase_step ?s2 (?s2\<lparr>fi_sock := Some (demo_th Inner_loop)\<rparr>)"
    using phase_step.sock_idle [of ?s2 "demo_th Outer_loop" "demo_round []" "sock_param m" "demo_th Inner_loop"] sp
    by (simp add: fine_session_def)
  let ?s3 = "?s1\<lparr>fi_sock := Some (demo_th Inner_loop)\<rparr>"
  have "?fr\<lparr>fr_error_code := 0\<rparr> = ?fr" using f(12) by simp
  then have "framer_thread_start ?m1 = Inr ?m1"
    by (simp add: m_def framer_thread_start_def framer_of_def run_finish_def demo_mngr_def)
  then have p4: "phase_step ?s3 (?s3\<lparr>fi_fr := Ph_test\<rparr>)"
    using phase_step.fr_start [of ?s3 ?m1] by (simp add: fine_session_def)
  have p5: "phase_step (?s3\<lparr>fi_fr := Ph_test\<rparr>) (?s3\<lparr>fi_fr := Ph_get\<rparr>)"
    using phase_step.fr_test [of "?s3\<lparr>fi_fr := Ph_test\<rparr>"] by (simp add: framer_runs_def run_finish_def)
  have "phase_run (fine_session m) (?s3\<lparr>fi_fr := Ph_get\<rparr>)"
    using step_run [OF p1 step_run [OF p2 step_run [of ?s2]]] p3 step_run [OF p4 r_into_rtranclp [of phase_step, OF p5]] by simp
  moreover have "\<not> pause_flg (sock_param m)" "status m = SIDAQ_IDLE" by (simp_all add: m_def fresh_block_def)
  ultimately show thesis using that [OF d q(2,3)] by (simp add: fine_session_def)
qed

definition demo_state :: "SiDaqMngr \<Rightarrow> fr_phase \<Rightarrow> fine" where
  "demo_state m ph = (fine_session m)\<lparr>fi_m := run_finish m, fi_in_run := False, fi_sock := Some (demo_th Inner_loop), fi_fr := ph\<rparr>"

lemma demo_chunk:
  assumes "ready m q q (demo_framer 2 0)" "sq_frames q = []" "sq_room q = 49" "\<not> pause_flg (sock_param m)"
    and "phase_run (fine_session m) (demo_state m ph)"
  obtains s q1 where "phase_run (fine_session m) s" "fi_in s = [1, 2, 3]" "\<not> fi_was_reset s" "fi_fr s = ph" "fine_free s"
    "status (fi_m s) = SIDAQ_RUN" "ready (fi_m s) q1 q (demo_framer 2 0)" "sq_frames q1 = [[1, 2, 3]]" "fi_hand s = Nothing"
proof -
  let ?s1 = "demo_state m ph"
  have a: "t_pc (demo_th Inner_loop) = Inner_loop" "t_queue (demo_th Inner_loop) = 0" "t_buf_size (demo_th Inner_loop) < 2 ^ 31"
    "[1, 2, 3 :: byte] \<noteq> []" "int (length [1, 2, 3 :: byte]) \<le> t_buf_size (demo_th Inner_loop)" by (simp_all add: demo_th_def)
  have b: "fi_sock ?s1 = Some (demo_th Inner_loop)" "fi_hand ?s1 = Nothing" "\<not> pause_flg (sock_param (fi_m ?s1))"
    using assms(4) by (simp_all add: demo_state_def fine_session_def run_finish_def)
  have "ready (fi_m ?s1) q q (demo_framer 2 0)" "0 < sq_room q"
    using ready_status [OF assms(1)] assms(3) by (simp_all add: demo_state_def run_finish_def)
  from chunk_arrives [OF this(1) b(1) a(1-3) b(2,3) a(4,5) this(2)] obtain m1 th1 q1 where c:
    "phase_run ?s1 (?s1\<lparr>fi_m := m1, fi_sock := Some th1, fi_hand := Nothing, fi_in := fi_in ?s1 @ [1, 2, 3]\<rparr>)"
    "ready m1 q1 q (demo_framer 2 0)" "sq_frames q1 = sq_frames q @ [[1, 2, 3]]" "status m1 = status (fi_m ?s1)" by blast
  show thesis
    by (rule that [OF rtranclp_trans [OF assms(5) c(1)]])
      (use c(2-4) assms(2) in \<open>simp_all add: demo_state_def fine_session_def fine_free_def run_finish_def\<close>)
qed

text \<open>The framer thread has found nothing, and then a block has arrived.\<close>

lemma demo_late_block:
  obtains m s q1 e where "phase_run (fine_session m) s" "fi_in s = [1, 2, 3]" "fi_fr s = Ph_empty" "fine_free s"
    "status (fi_m s) = SIDAQ_RUN" "ready (fi_m s) q1 e (demo_framer 2 0)" "sq_frames q1 = [[1, 2, 3]]" "receive_memory [] (fi_m s)"
proof -
  obtain m q where d: "ready m q q (demo_framer 2 0)" "sq_frames q = []" "sq_room q = 49" "\<not> pause_flg (sock_param m)"
    "phase_run (fine_session m) (demo_state m Ph_get)" by (rule demo_started) (auto simp: demo_state_def)
  have r: "ready (run_finish m) q q (demo_framer 2 0)" using ready_status [OF d(1)] by (simp add: run_finish_def)
  have h: "holds (run_finish m) q q (demo_framer 2 0)" "sq_inv q" using r by (simp_all add: ready_def)
  have "SQGet (\<lambda>_. id) False 50 q = Inr (None, 0, q)" using sqf.get_none [OF h(2) d(2)] .
  then have "framer_get (\<lambda>_. id) False (run_finish m) = Inr (Ph_empty, run_finish m)"
    using h(1) set_recv_queue_same [OF h(1)] by (simp add: framer_get_def holds_def)
  then have "phase_step (demo_state m Ph_get) (demo_state m Ph_empty)"
    using phase_step.fr_get [of "demo_state m Ph_get" False Ph_empty "run_finish m"] by (simp add: demo_state_def fine_session_def)
  from rtranclp.rtrancl_into_rtrancl [of phase_step, OF d(5) this] obtain s q1 where
    s: "phase_run (fine_session m) s" "fi_in s = [1, 2, 3]" "fi_fr s = Ph_empty" "fine_free s" "status (fi_m s) = SIDAQ_RUN"
    "ready (fi_m s) q1 q (demo_framer 2 0)" "sq_frames q1 = [[1, 2, 3]]" using demo_chunk [OF d(1-4)] by metis
  have "pending (demo_framer 2 0) = []" using demo_framer_ok(3) [of 2 0] by simp
  moreover have h: "holds (fi_m s) q1 q (demo_framer 2 0)" using s(6) by (simp add: ready_def)
  ultimately have "receive_memory [] (fi_m s)"
    using event_queue_holds [OF h] framer_of_holds [OF h] by (auto simp: receive_memory_def)
  then show thesis using that s by blast
qed

text \<open>The framer thread has taken the block; then the measurement is stopped.\<close>

lemma demo_in_hand:
  obtains m q s q1 where "ready m q q (demo_framer 2 0)" "sq_frames q = []" "phase_run (fine_session m) s" "fi_in s = [1, 2, 3]"
    "\<not> fi_was_reset s" "fi_fr s = Ph_got [1, 2, 3] 3" "fi_hand s = Nothing" "fine_free s" "status (fi_m s) = SIDAQ_STOPPING"
    "ready (fi_m s) q1 q (demo_framer 2 0)" "receive_memory [1, 2, 3] (fi_m s)"
proof -
  obtain m q where d: "ready m q q (demo_framer 2 0)" "sq_frames q = []" "sq_room q = 49" "\<not> pause_flg (sock_param m)"
    "phase_run (fine_session m) (demo_state m Ph_get)" by (rule demo_started) (auto simp: demo_state_def)
  obtain s q1 where s: "phase_run (fine_session m) s" "fi_in s = [1, 2, 3]" "\<not> fi_was_reset s" "fi_fr s = Ph_get" "fine_free s"
    "status (fi_m s) = SIDAQ_RUN" "ready (fi_m s) q1 q (demo_framer 2 0)" "sq_frames q1 = [[1, 2, 3]]" "fi_hand s = Nothing"
    by (rule demo_chunk [OF d])
  from get_phase [OF s(7), of False] obtain ph m1 q2 where g: "framer_get (\<lambda>_. id) False (fi_m s) = Inr (ph, m1)"
    "ready m1 q2 q (demo_framer 2 0)" "status m1 = status (fi_m s)" by blast
  have "sq_inv q1" "holds (fi_m s) q1 q (demo_framer 2 0)" using s(7) by (simp_all add: ready_def)
  moreover from sqf.get_some [OF this(1) s(8), of 50] obtain q3 where "SQGet (\<lambda>_. id) False 50 q1 = Inr (Some [1, 2, 3], 3, q3)" by auto
  ultimately have ph: "ph = Ph_got [1, 2, 3] 3" using g(1) by (simp add: framer_get_def holds_def)
  let ?s1 = "s\<lparr>fi_m := m1, fi_fr := ph\<rparr>"
  have p1: "phase_step s ?s1" using phase_step.fr_get [OF s(4) g(1)] .
  let ?s2 = "?s1\<lparr>fi_m := stop_begin m1, fi_stop := True\<rparr>"
  have p2: "phase_step ?s1 ?s2" using phase_step.stop_1 [of ?s1] s(5,6) g(3) by (simp add: fine_free_def)
  let ?s3 = "?s2\<lparr>fi_m := stop_end (stop_begin m1), fi_stop := False\<rparr>"
  have p3: "phase_step ?s2 ?s3" using phase_step.stop_2 [of ?s2] by simp
  have run: "phase_run (fine_session m) ?s3"
    using rtranclp_trans [OF s(1) step_run [OF p1 step_run [OF p2 r_into_rtranclp [of phase_step, OF p3]]]] .
  have r3: "ready (stop_end (stop_begin m1)) q2 q (demo_framer 2 0)" using ready_stop(2) [OF ready_stop(1) [OF g(2)]] .
  have "pending (demo_framer 2 0) = []" using demo_framer_ok(3) [of 2 0] by simp
  moreover have h: "holds (stop_end (stop_begin m1)) q2 q (demo_framer 2 0)" using r3 by (simp add: ready_def)
  ultimately have "receive_memory [1, 2, 3] (fi_m ?s3)"
    using event_queue_holds [OF h] framer_of_holds [OF h] d(3) by (auto simp: receive_memory_def)
  moreover have "status (stop_end (stop_begin m1)) = SIDAQ_STOPPING" using g(3) s(6) by (simp add: stop_end_def stop_begin_def Let_def)
  ultimately show thesis using that [OF d(1,2) run] s ph r3 by (simp add: fine_free_def)
qed



theorem stop_drops_received_witness:
  "\<exists>m s s1 q1. phase_run (fine_session m) s1 \<and> fi_in s1 = [1, 2, 3] \<and> fi_fr s1 = Ph_done \<and> status (fi_m s1) = SIDAQ_IDLE \<and>
     recv_queue (fi_m s1) = Inr q1 \<and> sq_frames q1 = [[1, 2, 3]] \<and> phase_run (fine_session m) s \<and> status (fi_m s) = SIDAQ_RUN \<and>
     phase_run s s1 \<and> fi_in s = [1, 2, 3]"
proof -
  obtain m s q1 e where d: "phase_run (fine_session m) s" "fi_in s = [1, 2, 3]" "fi_fr s = Ph_empty" "fine_free s"
    "status (fi_m s) = SIDAQ_RUN" "ready (fi_m s) q1 e (demo_framer 2 0)" "sq_frames q1 = [[1, 2, 3]]" "receive_memory [] (fi_m s)"
    by (rule demo_late_block)
  have "fr_error_flg (demo_framer 2 0) = 0" by (simp add: demo_framer_def configure_framer_def)
  from stop_drops_received [OF d(6,3,4,5) this d(8)] obtain s1 q2 where "phase_run s s1" "fi_fr s1 = Ph_done"
    "status (fi_m s1) = SIDAQ_IDLE" "fi_in s1 = fi_in s" "recv_queue (fi_m s1) = Inr q2" "sq_frames q2 = sq_frames q1" by blast
  with d show ?thesis by (metis rtranclp_trans)
qed

theorem reset_leaves_block_in_hand_witness:
  "\<exists>m s1 s2 e1 e2 fr2. phase_run (fine_session m) s1 \<and> fine_free s1 \<and> status (fi_m s1) = SIDAQ_IDLE \<and>
     event_queue (fi_m s1) = Inr e1 \<and> sq_frames e1 = [] \<and> phase_step s1 s2 \<and> status (fi_m s2) = SIDAQ_IDLE \<and>
     event_queue (fi_m s2) = Inr e2 \<and> framer_of (fi_m s2) = Inr fr2 \<and> concat (sq_frames e2) @ pending fr2 = [1, 2, 3]"
proof -
  obtain m q s q1 where d: "ready m q q (demo_framer 2 0)" "sq_frames q = []" "phase_run (fine_session m) s" "fi_in s = [1, 2, 3]"
    "\<not> fi_was_reset s" "fi_fr s = Ph_got [1, 2, 3] 3" "fi_hand s = Nothing" "fine_free s" "status (fi_m s) = SIDAQ_STOPPING"
    "ready (fi_m s) q1 q (demo_framer 2 0)" "receive_memory [1, 2, 3] (fi_m s)" by (rule demo_in_hand)
  have f: "pending (demo_framer 2 0) = []" "fr_queue_limit (demo_framer 2 0) = 0" using demo_framer_ok(3,4) [of 2 0] by simp_all
  have l: "(3::int) = int (length [1, 2, 3 :: byte])" "length [1, 2, 3 :: byte] < 2 ^ 31" "[1, 2, 3 :: byte] \<noteq> []" by simp_all
  from reset_leaves_block_in_hand [OF d(10,6) l d(8,9) f(2) d(11)] f(1) obtain m1 s1 s2 q2 e1 e2 fr2 where
    s1: "s1 = s\<lparr>fi_m := m1, fi_was_reset := True\<rparr>" and
    "phase_run s s1" "fine_free s1" "status m1 = SIDAQ_IDLE" "event_queue m1 = Inr e1" "sq_frames e1 = []"
    "phase_step s1 s2" "status (fi_m s2) = SIDAQ_IDLE" "event_queue (fi_m s2) = Inr e2" "framer_of (fi_m s2) = Inr fr2"
    "concat (sq_frames e2) @ pending fr2 = [1, 2, 3]" by (metis append_Nil)
  moreover have "fi_m s1 = m1" by (simp add: s1)
  ultimately show ?thesis using rtranclp_trans [OF d(3)] by metis
qed

end
