(* ===== verification/SiDaq_Types.thy ===== *)
theory SiDaq_Types
  imports SiDaq_Props
begin

text \<open>
  The values a manager can hold: an \<open>int\<close> that stands for an enumeration always is one of its constants, a
  text fits its array with the terminating zero, the buffers keep their sizes, and the numbers stay in the
  range of their C type, whatever the application calls and the two threads do.
\<close>

section \<open>Well-typed values\<close>

definition in_i32 :: "int \<Rightarrow> bool" where
  "in_i32 x \<longleftrightarrow> - (2 ^ 31) \<le> x \<and> x < 2 ^ 31"

definition rbcp_typed :: "SiTcpRbcp \<Rightarrow> bool" where
  "rbcp_typed r \<longleftrightarrow> int (length (rbcp_buf r)) = MAX_PKT_LEN \<and> 0 \<le> rb_id r \<and> rb_id r < 256 \<and>
     in_i32 (tv_sec r) \<and> in_i32 (tv_usec r)"

definition framer_typed :: "SiDaqFramer \<Rightarrow> bool" where
  "framer_typed fr \<longleftrightarrow> fr_error_code fr \<in> range framer_code \<and> fr_error_flg fr \<in> {0, -1} \<and> in_i32 (fr_header_len fr) \<and>
     fr_buff_size fr = DEFAULT_MAX_FRAME_LEN \<and>
     (\<forall>b. fr_buff_ptr fr = Some b \<longrightarrow> int (length b) = DEFAULT_MAX_FRAME_LEN)"

definition param_typed :: "'q SockThreadLparam \<Rightarrow> bool" where
  "param_typed sp \<longleftrightarrow> queue_error_code sp \<in> range sockqueue_code \<and>
     0 \<le> rx_bytes (sock_stat sp) \<and> rx_bytes (sock_stat sp) < 2 ^ 64"

definition mngr_typed :: "SiDaqMngr \<Rightarrow> bool" where
  "mngr_typed m \<longleftrightarrow> error_code m \<in> range sidaq_code \<and> length (error_message m) < SiDAQ_ERROR_MSG \<and>
     length (ip_address m) < SiDAQ_HOST_NAME_MAX \<and> length (sitcp_register m) = SiTCP_RBCP_SIZE \<and>
     param_typed (sock_param m) \<and> (\<forall>fr. m_framer m = Some fr \<longrightarrow> framer_typed fr) \<and>
     (\<forall>r. m_sitcp m = Some r \<longrightarrow> rbcp_typed r)"

text \<open>What another thread does to the parameter block during a wait.\<close>

definition wait_typed :: "('q SockThreadLparam \<Rightarrow> 'q SockThreadLparam) \<Rightarrow> bool" where
  "wait_typed wait \<longleftrightarrow> (\<forall>sp. param_typed sp \<longrightarrow> param_typed (wait sp))"

declare framer_code.simps [simp del] sockqueue_code.simps [simp del] sidaq_code.simps [simp del]

lemma in_i32_i32 [simp]: "in_i32 (i32 x)"
  using i32_range by (simp add: in_i32_def)

section \<open>The register client\<close>

lemma packet_write [simp]:
  "rbcp_typed r \<Longrightarrow> off + length src \<le> 263 \<Longrightarrow> rbcp_typed (r\<lparr>rbcp_buf := write_at off src (rbcp_buf r)\<rparr>)"
  by (simp add: rbcp_typed_def rbcp_consts)

lemma rbcp_typed_closed [simp]: "rbcp_typed (rb_closesocket r) = rbcp_typed r"
  by (simp add: rbcp_typed_def rb_closesocket_def)

lemma make_header_typed: "rbcp_typed r \<Longrightarrow> rbcp_typed (make_header a len rd r)"
  by (simp add: rbcp_typed_def make_header_def htonl_bytes_def rbcp_consts)

lemma rw_memory_typed:
  assumes "rbcp_typed r" "rw_memory net a len rd r w = (res, r1, w1)"
  shows "rbcp_typed r1"
proof -
  have "0 \<le> (rb_id r + 1) AND 0xff" "(rb_id r + 1) AND 0xff < 256"
    using AND_upper2 [of "0xff" "rb_id r + 1"] by simp_all
  then have "rbcp_typed (r\<lparr>rb_id := (rb_id r + 1) AND 0xff\<rparr>)" using assms(1) by (simp add: rbcp_typed_def)
  note h = make_header_typed [OF this]
  show ?thesis
    using assms(2) h unfolding rw_memory_def
    by (auto simp: send_packet_def recv_packet_def Let_def rbcp_consts split: prod.splits sum.splits if_splits)
qed

lemma ReadBytes_typed:
  assumes "rbcp_typed r" "ReadBytes net (Some b) a len r w = Inr (res, buf, r1, w1)"
  shows "rbcp_typed r1 \<and> (\<exists>b1. buf = Some b1 \<and> length b1 = length b)"
  using assms rw_memory_typed [OF assms(1)] unfolding ReadBytes_def
  by (fastforce simp: Let_def split: if_splits prod.splits sum.splits)

lemma WriteBytes_typed:
  assumes "rbcp_typed r" "WriteBytes net buffer a len r w = Inr (res, r1, w1)"
  shows "rbcp_typed r1"
proof (cases "MAX_DATA_LEN < len")
  case True
  then show ?thesis using assms by (simp add: WriteBytes_def)
next
  case False
  then obtain b where rw: "rw_memory net a len False
      (r\<lparr>rbcp_buf := write_at (nat SITCPRBCP_HEADER_SIZE) (take (nat len) b) (rbcp_buf r)\<rparr>) w = (res, r1, w1)"
    using assms(2) by (auto simp: WriteBytes_def split: option.splits if_splits)
  have "nat SITCPRBCP_HEADER_SIZE + length (take (nat len) b) \<le> 263" using False by (auto simp: rbcp_consts)
  from packet_write [OF assms(1) this] show ?thesis using rw by (rule rw_memory_typed)
qed

lemma SetTimeout_typed: "rbcp_typed r \<Longrightarrow> SetTimeout ss msec r = (res, r1) \<Longrightarrow> rbcp_typed r1"
  by (auto simp: SetTimeout_def Let_def rbcp_typed_def rb_closesocket_def split: if_splits)

lemma ctor_typed: "rbcp_typed (snd (SiTcpRbcp_ctor so ss gai pton con host port msec))"
proof -
  have "rbcp_typed \<lparr>rbcp_buf = replicate (nat MAX_PKT_LEN) 0, rb_id = 0, tv_sec = 0, tv_usec = 0, rb_sock = so, rb_closed = 0\<rparr>"
    by (simp add: rbcp_typed_def rbcp_consts in_i32_def)
  then show ?thesis
    using SetTimeout_typed unfolding SiTcpRbcp_ctor_def Let_def by (auto split: prod.splits sum.splits)
qed

section \<open>The framer\<close>

lemma framer_typed_upd [simp]:
  "framer_typed (fr\<lparr>fr_rest := n\<rparr>) = framer_typed fr" "framer_typed (fr\<lparr>fr_lengthFunc := f\<rparr>) = framer_typed fr"
  "framer_typed (fr\<lparr>fr_fixed_frame_len := n\<rparr>) = framer_typed fr"
  "framer_typed fr \<Longrightarrow> framer_typed (fr\<lparr>fr_error_code := framer_code e\<rparr>)"
  "framer_typed fr \<Longrightarrow> framer_typed (fr\<lparr>fr_error_flg := -1\<rparr>)"
  "framer_typed fr \<Longrightarrow> framer_typed (fr\<lparr>fr_header_len := 0\<rparr>)"
  by (simp_all add: framer_typed_def in_i32_def)

lemma set_error_typed [simp]: "framer_typed fr \<Longrightarrow> framer_typed (set_error e fr)" "framer_typed fr \<Longrightarrow> framer_typed (null_framer e fr)"
  by (simp_all add: set_error_def null_framer_def framer_typed_def in_i32_def)

lemma check_length_typed: "framer_typed fr \<Longrightarrow> check_length fr ev len = (fr1, n) \<Longrightarrow> framer_typed fr1"
  by (auto simp: check_length_def Let_def split: if_splits)

lemma buff_write_typed: "framer_typed fr \<Longrightarrow> buff_write off src fr = Inr fr1 \<Longrightarrow> framer_typed fr1"
  by (auto simp: buff_write_def framer_typed_def split: option.splits if_splits)

lemma recv_rest_typed:
  assumes fr: "framer_typed fr" and run: "recv_rest sqput fr data len q = Inr r"
  shows "case r of Inl (_, fr1, _) \<Rightarrow> framer_typed fr1 | Inr (_, _, _, fr1, _) \<Rightarrow> framer_typed fr1"
proof (cases "fr_buff_size fr - fr_rest fr < 0")
  case True
  then show ?thesis using fr run by (auto simp: recv_rest_def Let_def)
next
  case False
  let ?room = "fr_buff_size fr - fr_rest fr"
  define ncopy where "ncopy = (if len < ?room then len else ?room)"
  obtain fr1 where w: "buff_write (nat (fr_rest fr)) (take (nat ncopy) data) fr = Inr fr1"
    using run False unfolding recv_rest_def Let_def ncopy_def [symmetric] by (auto split: if_splits)
  obtain fr2 ev where c: "check_length fr1 (event_length fr1 (take (nat (fr_rest fr1 + ncopy)) (buff_bytes fr1)) (fr_rest fr1 + ncopy))
      (fr_rest fr1 + ncopy) = (fr2, ev)" by force
  have t: "framer_typed fr2" using check_length_typed [OF buff_write_typed [OF fr w] c] .
  define n where "n = i32 (ev + fr_header_len fr2)"
  have run': "(if n \<le> fr_rest fr1 + ncopy then
      obind (sqput (buff_bytes fr2) n q) (\<lambda>(event_queue_count, q1).
        if event_queue_count < 0 then Inr (Inl (-1, set_error FRAMER_MEMORY_ALLOCATED_FAILED fr2, q1))
        else let fr3 = (if limit_hit fr2 event_queue_count then set_error FRAMER_EXCEED_FRAME_QUEUE_COUNT fr2 else fr2);
                 k = i32 (n - fr_rest fr3)
          in if k < len then (if k < 0 then Inl Out_of_bounds
                else Inr (Inr (1, Some (drop (nat k) data), i32 (len - k), fr3\<lparr>fr_rest := 0\<rparr>, q1)))
             else Inr (Inr (1, None, 0, fr3\<lparr>fr_rest := 0\<rparr>, q1)))
      else Inr (Inr (0, None, 0, fr2\<lparr>fr_rest := fr_rest fr1 + ncopy\<rparr>, q))) = Inr r"
    using run False w c unfolding recv_rest_def Let_def ncopy_def [symmetric] n_def by (simp split: if_splits)
  show ?thesis
  proof (cases "n \<le> fr_rest fr1 + ncopy")
    case True
    then show ?thesis using run' t by (auto simp: Let_def split: if_splits)
  qed (use run' t in auto)
qed

lemma recv_loop_typed:
  "framer_typed fr \<Longrightarrow> recv_loop fuel sqput past rd len count fr q = Inr (n, fr1, q1) \<Longrightarrow> framer_typed fr1"
proof (induction fuel arbitrary: rd len count fr q)
  case 0
  then show ?case by (cases rd) auto
next
  case (Suc fuel)
  show ?case
  proof (cases rd)
    case (Some bs)
    show ?thesis
    proof (cases "len = 0 \<or> len < fr_header_len fr")
      case True
      then show ?thesis
        using Suc.prems Some buff_write_typed [of "fr\<lparr>fr_rest := len\<rparr>"] by (auto simp: recv_loop_Suc)
    next
      case False
      obtain fr2 ev where c: "check_length fr (event_length fr (take (nat len) bs) len) len = (fr2, ev)" by force
      note t = check_length_typed [OF Suc.prems(1) c]
      note run = Suc.prems(2) [unfolded Some recv_loop_Suc if_not_P [OF False] Let_def c prod.case]
      show ?thesis
      proof (cases "i32 (ev + fr_header_len fr2) \<le> len")
        case True
        then show ?thesis using run t Suc.IH [OF t] by (auto split: if_splits)
      next
        case False
        then show ?thesis using run t Suc.IH buff_write_typed [of "fr2\<lparr>fr_rest := len\<rparr>"] by (auto split: if_splits)
      qed
    qed
  qed (use Suc.prems in simp)
qed

lemma RecvSiDaqData_typed:
  assumes "framer_typed fr" "RecvSiDaqData sqput past fr data len q = Inr (n, fr1, q1)"
  shows "framer_typed fr1"
  using assms recv_rest_typed [OF assms(1)] unfolding RecvSiDaqData_def
  by (fastforce split: if_splits sum.splits prod.splits dest: recv_loop_typed)


section \<open>The socket thread\<close>

lemma param_typed_upd [simp]:
  "param_typed (sp\<lparr>sp_run := b\<rparr>) = param_typed sp" "param_typed (sp\<lparr>sp_socket := n\<rparr>) = param_typed sp"
  "param_typed (sp\<lparr>squeue_list_ptr := qs\<rparr>) = param_typed sp" "param_typed (sp\<lparr>squeue_count := n\<rparr>) = param_typed sp"
  "param_typed (sp\<lparr>squeue_index := n\<rparr>) = param_typed sp" "param_typed (sp\<lparr>recv_buf_size := n\<rparr>) = param_typed sp"
  "param_typed (sp\<lparr>queue_limit := n\<rparr>) = param_typed sp" "param_typed (sp\<lparr>pause_flg := b\<rparr>) = param_typed sp"
  "param_typed (set_last_error e sp) = param_typed sp"
  "param_typed sp \<Longrightarrow> param_typed (sp\<lparr>queue_error_code := sockqueue_code c\<rparr>)"
  by (simp_all add: param_typed_def set_last_error_def)

lemma close_typed: "param_typed lp \<Longrightarrow> param_typed (fst (close_and_break lp th))"
  by (simp add: close_and_break_def)

lemma sock_start_typed: "param_typed lp \<Longrightarrow> sock_thread_start alloc lp = Inr (lp1, th) \<Longrightarrow> param_typed lp1"
  by (auto simp: sock_thread_start_def Let_def split: if_splits)

lemma sock_step_typed:
  assumes "param_typed lp" "sock_step sqput os (lp, th) = Inr (lp1, th1)"
  shows "param_typed lp1"
proof (cases "t_pc th")
  case Outer_loop
  then show ?thesis using assms by (auto simp: sock_step_def outer_step_def Let_def split: if_splits)
next
  case Inner_loop
  have count: "param_typed (lp\<lparr>squeue_list_ptr := qs, sock_stat := (sock_stat lp)\<lparr>rx_bytes := n mod 2 ^ 64\<rparr>\<rparr>)" for qs n
    using assms(1) by (simp add: param_typed_def)
  have put: "put_chunk sqput os lp th0 = Inr (lp2, th2) \<Longrightarrow> param_typed lp2" for th0 lp2 th2
    using assms(1) count by (auto simp: put_chunk_def close_and_break_def Let_def split: option.splits if_splits)
  show ?thesis
    using Inner_loop assms put by (auto simp: sock_step_def inner_step_def close_and_break_def Let_def split: if_splits)
qed (use assms in \<open>simp add: sock_step_def\<close>)

section \<open>The manager\<close>

lemma mngr_typedD:
  assumes "mngr_typed m"
  shows "param_typed (sock_param m)" "m_framer m = Some fr \<Longrightarrow> framer_typed fr" "m_sitcp m = Some r \<Longrightarrow> rbcp_typed r"
    "length (sitcp_register m) = SiTCP_RBCP_SIZE"
  using assms by (simp_all add: mngr_typed_def)

lemma mngr_typed_upd [simp]:
  "mngr_typed (m\<lparr>status := s\<rparr>) = mngr_typed m" "mngr_typed (m\<lparr>tcp_port := n\<rparr>) = mngr_typed m"
  "mngr_typed (m\<lparr>udp_port := n\<rparr>) = mngr_typed m" "mngr_typed (m\<lparr>m_reply := qo\<rparr>) = mngr_typed m"
  "mngr_typed (m\<lparr>m_eventFrame := qo\<rparr>) = mngr_typed m" "mngr_typed (m\<lparr>sock_thread_made := b\<rparr>) = mngr_typed m"
  "mngr_typed (m\<lparr>framer_thread_made := b\<rparr>) = mngr_typed m" "mngr_typed (set_recv_queue q m) = mngr_typed m"
  "mngr_typed (socket_error e m) = mngr_typed m" "mngr_typed (to_sys_error m) = mngr_typed m" "mngr_typed (run_finish m) = mngr_typed m"
  "mngr_typed m \<Longrightarrow> param_typed sp \<Longrightarrow> mngr_typed (m\<lparr>sock_param := sp\<rparr>)"
  "mngr_typed m \<Longrightarrow> framer_typed fr \<Longrightarrow> mngr_typed (m\<lparr>m_framer := Some fr\<rparr>)"
  "mngr_typed m \<Longrightarrow> rbcp_typed r \<Longrightarrow> mngr_typed (m\<lparr>m_sitcp := Some r\<rparr>)" "mngr_typed m \<Longrightarrow> mngr_typed (m\<lparr>m_sitcp := None\<rparr>)"
  by (simp_all add: mngr_typed_def set_recv_queue_def socket_error_def to_sys_error_def run_finish_def)

lemma set_sidaq_error_typed: "mngr_typed m \<Longrightarrow> set_sidaq_error m (sidaq_code c) msg e = Inr m1 \<Longrightarrow> mngr_typed m1"
  by (auto simp: set_sidaq_error_def mngr_typed_def socket_error_def split: if_splits)

lemma decoded [simp]: "decode_framer_error c \<in> range sidaq_code" "decode_sock_queue_error c \<in> range sidaq_code"
  by (simp_all add: decode_framer_error_def decode_sock_queue_error_def)

lemma set_decoded_typed:
  assumes "mngr_typed m" "set_sidaq_error m c msg e = Inr m1" "c \<in> range sidaq_code"
  shows "mngr_typed m1"
  using assms set_sidaq_error_typed by blast

lemma stop_socket_typed: "mngr_typed m \<Longrightarrow> wait_typed wait \<Longrightarrow> mngr_typed (stop_socket wait m)"
  by (simp add: stop_socket_def wait_typed_def mngr_typedD)

lemma stop_typed: "mngr_typed m \<Longrightarrow> wait_typed wait \<Longrightarrow> mngr_typed (snd (SiDaqStop wait m))"
  by (simp add: SiDaqStop_def stop_socket_typed)

lemma reset_typed: "mngr_typed m \<Longrightarrow> SiDaqResetQueue (Some m) = Inr (Some m1) \<Longrightarrow> mngr_typed m1"
  by (auto simp: SiDaqResetQueue_def Let_def split: if_splits)

lemma framer_of_typed: "mngr_typed m \<Longrightarrow> framer_of m = Inr fr \<Longrightarrow> framer_typed fr"
  by (simp add: framer_of_def mngr_typedD(2) split: option.splits)

lemma framer_failed_typed:
  assumes "mngr_typed m" "framer_failed m = Inr m1"
  shows "mngr_typed m1"
  using assms framer_of_typed [OF assms(1)] by (auto simp: framer_failed_def)

lemma failed_error_typed:
  assumes "mngr_typed m" "obind (framer_failed m) (\<lambda>m1. set_sidaq_error m1 c msg e) = Inr m2" "c \<in> range sidaq_code"
  shows "mngr_typed m2"
proof -
  obtain m1 where "framer_failed m = Inr m1" "set_sidaq_error m1 c msg e = Inr m2" using assms(2) by auto
  then show ?thesis using set_decoded_typed framer_failed_typed [OF assms(1)] assms(3) by blast
qed

lemma framer_receive_typed:
  assumes "mngr_typed m" "framer_receive env bs n m = Inr m1"
  shows "mngr_typed m1"
proof (cases "0 < n")
  case True
  then obtain fr e k fr1 e1 where fr: "framer_of m = Inr fr" "RecvSiDaqData SQPut (fe_past env) fr bs n e = Inr (k, fr1, e1)"
    and m1: "m1 = m\<lparr>m_framer := Some fr1, m_eventFrame := Some e1\<rparr>"
    using assms(2) by (auto simp: framer_receive_def)
  have "framer_typed fr1" using RecvSiDaqData_typed [OF framer_of_typed [OF assms(1) fr(1)] fr(2)] .
  then show ?thesis using assms(1) m1 by simp
qed (use assms in \<open>simp add: framer_receive_def\<close>)

lemma put_rest_typed:
  assumes "mngr_typed m" "put_rest_frame m = Inr m1"
  shows "mngr_typed m1"
  using assms framer_of_typed [OF assms(1)] by (auto simp: put_rest_frame_def split: if_splits option.splits)

lemma error_check_typed:
  assumes m: "mngr_typed m" and w: "wait_typed (fe_wait env)" and run: "framer_error_check env m = Inr m1"
  shows "mngr_typed m1"
proof -
  obtain fr where fr: "framer_of m = Inr fr" using run by (auto simp: framer_error_check_def)
  note run = run [unfolded framer_error_check_def fr obind_Inr]
  consider (later) "fr_error_flg fr \<noteq> 0" | (framer) "fr_error_flg fr = 0" "fr_error_code fr \<noteq> framer_code FRAMER_NO_ERROR"
    | (queue) "fr_error_flg fr = 0" "fr_error_code fr = framer_code FRAMER_NO_ERROR" by blast
  then show ?thesis
  proof cases
    case later
    then show ?thesis using run m by simp
  next
    case framer
    then obtain ma m2 where "framer_failed m = Inr ma"
      "set_sidaq_error ma (decode_framer_error (fr_error_code fr)) (decode_framer_error_string (fr_error_code fr)) 0 = Inr m2"
      "m1 = stop_socket (fe_wait env) m2" using run by auto
    then show ?thesis using set_decoded_typed [OF framer_failed_typed [OF m]] stop_socket_typed w decoded(1) by blast
  next
    case queue
    then show ?thesis
      using run m failed_error_typed [OF m, of "decode_sock_queue_error (queue_error_code (sock_param m))"]
      by (simp split: if_splits)
  qed
qed

lemma no_data_typed:
  assumes "mngr_typed m" "framer_no_data m = Inr (m1, b)"
  shows "mngr_typed m1"
proof -
  consider (idle) "m1 = m" | (rest) "put_rest_frame m = Inr m1"
    | (failed) m2 where "obind (framer_failed m) (\<lambda>m1. set_sidaq_error m1 (decode_sock_queue_error (queue_error_code (sock_param m)))
        ''Socket Receive Queue Error'' 0) = Inr m2" "put_rest_frame m2 = Inr m1"
    using assms(2) by (auto simp: framer_no_data_def split: if_splits)
  then show ?thesis
  proof cases
    case failed
    then show ?thesis using put_rest_typed [OF failed_error_typed [OF assms(1) failed(1)] failed(2)] by simp
  qed (use assms(1) put_rest_typed in blast)+
qed

lemma framer_round_typed:
  assumes "mngr_typed m" "wait_typed (fe_wait env)" "framer_round env m = Inr (m1, b)"
  shows "mngr_typed m1"
proof (cases "squeue_index (sock_param m) = 0")
  case True
  then obtain q p n q1 where g: "(case p of
      Some bs \<Rightarrow> obind (framer_receive env bs n (set_recv_queue q1 m)) (\<lambda>m2.
        obind (framer_error_check env (set_recv_queue q m2)) (\<lambda>m3. Inr (m3, False)))
    | None \<Rightarrow> framer_no_data (set_recv_queue q1 m)) = Inr (m1, b)"
    using assms(3) by (auto simp: framer_round_def Let_def)
  show ?thesis
  proof (cases p)
    case None
    then show ?thesis using g no_data_typed [of "set_recv_queue q1 m"] assms(1) by simp
  next
    case (Some bs)
    then obtain m2 where r: "framer_receive env bs n (set_recv_queue q1 m) = Inr m2"
      and e: "framer_error_check env (set_recv_queue q m2) = Inr m1" using g by auto
    have "mngr_typed (set_recv_queue q m2)" using framer_receive_typed [OF _ r] assms(1) by simp
    then show ?thesis using error_check_typed [OF _ assms(2) e] by simp
  qed
qed (use assms in \<open>simp add: framer_round_def\<close>)

lemma framer_start_typed:
  assumes "mngr_typed m" "framer_thread_start m = Inr m1"
  shows "mngr_typed m1"
  using assms framer_of_typed [OF assms(1)] by (auto simp: framer_thread_start_def)

lemma framer_exit_typed: "mngr_typed m \<Longrightarrow> wait_typed (fe_wait env) \<Longrightarrow> framer_exit env m = Inr m1 \<Longrightarrow> mngr_typed m1"
  by (auto simp: framer_exit_def stop_typed split: if_splits)

lemma read_typed:
  assumes "mngr_typed m" "SiDaqRbcpReadBytes net a len m w = Inr (ret, m1, w1)"
  shows "mngr_typed m1"
proof (cases "m_sitcp m")
  case (Some r)
  obtain res buf r1 w2 where rd: "ReadBytes net (Some (sitcp_register m)) a len r w = Inr (res, buf, r1, w2)"
    using assms(2) Some by (auto simp: SiDaqRbcpReadBytes_def)
  obtain b where b: "rbcp_typed r1" "buf = Some b" "length b = length (sitcp_register m)"
    using ReadBytes_typed [OF mngr_typedD(3) [OF assms(1) Some] rd] by blast
  have "mngr_typed (m\<lparr>m_sitcp := Some r1, sitcp_register := b\<rparr>)"
    using assms(1) b by (simp add: mngr_typed_def)
  then show ?thesis using assms(2) Some rd b(2)
    by (auto simp: SiDaqRbcpReadBytes_def Let_def split: sum.splits dest: set_sidaq_error_typed)
qed (use assms in \<open>simp add: SiDaqRbcpReadBytes_def\<close>)

lemma write_typed:
  assumes "mngr_typed m" "SiDaqRbcpWriteBytes net buf a len m w = Inr (ret, m1, w1)"
  shows "mngr_typed m1"
proof (cases "m_sitcp m")
  case (Some r)
  obtain res r1 w2 where wr: "WriteBytes net buf a len r w = Inr (res, r1, w2)"
    using assms(2) Some by (auto simp: SiDaqRbcpWriteBytes_def)
  have "mngr_typed (m\<lparr>m_sitcp := Some r1\<rparr>)"
    using WriteBytes_typed [OF mngr_typedD(3) [OF assms(1) Some] wr] assms(1) by simp
  then show ?thesis using assms(2) Some wr
    by (auto simp: SiDaqRbcpWriteBytes_def Let_def split: sum.splits dest: set_sidaq_error_typed)
qed (use assms in \<open>simp add: SiDaqRbcpWriteBytes_def\<close>)

section \<open>Run and Initialize\<close>

lemma NewSiDaqFramer_typed: "NewSiDaqFramer a b = Some fr \<Longrightarrow> framer_typed fr"
  by (auto simp: NewSiDaqFramer_def framer_typed_def in_i32_def image_iff DEFAULT_MAX_FRAME_LEN_def framer_code.simps
      intro: exI [of _ FRAMER_NO_ERROR] split: if_splits)

lemma configure_typed [simp]: "framer_typed fr \<Longrightarrow> framer_typed (configure_framer f h fixed lim mx fr)"
  by (simp add: configure_framer_def framer_typed_def)

lemma run_fails_typed: "mngr_typed m \<Longrightarrow> run_fails err msg m = Inr (m1, so) \<Longrightarrow> mngr_typed m1"
  by (auto simp: run_fails_def dest: set_sidaq_error_typed)

lemma run_connect_typed:
  assumes "mngr_typed m" "run_connect re ra m = Inr (m1, so)"
  shows "mngr_typed m1"
proof -
  obtain m0 where e: "set_sidaq_error m (sidaq_code SIDAQ_NO_ERROR) SYS_ERR_NO_ERROR 0 = Inr m0"
    using assms(2) by (auto simp: run_connect_def)
  have m0: "mngr_typed m0" using set_sidaq_error_typed [OF assms(1) e] .
  note run = assms(2) [unfolded run_connect_def e obind_Inr]
  show ?thesis
    using run set_sidaq_error_typed [OF m0] run_fails_typed [OF m0] m0
    by (fastforce split: if_splits)
qed

lemma run_socket_thread_typed: "mngr_typed m \<Longrightarrow> mngr_typed (run_socket_thread re ra so m)"
  by (simp add: run_socket_thread_def mngr_typedD)

lemma run_framer_typed:
  assumes "mngr_typed m" "run_framer re ra m = Inr m1"
  shows "mngr_typed m1"
proof -
  have "framer_typed fr" if "(case m_framer m of Some fr \<Rightarrow> Some fr | None \<Rightarrow> NewSiDaqFramer a b) = Some fr" for a b fr
    using that mngr_typedD(2) [OF assms(1)] NewSiDaqFramer_typed by (auto split: option.splits)
  then show ?thesis using assms by (auto simp: run_framer_def Let_def split: option.splits)
qed

lemma run_typed:
  assumes "mngr_typed m" "SiDaqRun re ra m g = Inr (st, m1, g1)"
  shows "mngr_typed m1"
proof -
  obtain m2 so where c: "run_connect re ra m = Inr (m2, so)" using assms(2) by (auto simp: SiDaqRun_def)
  have m2: "mngr_typed m2" using run_connect_typed [OF assms(1) c] .
  show ?thesis
  proof (cases so)
    case (Some s)
    then show ?thesis
      using assms(2) c run_framer_typed [OF run_socket_thread_typed [OF m2]] by (auto simp: SiDaqRun_def Let_def)
  qed (use assms(2) c m2 in \<open>simp add: SiDaqRun_def\<close>)
qed

lemma zero_typed: "mngr_typed zero_mngr"
  by (auto simp: mngr_typed_def zero_mngr_def mngr_consts param_typed_def image_iff sidaq_code.simps sockqueue_code.simps
      intro: exI [of _ SIDAQ_NO_ERROR] exI [of _ SOCKQUEUE_NO_ERROR])

lemma make_queues_typed: "mngr_typed m \<Longrightarrow> make_queues ie m = Inr (Some m1) \<Longrightarrow> mngr_typed m1"
  by (auto simp: make_queues_def Let_def mngr_typedD split: if_splits)

text \<open>The constructor of the register client is a parameter of \<open>SiDaqInitialize\<close>; the modelled one makes a
  well-typed object (\<open>ctor_typed\<close>).\<close>

lemma init_typed:
  assumes ctor: "\<forall>addr port. rbcp_typed (snd (ie_ctor ie addr port))"
    and run: "SiDaqInitialize ie net ip tcp udp nw g w = Inr (Inr (Some m), g1, w1)"
  shows "mngr_typed m"
proof -
  obtain addr m0 where ip: "ip = Some addr" "ie_mngr_alloc ie" "length addr < SiDAQ_HOST_NAME_MAX"
    and m0: "set_sidaq_error zero_mngr (sidaq_code SIDAQ_NO_ERROR) SYS_ERR_NO_ERROR 0 = Inr m0"
    using run by (auto simp: SiDaqInitialize_def Let_def split: option.splits if_splits)
  define m1 where "m1 = m0\<lparr>ip_address := addr, status := SIDAQ_IDLE, tcp_port := tcp, udp_port := udp\<rparr>"
  have m1: "mngr_typed m1"
    using set_sidaq_error_typed [OF zero_typed m0] ip(3) by (simp add: m1_def mngr_typed_def)
  define fails where "fails \<longleftrightarrow> (\<not> nw \<and> g = 0) \<and> ie_wsa_startup ie \<noteq> 0"
  note run = run [unfolded SiDaqInitialize_def ip(1) option.case m0 obind_Inr Let_def, folded m1_def]
  show ?thesis
  proof (cases fails)
    case True
    then show ?thesis
      using run ip m1 set_sidaq_error_typed [of "m1\<lparr>status := SIDAQ_SYS_ERROR\<rparr>"] by (auto simp: fails_def)
  next
    case False
    obtain r where r: "ie_ctor ie addr (udp mod 2 ^ 16) = (Inr (), r)"
      using run ip False by (auto simp: fails_def split: prod.splits sum.splits)
    have rt: "rbcp_typed r" using ctor r by (metis snd_conv)
    have "mngr_typed (m1\<lparr>m_sitcp := Some r, sitcp_register := replicate SiTCP_RBCP_SIZE 0\<rparr>)"
      using m1 rt by (simp add: mngr_typed_def)
    note rd = read_typed [OF this]
    obtain ret m2 w2 where m2: "SiDaqRbcpReadBytes net SiTCP_REG_AREA_ADDRESS SiTCP_RBCP_REG_LENGTH
        (m1\<lparr>m_sitcp := Some r, sitcp_register := replicate SiTCP_RBCP_SIZE 0\<rparr>) w = Inr (ret, m2, w2)"
      using run ip False r by (auto simp: fails_def)
    have m2t: "mngr_typed m2" using rd [OF m2] .
    show ?thesis
    proof (cases ret)
      case None
      obtain m3 where "set_sidaq_error (m2\<lparr>m_sitcp := None, status := SIDAQ_SYS_ERROR\<rparr>)
          (sidaq_code SIDAQ_INITIAL_CONNECT_FAILED) SYS_ERR_IVALID_ADDR 0 = Inr m3" "m = m3"
        using run ip(2,3) False r m2 None by (auto simp: fails_def)
      then show ?thesis using set_sidaq_error_typed [of "m2\<lparr>m_sitcp := None, status := SIDAQ_SYS_ERROR\<rparr>"] m2t by simp
    next
      case (Some b)
      have "make_queues ie m2 = Inr (Some m)" using run ip(2,3) False r m2 Some by (auto simp: fails_def)
      then show ?thesis by (rule make_queues_typed [OF m2t])
    qed
  qed
qed

section \<open>Every call of the application and every round of the threads\<close>

inductive api_step :: "'w udp \<Rightarrow> SiDaqMngr \<Rightarrow> SiDaqMngr \<Rightarrow> bool" for net where
  run: "SiDaqRun re ra m g = Inr (st, m1, g1) \<Longrightarrow> api_step net m m1"
| stop: "wait_typed wait \<Longrightarrow> SiDaqStop wait m = (b, m1) \<Longrightarrow> api_step net m m1"
| reset: "SiDaqResetQueue (Some m) = Inr (Some m1) \<Longrightarrow> api_step net m m1"
| get: "SiDaqGetData env late m wait_msec = Inr (p, n, m1) \<Longrightarrow> api_step net m m1"
| pause: "SiDaqPauseRecvData (Some m) = Some m1 \<Longrightarrow> api_step net m m1"
| resume: "SiDaqResumeRecvData (Some m) = Some m1 \<Longrightarrow> api_step net m m1"
| reg_read: "SiDaqRbcpReadBytes net a len m w = Inr (ret, m1, w1) \<Longrightarrow> api_step net m m1"
| reg_write: "SiDaqRbcpWriteBytes net buf a len m w = Inr (ret', m1, w1) \<Longrightarrow> api_step net m m1"
| sock_start: "sock_thread_start alloc (sock_param m) = Inr (lp, th) \<Longrightarrow> api_step net m (m\<lparr>sock_param := lp\<rparr>)"
| sock_round: "sock_step SQPut os (sock_param m, th) = Inr (lp, th1) \<Longrightarrow> api_step net m (m\<lparr>sock_param := lp\<rparr>)"
| framer_start: "framer_thread_start m = Inr m1 \<Longrightarrow> api_step net m m1"
| framer: "wait_typed (fe_wait env') \<Longrightarrow> framer_round env' m = Inr (m1, b) \<Longrightarrow> api_step net m m1"
| framer_leave: "wait_typed (fe_wait env') \<Longrightarrow> framer_exit env' m = Inr m1 \<Longrightarrow> api_step net m m1"

lemma api_step_typed:
  assumes "api_step net m m1" "mngr_typed m"
  shows "mngr_typed m1"
  using assms
proof (induction rule: api_step.induct)
  case (stop wait m b m1)
  then show ?case using stop_typed [of m wait] by (metis snd_conv)
next
  case (sock_start alloc m lp th)
  then show ?case using sock_start_typed [OF mngr_typedD(1)] by simp
next
  case (sock_round os m th lp th1)
  then show ?case using sock_step_typed [OF mngr_typedD(1)] by simp
qed (auto simp: SiDaqGetData_def SiDaqPauseRecvData_def SiDaqResumeRecvData_def mngr_typedD split: if_splits
    intro: run_typed reset_typed read_typed write_typed framer_start_typed framer_round_typed framer_exit_typed)

interpretation api: preserved "api_step net" mngr_typed for net
  by unfold_locales (rule api_step_typed)

text \<open>C7. A manager that \<open>SiDaqInitialize\<close> returned holds only values of its declared types, whatever calls of the
  application and rounds of the two threads follow, in any order: its error codes and those of its framer and its
  parameter block are constants of their enumerations, the error message and the address end inside their
  arrays, the register copy, the framer's buffer and the packet buffer keep their sizes, the packet id is a byte and
  the byte count an \<open>unsigned long long\<close>.\<close>

theorem mngr_types:
  assumes "\<forall>addr port. rbcp_typed (snd (ie_ctor ie addr port))"
    and "SiDaqInitialize ie net ip tcp udp nw g w = Inr (Inr (Some m0), g1, w1)" "(api_step net)\<^sup>*\<^sup>* m0 m"
  shows "error_code m \<in> range sidaq_code \<and> length (error_message m) < 1024 \<and> length (ip_address m) < 256 \<and>
    length (sitcp_register m) = 255 \<and> queue_error_code (sock_param m) \<in> range sockqueue_code \<and>
    0 \<le> rx_bytes (sock_stat (sock_param m)) \<and> rx_bytes (sock_stat (sock_param m)) < 2 ^ 64 \<and>
    (\<forall>fr. m_framer m = Some fr \<longrightarrow> fr_error_code fr \<in> range framer_code \<and> fr_error_flg fr \<in> {0, -1} \<and>
      (\<forall>b. fr_buff_ptr fr = Some b \<longrightarrow> length b = 262144)) \<and>
    (\<forall>r. m_sitcp m = Some r \<longrightarrow> length (rbcp_buf r) = 263 \<and> 0 \<le> rb_id r \<and> rb_id r < 256)"
proof -
  have "mngr_typed m"
    by (rule api.run [OF assms(3) init_typed [OF assms(1,2)]])
  then show ?thesis
    by (simp add: mngr_typed_def param_typed_def framer_typed_def rbcp_typed_def mngr_consts rbcp_consts DEFAULT_MAX_FRAME_LEN_def)
qed

lemma demo_ctor_typed: "\<forall>addr port. rbcp_typed (snd (ie_ctor demo_init addr port))"
  by (simp add: demo_init_def demo_rbcp_def rbcp_typed_def rbcp_consts in_i32_def)

text \<open>A run after the initialization.\<close>

theorem mngr_types_witness:
  "\<exists>m0 w1 m. SiDaqInitialize demo_init demo_udp (Some ''192.168.10.16'') 24 4660 False 0 ((\<lambda>_. 7), []) = Inr (Inr (Some m0), 1, w1) \<and>
     (api_step demo_udp)\<^sup>*\<^sup>* m0 m \<and> m_framer m \<noteq> None \<and> error_code m \<in> range sidaq_code \<and> length (sitcp_register m) = 255"
proof -
  obtain m0 w1 m2 q2 e2 fr2 rep2 r2 where d:
    "SiDaqInitialize demo_init demo_udp (Some ''192.168.10.16'') 24 4660 False 0 ((\<lambda>_. 7), []) = Inr (Inr (Some m0), 1, w1)"
    "status m0 = SIDAQ_IDLE" "SiDaqRun demo_run default_args m0 1 = Inr (SIDAQ_RUN, m2, 2)"
    "ready m2 q2 e2 fr2" "m_reply m2 = Some rep2" "sq_inv rep2" "m_sitcp m2 = Some r2" by (rule demo_life)
  have steps: "(api_step demo_udp)\<^sup>*\<^sup>* m0 m2" by (rule r_into_rtranclp) (rule api_step.run [OF d(3)])
  have "m_framer m2 \<noteq> None" using d(4) by (simp add: ready_def holds_def)
  then show ?thesis using mngr_types [OF demo_ctor_typed d(1) steps] d(1) steps by blast
qed

end
