(* ===== verification/Mfc_Run.thy ===== *)
theory Mfc_Run
  imports Mfc_Props
begin

text \<open>
  Starting and stopping a measurement from the dialog of the sample application: what a click on Run
  does on every answer of the system, and a stop after which the dialog cannot go on.
\<close>

section \<open>A click on Run\<close>

text \<open>\<open>SiDaqTerminate\<close> does not fault on a manager whose start failed.\<close>

lemma terminate_total:
  assumes "squeue_list_ptr (sock_param m) = Some [q]" "squeue_count (sock_param m) = 1" "m_eventFrame m = Some e"
    and "sq_inv q" "sq_inv e" "\<forall>rep. m_reply m = Some rep \<longrightarrow> sq_inv rep" "keeps_queues wait"
  shows "\<exists>g1 freed. SiDaqTerminate wait (Some m) nw g = Inr (g1, freed)"
proof -
  define m1 where "m1 = snd (SiDaqStop wait m)"
  have m1: "squeue_list_ptr (sock_param m1) = Some [q]" "squeue_count (sock_param m1) = 1" "m_eventFrame m1 = Some e"
    "m_reply m1 = m_reply m"
    using assms(1-3,7) by (simp_all add: m1_def SiDaqStop_def stop_socket_def keeps_queues_def)
  obtain q1 e1 where qe: "DeleteSQueue q = Inr q1" "DeleteSQueue e = Inr e1" using delete_queue_ok assms(4,5) by meson
  obtain reps where "delete_queue_opt (m_reply m) = Inr reps"
  proof (cases "m_reply m")
    case (Some rep)
    then obtain rep1 where "DeleteSQueue rep = Inr rep1" using delete_queue_ok assms(6) by meson
    with Some that show thesis by (simp add: delete_queue_opt_def)
  qed (use that in \<open>simp add: delete_queue_opt_def\<close>)
  then show ?thesis using m1 qe
    by (simp add: SiDaqTerminate_def m1_def [symmetric] Let_def delete_queue_opt_def)
qed

lemma mngr_at_fields [simp]:
  "mngr_at a (w\<lparr>wd_names := ns\<rparr>) = mngr_at a w" "mngr_at a (w\<lparr>wd_wsa := g\<rparr>) = mngr_at a w"
  by (simp_all add: mngr_at_def)

lemma show_status_total:
  assumes "a \<noteq> 0" "mngr_at a w = Inr m"
  shows "\<exists>t names. show_status a (d, w) = Inr (d\<lparr>dl_text := t\<rparr>, w\<lparr>wd_names := names\<rparr>)"
proof -
  obtain t names where "SiDaqStatusText (Some m) (wd_names w) = (t, names)" by fastforce
  then show ?thesis using assms by (auto simp: show_status_def set_text_def)
qed

lemma run_stop_idle:
  assumes "dl_mngr d \<noteq> 0" "mngr_at (dl_mngr d) w = Inr m" "status m = SIDAQ_IDLE"
  shows "OnBnClickedButtonRunStop env (d, w) = start_run env (enable IDC_BUTTON_CONNECT False (enable IDC_BUTTON_RUN False d), w)"
  using assms by (simp add: OnBnClickedButtonRunStop_def status_ready)

lemma freed_faults:
  assumes "dl_mngr d \<noteq> 0" "wd_mngrs w (dl_mngr d) = None"
  shows "OnBnClickedButtonConnect env (d, w) = Inl Use_after_free" "OnTimer env n (d, w) = Inl Use_after_free"
  using assms by (simp_all add: OnBnClickedButtonConnect_def OnTimer_def terminate_at_def show_status_def mngr_at_def Let_def)

lemma gui_args_disable [simp]: "gui_args env (enable c b d) = gui_args env d"
  by (simp add: gui_args_def)

text \<open>The start itself, once an earlier consumer has been waited for.\<close>

lemma start_outcome:
  assumes "join_worker env (d0, w0) = Inr (d, w)" "dl_mngr d = a" "a \<noteq> 0" "mngr_at a w = Inr m" "startable m q e"
    and "gui_args env d0 = args" "stocked (ge_run env)" "args_ok args" "\<not> lookup_garbage (ge_run env) args"
    and "keeps_queues (ge_wait env)" "ge_thread env"
  shows "\<exists>d1 w1. start_run env (d0, w0) = Inr (d1, w1) \<and> dl_mngr d1 = a \<and>
    (if connects (ge_run env) args
     then dl_status d1 = GUI_RUNNING \<and> controls d1 = {IDC_BUTTON_RUN} \<and> dl_worker d1 \<and>
       tp_mngr (dl_param d1) = a \<and> tp_force_exit (dl_param d1) \<and> status_at a w1 = Inr SIDAQ_RUN
     else dl_status d1 = GUI_IDLE \<and> IDC_BUTTON_CONNECT \<in> controls d1 \<and> wd_mngrs w1 a = None \<and>
       (\<forall>env1 n. OnBnClickedButtonConnect env1 (d1, w1) = Inl Use_after_free \<and>
          OnTimer env1 n (d1, w1) = Inl Use_after_free))"
proof -
  note j = assms(1,6)
  from run_result [OF assms(5,7-9), of "wd_wsa w"] obtain st m1 g1 where r:
    "SiDaqRun (ge_run env) args m (wd_wsa w) = Inr (st, m1, g1)" "status m1 = st"
    "if connects (ge_run env) args then st = SIDAQ_RUN else st = SIDAQ_SYS_ERROR \<and>
       m_eventFrame m1 = Some e \<and> squeue_list_ptr (sock_param m1) = Some [q] \<and> squeue_count (sock_param m1) = 1 \<and>
       m_reply m1 = m_reply m" by metis
  let ?w2 = "(mngr_upd a m1 w)\<lparr>wd_wsa := g1\<rparr>"
  have at2: "mngr_at a ?w2 = Inr m1" using assms(3) by simp
  show ?thesis
  proof (cases "connects (ge_run env) args")
    case True
    let ?d1 = "AddOpelog ''Run Start'' (enter GUI_RUNNING (start_worker env d))"
    have "start_run env (d0, w0) = Inr (?d1, ?w2)"
      using j r True assms(2,4) by (simp add: start_run_def Let_def)
    moreover have "dl_mngr ?d1 = a" "dl_worker ?d1" "tp_mngr (dl_param ?d1) = a" "tp_force_exit (dl_param ?d1)"
      using assms(2,11) by (simp_all add: start_worker_def Let_def)
    moreover have "status_at a ?w2 = Inr SIDAQ_RUN" using status_ready [OF assms(3) at2] r(2,3) True by simp
    ultimately show ?thesis using True by (intro exI [of _ ?d1] exI [of _ ?w2]) simp
  next
    case False
    obtain t names where s: "show_status a (d, ?w2) = Inr (d\<lparr>dl_text := t\<rparr>, ?w2\<lparr>wd_names := names\<rparr>)"
      using show_status_total [OF assms(3) at2] by blast
    have inv: "sq_inv q" "sq_inv e" "\<forall>rep. m_reply m1 = Some rep \<longrightarrow> sq_inv rep"
      using assms(5) r(3) False by (simp_all add: startable_def)
    obtain g2 freed where "SiDaqTerminate (ge_wait env) (Some m1) False g1 = Inr (g2, freed)"
      using terminate_total [OF _ _ _ inv assms(10)] r(3) False by metis
    then obtain w4 where w4: "terminate_at env a (?w2\<lparr>wd_names := names\<rparr>) = Inr w4" "wd_mngrs w4 a = None"
      using assms(3) at2 by (cases freed) (auto simp: terminate_at_def)
    let ?d1 = "enter GUI_IDLE (AddOpelog ''Run Failed'' (d\<lparr>dl_text := t\<rparr>))"
    have "start_run env (d0, w0) = Inr (?d1, w4)"
      using j r False assms(2,4) s w4(1) by (simp add: start_run_def Let_def)
    then show ?thesis using False assms(2,3) w4(2) freed_faults [of ?d1 w4]
      by (intro exI [of _ ?d1] exI [of _ w4]) simp
  qed
qed

text \<open>C26. What a click on Run does to a dialog with an Idle manager, when memory, the window's thread and the
  values in its boxes are as they should be (\<open>stocked\<close>, \<open>ge_thread\<close>, \<open>args_ok\<close>: a header of at most two bytes) and the
  manager found after the wait for an earlier consumer has its queues and no unfinished bytes (\<open>startable\<close>).  When
  the consumer of an earlier measurement has ended by itself, its thread object is gone and the wait reads it; and
  when the lookup of a name fails with garbage in \<open>pResult\<close>, \<open>SiDaqRun\<close> frees that.  In every other case: when
  every call of the connection succeeds, the dialog is running with only the Run button enabled, a consumer is
  started on the same manager, and that manager is Running; when one fails, the manager has been freed while
  the dialog goes idle, keeps its pointer and enables Connect: the next click there and the next tick of the
  timer access freed memory.\<close>

theorem gui_run_outcome:
  assumes "dl_mngr d = a" "a \<noteq> 0" "status_at a w = Inr SIDAQ_IDLE" "mngr_at a (awaited env d w) = Inr m" "startable m q e"
    and "stocked (ge_run env)" "args_ok (gui_args env d)" "keeps_queues (ge_wait env)" "ge_thread env"
  shows "if consumer_gone env d \<or> lookup_garbage (ge_run env) (gui_args env d)
   then OnBnClickedButtonRunStop env (d, w) = Inl Use_after_free
   else \<exists>d1 w1. OnBnClickedButtonRunStop env (d, w) = Inr (d1, w1) \<and> dl_mngr d1 = a \<and>
    (if connects (ge_run env) (gui_args env d)
     then dl_status d1 = GUI_RUNNING \<and> controls d1 = {IDC_BUTTON_RUN} \<and> dl_worker d1 \<and>
       tp_mngr (dl_param d1) = a \<and> tp_force_exit (dl_param d1) \<and> status_at a w1 = Inr SIDAQ_RUN
     else dl_status d1 = GUI_IDLE \<and> IDC_BUTTON_CONNECT \<in> controls d1 \<and> wd_mngrs w1 a = None \<and>
       (\<forall>env1 n. OnBnClickedButtonConnect env1 (d1, w1) = Inl Use_after_free \<and>
          OnTimer env1 n (d1, w1) = Inl Use_after_free))"
proof -
  let ?d = "enable IDC_BUTTON_CONNECT False (enable IDC_BUTTON_RUN False d)"
  have c: "OnBnClickedButtonRunStop env (d, w) = start_run env (?d, w)"
    using assms(1-3) by (simp add: OnBnClickedButtonRunStop_def)
  have g: "consumer_gone env ?d = consumer_gone env d" "awaited env ?d w = awaited env d w"
    by (simp_all add: consumer_gone_def awaited_def)
  show ?thesis
  proof (cases "consumer_gone env d")
    case True
    then show ?thesis using c g join_gone [of env ?d w] by (simp add: start_run_def Let_def)
  next
    case run: False
    with g(1) obtain d2 where d2: "join_worker env (?d, w) = Inr (d2, awaited env d w)" "\<not> dl_worker d2"
      "\<exists>tp b. d2 = ?d\<lparr>dl_param := tp, dl_worker := b\<rparr>" using join_waits [of env ?d w] unfolding g(2) by metis
    have a2: "dl_mngr d2 = a" using d2(3) assms(1) by auto
    show ?thesis
    proof (cases "lookup_garbage (ge_run env) (gui_args env d)")
      case True
      then show ?thesis using c d2(1) a2 assms(4) by (simp add: start_run_def Let_def SiDaqRun_def run_connect_garbage)
    next
      case False
      with run start_outcome [OF d2(1) a2 _ assms(4,5), of "gui_args env d"] assms(2,6-9) c show ?thesis by simp
    qed
  qed
qed

text \<open>Both outcomes occur: the example's connection, and a socket that is refused.\<close>

definition refused_run :: run_env where
  "refused_run = demo_run\<lparr>re_socket := INVALID_SOCKET\<rparr>"

lemma demo_args:
  assumes "dl_cur_sel d = 0"
  shows "args_ok (gui_args (demo_gui_env re) d)" "connects demo_run (gui_args (demo_gui_env re) d)"
    "\<not> connects refused_run (gui_args (demo_gui_env re) d)"
  using assms by (simp_all add: gui_args_def args_ok_def connects_def demo_run_def refused_run_def DEFAULT_MAX_FRAME_LEN_def
      INVALID_SOCKET_def demo_gui_env_def Let_def u32_def)

theorem gui_run_outcome_witness:
  "\<exists>d w d1 w1 d2 w2. dl_status d = GUI_IDLE \<and>
     OnBnClickedButtonRunStop (demo_gui_env demo_run) (d, w) = Inr (d1, w1) \<and> status_at 1 w1 = Inr SIDAQ_RUN \<and>
     OnBnClickedButtonRunStop (demo_gui_env refused_run) (d, w) = Inr (d2, w2) \<and>
     OnTimer (demo_gui_env refused_run) 1 (d2, w2) = Inl Use_after_free"
proof -
  obtain d and w :: "demo_net world" and m q e where "gui_reachable (d, w)" and
    d: "dl_status d = GUI_IDLE" "dl_mngr d = 1" "wd_mngrs w 1 = Some m" "startable m q e" "status m = SIDAQ_IDLE"
    "\<not> dl_worker d" "dl_cur_sel d = 0" and "dl_ticking d" "dl_log d = [''System Start'', ''Connection Start'']"
    "controls d = permitted GUI_IDLE 0" by (rule demo_connected)
  have a: "(1::nat) \<noteq> 0" "mngr_at 1 w = Inr m" using d(3) by (simp_all add: mngr_at_def)
  have i: "status_at 1 w = Inr SIDAQ_IDLE" using status_ready [OF a] d(5) by simp
  have at: "mngr_at 1 (awaited (demo_gui_env re) d w) = Inr m" and n: "\<not> consumer_gone (demo_gui_env re) d" for re
    using a(2) d(6) by (simp_all add: awaited_def consumer_gone_def)
  have s: "stocked (ge_run (demo_gui_env demo_run))" "stocked (ge_run (demo_gui_env refused_run))"
    "\<not> lookup_garbage demo_run ra" "\<not> lookup_garbage refused_run ra" for ra
    using demo_run_ok(1) by (simp_all add: demo_gui_env_def refused_run_def supplied_def stocked_def lookup_garbage_def demo_run_def)
  have k: "keeps_queues (ge_wait (demo_gui_env re))" "ge_thread (demo_gui_env re)" "ge_run (demo_gui_env re) = re" for re
    using keeps_id by (simp_all add: demo_gui_env_def)
  note o = gui_run_outcome [OF d(2) a(1) i at d(4)]
  from o [OF s(1) demo_args(1) k(1,2)] demo_args(2) d(7) obtain d1 w1 where
    "OnBnClickedButtonRunStop (demo_gui_env demo_run) (d, w) = Inr (d1, w1)" "status_at 1 w1 = Inr SIDAQ_RUN"
    by (auto simp: k(3) n s(3,4))
  moreover from o [OF s(2) demo_args(1) k(1,2)] demo_args(3) d(7) obtain d2 w2 where
    "OnBnClickedButtonRunStop (demo_gui_env refused_run) (d, w) = Inr (d2, w2)"
    "OnTimer (demo_gui_env refused_run) 1 (d2, w2) = Inl Use_after_free"
    by (auto simp: k(3) n s(3,4))
  ultimately show ?thesis using d(1) by blast
qed


section \<open>A stop that does not end\<close>

text \<open>A dialog that waits for the end of a measurement whose manager has gone Idle with blocks left in the
  receive queue.\<close>

definition stuck :: "addr \<Rightarrow> SiDaqMngr \<Rightarrow> dialog \<times> 'n world \<Rightarrow> bool" where
  "stuck a m = (\<lambda>(d, w). a \<noteq> 0 \<and> dl_mngr d = a \<and> mngr_at a w = Inr m \<and> dl_status d = GUI_STOPPING \<and>
     controls d \<subseteq> {IDC_BUTTON_RESET})"

lemma counts_shown [simp]:
  "dl_mngr (show_counts c d) = dl_mngr d" "dl_status (show_counts c d) = dl_status d"
  "dl_ticking (show_counts c d) = dl_ticking d" "controls (show_counts c d) = controls d"
  by (simp_all add: show_counts_def split: prod.splits)

lemma stuck_timer:
  assumes "stuck a m (d, w)" "ready m q e fr" "status m = SIDAQ_IDLE" "sq_frames q \<noteq> []"
  shows "\<exists>s1. OnTimer env n (d, w) = Inr s1 \<and> stuck a m s1"
proof -
  let ?d0 = "if n = 1 then d\<lparr>dl_ticking := False\<rparr> else d"
  from assms(1) have a: "a \<noteq> 0" "dl_mngr ?d0 = a" "mngr_at a w = Inr m" "dl_status ?d0 = GUI_STOPPING"
    "controls ?d0 \<subseteq> {IDC_BUTTON_RESET}" by (auto simp: stuck_def)
  obtain t names where s: "show_status a (?d0, w) = Inr (?d0\<lparr>dl_text := t\<rparr>, w\<lparr>wd_names := names\<rparr>)"
    using show_status_total [OF a(1,3)] by blast
  let ?w1 = "w\<lparr>wd_names := names\<rparr>" and ?c = "(int (length (sq_frames q)), int (length (sq_frames e)))"
  have at: "mngr_at a ?w1 = Inr m" using a(3) by simp
  let ?d2 = "show_counts ?c (?d0\<lparr>dl_text := t\<rparr>)"
  have "OnTimer env n (d, w) = Inr (if n = 1 then ?d2\<lparr>dl_ticking := ge_timer env\<rparr> else ?d2, ?w1)"
    using s a(2,4) counts_ready [OF a(1) at assms(2)] status_ready [OF a(1) at] assms(3,4)
    by (simp add: OnTimer_def Let_def timer_status_def)
  then show ?thesis using a at by (simp add: stuck_def split: if_splits)
qed

lemma stuck_reset:
  assumes "stuck a m (d, w)" "status m = SIDAQ_IDLE"
  shows "\<exists>s1. OnBnClickedButtonReset (d, w) = Inr s1 \<and> stuck a m s1"
  using assms by (simp add: stuck_def OnBnClickedButtonReset_def SiDaqResetQueue_def Let_def)

lemma stuck_msg:
  assumes "gui_msg s s1" "stuck a m s" "ready m q e fr" "status m = SIDAQ_IDLE" "sq_frames q \<noteq> []"
  shows "stuck a m s1"
proof -
  have off: "\<not> dl_enabled d c" if "stuck a m (d, w)" "c \<in> interactive" "c \<noteq> IDC_BUTTON_RESET" for d w c
    using that by (auto simp: stuck_def controls_def)
  show ?thesis
    using assms(1,2)
  proof (cases rule: gui_msg.cases)
    case (timer env d w)
    then show ?thesis using stuck_timer [OF _ assms(3-5), of a d w env 1] assms(2) by auto
  next
    case (reset d w)
    then show ?thesis using stuck_reset [OF _ assms(4), of a d w] assms(2) by auto
  qed (use off in \<open>auto simp: interactive_def stuck_def\<close>)
qed

text \<open>C27. A dialog that waits for a measurement whose manager went Idle with blocks left in its receive
  queue waits for ever: whatever messages but those that close it arrive, it stays in the stopping state with at most the Reset
  button enabled, and Reset, which does nothing to an Idle manager, does not clear the queue.\<close>

theorem gui_stuck:
  assumes "stuck a m s" "ready m q e fr" "status m = SIDAQ_IDLE" "sq_frames q \<noteq> []" "gui_msg\<^sup>*\<^sup>* s s1"
  shows "dl_status (fst s1) = GUI_STOPPING \<and> controls (fst s1) \<subseteq> {IDC_BUTTON_RESET} \<and> mngr_at a (snd s1) = Inr m \<and>
    (\<exists>s2. OnTimer env 1 s1 = Inr s2 \<and> dl_status (fst s2) = GUI_STOPPING)"
proof -
  have s: "stuck a m s1"
    using assms(5) by (induction rule: rtranclp_induct) (use assms(1) stuck_msg [OF _ _ assms(2-4)] in blast)+
  then obtain s2 where "OnTimer env 1 s1 = Inr s2" "stuck a m s2"
    using stuck_timer [OF _ assms(2-4)] by (cases s1) blast
  then show ?thesis using s by (cases s1; cases s2) (simp add: stuck_def)
qed

theorem gui_stuck_witness:
  "\<exists>q m d s2. status m = SIDAQ_IDLE \<and> recv_queue m = Inr q \<and> sq_frames q = [[1, 2, 3], [4, 5]] \<and>
     dl_status d = GUI_STOPPING \<and> dl_enabled d IDC_BUTTON_RESET \<and>
     OnTimer (demo_gui_env demo_run) 1 (d, demo_start\<lparr>wd_mngrs := [1 \<mapsto> m]\<rparr>) = Inr s2 \<and> dl_status (fst s2) = GUI_STOPPING"
proof -
  obtain q where q: "sq_inv q" "sq_frames q = [[1, 2, 3], [4, 5 :: byte]]" by (rule demo_received)
  have p: "(0::int) < 2" "(2::int) < 1000" by simp_all
  note f = demo_framer_ok [OF p, of 0]
  let ?m = "demo_mngr SIDAQ_IDLE q q (demo_framer 2 0)" and ?d = "enter GUI_STOPPING (demo_gui\<lparr>dl_mngr := 1\<rparr>)"
  have r: "ready ?m q q (demo_framer 2 0)" by (rule demo_ready) (use q f in simp_all)
  have s: "stuck 1 ?m (?d, demo_start\<lparr>wd_mngrs := [1 \<mapsto> ?m]\<rparr>)" by (simp add: stuck_def mngr_at_def)
  have "IDC_BUTTON_RESET \<in> controls ?d" by simp
  then have "dl_enabled ?d IDC_BUTTON_RESET" by (simp add: controls_def)
  moreover have "status ?m = SIDAQ_IDLE" "sq_frames q \<noteq> []" "recv_queue ?m = Inr q"
    using q(2) recv_queue_holds [OF demo_holds] by simp_all
  ultimately show ?thesis using gui_stuck [OF s r _ _ rtranclp.rtrancl_refl, of "demo_gui_env demo_run"] q(2) by fastforce
qed

end
