(* ===== verification/Mfc_Window.thy ===== *)
theory Mfc_Window
  imports Mfc_Run
begin

text \<open>
  The window of the sample application: which message reaches which handler of the dialog
  (\<open>MfcSample/SiDaqMfcSampleDlg.cpp\<close>: the message map, \<open>WindowProc\<close>, \<open>OnSysCommand\<close>, \<open>OnBnClickedOk\<close>), and what
  closing the window does.

  The base class \<open>CDialogEx\<close> belongs to the MFC library; of its handlers only one thing matters here, whether
  it ends the dialog on a message, and that is the parameter \<open>mfc\<close>.  \<open>ends_dialog\<close> states its documented
  behaviour: OK, Cancel (the Escape key) and the default treatment of \<open>WM_CLOSE\<close> end a dialog, and the window
  is destroyed.
\<close>

section \<open>Messages\<close>

datatype message =
    WM_CLOSE | WM_DESTROY | WM_TIMER int | WM_SYSCOMMAND "32 word" | WM_PAINT | WM_QUERYDRAGICON
  | BN_CLICKED ctrl | CBN_SELCHANGE ctrl | BN_CLICKED_IDOK | BN_CLICKED_IDCANCEL | ID_APP_EXIT

text \<open>The answer of a handler: an exception, or the dialog and the message it passes on to the base class.\<close>

type_synonym 'n handled = "(rbcp_exn + (dialog \<times> 'n world) \<times> message option) outcome"

definition handled :: "(dialog \<times> 'n world) outcome \<Rightarrow> 'n handled" where
  "handled r = obind r (\<lambda>s. Inr (Inr (s, None)))"

text \<open>The about box keeps no state.\<close>

definition OnSysCommand :: "32 word \<Rightarrow> dialog \<times> 'n world \<Rightarrow> 'n handled" where
  "OnSysCommand nID s =
     (if and nID 0xFFF0 = IDM_ABOUTBOX then Inr (Inr (s, None)) else Inr (Inr (s, Some (WM_SYSCOMMAND nID))))"

definition OnBnClickedOk :: "'n gui_env \<Rightarrow> dialog \<times> 'n world \<Rightarrow> 'n handled" where
  "OnBnClickedOk env s = obind (OnAppExit env s) (\<lambda>s1. Inr (Inr (s1, Some BN_CLICKED_IDOK)))"

text \<open>The message map; \<open>picked\<close> is the answer of the folder dialog.  A message without an entry goes to the
  base class.\<close>

definition message_map :: "'n gui_env \<Rightarrow> string option \<Rightarrow> message \<Rightarrow> dialog \<times> 'n world \<Rightarrow> 'n handled" where
  "message_map env picked msg s =
     (case msg of
        WM_SYSCOMMAND nID \<Rightarrow> OnSysCommand nID s
      | WM_PAINT \<Rightarrow> Inr (Inr (s, case OnPaint env (fst s) of Draw_icon _ _ _ \<Rightarrow> None | Base_paint \<Rightarrow> Some WM_PAINT))
      | WM_TIMER nIDEvent \<Rightarrow> handled (OnTimer env nIDEvent s)
      | WM_QUERYDRAGICON \<Rightarrow> Inr (Inr (s, None))
      | WM_DESTROY \<Rightarrow> handled (OnDestroy env s)
      | BN_CLICKED IDC_BUTTON_CONNECT \<Rightarrow>
          obind (OnBnClickedButtonConnect env s) (\<lambda>r. Inr (map_sum id (\<lambda>s1. (s1, None)) r))
      | BN_CLICKED IDC_BUTTON_RUN \<Rightarrow> handled (OnBnClickedButtonRunStop env s)
      | ID_APP_EXIT \<Rightarrow> handled (OnAppExit env s)
      | BN_CLICKED IDC_BUTTON_RBCP_READ \<Rightarrow> handled (OnBnClickedButtonRbcpRead env s)
      | BN_CLICKED IDC_BUTTON_FILE_BROWSE \<Rightarrow> handled (Inr (OnBnClickedButtonFileBrowse picked s))
      | BN_CLICKED IDC_BUTTON_RBCP_WRITE \<Rightarrow> handled (OnBnClickedButtonRbcpWrite env s)
      | BN_CLICKED_IDOK \<Rightarrow> OnBnClickedOk env s
      | BN_CLICKED IDC_BUTTON_RESET \<Rightarrow> handled (OnBnClickedButtonReset s)
      | CBN_SELCHANGE IDC_COMBO_RUN_MODE \<Rightarrow> handled (Inr (OnCbnSelchangeComboRunMode s))
      | _ \<Rightarrow> Inr (Inr (s, Some msg)))"

text \<open>The message map as the table the macros make of it: entries of message, notification code and control,
  searched from the top for the first that matches.  The codes and the identifiers of the standard commands are
  those of the Windows headers; an entry of \<open>ON_COMMAND\<close> has the code 0, which is also that of \<open>BN_CLICKED\<close>.\<close>

datatype handler = H_OnSysCommand | H_OnPaint | H_OnTimer | H_OnQueryDragIcon | H_OnDestroy
  | H_OnBnClickedButtonConnect | H_OnBnClickedButtonRunStop | H_OnAppExit | H_OnBnClickedButtonRbcpRead
  | H_OnBnClickedButtonFileBrowse | H_OnBnClickedButtonRbcpWrite | H_OnBnClickedOk | H_OnBnClickedButtonReset
  | H_OnCbnSelchangeComboRunMode

definition message_entries :: "((int \<times> int \<times> int) \<times> handler) list" where
  "message_entries =
     [((0x0112, 0, 0), H_OnSysCommand), ((0x000F, 0, 0), H_OnPaint), ((0x0113, 0, 0), H_OnTimer),
      ((0x0037, 0, 0), H_OnQueryDragIcon), ((0x0002, 0, 0), H_OnDestroy),
      ((0x0111, 0, ctrl_id IDC_BUTTON_CONNECT), H_OnBnClickedButtonConnect),
      ((0x0111, 0, ctrl_id IDC_BUTTON_RUN), H_OnBnClickedButtonRunStop),
      ((0x0111, 0, 0xE141), H_OnAppExit),
      ((0x0111, 0, ctrl_id IDC_BUTTON_RBCP_READ), H_OnBnClickedButtonRbcpRead),
      ((0x0111, 0, ctrl_id IDC_BUTTON_FILE_BROWSE), H_OnBnClickedButtonFileBrowse),
      ((0x0111, 0, ctrl_id IDC_BUTTON_RBCP_WRITE), H_OnBnClickedButtonRbcpWrite),
      ((0x0111, 0, 1), H_OnBnClickedOk),
      ((0x0111, 0, ctrl_id IDC_BUTTON_RESET), H_OnBnClickedButtonReset),
      ((0x0111, 1, ctrl_id IDC_COMBO_RUN_MODE), H_OnCbnSelchangeComboRunMode)]"

primrec message_key :: "message \<Rightarrow> int \<times> int \<times> int" where
  "message_key WM_CLOSE = (0x0010, 0, 0)"
| "message_key WM_DESTROY = (0x0002, 0, 0)"
| "message_key (WM_TIMER nIDEvent) = (0x0113, 0, 0)"
| "message_key (WM_SYSCOMMAND nID) = (0x0112, 0, 0)"
| "message_key WM_PAINT = (0x000F, 0, 0)"
| "message_key WM_QUERYDRAGICON = (0x0037, 0, 0)"
| "message_key (BN_CLICKED c) = (0x0111, 0, ctrl_id c)"
| "message_key (CBN_SELCHANGE c) = (0x0111, 1, ctrl_id c)"
| "message_key BN_CLICKED_IDOK = (0x0111, 0, 1)"
| "message_key BN_CLICKED_IDCANCEL = (0x0111, 0, 2)"
| "message_key ID_APP_EXIT = (0x0111, 0, 0xE141)"

primrec call_handler :: "'n gui_env \<Rightarrow> string option \<Rightarrow> message \<Rightarrow> handler \<Rightarrow> dialog \<times> 'n world \<Rightarrow> 'n handled" where
  "call_handler env picked msg H_OnSysCommand s = OnSysCommand (case msg of WM_SYSCOMMAND nID \<Rightarrow> nID | _ \<Rightarrow> 0) s"
| "call_handler env picked msg H_OnPaint s =
     Inr (Inr (s, case OnPaint env (fst s) of Draw_icon _ _ _ \<Rightarrow> None | Base_paint \<Rightarrow> Some WM_PAINT))"
| "call_handler env picked msg H_OnTimer s = handled (OnTimer env (case msg of WM_TIMER nIDEvent \<Rightarrow> nIDEvent | _ \<Rightarrow> 0) s)"
| "call_handler env picked msg H_OnQueryDragIcon s = Inr (Inr (s, None))"
| "call_handler env picked msg H_OnDestroy s = handled (OnDestroy env s)"
| "call_handler env picked msg H_OnBnClickedButtonConnect s =
     obind (OnBnClickedButtonConnect env s) (\<lambda>r. Inr (map_sum id (\<lambda>s1. (s1, None)) r))"
| "call_handler env picked msg H_OnBnClickedButtonRunStop s = handled (OnBnClickedButtonRunStop env s)"
| "call_handler env picked msg H_OnAppExit s = handled (OnAppExit env s)"
| "call_handler env picked msg H_OnBnClickedButtonRbcpRead s = handled (OnBnClickedButtonRbcpRead env s)"
| "call_handler env picked msg H_OnBnClickedButtonFileBrowse s = handled (Inr (OnBnClickedButtonFileBrowse picked s))"
| "call_handler env picked msg H_OnBnClickedButtonRbcpWrite s = handled (OnBnClickedButtonRbcpWrite env s)"
| "call_handler env picked msg H_OnBnClickedOk s = OnBnClickedOk env s"
| "call_handler env picked msg H_OnBnClickedButtonReset s = handled (OnBnClickedButtonReset s)"
| "call_handler env picked msg H_OnCbnSelchangeComboRunMode s = handled (Inr (OnCbnSelchangeComboRunMode s))"

definition dispatch :: "'n gui_env \<Rightarrow> string option \<Rightarrow> message \<Rightarrow> dialog \<times> 'n world \<Rightarrow> 'n handled" where
  "dispatch env picked msg s =
     (case map_of message_entries (message_key msg) of
        None \<Rightarrow> Inr (Inr (s, Some msg))
      | Some h \<Rightarrow> call_handler env picked msg h s)"

text \<open>The table of the message map leads every message to its own handler, since no two of the dialog's
  controls and commands share an identifier; a message without an entry goes to the base class.\<close>

theorem message_table:
  "dispatch env picked msg s = message_map env picked msg s \<and>
   (\<nexists>m1. m1 \<noteq> msg \<and> message_key m1 = message_key msg \<and> fst (message_key msg) = 0x0111)"
proof
  show "dispatch env picked msg s = message_map env picked msg s"
    by (cases msg) (simp_all add: dispatch_def message_entries_def message_map_def split: ctrl.split)
  have "m1 = msg" if "message_key m1 = message_key msg" "fst (message_key msg) = 0x0111" for m1
    using that by (cases msg; cases m1) auto
  then show "\<nexists>m1. m1 \<noteq> msg \<and> message_key m1 = message_key msg \<and> fst (message_key msg) = 0x0111" by blast
qed

text \<open>\<open>WindowProc\<close>; the flag says that the dialog is open.\<close>

definition WindowProc :: "'n gui_env \<Rightarrow> string option \<Rightarrow> (message \<Rightarrow> bool) \<Rightarrow> message \<Rightarrow> (dialog \<times> 'n world) \<times> bool \<Rightarrow>
    (rbcp_exn + (dialog \<times> 'n world) \<times> bool) outcome" where
  "WindowProc env picked mfc msg = (\<lambda>(s, is_open).
     obind (if msg = WM_CLOSE then OnAppExit env s else Inr s) (\<lambda>s1.
     obind (message_map env picked msg s1) (\<lambda>r. case r of
         Inl e \<Rightarrow> Inr (Inl e)
       | Inr (s2, base) \<Rightarrow> Inr (Inr (s2, is_open \<and> (case base of None \<Rightarrow> True | Some b \<Rightarrow> \<not> mfc b))))))"

fun window_run :: "'n gui_env \<Rightarrow> (message \<Rightarrow> bool) \<Rightarrow> message list \<Rightarrow> (dialog \<times> 'n world) \<times> bool \<Rightarrow>
    (rbcp_exn + (dialog \<times> 'n world) \<times> bool) outcome" where
  "window_run env mfc [] s = Inr (Inr s)"
| "window_run env mfc (msg # msgs) s = obind (WindowProc env None mfc msg s) (\<lambda>r. case r of
       Inl e \<Rightarrow> Inr (Inl e)
     | Inr s1 \<Rightarrow> window_run env mfc msgs s1)"

definition ends_dialog :: "(message \<Rightarrow> bool) \<Rightarrow> bool" where
  "ends_dialog mfc \<longleftrightarrow> mfc WM_CLOSE \<and> mfc BN_CLICKED_IDOK \<and> mfc BN_CLICKED_IDCANCEL"

text \<open>Every message of the dialog's state machine but a plain edit is one that the message map handles.\<close>

definition dispatched :: "dialog \<times> 'n world \<Rightarrow> dialog \<times> 'n world \<Rightarrow> bool" where
  "dispatched s s1 \<longleftrightarrow> (\<exists>env picked msg. message_map env picked msg s = Inr (Inr (s1, None)))"

lemma dispatchedI: "message_map env picked msg s = Inr (Inr (s1, None)) \<Longrightarrow> dispatched s s1"
  by (auto simp: dispatched_def)

lemma gui_msg_dispatched:
  assumes "gui_msg s s1"
  shows "dispatched s s1 \<or> (\<exists>i. dispatched (SetCurSel i (fst s), snd s) s1) \<or>
    (\<exists>c t b. s1 = (set_text c t (fst s)\<lparr>dl_check := (dl_check (fst s))(c := b)\<rparr>, snd s))"
  using assms
proof (cases rule: gui_msg.cases)
  case (connect env d w)
  then show ?thesis using dispatchedI [of env None "BN_CLICKED IDC_BUTTON_CONNECT"] by (simp add: message_map_def)
next
  case (run_stop env d w)
  then show ?thesis using dispatchedI [of env None "BN_CLICKED IDC_BUTTON_RUN"] by (simp add: message_map_def handled_def)
next
  case (timer env d w)
  then show ?thesis using dispatchedI [of env None "WM_TIMER 1"] by (simp add: message_map_def handled_def)
next
  case (reset d w)
  then show ?thesis using dispatchedI [of undefined None "BN_CLICKED IDC_BUTTON_RESET" s s1] by (simp add: message_map_def handled_def)
next
  case (rbcp_read d env w)
  then show ?thesis using dispatchedI [of env None "BN_CLICKED IDC_BUTTON_RBCP_READ"] by (simp add: message_map_def handled_def)
next
  case (rbcp_write d env w)
  then show ?thesis using dispatchedI [of env None "BN_CLICKED IDC_BUTTON_RBCP_WRITE"] by (simp add: message_map_def handled_def)
next
  case (select d i w)
  then show ?thesis
    using dispatchedI [of undefined None "CBN_SELCHANGE IDC_COMBO_RUN_MODE" "(SetCurSel i d, w)" s1]
    by (fastforce simp: message_map_def handled_def)
next
  case (browse d w picked)
  then show ?thesis
    using dispatchedI [of undefined picked "BN_CLICKED IDC_BUTTON_FILE_BROWSE" s s1] by (simp add: message_map_def handled_def)
qed auto

section \<open>Closing the window\<close>

text \<open>A manager that \<open>SiDaqTerminate\<close> can free.\<close>

definition terminable :: "SiDaqMngr \<Rightarrow> bool" where
  "terminable m \<longleftrightarrow> (\<exists>q e. squeue_list_ptr (sock_param m) = Some [q] \<and> squeue_count (sock_param m) = 1 \<and>
     m_eventFrame m = Some e \<and> sq_inv q \<and> sq_inv e) \<and> (\<forall>rep. m_reply m = Some rep \<longrightarrow> sq_inv rep)"

lemma terminate_at_frees:
  assumes "a \<noteq> 0" "mngr_at a w = Inr m" "terminable m" "keeps_queues (ge_wait env)"
  shows "\<exists>g. terminate_at env a w = Inr (w\<lparr>wd_mngrs := (wd_mngrs w)(a := None), wd_wsa := g\<rparr>)"
proof -
  obtain g freed where "SiDaqTerminate (ge_wait env) (Some m) False (wd_wsa w) = Inr (g, freed)"
    using terminate_total [of m _ _ "ge_wait env" False "wd_wsa w"] assms(3,4) unfolding terminable_def by blast
  then show ?thesis using assms(1,2) by (cases freed) (auto simp: terminate_at_def)
qed

lemma no_manager:
  assumes "dl_mngr d = 0"
  shows "OnDestroy env (d, w) = Inr (d, w)" "OnTimer env n (d, w) = Inl Null_deref"
  using assms by (simp_all add: OnDestroy_def OnTimer_def terminate_at_def show_status_def mngr_at_def Let_def split: prod.split)

lemma app_exit:
  assumes "dl_mngr d = a" "a \<noteq> 0" "join_worker env (d, w) = Inr (d1, w1)" "mngr_at a w1 = Inr m" "terminable m" "keeps_queues (ge_wait env)"
  shows "\<exists>g. OnAppExit env (d, w) = Inr (d1\<lparr>dl_mngr := 0\<rparr>, w1\<lparr>wd_mngrs := (wd_mngrs w1)(a := None), wd_wsa := g\<rparr>)"
proof -
  have "dl_mngr d1 = a" using assms(1,3) by (auto simp: join_worker_def split: if_splits)
  then show ?thesis using terminate_at_frees [OF assms(2,4-6)] assms(2,3) by (auto simp: OnAppExit_def)
qed


text \<open>Closing a connected window, with the close box or the Exit button: the consumer is told to end and
  waited for, the manager is freed once, the pointer is NULL when the window is destroyed, and the dialog has
  ended; no other manager is touched.  The Exit command does the same but leaves the dialog open, with its timer
  set: the next tick dereferences NULL.\<close>

theorem window_close:
  assumes "dl_mngr d = a" "a \<noteq> 0" "join_worker env (d, w) = Inr (d1, w1)" "mngr_at a w1 = Inr m" "terminable m"
    and "keeps_queues (ge_wait env)" "ends_dialog mfc" "msg = WM_CLOSE \<or> msg = BN_CLICKED_IDOK"
  shows "\<exists>d2 w2. window_run env mfc [msg, WM_DESTROY] ((d, w), True) = Inr (Inr ((d2, w2), False)) \<and>
    window_run env mfc [ID_APP_EXIT] ((d, w), True) = Inr (Inr ((d2, w2), True)) \<and>
    dl_mngr d2 = 0 \<and> \<not> dl_worker d2 \<and> (dl_worker d \<longrightarrow> \<not> tp_force_exit (dl_param d2)) \<and>
    wd_mngrs w2 = (wd_mngrs w1)(a := None) \<and> window_run env mfc [ID_APP_EXIT, WM_TIMER n] ((d, w), True) = Inl Null_deref"
proof -
  let ?d2 = "d1\<lparr>dl_mngr := 0\<rparr>"
  obtain g where ex: "OnAppExit env (d, w) = Inr (?d2, w1\<lparr>wd_mngrs := (wd_mngrs w1)(a := None), wd_wsa := g\<rparr>)"
    using app_exit [OF assms(1-6)] by blast
  let ?w2 = "w1\<lparr>wd_mngrs := (wd_mngrs w1)(a := None), wd_wsa := g\<rparr>"
  have close: "WindowProc env None mfc msg ((d, w), True) = Inr (Inr ((?d2, ?w2), False))"
    using ex assms(7,8) by (auto simp: WindowProc_def message_map_def OnBnClickedOk_def ends_dialog_def)
  have destroy: "WindowProc env None mfc WM_DESTROY ((?d2, ?w2), False) = Inr (Inr ((?d2, ?w2), False))"
    and tick: "WindowProc env None mfc (WM_TIMER n) ((?d2, ?w2), True) = Inl Null_deref"
    using no_manager [of ?d2 env] by (simp_all add: WindowProc_def message_map_def handled_def)
  have "WindowProc env None mfc ID_APP_EXIT ((d, w), True) = Inr (Inr ((?d2, ?w2), True))"
    using ex by (simp add: WindowProc_def message_map_def handled_def)
  moreover have "\<not> dl_worker d1" "dl_worker d \<longrightarrow> \<not> tp_force_exit (dl_param d1)"
    using assms(3) by (auto simp: join_worker_def split: if_splits)
  ultimately show ?thesis using close destroy tick by (intro exI [of _ ?d2] exI [of _ ?w2]) simp
qed

text \<open>C31. The Escape key ends the dialog without \<open>OnAppExit\<close>: \<open>OnDestroy\<close> then frees the manager while the
  consumer still runs on it, and the next round of the consumer reads freed memory.\<close>

theorem escape_frees_under_consumer:
  assumes "dl_mngr d = a" "a \<noteq> 0" "mngr_at a w = Inr m" "terminable m" "keeps_queues (ge_wait env)" "ends_dialog mfc"
    and "dl_worker d" "tp_mngr (dl_param d) = a" "tp_force_exit (dl_param d)"
  shows "\<exists>w1. window_run env mfc [BN_CLICKED_IDCANCEL, WM_DESTROY] ((d, w), True) = Inr (Inr ((d, w1), False)) \<and>
    dl_worker d \<and> (\<forall>renv. recv_round renv (dl_param d) w1 = Inl Use_after_free)"
proof -
  obtain g where t: "terminate_at env a w = Inr (w\<lparr>wd_mngrs := (wd_mngrs w)(a := None), wd_wsa := g\<rparr>)"
    using terminate_at_frees [OF assms(2-5)] by blast
  let ?w1 = "w\<lparr>wd_mngrs := (wd_mngrs w)(a := None), wd_wsa := g\<rparr>"
  have "window_run env mfc [BN_CLICKED_IDCANCEL, WM_DESTROY] ((d, w), True) = Inr (Inr ((d, ?w1), False))"
    using t assms(1,6) by (simp add: WindowProc_def message_map_def handled_def OnDestroy_def ends_dialog_def)
  moreover have "recv_round renv (dl_param d) ?w1 = Inl Use_after_free" for renv
    using assms(2,8,9) by (simp add: recv_round_def recv_ends_def status_at_def mngr_at_def)
  ultimately show ?thesis using assms(7) by blast
qed


text \<open>A dialog in the middle of a measurement, and a base class that behaves as documented.\<close>

lemma run_click_terminable:
  assumes "dl_mngr d = a" "a \<noteq> 0" "mngr_at a w = Inr m" "startable m q e" "status m = SIDAQ_IDLE" "\<not> dl_worker d"
    and "supplied (ge_run env)" "args_ok (gui_args env d)" "ge_thread env" "connects (ge_run env) (gui_args env d)"
  shows "\<exists>d1 w1 m1. OnBnClickedButtonRunStop env (d, w) = Inr (d1, w1) \<and> dl_mngr d1 = a \<and> dl_worker d1 \<and>
    tp_mngr (dl_param d1) = a \<and> tp_force_exit (dl_param d1) \<and> mngr_at a w1 = Inr m1 \<and> terminable m1"
proof -
  let ?d = "enable IDC_BUTTON_CONNECT False (enable IDC_BUTTON_RUN False d)"
  obtain m1 g1 fr rep where r: "SiDaqRun (ge_run env) (gui_args env d) m (wd_wsa w) = Inr (SIDAQ_RUN, m1, g1)"
    and m1: "ready m1 q e fr" "m_reply m1 = Some rep" "sq_inv rep"
    using run_result [OF assms(4) supplied_stocked(1) [OF assms(7)] assms(8) supplied_stocked(3) [OF assms(10)], of "wd_wsa w"]
      assms(10) by force
  let ?d1 = "AddOpelog ''Run Start'' (enter GUI_RUNNING (start_worker env ?d))" and ?w1 = "(mngr_upd a m1 w)\<lparr>wd_wsa := g1\<rparr>"
  have "OnBnClickedButtonRunStop env (d, w) = Inr (?d1, ?w1)"
    using run_stop_idle [of d w m env] r assms(1-3,5,6) by (simp add: start_run_def join_worker_def Let_def)
  moreover have "terminable m1" using m1 by (auto simp: terminable_def ready_def holds_def)
  ultimately show ?thesis using assms(1,2,9)
    by (intro exI [of _ ?d1] exI [of _ ?w1] exI [of _ m1]) (simp add: start_worker_def Let_def)
qed

lemma demo_running:
  obtains d :: dialog and w :: "demo_net world" and m where "dl_mngr d = 1" "mngr_at 1 w = Inr m" "terminable m" "dl_worker d"
    "tp_mngr (dl_param d) = 1" "tp_force_exit (dl_param d)"
proof -
  obtain d :: dialog and w :: "demo_net world" and m q e where d: "dl_mngr d = 1" "wd_mngrs w 1 = Some m" "startable m q e" "status m = SIDAQ_IDLE"
    "\<not> dl_worker d" "dl_cur_sel d = 0" by (rule demo_connected)
  have "supplied (ge_run (demo_gui_env demo_run))" "ge_thread (demo_gui_env demo_run)" "(1::nat) \<noteq> 0" "mngr_at 1 w = Inr m"
    "connects (ge_run (demo_gui_env demo_run)) (gui_args (demo_gui_env demo_run) d)"
    using demo_run_ok(1) demo_args(2) [OF d(6), of demo_run] d(2) by (simp_all add: demo_gui_env_def mngr_at_def)
  with run_click_terminable [OF d(1) _ _ d(3-5) _ demo_args(1) [OF d(6)], of w demo_run] that show thesis by blast
qed

definition demo_mfc :: "message \<Rightarrow> bool" where
  "demo_mfc msg \<longleftrightarrow> msg \<in> {WM_CLOSE, BN_CLICKED_IDOK, BN_CLICKED_IDCANCEL}"

lemma demo_mfc_ends: "ends_dialog demo_mfc"
  by (simp add: ends_dialog_def demo_mfc_def)

theorem window_close_witness:
  "\<exists>d w d2 w2. window_run (demo_gui_env demo_run) demo_mfc [WM_CLOSE, WM_DESTROY] ((d, w :: demo_net world), True) =
      Inr (Inr ((d2, w2), False)) \<and> dl_worker d \<and> \<not> dl_worker d2 \<and> wd_mngrs w 1 \<noteq> None \<and> wd_mngrs w2 1 = None"
proof -
  obtain d :: dialog and w :: "demo_net world" and m where d: "dl_mngr d = 1" "mngr_at 1 w = Inr m" "terminable m" "dl_worker d" by (rule demo_running)
  have j: "join_worker (demo_gui_env demo_run) (d, w) = Inr (d\<lparr>dl_param := (dl_param d)\<lparr>tp_force_exit := False\<rparr>, dl_worker := False\<rparr>, w)"
    using d(4) by (simp add: join_worker_def demo_gui_env_def)
  have k: "keeps_queues (ge_wait (demo_gui_env demo_run))" "(1::nat) \<noteq> 0" using keeps_id by (simp_all add: demo_gui_env_def)
  from window_close [OF d(1) k(2) j d(2,3) k(1) demo_mfc_ends, of WM_CLOSE 1] obtain d2 w2 where
    "window_run (demo_gui_env demo_run) demo_mfc [WM_CLOSE, WM_DESTROY] ((d, w), True) = Inr (Inr ((d2, w2), False))"
    "\<not> dl_worker d2" "wd_mngrs w2 = (wd_mngrs w)(1 := None)" by blast
  moreover have "wd_mngrs w 1 \<noteq> None" using mngr_at_live [OF d(2)] by simp
  ultimately show ?thesis using d(4) by (metis fun_upd_same)
qed

theorem escape_frees_under_consumer_witness:
  "\<exists>d w w1. window_run (demo_gui_env demo_run) demo_mfc [BN_CLICKED_IDCANCEL, WM_DESTROY] ((d, w :: demo_net world), True) =
      Inr (Inr ((d, w1), False)) \<and> (\<forall>renv. recv_round renv (dl_param d) w1 = Inl Use_after_free)"
proof -
  obtain d :: dialog and w :: "demo_net world" and m where d: "dl_mngr d = 1" "mngr_at 1 w = Inr m" "terminable m" "dl_worker d"
    "tp_mngr (dl_param d) = 1" "tp_force_exit (dl_param d)" by (rule demo_running)
  have k: "keeps_queues (ge_wait (demo_gui_env demo_run))" "(1::nat) \<noteq> 0" using keeps_id by (simp_all add: demo_gui_env_def)
  from escape_frees_under_consumer [OF d(1) k(2) d(2,3) k(1) demo_mfc_ends d(4-6)] show ?thesis by blast
qed

end
