(* ===== verification/Mfc_App.thy ===== *)
theory Mfc_App
  imports Mfc_Window
begin

text \<open>
  The application object of the sample (\<open>MfcSample/SiDaqMfcSample.cpp\<close>, class \<open>CSiDaqMfcSampleApp\<close>): from the start
  of the program to its end, with the dialog's messages and the work of the other threads as a list of events.

  Of the MFC library the following is assumed, each as a parameter: whether the socket library and the window
  could be made, and what the base class of the dialog does with a message (\<open>answer\<close>: the response with which it
  ends the dialog, if it does).  \<open>DoModal\<close> makes the window from its template, lets \<open>OnInitDialog\<close> prepare it,
  hands it one message after the other until one of them ends the dialog, and destroys it.
\<close>

section \<open>The run of a modal dialog\<close>

datatype 'n event =
    Message "'n gui_env" "string option" message   \<comment> \<open>with the answer of the folder dialog\<close>
  | Others "'n world \<Rightarrow> 'n world" int   \<comment> \<open>the other threads, and the consumer's count of bytes\<close>

fun modal_loop :: "(message \<Rightarrow> int option) \<Rightarrow> 'n event list \<Rightarrow> dialog \<times> 'n world \<Rightarrow>
    (rbcp_exn + (dialog \<times> 'n world) \<times> int option) outcome" where
  "modal_loop answer [] s = Inr (Inr (s, None))"
| "modal_loop answer (Others f n # es) (d, w) =
     modal_loop answer es (d\<lparr>dl_param := (dl_param d)\<lparr>tp_receive_bytes := n\<rparr>\<rparr>, f w)"
| "modal_loop answer (Message env picked msg # es) s =
     obind (WindowProc env picked (\<lambda>b. answer b \<noteq> None) msg (s, True)) (\<lambda>r. case r of
       Inl e \<Rightarrow> Inr (Inl e)
     | Inr (s1, is_open) \<Rightarrow> if is_open then modal_loop answer es s1 else Inr (Inr (s1, answer msg)))"

record 'n app_env =
  ae_sockets :: bool   \<comment> \<open>\<open>AfxSocketInit\<close>\<close>
  ae_created :: bool   \<comment> \<open>the window could be created\<close>
  ae_icon :: addr
  ae_sys_menu :: "menu_item list option"
  ae_dir :: "string option"
  ae_answer :: "message \<Rightarrow> int option"
  ae_destroy :: "'n gui_env"   \<comment> \<open>the surroundings of \<open>OnDestroy\<close>\<close>

text \<open>\<open>None\<close> as the response: the dialog still waits for messages.\<close>

definition DoModal :: "'n app_env \<Rightarrow> 'n event list \<Rightarrow> dialog \<times> 'n world \<Rightarrow>
    (rbcp_exn + (dialog \<times> 'n world) \<times> int option) outcome" where
  "DoModal env es = (\<lambda>(d, w).
     if \<not> ae_created env then Inr (Inr ((d, w), Some (-1)))
     else obind (OnInitDialog (ae_dir env) (dialog_template (ae_sys_menu env) d)) (\<lambda>d1.
       obind (modal_loop (ae_answer env) es (d1, w)) (\<lambda>r. case r of
         Inl e \<Rightarrow> Inr (Inl e)
       | Inr (s, None) \<Rightarrow> Inr (Inr (s, None))
       | Inr (s, Some response) \<Rightarrow>
           obind (WindowProc (ae_destroy env) None (\<lambda>_. False) WM_DESTROY (s, False)) (\<lambda>r1.
             Inr (map_sum id (\<lambda>(s1, _). (s1, Some response)) r1)))))"

section \<open>The application object\<close>

record app =
  ap_restart_manager :: bool   \<comment> \<open>\<open>m_dwRestartManagerSupportFlags\<close> is set\<close>
  ap_common_controls :: bool
  ap_control_container :: bool
  ap_shell_managers :: int   \<comment> \<open>those that exist\<close>
  ap_visual_manager :: string
  ap_registry_key :: string
  ap_main_wnd :: bool   \<comment> \<open>\<open>m_pMainWnd\<close> is the dialog\<close>
  ap_boxes :: "string list"   \<comment> \<open>the message boxes shown\<close>
  ap_trace :: "string list"

definition CSiDaqMfcSampleApp :: "app \<Rightarrow> app" where
  "CSiDaqMfcSampleApp a = a\<lparr>ap_restart_manager := True\<rparr>"

datatype app_end = Waiting | Returns bool

text \<open>A message box with a text from the string table.\<close>

definition AfxMessageBox :: "int \<Rightarrow> app \<Rightarrow> app" where
  "AfxMessageBox n a = a\<lparr>ap_boxes := ap_boxes a @ [case string_table n of None \<Rightarrow> [] | Some s \<Rightarrow> s]\<rparr>"

text \<open>\<open>IDOK\<close> is 1 and \<open>IDCANCEL\<close> is 2; for both there is nothing to do.\<close>

definition note_response :: "int \<Rightarrow> app \<Rightarrow> app" where
  "note_response nResponse a =
     (if nResponse = 1 then a
      else if nResponse = 2 then a
      else if nResponse = -1 then a\<lparr>ap_trace := ap_trace a @
        [''Warning: dialog creation failed, so application is terminating unexpectedly.'',
         ''Warning: if you are using MFC controls on the dialog, you cannot #define _AFX_NO_MFC_CONTROLS_IN_DIALOGS.'']\<rparr>
      else a)"

text \<open>\<open>mem\<close> is what the memory of the dialog object holds before its constructor.\<close>

definition InitInstance :: "'n app_env \<Rightarrow> 'n event list \<Rightarrow> dialog \<Rightarrow> app \<times> 'n world \<Rightarrow>
    (rbcp_exn + app_end \<times> app \<times> dialog option \<times> 'n world) outcome" where
  "InitInstance env es mem = (\<lambda>(a, w).
     let a1 = a\<lparr>ap_common_controls := True\<rparr> in
     if \<not> ae_sockets env then Inr (Inr (Returns False, AfxMessageBox IDP_SOCKETS_INIT_FAILED a1, None, w))
     else
       let a2 = a1\<lparr>ap_control_container := True, ap_shell_managers := ap_shell_managers a1 + 1,
             ap_visual_manager := ''CMFCVisualManagerWindows'', ap_registry_key := ''BeeBeansTechnologies'', ap_main_wnd := True\<rparr>
       in obind (DoModal env es (dialog_ctor (ae_icon env) mem, w)) (\<lambda>r. case r of
            Inl e \<Rightarrow> Inr (Inl e)
          | Inr ((d, w1), None) \<Rightarrow> Inr (Inr (Waiting, a2, Some d, w1))
          | Inr ((d, w1), Some nResponse) \<Rightarrow>
              Inr (Inr (Returns False,
                (note_response nResponse a2)\<lparr>ap_shell_managers := ap_shell_managers (note_response nResponse a2) - 1\<rparr>, Some d, w1))))"

section \<open>No manager leaks\<close>

text \<open>At most one manager is alive, the one the dialog points to.\<close>

definition sole :: "dialog \<times> 'n world \<Rightarrow> bool" where
  "sole = (\<lambda>(d, w). dom (wd_mngrs w) \<subseteq> {dl_mngr d} \<and> store_ok w)"

lemma sole_same: "sole (d, w) \<Longrightarrow> same_mngrs w w1 \<Longrightarrow> dl_mngr d1 = dl_mngr d \<Longrightarrow> sole (d1, w1)"
  using store_same by (auto simp: sole_def same_mngrs_def)

lemma sole_freed:
  assumes "sole (d, w)" "same_mngrs w w1" "terminate_at env (dl_mngr d) w1 = Inr w2" "dl_mngr d \<noteq> 0"
  shows "sole (d1, w2)" "wd_mngrs w2 = Map.empty"
proof -
  note t = terminate_effect [OF assms(3,4)]
  have "dom (wd_mngrs w1) \<subseteq> {dl_mngr d}" "store_ok w1"
    using assms(1,2) store_same by (auto simp: sole_def same_mngrs_def)
  then have "wd_mngrs w2 x = None" for x using t by (cases "wd_mngrs w1 x") auto
  then show "wd_mngrs w2 = Map.empty" by auto
  then show "sole (d1, w2)" using store_terminate [OF \<open>store_ok w1\<close> assms(3,4)] by (simp add: sole_def)
qed

lemma sole_empty: "sole (d, w) \<Longrightarrow> dl_mngr d = 0 \<Longrightarrow> wd_mngrs w = Map.empty"
  by (auto simp: sole_def store_ok_def)

lemma sole_connect:
  assumes "sole (d, w)" "OnBnClickedButtonConnect env (d, w) = Inr (Inr s1)"
  shows "sole s1"
proof -
  have e: "wd_mngrs w = Map.empty \<and> store_ok w" if "dl_mngr d = 0"
    using sole_empty [OF assms(1) that] assms(1) by (simp add: sole_def)
  have added: "sole (d1, (mngr_upd (wd_next w) m (w\<lparr>wd_wsa := g, wd_net := n\<rparr>))\<lparr>wd_next := wd_next w + 1\<rparr>) \<and> wd_next w \<noteq> 0"
    if "dl_mngr d = 0" "dl_mngr d1 = wd_next w" for d1 m g n
    using e that by (simp add: sole_def store_ok_def mngr_upd_def)
  from assms(2) show ?thesis
  proof (cases rule: connect_cases)
    case (Disconnected w1)
    then show ?thesis using sole_freed(1) [OF assms(1) same_mngrs_refl] by blast
  next
    case (No_manager g n)
    then show ?thesis using e by (simp add: sole_def store_ok_def)
  next
    case (Connected m g n)
    then show ?thesis using added by simp
  next
    case (Refused m g n d2 w3 w4)
    let ?d1 = "(enable IDC_BUTTON_CONNECT False d)\<lparr>dl_mngr := wd_next w\<rparr>"
    have "dl_mngr ?d1 = wd_next w" by simp
    from added [OF Refused(1) this, where m = m and g = g and n = n] show ?thesis
      using sole_freed(1) [of ?d1 _ w3 env w4] show_status_effect [OF Refused(2)] Refused(3,4) by fastforce
  qed
qed

lemma sole_start_run:
  assumes "sole (d, w)" "env_ok env" "dl_mngr d \<noteq> 0" "start_run env (d, w) = Inr s1"
  shows "sole s1"
proof -
  obtain d1 w1 where j: "join_worker env (d, w) = Inr (d1, w1)" by (rule start_run_joined [OF assms(4)])
  note je = join_effect [OF j assms(2)]
  have d1: "dl_mngr d1 = dl_mngr d" using je by auto
  have same: "same_mngrs w ((mngr_upd (dl_mngr d1) m1 w1)\<lparr>wd_wsa := g\<rparr>)" if "mngr_at (dl_mngr d1) w1 = Inr m" for m m1 g
    using je same_mngrs_upd [OF that, of m1] by (simp add: same_mngrs_def)
  from assms(4) j show ?thesis
  proof (cases rule: start_run_cases)
    case (Started m m1 g)
    then show ?thesis using sole_same [OF assms(1) same [OF Started(1)]] d1 by (simp add: start_worker_def Let_def)
  next
    case (Start_failed m m1 g d2 w3 w4)
    have "same_mngrs w w3" using show_status_effect [OF Start_failed(2)] same [OF Start_failed(1)] same_mngrs_trans by blast
    then show ?thesis using sole_freed(1) [OF assms(1)] Start_failed(3,4) d1 assms(3) by metis
  qed
qed

lemma sole_run_stop:
  assumes "sole (d, w)" "env_ok env" "OnBnClickedButtonRunStop env (d, w) = Inr s1"
  shows "sole s1"
proof -
  let ?d = "enable IDC_BUTTON_CONNECT False (enable IDC_BUTTON_RUN False d)"
  have i: "sole (?d, w)" using sole_same [OF assms(1) same_mngrs_refl] by simp
  have stop: "sole s2" if "stop_run env (?d, w) = Inr s2" for s2
  proof -
    from that obtain m m1 d2 where m: "mngr_at (dl_mngr d) w = Inr m" "s2 = (d2, mngr_upd (dl_mngr d) m1 w)" "dl_mngr d2 = dl_mngr d"
      by (auto simp: stop_run_def show_counts_def Let_def split: prod.splits)
    show ?thesis unfolding m(2) by (rule sole_same [OF i same_mngrs_upd [OF m(1)]]) (simp add: m(3))
  qed
  show ?thesis
  proof (cases "s1 = (?d, w)")
    case False
    then show ?thesis using assms(3) sole_start_run [OF i assms(2)] stop
      by (cases s1) (auto simp: OnBnClickedButtonRunStop_def Let_def split: if_splits)
  qed (use i in simp)
qed

lemma timer_effect:
  assumes "env_ok env" "OnTimer env n (d, w) = Inr (d1, w1)"
  shows "same_mngrs w w1 \<and> dl_mngr d1 = dl_mngr d"
proof -
  define d0 where "d0 = (if n = 1 then d\<lparr>dl_ticking := False\<rparr> else d)"
  have a: "dl_mngr d0 = dl_mngr d" by (simp add: d0_def)
  from assms(2) [unfolded OnTimer_def Let_def prod.case, folded d0_def] a obtain d2 w2 run_status counts d3 where s: "show_status (dl_mngr d) (d0, w) = Inr (d2, w2)"
    "timer_status env run_status counts (show_counts counts (if run_status = SIDAQ_RUN then show_bytes env d2 else d2), w2) = Inr (d3, w1)"
    "d1 = (if n = 1 then d3\<lparr>dl_ticking := ge_timer env\<rparr> else d3)"
    by auto
  define d4 where "d4 = show_counts counts (if run_status = SIDAQ_RUN then show_bytes env d2 else d2)"
  have d4: "dl_mngr d4 = dl_mngr d" using show_status_effect [OF s(1)] a
    by (auto simp: d4_def show_counts_def show_bytes_def Let_def split: prod.splits option.splits)
  have "same_mngrs w2 w1 \<and> dl_mngr d3 = dl_mngr d"
    using s(2) d4 assms(1) poll_same unfolding d4_def [symmetric] by (auto simp: timer_status_def env_ok_def Let_def split: if_splits)
  then show ?thesis using show_status_effect [OF s(1)] s(3) same_mngrs_trans by auto
qed

lemma sole_through:
  assumes "sole (d, w)"
  shows "OnBnClickedButtonReset (d, w) = Inr s1 \<Longrightarrow> sole s1"
    "OnBnClickedButtonRbcpRead env (d, w) = Inr s1 \<Longrightarrow> sole s1"
    "OnBnClickedButtonRbcpWrite env (d, w) = Inr s1 \<Longrightarrow> sole s1"
    "sole (OnBnClickedButtonFileBrowse picked (d, w))" "sole (OnCbnSelchangeComboRunMode (d, w))"
proof -
  have u: "same_mngrs w ((mngr_upd (dl_mngr d) m1 w)\<lparr>wd_net := n\<rparr>)" if "mngr_at (dl_mngr d) w = Inr m" for m m1 n
    using same_mngrs_upd [OF that, of m1] by (simp add: same_mngrs_def)
  show "OnBnClickedButtonReset (d, w) = Inr s1 \<Longrightarrow> sole s1"
    using assms by (auto simp: OnBnClickedButtonReset_def Let_def intro!: sole_same [OF assms] same_mngrs_upd split: if_splits)
  show "OnBnClickedButtonRbcpRead env (d, w) = Inr s1 \<Longrightarrow> sole s1"
    "OnBnClickedButtonRbcpWrite env (d, w) = Inr s1 \<Longrightarrow> sole s1"
    using sole_same [OF assms] u by (auto simp: OnBnClickedButtonRbcpRead_def OnBnClickedButtonRbcpWrite_def)
  show "sole (OnBnClickedButtonFileBrowse picked (d, w))" "sole (OnCbnSelchangeComboRunMode (d, w))"
    using sole_same [OF assms same_mngrs_refl]
    by (auto simp: OnBnClickedButtonFileBrowse_def OnCbnSelchangeComboRunMode_def split: option.split)
qed

lemma sole_exit:
  assumes "sole (d, w)" "env_ok env" "OnAppExit env (d, w) = Inr (d1, w1)"
  shows "sole (d1, w1)"
proof -
  from assms(3) obtain d2 w2 where j: "join_worker env (d, w) = Inr (d2, w2)" by (auto simp: OnAppExit_def)
  have je: "same_mngrs w w2" "dl_mngr d2 = dl_mngr d" using join_effect [OF j assms(2)] by auto
  show ?thesis
  proof (cases "dl_mngr d = 0")
    case True
    then show ?thesis using sole_same [OF assms(1) je(1)] assms(3) j je(2) by (auto simp: OnAppExit_def)
  next
    case False
    with assms(3) j je obtain w3 where "terminate_at env (dl_mngr d) w2 = Inr w3" "w1 = w3" by (auto simp: OnAppExit_def)
    then show ?thesis using sole_freed(1) [OF assms(1) je(1)] False by blast
  qed
qed

text \<open>After \<open>OnDestroy\<close> no manager is left at all.\<close>

lemma destroy_frees:
  assumes "sole (d, w)" "OnDestroy env (d, w) = Inr (d1, w1)"
  shows "wd_mngrs w1 = Map.empty \<and> sole (d1, w1)"
proof (cases "dl_mngr d = 0")
  case True
  then show ?thesis using assms sole_empty [OF assms(1)] by (auto simp: OnDestroy_def terminate_at_def)
next
  case False
  then show ?thesis using assms(2) sole_freed [OF assms(1) same_mngrs_refl] by (auto simp: OnDestroy_def)
qed

lemma map_sum_Inr [simp]: "map_sum f g x = Inr y \<longleftrightarrow> (\<exists>z. x = Inr z \<and> y = g z)"
  by (cases x) auto

lemma sole_message:
  assumes "sole s" "env_ok env" "message_map env picked msg s = Inr (Inr (s1, base))"
  shows "sole s1"
proof -
  have h: "sole s1" if "handled r = Inr (Inr (s1, base))" "\<And>s2. r = Inr s2 \<Longrightarrow> sole s2" for r
    using that by (auto simp: handled_def)
  obtain d w where s: "s = (d, w)" by (cases s)
  note i = assms(1) [unfolded s] and m = assms(3) [unfolded s message_map_def]
  show ?thesis
  proof (cases msg)
    case (WM_TIMER n)
    then show ?thesis using m h timer_effect [OF assms(2)] sole_same [OF i] by fastforce
  next
    case WM_DESTROY
    then show ?thesis using m h destroy_frees [OF i] by fastforce
  next
    case (BN_CLICKED c)
    then show ?thesis using m h sole_connect [OF i] sole_run_stop [OF i assms(2)] sole_through [OF i] i
      by (cases c) (auto simp: handled_def split: sum.splits)
  next
    case (CBN_SELCHANGE c)
    then show ?thesis using m sole_through(5) [OF i] i by (cases c) (auto simp: handled_def)
  next
    case BN_CLICKED_IDOK
    then show ?thesis using m sole_exit [OF i assms(2)] by (auto simp: OnBnClickedOk_def)
  next
    case ID_APP_EXIT
    then show ?thesis using m h sole_exit [OF i assms(2)] by fastforce
  qed (use m i in \<open>auto simp: OnSysCommand_def split: if_splits\<close>)
qed

lemma sole_window:
  assumes "sole s" "env_ok env" "WindowProc env picked mfc msg (s, b) = Inr (Inr (s1, b1))"
  shows "sole s1"
proof -
  from assms(3) obtain s2 where s2: "(if msg = WM_CLOSE then OnAppExit env s else Inr s) = Inr s2"
    and o: "obind (message_map env picked msg s2) (\<lambda>r. case r of Inl e \<Rightarrow> Inr (Inl e)
      | Inr (s3, base) \<Rightarrow> Inr (Inr (s3, b \<and> (case base of None \<Rightarrow> True | Some m \<Rightarrow> \<not> mfc m)))) = Inr (Inr (s1, b1))"
    unfolding WindowProc_def prod.case by (rule obind_InrE)
  from o obtain base where m: "message_map env picked msg s2 = Inr (Inr (s1, base))"
    by (fastforce split: sum.splits)
  have "sole s2" using s2 assms(1) sole_exit [OF _ assms(2)] by (cases s; cases s2) (auto split: if_splits)
  then show ?thesis using sole_message [OF _ assms(2) m] by blast
qed

text \<open>Events whose other threads neither make nor free a manager.\<close>

definition quiet_event :: "'n event \<Rightarrow> bool" where
  "quiet_event ev \<longleftrightarrow> (case ev of Message env _ _ \<Rightarrow> env_ok env | Others f _ \<Rightarrow> \<forall>w. same_mngrs w (f w))"

lemma sole_loop:
  assumes "modal_loop answer es s = Inr (Inr (s1, response))" "sole s" "\<forall>ev\<in>set es. quiet_event ev"
  shows "sole s1"
  using assms
proof (induction answer es s rule: modal_loop.induct)
  case (2 answer f n es d w)
  have "sole (d\<lparr>dl_param := (dl_param d)\<lparr>tp_receive_bytes := n\<rparr>\<rparr>, f w)"
    using 2(3,4) by (intro sole_same [OF 2(3)]) (simp_all add: quiet_event_def)
  then show ?case using 2 by simp
next
  case (3 answer env picked msg es s)
  from 3(2) obtain s2 is_open where w: "WindowProc env picked (\<lambda>b. answer b \<noteq> None) msg (s, True) = Inr (Inr (s2, is_open))"
    "if is_open then modal_loop answer es s2 = Inr (Inr (s1, response)) else s1 = s2"
    by (auto split: sum.splits if_splits)
  have "sole s2" using sole_window [OF 3(3) _ w(1)] 3(4) by (simp add: quiet_event_def)
  then show ?case using 3(1) [OF TrueI] 3(4) w(2) by (cases is_open) auto
qed simp

section \<open>The whole application\<close>

lemma started:
  assumes "OnInitDialog dir (dialog_template menu (dialog_ctor icon mem)) = Inr d" "wd_mngrs w = Map.empty" "wd_next w \<noteq> 0"
  shows "sole (d, w)"
  using assms(2,3) by (simp add: sole_def store_ok_def)

text \<open>A message passes itself on to the base class, if anything; so the dialog ends with the response to the message
  that ended it, and a loop that still waits goes on with the next event.\<close>

lemma handled_base: "handled r = Inr (Inr (s1, base)) \<Longrightarrow> base = None"
  by (auto simp: handled_def)

lemma message_base:
  assumes "message_map env picked msg s = Inr (Inr (s1, Some b))"
  shows "b = msg"
proof (cases msg)
  case (BN_CLICKED c)
  then show ?thesis using assms handled_base by (cases c) (fastforce simp: message_map_def)+
next
  case (CBN_SELCHANGE c)
  then show ?thesis using assms handled_base by (cases c) (fastforce simp: message_map_def)+
next
  case (WM_SYSCOMMAND nID)
  then show ?thesis using assms by (simp add: message_map_def OnSysCommand_def split: if_splits)
next
  case WM_PAINT
  then show ?thesis using assms by (simp add: message_map_def split: paint.splits)
next
  case BN_CLICKED_IDOK
  then show ?thesis using assms by (auto simp: message_map_def OnBnClickedOk_def)
qed (use assms handled_base in \<open>fastforce simp: message_map_def\<close>)+

lemma window_ends:
  assumes "WindowProc env picked mfc msg (s, True) = Inr (Inr (s1, False))"
  shows "mfc msg"
proof -
  from assms obtain s2 where o: "obind (message_map env picked msg s2) (\<lambda>r. case r of Inl e \<Rightarrow> Inr (Inl e)
      | Inr (s3, base) \<Rightarrow> Inr (Inr (s3, True \<and> (case base of None \<Rightarrow> True | Some m \<Rightarrow> \<not> mfc m)))) = Inr (Inr (s1, False))"
    unfolding WindowProc_def prod.case by (rule obind_InrE)
  then obtain base where "message_map env picked msg s2 = Inr (Inr (s1, base))" "\<exists>b. base = Some b \<and> mfc b"
    by (fastforce split: sum.splits option.splits)
  then show ?thesis using message_base by blast
qed

lemma modal_loop_append:
  assumes "modal_loop answer es s = Inr (Inr (s1, None))"
  shows "modal_loop answer (es @ fs) s = modal_loop answer fs s1"
  using assms
proof (induction answer es s rule: modal_loop.induct)
  case (3 answer env picked msg es s)
  from 3(2) obtain s2 is_open where w: "WindowProc env picked (\<lambda>b. answer b \<noteq> None) msg (s, True) = Inr (Inr (s2, is_open))"
    "if is_open then modal_loop answer es s2 = Inr (Inr (s1, None)) else answer msg = None"
    by (auto split: sum.splits if_splits)
  then have "is_open" using window_ends by (metis (full_types))
  then show ?case using 3(1) [OF TrueI] w by simp
qed simp_all

text \<open>C14. No manager leaks: whatever messages the dialog gets, in any order and from any state of its controls, and
  whatever the other threads do, at most one manager is alive while the application waits for a message, the one
  the dialog points to; and when the application returns, every manager has been freed and so has the shell
  manager.\<close>

theorem no_manager_leaks:
  assumes "InitInstance env es mem (a, w) = Inr (Inr (ending, a1, dlg, w1))"
    and "wd_mngrs w = Map.empty" "wd_next w \<noteq> 0" "\<forall>ev\<in>set es. quiet_event ev"
  shows "case ending of
      Waiting \<Rightarrow> (\<exists>d. dlg = Some d \<and> dom (wd_mngrs w1) \<subseteq> {dl_mngr d})
    | Returns b \<Rightarrow> \<not> b \<and> wd_mngrs w1 = Map.empty \<and> ap_shell_managers a1 = ap_shell_managers a"
proof (cases "ae_sockets env \<and> ae_created env")
  case False
  then show ?thesis using assms(1,2) by (auto simp: InitInstance_def DoModal_def AfxMessageBox_def note_response_def Let_def split: if_splits)
next
  case True
  obtain menu icons where "OnInitDialog (ae_dir env) (dialog_template (ae_sys_menu env) (dialog_ctor (ae_icon env) mem)) =
      Inr (init_controls (ae_dir env) ((dialog_template (ae_sys_menu env) (dialog_ctor (ae_icon env) mem))\<lparr>dl_sys_menu := menu, dl_icons := icons\<rparr>))"
    using init_dialog by blast
  then obtain d where d: "OnInitDialog (ae_dir env) (dialog_template (ae_sys_menu env) (dialog_ctor (ae_icon env) mem)) = Inr d"
    by blast
  note start = started [OF d assms(2,3)]
  show ?thesis
  proof (cases "\<exists>s. modal_loop (ae_answer env) es (d, w) = Inr (Inr (s, None))")
    case wait: True
    then obtain d1 w2 where l: "modal_loop (ae_answer env) es (d, w) = Inr (Inr ((d1, w2), None))" by auto
    then have "ending = Waiting" "dlg = Some d1" "w1 = w2"
      using assms(1) True d by (auto simp: InitInstance_def DoModal_def Let_def)
    then show ?thesis using sole_loop [OF l start assms(4)] by (auto simp: sole_def)
  next
    case ended: False
    with assms(1) True d obtain d1 w2 response d2 b where l: "modal_loop (ae_answer env) es (d, w) = Inr (Inr ((d1, w2), Some response))"
      "WindowProc (ae_destroy env) None (\<lambda>_. False) WM_DESTROY ((d1, w2), False) = Inr (Inr ((d2, w1), b))"
      "ending = Returns False" "ap_shell_managers a1 = ap_shell_managers a"
      by (auto simp: InitInstance_def DoModal_def Let_def note_response_def split: sum.splits option.splits prod.splits if_splits)
    then have "OnDestroy (ae_destroy env) (d1, w2) = Inr (d2, w1)"
      by (auto simp: WindowProc_def message_map_def handled_def)
    then show ?thesis using destroy_frees [OF sole_loop [OF l(1) start assms(4)]] l(3,4) by simp
  qed
qed

text \<open>What the application does with the end of its dialog.\<close>

lemma dialog_made:
  obtains d where "OnInitDialog (ae_dir env) (dialog_template (ae_sys_menu env) (dialog_ctor (ae_icon env) mem)) = Inr d"
  using init_dialog by blast

lemma waiting_iff:
  assumes "OnInitDialog (ae_dir env) (dialog_template (ae_sys_menu env) (dialog_ctor (ae_icon env) mem)) = Inr d0"
  shows "InitInstance env es mem (a, w) = Inr (Inr (Waiting, a1, Some d, w1)) \<Longrightarrow>
    ae_sockets env \<and> ae_created env \<and> modal_loop (ae_answer env) es (d0, w) = Inr (Inr ((d, w1), None))"
    "ae_sockets env \<Longrightarrow> ae_created env \<Longrightarrow> modal_loop (ae_answer env) es (d0, w) = Inr (Inr ((d, w1), None)) \<Longrightarrow>
    \<exists>a1. InitInstance env es mem (a, w) = Inr (Inr (Waiting, a1, Some d, w1))"
proof -
  show "InitInstance env es mem (a, w) = Inr (Inr (Waiting, a1, Some d, w1)) \<Longrightarrow>
      ae_sockets env \<and> ae_created env \<and> modal_loop (ae_answer env) es (d0, w) = Inr (Inr ((d, w1), None))"
    using assms by (auto simp: InitInstance_def DoModal_def Let_def split: sum.splits option.splits if_splits)
  show "\<exists>a1. InitInstance env es mem (a, w) = Inr (Inr (Waiting, a1, Some d, w1))"
    if "ae_sockets env" "ae_created env" "modal_loop (ae_answer env) es (d0, w) = Inr (Inr ((d, w1), None))"
    using assms that by (simp add: InitInstance_def DoModal_def Let_def)
qed

text \<open>The close box, for a dialog with a manager that can be freed or without one; and the two cases in which it
  accesses memory that has been freed.\<close>

lemma close_box:
  assumes "\<not> consumer_gone genv d" "keeps_queues (ge_wait genv)" "answer WM_CLOSE = Some r"
    and "dl_mngr d \<noteq> 0 \<Longrightarrow> \<exists>m. mngr_at (dl_mngr d) (awaited genv d w) = Inr m \<and> terminable m"
  shows "\<exists>d2 w2. modal_loop answer [Message genv None WM_CLOSE] (d, w) = Inr (Inr ((d2, w2), Some r)) \<and>
    dl_mngr d2 = 0 \<and> \<not> dl_worker d2 \<and> (dl_worker d \<longrightarrow> \<not> tp_force_exit (dl_param d2))"
proof -
  obtain d1 where j: "join_worker genv (d, w) = Inr (d1, awaited genv d w)" "\<not> dl_worker d1"
    "dl_worker d \<longrightarrow> \<not> tp_force_exit (dl_param d1)" "\<exists>tp b. d1 = d\<lparr>dl_param := tp, dl_worker := b\<rparr>"
    by (rule join_waits [OF assms(1)])
  have a: "dl_mngr d1 = dl_mngr d" using j(4) by auto
  obtain w2 where "OnAppExit genv (d, w) = Inr (d1\<lparr>dl_mngr := 0\<rparr>, w2)"
  proof (cases "dl_mngr d = 0")
    case True
    then have "OnAppExit genv (d, w) = Inr (d1\<lparr>dl_mngr := 0\<rparr>, awaited genv d w)" using j(1) a by (simp add: OnAppExit_def)
    then show thesis by (rule that)
  next
    case False
    then show thesis using app_exit [OF refl False j(1) _ _ assms(2)] assms(4) that by blast
  qed
  then show ?thesis using assms(3) j(2,3)
    by (intro exI [of _ "d1\<lparr>dl_mngr := 0\<rparr>"] exI [of _ w2]) (simp add: WindowProc_def message_map_def)
qed

lemma close_box_faults:
  assumes "consumer_gone genv d \<or> dl_mngr d \<noteq> 0 \<and> wd_mngrs (awaited genv d w) (dl_mngr d) = None"
  shows "modal_loop answer [Message genv None WM_CLOSE] (d, w) = Inl Use_after_free"
proof (cases "consumer_gone genv d")
  case True
  then show ?thesis by (simp add: WindowProc_def message_map_def OnAppExit_def join_gone)
next
  case False
  then obtain d1 where j: "join_worker genv (d, w) = Inr (d1, awaited genv d w)" "\<exists>tp b. d1 = d\<lparr>dl_param := tp, dl_worker := b\<rparr>"
    by (rule join_waits)
  have "dl_mngr d1 = dl_mngr d" using j(2) by auto
  then show ?thesis using j(1) False assms
    by (simp add: WindowProc_def message_map_def OnAppExit_def terminate_at_def mngr_at_def)
qed

lemma app_faults:
  assumes "InitInstance env es mem (a, w) = Inr (Inr (Waiting, a1, Some d, w1))"
    and "modal_loop (ae_answer env) fs (d, w1) = Inl f"
  shows "InitInstance env (es @ fs) mem (a, w) = Inl f"
proof -
  obtain d0 where d0: "OnInitDialog (ae_dir env) (dialog_template (ae_sys_menu env) (dialog_ctor (ae_icon env) mem)) = Inr d0"
    by (rule dialog_made)
  note wt = waiting_iff(1) [OF d0 assms(1)]
  then have "modal_loop (ae_answer env) (es @ fs) (d0, w) = Inl f" using modal_loop_append assms(2) by metis
  with d0 wt show ?thesis by (simp add: InitInstance_def DoModal_def Let_def)
qed

text \<open>C25. What the close box does whenever the application waits for a message.  When the consumer of a measurement
  has ended by itself, its thread object is gone and the wait for it reads freed memory; and when the dialog's
  pointer is left from a failed start, the manager is freed a second time.  In every other case, with a
  connection or without one, it ends the application in an orderly way: \<open>InitInstance\<close> returns FALSE, the consumer
  has been told to end and waited for, and every manager and the shell manager have been freed.  A manager that is
  alive is taken to be one whose queues can be deleted (\<open>terminable\<close>).\<close>

theorem app_closes:
  assumes "InitInstance env es mem (a, w) = Inr (Inr (Waiting, a1, Some d, w1))"
    and "wd_mngrs w = Map.empty" "wd_next w \<noteq> 0" "\<forall>ev\<in>set es. quiet_event ev" "env_ok genv"
    and "keeps_queues (ge_wait genv)" "ae_answer env WM_CLOSE = Some r"
    and "\<forall>m. dl_mngr d \<noteq> 0 \<and> mngr_at (dl_mngr d) (awaited genv d w1) = Inr m \<longrightarrow> terminable m"
  shows "if consumer_gone genv d \<or> dl_mngr d \<noteq> 0 \<and> wd_mngrs (awaited genv d w1) (dl_mngr d) = None
   then InitInstance env (es @ [Message genv None WM_CLOSE]) mem (a, w) = Inl Use_after_free
   else \<exists>a3 d3 w3. InitInstance env (es @ [Message genv None WM_CLOSE]) mem (a, w) =
      Inr (Inr (Returns False, a3, Some d3, w3)) \<and> wd_mngrs w3 = Map.empty \<and>
    ap_shell_managers a3 = ap_shell_managers a \<and> \<not> dl_worker d3 \<and> (dl_worker d \<longrightarrow> \<not> tp_force_exit (dl_param d3))"
proof (cases "consumer_gone genv d \<or> dl_mngr d \<noteq> 0 \<and> wd_mngrs (awaited genv d w1) (dl_mngr d) = None")
  case True
  then show ?thesis using app_faults [OF assms(1) close_box_faults [OF True]] by simp
next
  case False
  obtain d0 where d0: "OnInitDialog (ae_dir env) (dialog_template (ae_sys_menu env) (dialog_ctor (ae_icon env) mem)) = Inr d0"
    by (rule dialog_made)
  note wt = waiting_iff(1) [OF d0 assms(1)]
  have m: "\<exists>m. mngr_at (dl_mngr d) (awaited genv d w1) = Inr m \<and> terminable m" if "dl_mngr d \<noteq> 0"
    using assms(8) that False by (auto simp: mngr_at_def split: option.split_asm)
  have "\<not> consumer_gone genv d" using False by blast
  from close_box [of genv d "ae_answer env" r w1, OF this assms(6,7) m] obtain d3 w3 where
    c: "modal_loop (ae_answer env) [Message genv None WM_CLOSE] (d, w1) = Inr (Inr ((d3, w3), Some r))"
    "dl_mngr d3 = 0" "\<not> dl_worker d3" "dl_worker d \<longrightarrow> \<not> tp_force_exit (dl_param d3)" by blast
  have "modal_loop (ae_answer env) (es @ [Message genv None WM_CLOSE]) (d0, w) = Inr (Inr ((d3, w3), Some r))"
    using modal_loop_append wt c(1) by metis
  moreover have "WindowProc (ae_destroy env) None (\<lambda>_. False) WM_DESTROY ((d3, w3), False) = Inr (Inr ((d3, w3), False))"
    using no_manager(1) [OF c(2), of "ae_destroy env" w3] by (simp add: WindowProc_def message_map_def handled_def)
  ultimately obtain a3 where i: "InitInstance env (es @ [Message genv None WM_CLOSE]) mem (a, w) =
      Inr (Inr (Returns False, a3, Some d3, w3))" and a3: "ap_shell_managers a3 = ap_shell_managers a"
    using d0 wt by (simp add: InitInstance_def DoModal_def Let_def note_response_def)
  have "\<forall>ev\<in>set (es @ [Message genv None WM_CLOSE]). quiet_event ev" using assms(4,5) by (simp add: quiet_event_def)
  from sole_loop [OF \<open>modal_loop _ (es @ _) _ = _\<close> started [OF d0 assms(2,3)] this] c(2)
  have "wd_mngrs w3 = Map.empty" by (rule sole_empty)
  with False i a3 c(3,4) show ?thesis by auto
qed

section \<open>A program without sockets\<close>

text \<open>When the socket library cannot be initialised, \<open>InitInstance\<close> returns FALSE without making a dialog,
  but the message box does not show the text the resource file has for this case: \<open>IDP_SOCKETS_INIT_FAILED\<close>
  comes from the library's resource header and is the sample's identifier of the about box entry.\<close>

theorem app_socket_failure:
  assumes "\<not> ae_sockets env"
  shows "\<exists>a1. InitInstance env es mem (a, w) = Inr (Inr (Returns False, a1, None, w)) \<and>
    ap_shell_managers a1 = ap_shell_managers a \<and> ap_boxes a1 = ap_boxes a @ [''&About MFCApplication2...''] \<and>
    string_table IDP_SOCKETS_INIT_FAILED_STRING \<noteq> Some (last (ap_boxes a1))"
  using assms by (simp add: InitInstance_def AfxMessageBox_def)

section \<open>Drawing\<close>

text \<open>An icon that fits into the client area is drawn inside it, in the middle up to one pixel.\<close>

lemma centred:
  fixes size extent :: int
  assumes "0 \<le> size" "size \<le> extent" "extent < 2 ^ 31 - 1" "x = i32 (extent - size + 1) sdiv 2"
  shows "0 \<le> x \<and> x + size \<le> extent \<and> (let right = extent - size - x in x = right \<or> x = right + 1)"
proof -
  have "i32 (extent - size + 1) = extent - size + 1" using assms(1-3) by (intro i32_id) auto
  then have "x = (extent - size + 1) div 2" using assms by (simp add: signed_divide_int_def)
  then show ?thesis using assms(1,2) unfolding Let_def by presburger
qed

theorem paint_centred:
  assumes "ge_iconic env" "ge_icon_size env = (cx, cy)" "ge_client env = (width, height)"
    and "0 \<le> cx" "cx \<le> width" "width < 2 ^ 31 - 1" "0 \<le> cy" "cy \<le> height" "height < 2 ^ 31 - 1"
  shows "\<exists>x y. OnPaint env d = Draw_icon x y (OnQueryDragIcon d) \<and> 0 \<le> x \<and> x + cx \<le> width \<and> 0 \<le> y \<and> y + cy \<le> height \<and>
    \<bar>x - (width - cx - x)\<bar> \<le> 1 \<and> \<bar>y - (height - cy - y)\<bar> \<le> 1"
proof -
  let ?x = "i32 (width - cx + 1) sdiv 2" and ?y = "i32 (height - cy + 1) sdiv 2"
  have "OnPaint env d = Draw_icon ?x ?y (OnQueryDragIcon d)" using assms(1-3) by (simp add: OnPaint_def OnQueryDragIcon_def)
  then show ?thesis using centred [OF assms(4-6) refl] centred [OF assms(7-9) refl] by (auto simp: Let_def)
qed

section \<open>Examples\<close>

definition demo_answer :: "message \<Rightarrow> int option" where
  "demo_answer msg = (if msg = BN_CLICKED_IDOK then Some 1 else if msg = BN_CLICKED_IDCANCEL \<or> msg = WM_CLOSE then Some 2 else None)"

definition demo_app_env :: "demo_net app_env" where
  "demo_app_env = \<lparr>ae_sockets = True, ae_created = True, ae_icon = 1, ae_sys_menu = Some [], ae_dir = Some ''C:'',
     ae_answer = demo_answer, ae_destroy = demo_gui_env demo_run\<rparr>"

definition demo_app :: app where
  "demo_app = CSiDaqMfcSampleApp \<lparr>ap_restart_manager = False, ap_common_controls = False, ap_control_container = False,
     ap_shell_managers = 0, ap_visual_manager = [], ap_registry_key = [], ap_main_wnd = False, ap_boxes = [], ap_trace = []\<rparr>"

definition demo_session :: "demo_net event list" where
  "demo_session = [Message (demo_gui_env demo_run) None (BN_CLICKED IDC_BUTTON_CONNECT),
     Message (demo_gui_env demo_run) None (BN_CLICKED IDC_BUTTON_RUN)]"

lemma demo_env_ok: "env_ok (demo_gui_env demo_run)"
  by (simp add: env_ok_def demo_gui_env_def)

lemma demo_session_ok: "\<forall>ev\<in>set demo_session. quiet_event ev"
  using demo_env_ok by (simp add: demo_session_def quiet_event_def)

text \<open>Connect and Run, one after the other: the measurement is on.\<close>

lemma demo_waits:
  obtains a1 d w m where "InitInstance demo_app_env demo_session demo_mem (demo_app, demo_start) = Inr (Inr (Waiting, a1, Some d, w))"
    "dl_mngr d = 1" "dl_worker d" "mngr_at 1 w = Inr m" "terminable m"
proof -
  let ?env = "demo_gui_env demo_run"
  obtain d :: dialog and w :: "demo_net world" and m q e where
    click: "OnBnClickedButtonConnect ?env (demo_gui, demo_start) = Inr (Inr (d, w))" and "gui_reachable (d, w)" "dl_status d = GUI_IDLE" and
    d: "dl_mngr d = 1" "wd_mngrs w 1 = Some m" "startable m q e" "status m = SIDAQ_IDLE" "\<not> dl_worker d" "dl_cur_sel d = 0"
    and "dl_ticking d" "dl_log d = [''System Start'', ''Connection Start'']" "controls d = permitted GUI_IDLE 0" by (rule demo_click)
  have s: "supplied (ge_run ?env)" "ge_thread ?env" "(1::nat) \<noteq> 0" "mngr_at 1 w = Inr m" "connects (ge_run ?env) (gui_args ?env d)"
    using demo_run_ok(1) demo_args(2) [OF d(6), of demo_run] d(2) by (simp_all add: demo_gui_env_def mngr_at_def)
  from run_click_terminable [OF d(1) s(3,4) d(3-5) s(1) demo_args(1) [OF d(6)] s(2,5)] obtain d1 w1 m1 where
    run: "OnBnClickedButtonRunStop ?env (d, w) = Inr (d1, w1)" and
    d1: "dl_mngr d1 = 1" "dl_worker d1" "mngr_at 1 w1 = Inr m1" "terminable m1" by blast
  have "modal_loop demo_answer demo_session (demo_gui, demo_start) = Inr (Inr ((d1, w1), None))"
    using click run by (simp add: demo_session_def WindowProc_def message_map_def handled_def)
  moreover have "OnInitDialog (ae_dir demo_app_env) (dialog_template (ae_sys_menu demo_app_env)
      (dialog_ctor (ae_icon demo_app_env) demo_mem)) = Inr demo_gui"
    using demo_gui_start by (simp add: demo_app_env_def demo_window_def)
  ultimately obtain a1 where "InitInstance demo_app_env demo_session demo_mem (demo_app, demo_start) =
      Inr (Inr (Waiting, a1, Some d1, w1))"
    using waiting_iff(2) [of demo_app_env demo_mem demo_gui demo_session demo_start d1 w1 demo_app]
    by (auto simp: demo_app_env_def)
  then show thesis using d1 by (rule that)
qed

lemma demo_world: "wd_mngrs demo_start = Map.empty" "wd_next demo_start \<noteq> 0"
  by (simp_all add: demo_start_def)

theorem no_manager_leaks_witness:
  "\<exists>a1 d w. InitInstance demo_app_env demo_session demo_mem (demo_app, demo_start) = Inr (Inr (Waiting, a1, Some d, w)) \<and>
     dom (wd_mngrs w) = {1} \<and> dl_mngr d = 1"
proof -
  obtain a1 d w m where i: "InitInstance demo_app_env demo_session demo_mem (demo_app, demo_start) = Inr (Inr (Waiting, a1, Some d, w))"
    "dl_mngr d = 1" "dl_worker d" "mngr_at 1 w = Inr m" "terminable m" by (rule demo_waits)
  have "dom (wd_mngrs w) \<subseteq> {1}" using no_manager_leaks [OF i(1) demo_world demo_session_ok] i(2) by auto
  moreover have "1 \<in> dom (wd_mngrs w)" using mngr_at_live [OF i(4)] by auto
  ultimately show ?thesis using i(1,2) by (intro exI conjI) auto
qed

theorem app_closes_witness:
  "\<exists>a1 d w. InitInstance demo_app_env (demo_session @ [Message (demo_gui_env demo_run) None WM_CLOSE]) demo_mem (demo_app, demo_start) =
     Inr (Inr (Returns False, a1, Some d, w)) \<and> wd_mngrs w = Map.empty \<and> ap_shell_managers a1 = 0 \<and> \<not> dl_worker d \<and>
     \<not> tp_force_exit (dl_param d)"
proof -
  obtain a1 d w m where i: "InitInstance demo_app_env demo_session demo_mem (demo_app, demo_start) = Inr (Inr (Waiting, a1, Some d, w))"
    "dl_mngr d = 1" "dl_worker d" "mngr_at 1 w = Inr m" "terminable m" by (rule demo_waits)
  have j: "\<not> consumer_gone (demo_gui_env demo_run) d" "awaited (demo_gui_env demo_run) d w = w"
    by (simp_all add: consumer_gone_def awaited_def demo_gui_env_def)
  have t: "\<forall>m1. dl_mngr d \<noteq> 0 \<and> mngr_at (dl_mngr d) (awaited (demo_gui_env demo_run) d w) = Inr m1 \<longrightarrow> terminable m1"
    using i(2,4,5) j(2) by simp
  have k: "keeps_queues (ge_wait (demo_gui_env demo_run))" "ae_answer demo_app_env WM_CLOSE = Some 2"
    using keeps_id by (simp_all add: demo_gui_env_def demo_app_env_def demo_answer_def)
  have "ap_shell_managers demo_app = 0" by (simp add: demo_app_def CSiDaqMfcSampleApp_def)
  then show ?thesis
    using app_closes [OF i(1) demo_world demo_session_ok demo_env_ok k t] mngr_at_live [OF i(4)] i(2,3) j by auto
qed

theorem app_socket_failure_witness:
  "\<exists>a1. InitInstance (demo_app_env\<lparr>ae_sockets := False\<rparr>) [] demo_mem (demo_app, demo_start) = Inr (Inr (Returns False, a1, None, demo_start)) \<and>
     ap_boxes a1 = [''&About MFCApplication2...'']"
proof -
  have "ap_boxes demo_app = []" by (simp add: demo_app_def CSiDaqMfcSampleApp_def)
  then show ?thesis using app_socket_failure [of "demo_app_env\<lparr>ae_sockets := False\<rparr>" "[]" demo_mem demo_app demo_start] by auto
qed

end
