(* ===== verification/Debug_Print.thy ===== *)
theory Debug_Print
  imports Framer_Props
begin

text \<open>
  The printers for debugging: \<open>PrintSQData\<close>, \<open>PrintSQueue\<close> and \<open>PrintSqueueLink\<close> of \<open>squeue_c/squeue.cpp\<close>, whose
  output is commented out, and \<open>PrintFramer\<close> of \<open>sidaq_framer.cpp\<close>.  \<open>PrintSqueueLink\<close> still walks the whole list,
  without the lock; \<open>PrintFramer\<close> prints the first eight bytes of the buffer.
\<close>

section \<open>The queue\<close>

text \<open>Nothing is read and nothing is written.\<close>

definition PrintSQData :: "addr \<Rightarrow> sqstore \<Rightarrow> sqstore" where
  "PrintSQData sd_ptr s = s"

definition PrintSQueue :: "sqstore \<Rightarrow> sqstore" where
  "PrintSQueue s = s"

text \<open>The loop of \<open>PrintSqueueLink\<close>, which ends at NULL; it may not end, so it takes fuel.  The result is the local
  variable \<open>count\<close> at the end.\<close>

fun print_link :: "nat \<Rightarrow> addr \<Rightarrow> int \<Rightarrow> sqstore \<Rightarrow> int outcome" where
  "print_link 0 pMsg count s = Inl No_fuel"
| "print_link (Suc n) pMsg count s =
     (if pMsg = 0 then Inr count
      else obind (node_at pMsg s) (\<lambda>d. print_link n (sd_next d) (i32 (count + 1)) s))"

definition PrintSqueueLink :: "nat \<Rightarrow> sqstore option \<Rightarrow> int outcome" where
  "PrintSqueueLink fuel queue = (case queue of
     None \<Rightarrow> Inl Null_deref
   | Some s \<Rightarrow> print_link fuel (sq_top s) 1 s)"

lemma print_link_seg:
  assumes "seg (cells s) p prv a xs 0" "0 < c" "c + int (length xs) < 2 ^ 31" "length xs < fuel"
  shows "print_link fuel a c s = Inr (c + int (length xs))"
  using assms
proof (induction xs arbitrary: prv a c fuel)
  case Nil
  then show ?case by (cases fuel) auto
next
  case (Cons x xs)
  then obtain n d where n: "fuel = Suc n" "length xs < n" and d: "a = x" "x \<noteq> 0" "cells s x = Some d"
    "seg (cells s) p x (sd_next d) xs 0" by (cases fuel) (auto split: option.splits)
  have i: "i32 (c + 1) = c + 1" using Cons.prems(2,3) by (intro i32_id) auto
  have "print_link n (sd_next d) (c + 1) s = Inr (c + 1 + int (length xs))"
    using Cons.IH [OF d(4)] Cons.prems(2,3) n(2) by simp
  then show ?case using n(1) d i by (simp add: node_at_def)
qed

text \<open>On a well-formed queue the walk ends at the last block, whatever is in the queue, and has counted the
  blocks; a walk with fewer rounds is still under way.\<close>

theorem print_link_counts:
  assumes "sq_inv s" "length (sq_frames s) < fuel"
  shows "PrintSqueueLink fuel (Some s) = Inr (sq_count s + 1)"
proof -
  have r: "sq_rep s (sq_addrs s)" using assms(1) by (simp add: sq_inv_def)
  have l: "length (sq_frames s) = length (sq_addrs s)" by (simp add: sq_frames_def)
  have "1 + int (length (sq_addrs s)) < 2 ^ 31" using sq_frames_bound [OF assms(1)] l by simp
  then show ?thesis
    using print_link_seg [of s "que_ptr s" 0 "sq_top s" "sq_addrs s" 1 fuel] r assms(2) l
    by (simp add: PrintSqueueLink_def sq_rep_def)
qed

text \<open>The list has to be well formed: on one that leads back to itself the walk does not end.\<close>

lemma print_link_cycle:
  assumes "cells s a = Some d" "sd_next d = a" "a \<noteq> 0"
  shows "print_link fuel a c s = Inl No_fuel"
  using assms by (induction fuel arbitrary: c) (simp_all add: node_at_def)

section \<open>The framer\<close>

definition printed_byte :: "byte \<Rightarrow> string" where
  "printed_byte b = '' '' @ [hex_digit (unat b div 16), hex_digit (unat b mod 16)]"

text \<open>The text that \<open>PrintFramer\<close> prints.\<close>

definition PrintFramer :: "SiDaqFramer option \<Rightarrow> string option \<Rightarrow> string outcome" where
  "PrintFramer framer_ptr prefix_ptr =
     (let head = (case prefix_ptr of None \<Rightarrow> [] | Some prefix \<Rightarrow> '' - '' @ prefix @ '' -----'' @ [CHR 0x0A]) in
      case framer_ptr of
        None \<Rightarrow> Inl Null_deref
      | Some fr \<Rightarrow>
          (case fr_buff_ptr fr of
             None \<Rightarrow> Inl Null_deref
           | Some buff \<Rightarrow>
               if length buff < 8 then Inl Out_of_bounds
               else Inr (head @ concat (map printed_byte (take 8 buff)) @ ''---'' @ [CHR 0x0A])))"

text \<open>A framer with its buffer can always be printed; one whose buffer could not be allocated cannot.\<close>

lemma print_new_framer:
  assumes "NewSiDaqFramer True buff_alloc = Some fr"
  shows "PrintFramer (Some fr) None = (if buff_alloc then Inr (concat (replicate 8 '' 00'') @ ''---'' @ [CHR 0x0A]) else Inl Null_deref)"
proof -
  have "take 8 (replicate 262144 (0 :: byte)) = replicate 8 0" by (simp add: take_replicate)
  moreover have "printed_byte 0 = '' 00''" by (simp add: printed_byte_def hex_digit_def)
  moreover have "\<not> length (replicate 262144 (0 :: byte)) < 8" by (subst length_replicate) simp
  ultimately show ?thesis
    using assms by (auto simp: NewSiDaqFramer_def PrintFramer_def DEFAULT_MAX_FRAME_LEN_def)
qed

end
