(* ===== verification/Cs_Api.thy ===== *)
theory Cs_Api
  imports SiDaq_System SiDaq_Props
begin

text \<open>
  The two bindings of \<open>CsSample/SiDaqApi.cs\<close> with code of their own, which copy what the library hands out
  by pointer into arrays of the managed heap.  An \<open>IntPtr\<close> is a value, so the comparisons with \<open>null\<close> of
  \<open>SiDaqGetDataCopy\<close> always hold and \<open>SiDaqDeleteData\<close> is called for the null pointer as well, where it does
  nothing.  \<open>Marshal.Copy\<close> throws on a null pointer, which is the fault \<open>Null_deref\<close> here.
\<close>

section \<open>SiDaqGetDataCopy\<close>

definition SiDaqGetDataCopy :: "(nat \<Rightarrow> sqstore \<Rightarrow> sqstore) \<Rightarrow> bool \<Rightarrow> SiDaqMngr \<Rightarrow> int \<Rightarrow>
    (byte list option \<times> int \<times> SiDaqMngr) outcome" where
  "SiDaqGetDataCopy env timed_out m wait_msec =
     obind (SiDaqGetData env timed_out m wait_msec) (\<lambda>(recv_data_ptr, data_len, m1).
     obind (if data_len > 0
            then (case recv_data_ptr of None \<Rightarrow> Inl Null_deref
                  | Some bs \<Rightarrow> if data_len \<le> int (length bs) then Inr (Some (take (nat data_len) bs)) else Inl Out_of_bounds)
            else Inr None) (\<lambda>ret_data.
     obind (event_queue m1) (\<lambda>e.
       Inr (ret_data, data_len, m1\<lparr>m_eventFrame := Some (SiDaqDeleteData recv_data_ptr e)\<rparr>))))"

text \<open>It is \<open>SiDaqGetData\<close> followed by \<open>SiDaqDeleteData\<close>, as the MFC sample calls them, with the bytes of
  the block copied whole: what is proved of the blocks the application takes holds of these arrays.\<close>

lemma data_copy:
  assumes "ready m q e fr" "get_and_delete w m = Inr (bs, m1)"
  shows "SiDaqGetDataCopy (\<lambda>_. id) False m w =
    Inr (if bs = [] then None else Some bs, int (length bs), m1)"
proof -
  have h: "event_queue m = Inr e" "sq_inv e" using assms(1) by (auto simp: ready_def)
  show ?thesis
  proof (cases "sq_frames e")
    case Nil
    then have "SQGet (\<lambda>_. id) False w e = Inr (None, 0, e)" by (rule sqf.get_none [OF h(2)])
    with assms(2) h(1) show ?thesis
      by (auto simp: get_and_delete_def SiDaqGetDataCopy_def SiDaqGetData_def)
  next
    case (Cons f fs)
    from take_block [OF h(2) this, of w] obtain e1 where
      "SQGet (\<lambda>_. id) False w e = Inr (Some f, int (length f), e1)" by blast
    with assms(2) h(1) show ?thesis
      by (auto simp: get_and_delete_def SiDaqGetDataCopy_def SiDaqGetData_def)
  qed
qed

section \<open>SiDaqRbcpReadBytesArray\<close>

definition SiDaqRbcpReadBytesArray :: "'w udp \<Rightarrow> int \<Rightarrow> int \<Rightarrow> SiDaqMngr \<Rightarrow> 'w \<Rightarrow>
    (byte list \<times> SiDaqMngr \<times> 'w) outcome" where
  "SiDaqRbcpReadBytesArray net a len m w =
     obind (SiDaqRbcpReadBytes net a len m w) (\<lambda>(ptr, m1, w1).
       case ptr of
         None \<Rightarrow> Inr ([], m1, w1)
       | Some bs \<Rightarrow> if nat len \<le> length bs then Inr (take (nat len) bs, m1, w1) else Inl Out_of_bounds)"

lemma read_too_long: "MAX_DATA_LEN < n \<Longrightarrow> m_sitcp m = Some r \<Longrightarrow>
    SiDaqRbcpReadBytes net a n m w = Inr (res, m1, w1) \<Longrightarrow> res = None"
  by (auto simp: SiDaqRbcpReadBytes_def ReadBytes_def Let_def elim!: obind_InrE)

text \<open>The copy never reads behind the register buffer of the manager, whatever length is asked for; the
  array has that length, or is empty when the read failed.\<close>

lemma read_array:
  assumes "m_sitcp m = Some r" "rbcp_ok r" "0 \<le> n" "length (sitcp_register m) = SiTCP_RBCP_SIZE"
  shows "\<exists>arr m1 w1. SiDaqRbcpReadBytesArray net a n m w = Inr (arr, m1, w1) \<and>
    (arr = [] \<or> length arr = nat n \<and> arr = take (nat n) (sitcp_register m1))"
proof -
  from rbcp_read_reports_write_error [OF assms, of net a w] obtain res m1 w1 where
    r: "SiDaqRbcpReadBytes net a n m w = Inr (res, m1, w1)" "length (sitcp_register m1) = SiTCP_RBCP_SIZE"
      "\<And>bs. res = Some bs \<Longrightarrow> sitcp_register m1 = bs"
    by (auto split: option.splits)
  have "n \<le> 255" if "res \<noteq> None" using read_too_long [OF _ assms(1) r(1)] that by (force simp: rbcp_consts)
  with r show ?thesis by (cases res) (auto simp: SiDaqRbcpReadBytesArray_def mngr_consts)
qed

end
