(* ===== verification/Spec2Isabelle.thy ===== *)
theory Spec2Isabelle
  imports Framer_Limits Pseudo_Session SQueue_Threads_Props SiDaq_Phases_Props SiDaq_Types Mfc_App Debug_Print Cs_Api
begin

text \<open>
  SiDaqApi: a verification development of the C++ data acquisition library for SiTCP devices of its MFC
  sample application, and of the parts of the C# sample that carry data.

  \<^bold>\<open>The program.\<close>  An application holds a manager (\<open>SiDaqMngr\<close>).  \<open>SiDaqInitialize\<close> makes it, with a client
  for the device's registers over UDP and two queues.  \<open>SiDaqRun\<close> connects to the device and starts two
  threads: the socket thread puts what \<open>recv\<close> returns on the receive queue, the framer thread takes these
  blocks, cuts the stream into frames and puts the frames on the event queue.  \<open>SiDaqGetData\<close> hands them
  out.  \<open>SiDaqStop\<close> ends a measurement, \<open>SiDaqResetQueue\<close> empties the queues, \<open>SiDaqTerminate\<close> gives
  everything back.  The sample application is a dialog with a state of its own, a consumer thread that
  writes frames to a log file, and a report of the device's registers.

  \<^bold>\<open>Theories and code.\<close>  In the order of the imports; file names are those under \<open>src/\<close>.
    \<^item> \<open>SiDaq_Prelude\<close>: the C integers (\<open>i32\<close>, \<open>u32\<close>, \<open>i64\<close>), faults and their sequencing (\<open>obind\<close>), byte blocks.  The
      locales \<open>preserved\<close> and \<open>monitored\<close> state what holds along a run of a step relation; they are interpreted on
      \<open>sys_step\<close>, \<open>phase_step\<close>, \<open>api_step\<close> and \<open>gui_step\<close>.
    \<^item> \<open>SQueue\<close>: \<open>SiDaqApi/squeue_c/squeue.h\<close>, \<open>squeue.cpp\<close>.  A doubly linked list in an explicit heap of cells
      with addresses; \<open>SQPut\<close>, \<open>SQGet\<close>, \<open>NewSQueue\<close>, \<open>DeleteSQueue\<close> and their parts.  The locales
      \<open>byte_sink\<close>, \<open>byte_queue\<close> and \<open>fifo_queue\<close> state what the framer, a producer and a consumer need of a
      queue; they are interpreted on the list operations.
    \<^item> \<open>SQueue_Threads\<close>, \<open>SQueue_Threads_Inv\<close>, \<open>SQueue_Threads_Props\<close>: the same operations statement by statement,
      for any number of threads on one queue and any schedule (\<open>sq_conc_run\<close>), with the mutex as a field.
    \<^item> \<open>Framer\<close>, \<open>Framer_Rest\<close>, \<open>Framer_Split\<close>, \<open>Framer_Overread\<close>, \<open>Framer_Props\<close>: \<open>sidaq_framer.h\<close>, \<open>sidaq_framer.cpp\<close>; \<open>RecvSiDaqData\<close> in the parts
      \<open>recv_rest\<close> (the frame left from the previous call) and \<open>recv_loop\<close>, over any queue with the laws of
      \<open>byte_sink\<close>.  The specification of framing is \<open>split_frames\<close>, which cuts a whole stream at once, at the lengths
      the code goes by.  When a chunk ends at a frame boundary the loop reads the byte behind it: the argument
      \<open>past\<close> is that byte, or \<open>None\<close>, and the read a fault, when it cannot be read (\<open>first_byte\<close>).
    \<^item> \<open>Frame_Length\<close>, \<open>Framer_Limits\<close>: \<open>GetFrameLength\<close> of \<open>MfcSample/SiDaqMfcSampleDlg.cpp\<close>, a length
      function of the kind the library expects; what the framer does with longer headers, with
      a fixed length besides a function, and with bytes left over.  The locale
      \<open>length_function\<close> states what a framer needs of such a function.
    \<^item> \<open>Cs_Length\<close>, \<open>Cs_Api\<close>: \<open>CsSample/SiDaqConnect.cs\<close>, \<open>CsSample/SiDaqApi.cs\<close>; the length function of the C# sample,
      the second interpretation of \<open>length_function\<close>, and the bindings that copy data.
    \<^item> \<open>Debug_Print\<close>: \<open>PrintSQData\<close>, \<open>PrintSQueue\<close>, \<open>PrintSqueueLink\<close> and \<open>PrintFramer\<close>, as the text they print.
    \<^item> \<open>Sock_Thread\<close>, \<open>Sock_Thread_Props\<close>: \<open>sock_thread.h\<close>, \<open>sock_thread.cpp\<close>; one \<open>sock_step\<close> per round of
      either loop of \<open>socket_loop_thread\<close>, on the parameter block the threads share.
    \<^item> \<open>Rbcp\<close>, \<open>Rbcp_Props\<close>: \<open>sitcp/SiTcpRbcpLib2.h\<close>, \<open>SiTcpRbcpLib2.cpp\<close>; the class \<open>SiTcpRbcp\<close>, with
      exceptions as values of \<open>rbcp_exn\<close>.
    \<^item> \<open>SiDaq_Mngr\<close>, \<open>SiDaq_Api\<close>: \<open>SiDaqApi.h\<close>, \<open>SiDaqApi.cpp\<close>; the record \<open>SiDaqMngr\<close>, one definition per
      exported function, and \<open>framer_thread\<close> round by round.
    \<^item> \<open>Framer_Thread\<close>, \<open>SiDaq_Props\<close>: the properties of these.
    \<^item> \<open>SiDaq_Types\<close>: what values a manager can hold, whatever is called (\<open>api_step\<close>).
    \<^item> \<open>SiDaq_System\<close>: one measurement, as the inductive relation \<open>sys_step\<close> of the interleaved steps of
      application, socket thread and framer thread.
    \<^item> \<open>SiDaq_Frames\<close>: the same measurement frame by frame, against \<open>split_frames\<close>.
    \<^item> \<open>Framer_Shared\<close>, \<open>SiDaq_Phases\<close>, \<open>SiDaq_Phases_Props\<close>: the same measurement in finer steps (\<open>phase_step\<close>): a
      round of a thread is cut into its phases, and the application takes frames while \<open>RecvSiDaqData\<close> puts them.
    \<^item> \<open>Pseudo_Device\<close>, \<open>Pseudo_Session\<close>: \<open>Pseudo/SiDaqPseudo.py\<close>, a device whose frames the library is to cut: the
      data generator, the thread that sends its frames, the command line and \<open>main\<close>.
    \<^item> \<open>Mfc_Consumer\<close>, \<open>Mfc_Consumer_Props\<close>: \<open>recv_thread\<close> and \<open>WriteDataToFile\<close> of the sample, on a store of
      managers (\<open>world\<close>), since the dialog may free the manager the thread uses.
    \<^item> \<open>Mfc_Info\<close>: \<open>CreateSiTCPInfo\<close>.
    \<^item> \<open>Mfc_Resources\<close>: \<open>MfcSample/resource.h\<close> and the strings and the dialog template of \<open>SiDaqMfcSample.rc\<close>.
    \<^item> \<open>Mfc_Dialog\<close>, \<open>Mfc_Props\<close>, \<open>Mfc_Run\<close>: the dialog (\<open>CSiDaqMfcSampleDlg\<close>), one definition per message
      handler; its messages and the other threads as the inductive relation \<open>gui_step\<close>.
    \<^item> \<open>Mfc_Window\<close>: the message map, as the code's table of entries (\<open>dispatch\<close>) and as a case distinction
      (\<open>message_map\<close>), and \<open>WindowProc\<close>, which take a message to its handler and to the base class; the ways
      to close the window.
    \<^item> \<open>Mfc_App\<close>: \<open>SiDaqMfcSample.cpp\<close>, the application object with \<open>InitInstance\<close>, and the modal loop of the dialog, from
      the start of the application to its end.

  \<^bold>\<open>How code is written here.\<close>  A C operation is a function on the state it changes and returns
  \<open>fault + result\<close>; the faults are an access through NULL, out of bounds or to freed memory, a failed
  assertion (the debug build), and exhausted fuel.  \<open>strcpy_s\<close> into a buffer that is too small is a failed
  assertion.  Signed overflow wraps and shift counts are masked, as on the x64 platform of the project.
  Answers of Winsock, of the allocator, of \<open>CreateThread\<close> and of the application's length function are
  arguments, gathered in the records \<open>udp\<close>, \<open>init_env\<close>, \<open>run_env\<close>, \<open>framer_env\<close>, \<open>recv_env\<close> and \<open>gui_env\<close>.  A call
  that waits takes as an argument what the other threads do meanwhile.

  \<^bold>\<open>What the lemmas show.\<close>
    \<^item> Queue: the list stays well formed, is first in first out, gives back every cell, and the one way it
      faults, a failed \<open>malloc\<close>.  Every schedule of the statements of several threads is linearizable, the mutex
      is always released, and an uninterrupted thread does what the atomic operations do; the count a put
      returns is not protected.
    \<^item> Framer, for headers of at most two bytes: a call neither loses, duplicates nor reorders a byte, for every
      length function, and its only fault is the read behind a chunk; a stream is
      cut as \<open>split_frames\<close> cuts it, and so independently of its chunks; bad lengths and the queue limit; frames
      with big-endian headers come back from any cutting; a fixed length besides a length function is ignored.  The length functions of the two samples agree up to four
      header bytes and not beyond.  For longer headers the tail of a
      split header is lost; and bytes left over from a measurement with longer frames make the next one
      read before its block.
    \<^item> Socket thread: the queue gets exactly the chunks of \<open>recv\<close>, for every schedule; when it stops, and when
      it does not see the stop.
    \<^item> Registers: which replies are accepted, what is sent, writes are read back, and that one late reply
      spoils every later transaction.
    \<^item> Life cycle: \<open>SiDaqInitialize\<close>, \<open>SiDaqRun\<close>, \<open>SiDaqStop\<close>, \<open>SiDaqResetQueue\<close>, \<open>SiDaqTerminate\<close> on every
      branch; a stop that is left alone delivers everything; the race of \<open>SiDaqRun\<close> with its thread; the Winsock count;
      the types of a manager's values under any calls and rounds.
    \<^item> Measurement, for headers of at most two bytes: for every interleaving no operation faults and, without a queue
      limit and a reset, the bytes \<open>recv\<close> returned are those handed
      out, then those in the event queue, in the framer, in the receive queue; the blocks handed out are the
      frames of the stream, for the headers of the samples and the frames of the pseudo device in particular; and
      what arrives after the framer thread has ended during a stop is stranded.  The bytes are still all there
      when the rounds are cut into phases, and nothing faults but the read behind a chunk; but then a stop can leave behind what was received
      before it, and a reset what the framer thread had in its hand.
    \<^item> Sample: the consumer delivers every frame to a log that can be read back; the report is exact; the
      dialog enables only what its state permits and its pointer is alive until a start fails, as long as it is not
      closed; what a click on Run does, including the freed manager it leaves behind and the thread object it reads
      after an earlier consumer has ended; a stop that never ends; closing the
      window in an orderly way, and under the running consumer.  The application as a whole never holds two
      managers and none when it returns; what its close box does whenever it waits, the two cases of freed memory
      included; and when the sockets cannot be
      started it shows the wrong message, since two resource files share an identifier.  The arrays the C# bindings
      return are the blocks and the registers the library holds.
    \<^item> Pseudo device: the frames a session sends come out of the library as they went in, when every \<open>send\<close> is
      complete; when one is not, the next block is none of the device's frames.

  \<^bold>\<open>Bounds and fuel.\<close>  \<open>recv_loop\<close> and \<open>sq_drain\<close> take fuel.  \<open>RecvSiDaqData\<close> gives the first one unit more
  than the chunk has bytes, and every round takes at least one byte; \<open>sq_drain\<close> gets one more than the queue's
  count, and every round takes one block.  The results never are \<open>No_fuel\<close>: the theorems state the results
  outright.  The two threads run for given lists of rounds, and the theorems say how many suffice.
  A heap has a quota of cells (\<open>quota\<close>); the hypotheses \<open>... \<le> sq_room q\<close> say that there is memory.  Blocks are
  shorter than \<open>2 ^ 31\<close>, the range of the \<open>int\<close> lengths.  \<open>args_ok\<close> bounds the header length by two and the
  frame length by the framer's buffer of 262144 bytes; \<open>framer_ok\<close> and \<open>ready\<close> have the same bounds.  \<open>Framer_Limits\<close>
  shows what happens beyond the first one, and a larger frame length lets the framer write behind its buffer.
  \<open>recv_thread\<close> counts in 64 bits.

  \<^bold>\<open>Atomicity.\<close>  In \<open>sys_step\<close> a round of a thread and a call of the library are atomic, but \<open>SiDaqStop\<close> and
  \<open>SiDaqResetQueue\<close> are two steps each, since the others run while they wait; the end of \<open>SiDaqRun\<close>, after
  both threads have been started, is a step of its own.  That the queue operations are atomic is no assumption:
  \<open>queue_linearizable\<close> shows that their statements, interleaved in any way, take effect one call after the other.
  The status and flag accesses are single words.  In \<open>sys_step\<close> a framer round does not itself meet another thread
  (\<open>settled\<close>, which also has the byte behind the block readable), except while it waits for the socket thread (\<open>fe_wait\<close>).  \<open>phase_step\<close> drops that: taking a block,
  framing it, freeing it, the error check, the test of the status, the rest frame and the end are separate steps, and so are
  \<open>recv\<close>, the put and what follows it in the socket thread, every \<open>SQGet\<close> of a reset, and what comes before and after
  a wait.  Between two puts of one \<open>RecvSiDaqData\<close>, and before the count of a put is read, the application may take frames
  (\<open>shared_put\<close>).  In \<open>gui_step\<close> a message handler is atomic; the
  other threads run between handlers and, as \<open>ge_join\<close>, \<open>ge_other\<close> and \<open>ge_wait\<close>, while a handler waits;
  \<open>ge_consumer_runs\<close> says whether the consumer, whose thread object deletes itself, is still there to be waited for.

  \<^bold>\<open>Not modelled.\<close>  The DLL's application object, which has no code of its own, and the build files; the contents
  of the about box, the pixels that are drawn, and the time stamp of the dialog's log (an entry is its text; the
  ellipsis character in it is written as three dots).  What the MFC base class does
  with a message is a parameter (\<open>ends_dialog\<close>).  Inside a phase the single accesses to the status and the flags
  are not separated.  The
  number in an edit box, the clock and floating point output are parameters.  The forms and the
  consumer of the C# sample, which repeat the MFC sample's, are not modelled.  Of the pseudo device the servers belong
  to the package \<open>sitcpy\<close>, which is not in the repository; what a session does with the answers of \<open>select\<close>, \<open>send\<close>
  and of the server's state is modelled.  What a device does on the register port is stated as hypotheses
  (\<open>device_answers\<close>, \<open>delivers_in_order\<close>) and shown to be possible on an example.
\<close>

end
